(* ===== verification/Prelude.thy ===== *)
theory Prelude
  imports Main "HOL-Library.Word"
begin

text \<open>
  What every component theory shares: the machine-integer operations of the Rust standard
  library the code calls, the slice and vector operations on lists, the file-system map the
  storage components write to, and the two generic contracts (a machine whose operations keep
  an invariant, and a wire codec) that the components interpret.
\<close>

section \<open>Types\<close>

type_synonym u8 = "8 word"
type_synonym u16 = "16 word"
type_synonym u32 = "32 word"
type_synonym u64 = "64 word"
type_synonym bytes = "8 word list"

named_theorems inv_intros
named_theorems frame_simps

section \<open>Machine integers\<close>

text \<open>\<open>saturating_add\<close>, \<open>saturating_sub\<close> and \<open>checked_add\<close> of the unsigned Rust integers.\<close>

definition sat_add :: "'a::len word \<Rightarrow> 'a word \<Rightarrow> 'a word" where
  "sat_add a b = (if uint a + uint b < 2 ^ LENGTH('a) then a + b else - 1)"

definition sat_sub :: "'a::len word \<Rightarrow> 'a word \<Rightarrow> 'a word" where
  "sat_sub a b = (if b \<le> a then a - b else 0)"

definition sat_mul :: "'a::len word \<Rightarrow> 'a word \<Rightarrow> 'a word" where
  "sat_mul a b = (if uint a * uint b < 2 ^ LENGTH('a) then a * b else - 1)"

definition checked_add :: "'a::len word \<Rightarrow> 'a word \<Rightarrow> 'a word option" where
  "checked_add a b = (if uint a + uint b < 2 ^ LENGTH('a) then Some (a + b) else None)"

text \<open>The overflow test is on the integer values; the lemmas read it on natural numbers.\<close>

lemma uint_add_fits:
  "uint a + uint b < 2 ^ LENGTH('a) \<longleftrightarrow> unat a + unat b < 2 ^ LENGTH('a)" for a b :: "'a::len word"
proof -
  have "uint a + uint b = int (unat a + unat b)" by simp
  then show ?thesis by (simp only: of_nat_less_numeral_power_cancel_iff)
qed

lemma unat_minus_one_word_bound: "unat (- 1 :: 'a::len word) = 2 ^ LENGTH('a) - 1"
  by (simp add: unsigned_minus_1_eq_mask mask_eq_exp_minus_1)

lemma unat_of_nat_small: "n < 2 ^ LENGTH('a) \<Longrightarrow> unat (of_nat n :: 'a::len word) = n"
  by (simp add: unat_of_nat take_bit_nat_eq_self)

lemma uint_of_nat_small: "n < 2 ^ LENGTH('a) \<Longrightarrow> uint (of_nat n :: 'a::len word) = int n"
proof -
  assume "n < 2 ^ LENGTH('a)"
  then have "int (unat (of_nat n :: 'a word)) = int n" by (simp only: unat_of_nat_small)
  then show ?thesis by simp
qed

lemma of_nat_word_0_small: "n < 2 ^ LENGTH('a) \<Longrightarrow> (of_nat n :: 'a::len word) = 0 \<longleftrightarrow> n = 0"
proof -
  assume "n < 2 ^ LENGTH('a)"
  then have "unat (of_nat n :: 'a word) = n" by (rule unat_of_nat_small)
  then show ?thesis by (auto simp del: unsigned_of_nat)
qed

lemma unat_sat_add:
  "unat (sat_add a b) = min (unat a + unat b) (2 ^ LENGTH('a) - 1)" for a :: "'a::len word"
proof (cases "unat a + unat b < 2 ^ LENGTH('a)")
  case True
  then show ?thesis by (simp add: sat_add_def uint_add_fits unat_word_ariths)
next
  case False
  then show ?thesis by (simp add: sat_add_def uint_add_fits unat_minus_one_word_bound)
qed

lemma unat_sat_sub: "unat (sat_sub a b) = unat a - unat b" for a :: "'a::len word"
  by (auto simp: sat_sub_def unat_sub_if' word_le_nat_alt)

lemma sat_add_ge: "a \<le> sat_add a b" for a :: "'a::len word"
  using unsigned_less [of a, where 'a = nat]
  by (simp add: word_le_nat_alt unat_sat_add del: unsigned_less)

lemma sat_add_mono: "a \<le> b \<Longrightarrow> sat_add a c \<le> sat_add b c" for a :: "'a::len word"
  by (auto simp: word_le_nat_alt unat_sat_add)

lemma checked_add_Some:
  "checked_add a b = Some c \<longleftrightarrow> unat a + unat b < 2 ^ LENGTH('a) \<and> c = a + b"
  for a :: "'a::len word"
  by (auto simp: checked_add_def uint_add_fits)

lemma unat_checked_add: "checked_add a b = Some c \<Longrightarrow> unat c = unat a + unat b"
  for a :: "'a::len word"
  by (auto simp: checked_add_def uint_add_fits unat_word_ariths split: if_splits)

lemma checked_add_None:
  "checked_add a b = None \<longleftrightarrow> 2 ^ LENGTH('a) \<le> unat a + unat b" for a :: "'a::len word"
  by (simp add: checked_add_def uint_add_fits not_less)

text \<open>
  Signed 64-bit quantities (millisecond clocks, the byte counters published as \<open>i64\<close>) are
  integers kept inside the type's range by the clamp the code applies.
\<close>

definition I64_MAX :: int where "I64_MAX = 2 ^ 63 - 1"
definition I64_MIN :: int where "I64_MIN = - (2 ^ 63)"

definition sat_sub_i64 :: "int \<Rightarrow> int \<Rightarrow> int" where
  "sat_sub_i64 a b = max I64_MIN (min I64_MAX (a - b))"

definition as_i64 :: "u64 \<Rightarrow> int" where
  "as_i64 v = min (uint v) I64_MAX"

lemma as_i64_range: "0 \<le> as_i64 v \<and> as_i64 v \<le> I64_MAX"
  by (simp add: as_i64_def I64_MAX_def)

lemma as_i64_mono: "a \<le> b \<Longrightarrow> as_i64 a \<le> as_i64 b"
  by (auto simp: as_i64_def word_le_def min_def)

section \<open>Vectors\<close>

text \<open>\<open>Iterator::position\<close>, \<open>Vec::remove\<close>, \<open>Vec::insert\<close> and \<open>Vec::swap_remove\<close>.\<close>

fun position :: "('a \<Rightarrow> bool) \<Rightarrow> 'a list \<Rightarrow> nat option" where
  "position P [] = None"
| "position P (x # xs) = (if P x then Some 0 else map_option Suc (position P xs))"

definition remove_at :: "nat \<Rightarrow> 'a list \<Rightarrow> 'a list" where
  "remove_at i xs = take i xs @ drop (Suc i) xs"

definition insert_at :: "nat \<Rightarrow> 'a \<Rightarrow> 'a list \<Rightarrow> 'a list" where
  "insert_at i x xs = take i xs @ x # drop i xs"

definition swap_remove :: "nat \<Rightarrow> 'a list \<Rightarrow> 'a list" where
  "swap_remove i xs = (if Suc i = length xs then butlast xs else butlast (xs[i := last xs]))"

lemma position_SomeD:
  "position P xs = Some i \<Longrightarrow> i < length xs \<and> P (xs ! i) \<and> (\<forall>j < i. \<not> P (xs ! j))"
proof (induction xs arbitrary: i)
  case Nil
  then show ?case by simp
next
  case (Cons x xs)
  show ?case
  proof (cases "P x")
    case True
    with Cons.prems show ?thesis by simp
  next
    case False
    with Cons.prems obtain k where k: "position P xs = Some k" "i = Suc k" by auto
    with Cons.IH [of k] False show ?thesis by (auto simp: less_Suc_eq_0_disj)
  qed
qed

lemma position_None: "position P xs = None \<longleftrightarrow> (\<forall>x \<in> set xs. \<not> P x)"
  by (induction xs) auto

lemma position_lt: "position P xs = Some i \<Longrightarrow> i < length xs"
  by (drule position_SomeD) simp

lemma position_sat: "position P xs = Some i \<Longrightarrow> P (xs ! i)"
  by (drule position_SomeD) simp

lemma position_ex: "x \<in> set xs \<Longrightarrow> P x \<Longrightarrow> \<exists>i. position P xs = Some i"
  using position_None [of P xs] by (cases "position P xs") auto

lemma position_distinct:
  assumes "distinct (map f xs)" and "i < length xs"
  shows "position (\<lambda>x. f x = f (xs ! i)) xs = Some i"
proof -
  obtain k where k: "position (\<lambda>x. f x = f (xs ! i)) xs = Some k"
    using position_ex [of "xs ! i" xs "\<lambda>x. f x = f (xs ! i)"] assms(2) by auto
  then have "k < length xs" and "f (xs ! k) = f (xs ! i)"
    using position_SomeD by fastforce+
  with assms have "k = i"
    by (metis (no_types, lifting) distinct_conv_nth length_map nth_map)
  with k show ?thesis by simp
qed

lemma position_map: "position P (map f xs) = position (P \<circ> f) xs"
  by (induction xs) auto

lemma position_append:
  "position P (xs @ ys) = (case position P xs of Some i \<Rightarrow> Some i
     | None \<Rightarrow> map_option ((+) (length xs)) (position P ys))"
proof (induction xs)
  case Nil
  then show ?case by (cases "position P ys") auto
next
  case (Cons x xs)
  then show ?case by (cases "position P ys") (auto split: option.splits)
qed

lemma remove_at_mset: "i < length xs \<Longrightarrow> set (remove_at i xs) \<union> {xs ! i} = set xs"
  by (metis (no_types, lifting) Un_commute Un_insert_left append_take_drop_id id_take_nth_drop
      insert_is_Un list.simps(15) remove_at_def set_append sup_bot_left)

lemma set_remove_at: "set (remove_at i xs) \<subseteq> set xs"
  by (auto simp: remove_at_def dest: in_set_takeD in_set_dropD)

lemma length_remove_at: "i < length xs \<Longrightarrow> length (remove_at i xs) = length xs - 1"
  by (simp add: remove_at_def)

lemma map_remove_at: "map f (remove_at i xs) = remove_at i (map f xs)"
  by (simp add: remove_at_def take_map drop_map)

lemma map_insert_at: "map f (insert_at i x xs) = insert_at i (f x) (map f xs)"
  by (simp add: insert_at_def take_map drop_map)

lemma distinct_remove_at: "distinct xs \<Longrightarrow> distinct (remove_at i xs)"
  by (auto simp: remove_at_def set_take_disj_set_drop_if_distinct)

lemma remove_at_notin: "distinct xs \<Longrightarrow> i < length xs \<Longrightarrow> xs ! i \<notin> set (remove_at i xs)"
proof -
  assume d: "distinct xs" and i: "i < length xs"
  have "distinct (take i xs @ xs ! i # drop (Suc i) xs)"
    using d id_take_nth_drop [OF i] by simp
  then show ?thesis by (auto simp: remove_at_def)
qed

lemma in_remove_at: "x \<in> set xs \<Longrightarrow> i < length xs \<Longrightarrow> x \<noteq> xs ! i \<Longrightarrow> x \<in> set (remove_at i xs)"
  using remove_at_mset [of i xs] by blast

lemma nth_remove_at:
  "i < length xs \<Longrightarrow> j < length xs - 1 \<Longrightarrow>
   remove_at i xs ! j = (if j < i then xs ! j else xs ! Suc j)"
  by (auto simp: remove_at_def nth_append min_def)

lemma set_insert_at: "set (insert_at i x xs) = insert x (set xs)"
  by (metis Un_insert_right append_take_drop_id insert_at_def list.simps(15) set_append)

lemma length_insert_at: "length (insert_at i x xs) = Suc (length xs)"
  by (simp add: insert_at_def)

lemma distinct_insert_at: "distinct xs \<Longrightarrow> x \<notin> set xs \<Longrightarrow> distinct (insert_at i x xs)"
  by (auto simp: insert_at_def set_take_disj_set_drop_if_distinct dest: in_set_takeD in_set_dropD)

lemma find_None: "List.find P xs = None \<longleftrightarrow> (\<forall>x \<in> set xs. \<not> P x)"
  by (induction xs) auto

lemma find_SomeD: "List.find P xs = Some x \<Longrightarrow> x \<in> set xs \<and> P x"
  by (induction xs) (auto split: if_splits)

lemma find_position:
  "List.find P xs = map_option ((!) xs) (position P xs)"
  by (induction xs) (auto simp: option.map_comp o_def)

lemma length_swap_remove: "i < length xs \<Longrightarrow> length (swap_remove i xs) = length xs - 1"
  by (simp add: swap_remove_def)

section \<open>Machines that keep an invariant\<close>

text \<open>
  A component whose state is only changed through its operations: one operation keeps the
  invariant on the inputs it admits, so every run of admitted operations does.
\<close>

locale operation_machine =
  fixes exec :: "'s \<Rightarrow> 'o \<Rightarrow> 's"
    and admits :: "'s \<Rightarrow> 'o \<Rightarrow> bool"
    and invar :: "'s \<Rightarrow> bool"
  assumes exec_invar: "invar s \<Longrightarrow> admits s a \<Longrightarrow> invar (exec s a)"
begin

fun run :: "'s \<Rightarrow> 'o list \<Rightarrow> 's" where
  "run s [] = s"
| "run s (a # as) = run (exec s a) as"

fun admitted :: "'s \<Rightarrow> 'o list \<Rightarrow> bool" where
  "admitted s [] = True"
| "admitted s (a # as) = (admits s a \<and> admitted (exec s a) as)"

lemma run_invar: "invar s \<Longrightarrow> admitted s as \<Longrightarrow> invar (run s as)"
  by (induction as arbitrary: s) (auto intro: exec_invar)

lemma run_foldl: "run s as = foldl exec s as"
  by (induction as arbitrary: s) auto

lemma admitted_stateless:
  "(\<And>t a. ok a \<Longrightarrow> admits t a) \<Longrightarrow> list_all ok as \<Longrightarrow> admitted s as"
  by (induction as arbitrary: s) auto

end

text \<open>A component driven by a nondeterministic step relation.\<close>

inductive reachable :: "('s \<Rightarrow> bool) \<Rightarrow> ('s \<Rightarrow> 's \<Rightarrow> bool) \<Rightarrow> 's \<Rightarrow> bool"
  for init :: "'s \<Rightarrow> bool" and step :: "'s \<Rightarrow> 's \<Rightarrow> bool" where
  reachable_init: "init s \<Longrightarrow> reachable init step s"
| reachable_step: "reachable init step s \<Longrightarrow> step s t \<Longrightarrow> reachable init step t"

locale invariant_system =
  fixes init :: "'s \<Rightarrow> bool"
    and step :: "'s \<Rightarrow> 's \<Rightarrow> bool"
    and invar :: "'s \<Rightarrow> bool"
  assumes init_invar: "init s \<Longrightarrow> invar s"
    and step_invar: "invar s \<Longrightarrow> step s t \<Longrightarrow> invar t"
begin

lemma reachable_invar: "reachable init step s \<Longrightarrow> invar s"
  by (induction rule: reachable.induct) (auto intro: init_invar step_invar)

end

section \<open>Wire codecs\<close>

text \<open>
  The contract between a type and its stored form: what was encoded decodes to itself.
\<close>

locale wire_codec =
  fixes encode :: "'a \<Rightarrow> 'w"
    and decode :: "'w \<Rightarrow> 'a option"
    and valid :: "'a \<Rightarrow> bool"
  assumes decode_encode: "valid x \<Longrightarrow> decode (encode x) = Some x"
begin

lemma encode_inj: "valid x \<Longrightarrow> valid y \<Longrightarrow> encode x = encode y \<Longrightarrow> x = y"
  by (metis decode_encode option.inject)

lemma encode_eq_iff: "valid x \<Longrightarrow> valid y \<Longrightarrow> encode x = encode y \<longleftrightarrow> x = y"
  using encode_inj by blast

end

section \<open>Numbers in text\<close>

text \<open>What \<open>{}\<close> prints for an unsigned integer; twenty digits hold any \<open>u64\<close>.\<close>

fun show_nat_fuel :: "nat \<Rightarrow> nat \<Rightarrow> string" where
  "show_nat_fuel 0 n = []"
| "show_nat_fuel (Suc k) n =
     (if n < 10 then [''0123456789'' ! n]
      else show_nat_fuel k (n div 10) @ [''0123456789'' ! (n mod 10)])"

definition show_u64 :: "u64 \<Rightarrow> string" where
  "show_u64 v = show_nat_fuel 20 (unat v)"

text \<open>\<open>str::parse::<u64>\<close>: an optional plus sign, then decimal digits, within range.\<close>

definition digit_value :: "char \<Rightarrow> nat option" where
  "digit_value c = position (\<lambda>d. d = c) ''0123456789''"

fun decimal :: "nat \<Rightarrow> string \<Rightarrow> nat option" where
  "decimal acc [] = Some acc"
| "decimal acc (c # cs) = (case digit_value c of None \<Rightarrow> None | Some d \<Rightarrow> decimal (10 * acc + d) cs)"

definition parse_u64 :: "string \<Rightarrow> u64 option" where
  "parse_u64 s =
     (let digits = (if s \<noteq> [] \<and> hd s = CHR ''+'' then tl s else s)
      in if digits = [] then None
         else (case decimal 0 digits of
             None \<Rightarrow> None
           | Some v \<Rightarrow> if int v < 2 ^ 64 then Some (of_nat v) else None))"

definition is_digit :: "char \<Rightarrow> bool" where
  "is_digit c \<longleftrightarrow> c \<in> set ''0123456789''"

lemma digit_value_nth: "n < 10 \<Longrightarrow> digit_value (''0123456789'' ! n) = Some n"
proof -
  assume "n < 10"
  moreover have "distinct (map id ''0123456789'')" by simp
  ultimately show ?thesis
    using position_distinct [of id "''0123456789''" n] by (simp add: digit_value_def)
qed

lemma is_digit_nth: "n < 10 \<Longrightarrow> is_digit (''0123456789'' ! n)"
proof -
  assume "n < 10"
  then have "n < length ''0123456789''" by simp
  then show ?thesis unfolding is_digit_def by (rule nth_mem)
qed

lemma decimal_append: "decimal acc (xs @ ys) = Option.bind (decimal acc xs) (\<lambda>a. decimal a ys)"
  by (induction xs arbitrary: acc) (auto split: option.split)

lemma decimal_show: "n < 10 ^ k \<Longrightarrow> decimal 0 (show_nat_fuel k n) = Some n"
proof (induction k arbitrary: n)
  case (Suc k)
  show ?case
  proof (cases "n < 10")
    case True
    then show ?thesis by (simp add: digit_value_nth)
  next
    case False
    have "n div 10 < 10 ^ k" using Suc.prems by (simp add: less_mult_imp_div_less mult.commute)
    with Suc.IH False digit_value_nth [of "n mod 10"] show ?thesis
      by (simp add: decimal_append)
  qed
qed simp

lemma show_digits: "list_all is_digit (show_nat_fuel k n)"
  by (induction k arbitrary: n) (auto simp: is_digit_nth)

lemma show_nonempty: "0 < k \<Longrightarrow> show_nat_fuel k n \<noteq> []"
  by (cases k) simp_all

text \<open>What is printed reads back.\<close>

interpretation decimal_codec: wire_codec show_u64 parse_u64 "\<lambda>_. True"
proof unfold_locales
  fix v :: u64
  let ?s = "show_u64 v"
  have v: "unat v < 2 ^ 64" using unsigned_less [of v, where 'a = nat] by simp
  then have "decimal 0 ?s = Some (unat v)" unfolding show_u64_def by (intro decimal_show) simp
  moreover have ne: "?s \<noteq> []" by (simp add: show_u64_def show_nonempty)
  moreover have "hd ?s \<noteq> CHR ''+''"
  proof -
    have "is_digit (hd ?s)"
      using show_digits [of 20 "unat v"] hd_in_set [OF ne] by (auto simp: show_u64_def list_all_iff)
    then show ?thesis by (auto simp: is_digit_def)
  qed
  moreover have "int (unat v) < 2 ^ 64" using unsigned_less [of v, where 'a = int] by simp
  ultimately show "parse_u64 ?s = Some v" by (simp add: parse_u64_def)
qed

section \<open>ASCII text\<close>

definition to_lower :: "char \<Rightarrow> char" where
  "to_lower c = (let n = (of_char c :: nat) in if 65 \<le> n \<and> n \<le> 90 then char_of (n + 32) else c)"

definition eq_ignore_ascii_case :: "string \<Rightarrow> string \<Rightarrow> bool" where
  "eq_ignore_ascii_case a b \<longleftrightarrow> map to_lower a = map to_lower b"

definition is_space :: "char \<Rightarrow> bool" where
  "is_space c = (let n = (of_char c :: nat) in n = 32 \<or> (9 \<le> n \<and> n \<le> 13))"

text \<open>\<open>str::trim\<close>.\<close>

definition trim :: "string \<Rightarrow> string" where
  "trim s = rev (dropWhile is_space (rev (dropWhile is_space s)))"

definition lowercase :: "string \<Rightarrow> string" where "lowercase s = map to_lower s"

lemma to_lower_idem [simp]: "to_lower (to_lower c) = to_lower c"
  by (auto simp: to_lower_def Let_def)

lemma lowercase_idem [simp]: "lowercase (lowercase s) = lowercase s"
  by (simp add: lowercase_def)

end
