(* ===== verification/Playlist.thy ===== *)
theory Playlist
  imports Prelude
begin

text \<open>
  The playlist engine of \<open>crates/playlist/src/lib.rs\<close>: ordered playlists of items under
  engine-minted ids, their revisions, the persistence format and the passive playback cursor.
  Every method of \<open>Engine\<close>, \<open>Playlist\<close> and the id types is one definition; a method taking
  \<open>&mut self\<close> returns the updated engine (with its result, when it has one). The JSON library
  is a parameter of \<open>to_bytes\<close> and \<open>from_bytes\<close>.
\<close>

section \<open>Data\<close>

definition FORMAT_VERSION :: u32 where "FORMAT_VERSION = 2"

datatype PlaylistId = PlaylistId (pid_get: u64)

datatype ItemId = ItemId (iid_get: u64)

record 'p item_spec =
  spec_identity :: string
  spec_subsong :: u32
  spec_title :: string
  spec_artist :: string
  spec_duration_ms :: u32
  spec_payload :: 'p

definition item_spec_new :: "string \<Rightarrow> 'p \<Rightarrow> 'p item_spec" where
  "item_spec_new ident p =
     \<lparr>spec_identity = ident, spec_subsong = 0, spec_title = [], spec_artist = [],
      spec_duration_ms = 0, spec_payload = p\<rparr>"

record 'p item =
  item_id :: ItemId
  identity :: string
  subsong :: u32
  title :: string
  artist :: string
  duration_ms :: u32
  payload :: 'p

record 'p playlist =
  pl_id :: PlaylistId
  pl_name :: "string option"
  pl_items :: "'p item list"
  content_revision :: u64
  structure_revision :: u64
  last_saved_revision :: u64

definition is_anonymous :: "'p playlist \<Rightarrow> bool" where
  "is_anonymous pl \<longleftrightarrow> pl_name pl = None"

definition pl_item :: "'p playlist \<Rightarrow> ItemId \<Rightarrow> 'p item option" where
  "pl_item pl i = List.find (\<lambda>it. item_id it = i) (pl_items pl)"

definition is_dirty :: "'p playlist \<Rightarrow> bool" where
  "is_dirty pl \<longleftrightarrow> content_revision pl \<noteq> last_saved_revision pl"

definition item_index :: "'p playlist \<Rightarrow> ItemId \<Rightarrow> nat option" where
  "item_index pl i = position (\<lambda>it. item_id it = i) (pl_items pl)"

definition touch_content :: "'p playlist \<Rightarrow> 'p playlist" where
  "touch_content pl = pl\<lparr>content_revision := sat_add (content_revision pl) 1\<rparr>"

definition touch_structure :: "'p playlist \<Rightarrow> 'p playlist" where
  "touch_structure pl =
     (let pl' = touch_content pl
      in pl'\<lparr>structure_revision := sat_add (structure_revision pl') 1\<rparr>)"

datatype mode = Sequential | Loop

datatype advance = Start | Forward | Backward

record cursor =
  cur_playlist :: PlaylistId
  cur_current :: "ItemId option"
  cur_position :: nat
  cur_pending :: "advance option"
  cur_failures :: u64
  cur_removed :: bool

datatype 'j persistence_error =
    Json 'j
  | UnsupportedVersion u32
  | UnknownPlaylist
  | IdExhausted

text \<open>The document of the persistence format: items carry no id on the wire.\<close>

record 'p wire_item =
  w_identity :: string
  w_subsong :: u32
  w_title :: string
  w_artist :: string
  w_duration_ms :: u32
  w_payload :: 'p

record 'p document =
  doc_name :: "string option"
  doc_items :: "'p wire_item list"

record 'p engine =
  playlists :: "'p playlist list"
  next_playlist_id :: u64
  next_item_id :: u64
  revision :: u64
  cursor :: "cursor option"
  engine_mode :: mode

definition engine_new :: "'p engine" where
  "engine_new = \<lparr>playlists = [], next_playlist_id = 0, next_item_id = 0, revision = 0,
                 cursor = None, engine_mode = Sequential\<rparr>"

section \<open>Operations\<close>

definition playlist :: "'p engine \<Rightarrow> PlaylistId \<Rightarrow> 'p playlist option" where
  "playlist e i = List.find (\<lambda>pl. pl_id pl = i) (playlists e)"

definition engine_item :: "'p engine \<Rightarrow> PlaylistId \<Rightarrow> ItemId \<Rightarrow> 'p item option" where
  "engine_item e p i = (case playlist e p of None \<Rightarrow> None | Some pl \<Rightarrow> pl_item pl i)"

definition playlist_index :: "'p engine \<Rightarrow> PlaylistId \<Rightarrow> nat option" where
  "playlist_index e i = position (\<lambda>pl. pl_id pl = i) (playlists e)"

definition mint_playlist_id :: "'p engine \<Rightarrow> ('p engine \<times> PlaylistId) option" where
  "mint_playlist_id e = (case checked_add (next_playlist_id e) 1 of
       None \<Rightarrow> None
     | Some n \<Rightarrow> Some (e\<lparr>next_playlist_id := n\<rparr>, PlaylistId n))"

definition mint_item_id :: "'p engine \<Rightarrow> ('p engine \<times> ItemId) option" where
  "mint_item_id e = (case checked_add (next_item_id e) 1 of
       None \<Rightarrow> None
     | Some n \<Rightarrow> Some (e\<lparr>next_item_id := n\<rparr>, ItemId n))"

definition touch :: "'p engine \<Rightarrow> 'p engine" where
  "touch e = e\<lparr>revision := sat_add (revision e) 1\<rparr>"

text \<open>\<open>self.playlists[index]\<close> updated in place.\<close>

definition update_playlist :: "nat \<Rightarrow> ('p playlist \<Rightarrow> 'p playlist) \<Rightarrow> 'p engine \<Rightarrow> 'p engine" where
  "update_playlist i f e = e\<lparr>playlists := (playlists e)[i := f (playlists e ! i)]\<rparr>"

definition remove_playlist :: "PlaylistId \<Rightarrow> 'p engine \<Rightarrow> 'p engine" where
  "remove_playlist p e = (case playlist_index e p of
       Some i \<Rightarrow> touch (e\<lparr>playlists := remove_at i (playlists e)\<rparr>)
     | None \<Rightarrow> e)"

definition create :: "string option \<Rightarrow> 'p engine \<Rightarrow> 'p engine \<times> PlaylistId option" where
  "create name e = (case mint_playlist_id e of
       None \<Rightarrow> (e, None)
     | Some (e1, p) \<Rightarrow>
         (touch (e1\<lparr>playlists := playlists e1 @
            [\<lparr>pl_id = p, pl_name = name, pl_items = [], content_revision = 0,
              structure_revision = 0, last_saved_revision = 0\<rparr>]\<rparr>), Some p))"

definition playing_playlist :: "'p engine \<Rightarrow> PlaylistId option" where
  "playing_playlist e = map_option cur_playlist (cursor e)"

definition delete :: "PlaylistId \<Rightarrow> 'p engine \<Rightarrow> 'p engine \<times> bool" where
  "delete p e = (case playlist_index e p of
       None \<Rightarrow> (e, False)
     | Some i \<Rightarrow>
         let e1 = (if playing_playlist e = Some p then e\<lparr>cursor := None\<rparr> else e);
             e2 = e1\<lparr>playlists := remove_at i (playlists e1)\<rparr>
         in (touch e2, True))"

definition rename :: "PlaylistId \<Rightarrow> string option \<Rightarrow> 'p engine \<Rightarrow> 'p engine \<times> bool" where
  "rename p name e = (case playlist_index e p of
       None \<Rightarrow> (e, False)
     | Some i \<Rightarrow>
         if pl_name (playlists e ! i) = name then (e, False)
         else (touch (update_playlist i (\<lambda>pl. touch_structure (pl\<lparr>pl_name := name\<rparr>)) e), True))"

definition touch_preserving :: "'p playlist \<Rightarrow> 'p playlist" where
  "touch_preserving pl =
     (let was_dirty = is_dirty pl; pl' = touch_structure pl
      in if \<not> was_dirty then pl'\<lparr>last_saved_revision := content_revision pl'\<rparr> else pl')"

definition touch_structure_preserving_dirty ::
  "PlaylistId \<Rightarrow> 'p engine \<Rightarrow> 'p engine \<times> bool" where
  "touch_structure_preserving_dirty p e = (case playlist_index e p of
       None \<Rightarrow> (e, False)
     | Some i \<Rightarrow> (touch (update_playlist i touch_preserving e), True))"

definition item_of_spec :: "ItemId \<Rightarrow> 'p item_spec \<Rightarrow> 'p item" where
  "item_of_spec i s = \<lparr>item_id = i, identity = spec_identity s, subsong = spec_subsong s,
     title = spec_title s, artist = spec_artist s, duration_ms = spec_duration_ms s,
     payload = spec_payload s\<rparr>"

definition append_item :: "PlaylistId \<Rightarrow> 'p item_spec \<Rightarrow> 'p engine \<Rightarrow> 'p engine \<times> ItemId option" where
  "append_item p s e = (case playlist_index e p of
       None \<Rightarrow> (e, None)
     | Some i \<Rightarrow> (case mint_item_id e of
         None \<Rightarrow> (e, None)
       | Some (e1, it) \<Rightarrow>
           (touch (update_playlist i
              (\<lambda>pl. touch_content (pl\<lparr>pl_items := pl_items pl @ [item_of_spec it s]\<rparr>)) e1),
            Some it)))"

definition edit_item ::
  "PlaylistId \<Rightarrow> ItemId \<Rightarrow> ('p item \<Rightarrow> 'p item) \<Rightarrow> 'p engine \<Rightarrow> 'p engine \<times> bool" where
  "edit_item p it f e = (case playlist_index e p of
       None \<Rightarrow> (e, False)
     | Some i \<Rightarrow> (case item_index (playlists e ! i) it of
         None \<Rightarrow> (e, False)
       | Some j \<Rightarrow>
           (touch (update_playlist i
              (\<lambda>pl. touch_structure (pl\<lparr>pl_items := (pl_items pl)[j := f (pl_items pl ! j)]\<rparr>)) e),
            True)))"

definition remove_item :: "PlaylistId \<Rightarrow> ItemId \<Rightarrow> 'p engine \<Rightarrow> 'p engine \<times> bool" where
  "remove_item p it e = (case playlist_index e p of
       None \<Rightarrow> (e, False)
     | Some i \<Rightarrow> (case item_index (playlists e ! i) it of
         None \<Rightarrow> (e, False)
       | Some j \<Rightarrow>
           let e1 = (case cursor e of
                 Some c \<Rightarrow>
                   if cur_playlist c = p \<and> cur_current c = Some it
                   then e\<lparr>cursor := Some (c\<lparr>cur_position := j, cur_failures := 0,
                                             cur_removed := True\<rparr>)\<rparr>
                   else e
               | None \<Rightarrow> e)
           in (touch (update_playlist i
                 (\<lambda>pl. touch_structure (pl\<lparr>pl_items := remove_at j (pl_items pl)\<rparr>)) e1),
               True)))"

text \<open>\<open>Vec::remove\<close> then \<open>Vec::insert\<close>.\<close>

definition relocate :: "nat \<Rightarrow> nat \<Rightarrow> 'a list \<Rightarrow> 'a list" where
  "relocate from adjusted xs = insert_at adjusted (xs ! from) (remove_at from xs)"

definition move_item ::
  "PlaylistId \<Rightarrow> ItemId \<Rightarrow> ItemId option \<Rightarrow> 'p engine \<Rightarrow> 'p engine \<times> bool" where
  "move_item p it after e =
     (if after = Some it then (e, False)
      else case playlist_index e p of
        None \<Rightarrow> (e, False)
      | Some i \<Rightarrow> (case item_index (playlists e ! i) it of
          None \<Rightarrow> (e, False)
        | Some from \<Rightarrow>
            (case (case after of
                     Some a \<Rightarrow> map_option Suc (item_index (playlists e ! i) a)
                   | None \<Rightarrow> Some 0) of
               None \<Rightarrow> (e, False)
             | Some destination \<Rightarrow>
                 let adjusted = (if from < destination then destination - 1 else destination)
                 in if adjusted = from then (e, False)
                    else (touch (update_playlist i
                            (\<lambda>pl. touch_structure
                               (pl\<lparr>pl_items := relocate from adjusted (pl_items pl)\<rparr>)) e),
                          True))))"

definition mark_revision_saved :: "PlaylistId \<Rightarrow> u64 \<Rightarrow> 'p engine \<Rightarrow> 'p engine \<times> bool" where
  "mark_revision_saved p r e = (case playlist_index e p of
       None \<Rightarrow> (e, False)
     | Some i \<Rightarrow>
         if content_revision (playlists e ! i) < r then (e, False)
         else (update_playlist i
                 (\<lambda>pl. pl\<lparr>last_saved_revision := max (last_saved_revision pl) r\<rparr>) e, True))"

definition mark_saved :: "PlaylistId \<Rightarrow> 'p engine \<Rightarrow> 'p engine \<times> bool" where
  "mark_saved p e = (case playlist_index e p of
       None \<Rightarrow> (e, False)
     | Some i \<Rightarrow> mark_revision_saved p (content_revision (playlists e ! i)) e)"

section \<open>Playback\<close>

definition stop :: "'p engine \<Rightarrow> 'p engine" where
  "stop e = (case cursor e of
       None \<Rightarrow> e
     | Some c \<Rightarrow>
         let e1 = e\<lparr>cursor := None\<rparr>
         in (case playlist e1 (cur_playlist c) of
               Some pl \<Rightarrow> if is_anonymous pl then remove_playlist (cur_playlist c) e1 else e1
             | None \<Rightarrow> e1))"

definition start :: "PlaylistId \<Rightarrow> ItemId option \<Rightarrow> 'p engine \<Rightarrow> 'p engine \<times> bool" where
  "start p from e =
     (let e1 = stop e
      in case playlist e1 p of
           None \<Rightarrow> (e1, False)
         | Some stored \<Rightarrow>
             if pl_items stored = [] then (e1, False)
             else (case (case from of Some it \<Rightarrow> item_index stored it | None \<Rightarrow> Some 0) of
                     None \<Rightarrow> (e1, False)
                   | Some pos \<Rightarrow>
                       (e1\<lparr>engine_mode := Sequential,
                           cursor := Some \<lparr>cur_playlist = p, cur_current = None,
                             cur_position = pos, cur_pending = Some Start, cur_failures = 0,
                             cur_removed = False\<rparr>\<rparr>, True)))"

definition set_mode :: "mode \<Rightarrow> 'p engine \<Rightarrow> 'p engine" where
  "set_mode m e = e\<lparr>engine_mode := m\<rparr>"

definition is_playing :: "'p engine \<Rightarrow> bool" where
  "is_playing e \<longleftrightarrow> cursor e \<noteq> None"

definition current_item_id :: "'p engine \<Rightarrow> ItemId option" where
  "current_item_id e = Option.bind (cursor e) cur_current"

definition current :: "'p engine \<Rightarrow> 'p item option" where
  "current e = (case cursor e of None \<Rightarrow> None
     | Some c \<Rightarrow> (case cur_current c of None \<Rightarrow> None
         | Some it \<Rightarrow> engine_item e (cur_playlist c) it))"

text \<open>The stored position of the cursor's current item, when it is still in the playlist.\<close>

definition current_index :: "cursor \<Rightarrow> 'p playlist \<Rightarrow> nat option" where
  "current_index c pl = Option.bind (cur_current c) (item_index pl)"

definition forward_position :: "'p engine \<Rightarrow> nat option" where
  "forward_position e = (case cursor e of None \<Rightarrow> None
     | Some c \<Rightarrow> (case playlist e (cur_playlist c) of None \<Rightarrow> None
         | Some pl \<Rightarrow>
             if pl_items pl = [] then None
             else let nxt = (case current_index c pl of None \<Rightarrow> cur_position c | Some i \<Rightarrow> i + 1)
                  in if nxt < length (pl_items pl) then Some nxt
                     else if engine_mode e = Loop then Some 0 else None))"

definition previous_position :: "'p engine \<Rightarrow> nat option" where
  "previous_position e = (case cursor e of None \<Rightarrow> None
     | Some c \<Rightarrow> (case playlist e (cur_playlist c) of None \<Rightarrow> None
         | Some pl \<Rightarrow>
             let pos = (case current_index c pl of None \<Rightarrow> cur_position c | Some i \<Rightarrow> i)
             in if pos = 0 then None else Some (pos - 1)))"

definition target_position :: "advance \<Rightarrow> 'p engine \<Rightarrow> (nat \<times> nat) option" where
  "target_position a e = (case cursor e of None \<Rightarrow> None
     | Some c \<Rightarrow> (case playlist_index e (cur_playlist c) of None \<Rightarrow> None
         | Some i \<Rightarrow>
             (case (case a of
                      Start \<Rightarrow> if cur_position c < length (pl_items (playlists e ! i))
                               then Some (cur_position c) else None
                    | Forward \<Rightarrow> forward_position e
                    | Backward \<Rightarrow> previous_position e) of
                None \<Rightarrow> None
              | Some pos \<Rightarrow> Some (i, pos))))"

text \<open>
  \<open>poll\<close>. The code indexes the item list with the target position, so a position past the end is
  a panic: the outcome \<open>Panic\<close>, raised before anything is written.
\<close>

datatype 'a outcome = Returned 'a | Panic

definition poll :: "'p engine \<Rightarrow> ('p engine \<times> 'p item option) outcome" where
  "poll e = (case cursor e of None \<Rightarrow> Returned (e, None)
     | Some c \<Rightarrow> (case cur_pending c of None \<Rightarrow> Returned (e, None)
         | Some a \<Rightarrow> (case target_position a e of
               None \<Rightarrow> Returned (stop e, None)
             | Some (i, pos) \<Rightarrow>
                 if pos < length (pl_items (playlists e ! i)) then
                   let it = pl_items (playlists e ! i) ! pos
                   in Returned (e\<lparr>cursor := Some (c\<lparr>cur_pending := None,
                           cur_current := Some (item_id it), cur_position := pos,
                           cur_removed := False\<rparr>)\<rparr>, Some it)
                 else Panic)))"

definition on_finished :: "'p engine \<Rightarrow> 'p engine" where
  "on_finished e = (case cursor e of None \<Rightarrow> e
     | Some c \<Rightarrow>
         if cur_current c \<noteq> None \<and> cur_pending c = None
         then e\<lparr>cursor := Some (c\<lparr>cur_failures := 0, cur_pending := Some Forward\<rparr>)\<rparr>
         else e)"

definition on_failed :: "'p engine \<Rightarrow> 'p engine" where
  "on_failed e = (case cursor e of None \<Rightarrow> e
     | Some c \<Rightarrow>
         if cur_current c = None \<or> cur_pending c \<noteq> None then e
         else if cur_removed c
         then e\<lparr>cursor := Some (c\<lparr>cur_failures := 0, cur_pending := Some Forward\<rparr>)\<rparr>
         else
           let c1 = c\<lparr>cur_failures := sat_add (cur_failures c) 1\<rparr>;
               e1 = e\<lparr>cursor := Some c1\<rparr>;
               item_count = (case playlist e1 (cur_playlist c1) of
                                None \<Rightarrow> 0 | Some pl \<Rightarrow> length (pl_items pl))
           in if engine_mode e1 = Loop \<and> item_count \<le> unat (cur_failures c1) then stop e1
              else e1\<lparr>cursor := Some (c1\<lparr>cur_pending := Some Forward\<rparr>)\<rparr>)"

definition next_item :: "'p engine \<Rightarrow> 'p engine" where
  "next_item e = (case cursor e of None \<Rightarrow> e
     | Some c \<Rightarrow>
         if cur_current c \<noteq> None \<and> cur_pending c = None
         then e\<lparr>cursor := Some (c\<lparr>cur_failures := 0, cur_pending := Some Forward\<rparr>)\<rparr>
         else e)"

definition previous :: "'p engine \<Rightarrow> 'p engine" where
  "previous e =
     (if previous_position e = None then e
      else case cursor e of None \<Rightarrow> e
        | Some c \<Rightarrow>
            if cur_pending c = None
            then e\<lparr>cursor := Some (c\<lparr>cur_failures := 0, cur_pending := Some Backward\<rparr>)\<rparr>
            else e)"

definition peek_next :: "'p engine \<Rightarrow> 'p item option" where
  "peek_next e = (case forward_position e of None \<Rightarrow> None
     | Some pos \<Rightarrow> (case cursor e of None \<Rightarrow> None
         | Some c \<Rightarrow> (case playlist e (cur_playlist c) of None \<Rightarrow> None
             | Some pl \<Rightarrow> if pos < length (pl_items pl) then Some (pl_items pl ! pos) else None)))"

section \<open>Persistence\<close>

definition wire_of_item :: "'p item \<Rightarrow> 'p wire_item" where
  "wire_of_item it = \<lparr>w_identity = identity it, w_subsong = subsong it, w_title = title it,
     w_artist = artist it, w_duration_ms = duration_ms it, w_payload = payload it\<rparr>"

definition item_of_wire :: "ItemId \<Rightarrow> 'p wire_item \<Rightarrow> 'p item" where
  "item_of_wire i w = \<lparr>item_id = i, identity = w_identity w, subsong = w_subsong w,
     title = w_title w, artist = w_artist w, duration_ms = w_duration_ms w,
     payload = w_payload w\<rparr>"

text \<open>
  \<open>to_vec\<close> stands for \<open>serde_json::to_vec_pretty\<close> of a version and a document,
  \<open>read_version\<close> and \<open>read_document\<close> for the two \<open>serde_json::from_slice\<close> calls.
\<close>

definition to_bytes ::
  "(u32 \<Rightarrow> 'p document \<Rightarrow> 'j + bytes) \<Rightarrow> PlaylistId \<Rightarrow> 'p engine
     \<Rightarrow> 'j persistence_error + bytes" where
  "to_bytes to_vec p e = (case playlist e p of
       None \<Rightarrow> Inl UnknownPlaylist
     | Some pl \<Rightarrow> (case to_vec FORMAT_VERSION
            \<lparr>doc_name = pl_name pl, doc_items = map wire_of_item (pl_items pl)\<rparr> of
           Inl j \<Rightarrow> Inl (Json j) | Inr bs \<Rightarrow> Inr bs))"

text \<open>The closure that numbers the items: \<open>item_id += 1\<close> before each.\<close>

fun number_items :: "u64 \<Rightarrow> 'p wire_item list \<Rightarrow> 'p item list" where
  "number_items n [] = []"
| "number_items n (w # ws) = item_of_wire (ItemId (n + 1)) w # number_items (n + 1) ws"

definition from_bytes ::
  "(bytes \<Rightarrow> 'j + u32) \<Rightarrow> (bytes \<Rightarrow> 'j + 'p document) \<Rightarrow> bytes \<Rightarrow> 'p engine
     \<Rightarrow> 'p engine \<times> ('j persistence_error + PlaylistId)" where
  "from_bytes read_version read_document bs e = (case read_version bs of
       Inl j \<Rightarrow> (e, Inl (Json j))
     | Inr v \<Rightarrow>
         if v \<noteq> FORMAT_VERSION then (e, Inl (UnsupportedVersion v))
         else (case read_document bs of
             Inl j \<Rightarrow> (e, Inl (Json j))
           | Inr d \<Rightarrow> (case checked_add (next_playlist_id e) 1 of
               None \<Rightarrow> (e, Inl IdExhausted)
             | Some npid \<Rightarrow>
                 if 2 ^ 64 \<le> int (length (doc_items d)) then (e, Inl IdExhausted)
                 else (case checked_add (next_item_id e) (of_nat (length (doc_items d))) of
                     None \<Rightarrow> (e, Inl IdExhausted)
                   | Some final \<Rightarrow>
                       let items = number_items (next_item_id e) (doc_items d);
                           e1 = e\<lparr>next_playlist_id := npid, next_item_id := final\<rparr>;
                           e2 = e1\<lparr>playlists := playlists e1 @
                                 [\<lparr>pl_id = PlaylistId npid, pl_name = doc_name d,
                                   pl_items = items, content_revision = 0,
                                   structure_revision = 0, last_saved_revision = 0\<rparr>]\<rparr>
                       in (touch e2, Inr (PlaylistId npid))))))"

end
