(* ===== verification/Playlist_Inv.thy ===== *)
theory Playlist_Inv
  imports Playlist
begin

text \<open>
  The invariant of the playlist engine and the proof that every operation keeps it: ids are
  unique and never ahead of the mint, revisions are ordered, and the cursor always points at a
  stored playlist and knows whether its current item is still in it.
\<close>

section \<open>The invariant\<close>

definition ids_of :: "'p playlist \<Rightarrow> ItemId list" where
  "ids_of pl = map item_id (pl_items pl)"

definition playlist_ok :: "'p playlist \<Rightarrow> bool" where
  "playlist_ok pl \<longleftrightarrow> last_saved_revision pl \<le> content_revision pl
     \<and> structure_revision pl \<le> content_revision pl"

definition stored_inv :: "'p playlist list \<Rightarrow> u64 \<Rightarrow> u64 \<Rightarrow> bool" where
  "stored_inv ps npid niid \<longleftrightarrow>
     distinct (map pl_id ps) \<and> (\<forall>pl \<in> set ps. pid_get (pl_id pl) \<le> npid)
     \<and> distinct (concat (map ids_of ps))
     \<and> (\<forall>pl \<in> set ps. \<forall>it \<in> set (ids_of pl). iid_get it \<le> niid)
     \<and> (\<forall>pl \<in> set ps. playlist_ok pl)"

definition cursor_at :: "cursor \<Rightarrow> 'p playlist \<Rightarrow> bool" where
  "cursor_at c pl \<longleftrightarrow> pl_id pl = cur_playlist c
     \<and> (\<forall>it. cur_current c = Some it \<longrightarrow> (cur_removed c \<longleftrightarrow> it \<notin> set (ids_of pl)))"

definition cursor_ok :: "'p playlist list \<Rightarrow> u64 \<Rightarrow> cursor \<Rightarrow> bool" where
  "cursor_ok ps niid c \<longleftrightarrow>
     (\<exists>j < length ps. cursor_at c (ps ! j))
     \<and> (cur_current c = None \<longleftrightarrow> cur_pending c = Some Start)
     \<and> (\<forall>it. cur_current c = Some it \<longrightarrow> iid_get it \<le> niid)"

definition engine_inv :: "'p engine \<Rightarrow> bool" where
  "engine_inv e \<longleftrightarrow>
     stored_inv (playlists e) (next_playlist_id e) (next_item_id e)
     \<and> (\<forall>c. cursor e = Some c \<longrightarrow> cursor_ok (playlists e) (next_item_id e) c)"

lemma engine_invI [inv_intros]:
  "stored_inv (playlists e) (next_playlist_id e) (next_item_id e) \<Longrightarrow>
   (\<And>c. cursor e = Some c \<Longrightarrow> cursor_ok (playlists e) (next_item_id e) c) \<Longrightarrow> engine_inv e"
  by (simp add: engine_inv_def)

lemma engine_inv_new: "engine_inv engine_new"
  by (simp add: engine_inv_def engine_new_def stored_inv_def)

section \<open>Frame facts\<close>

lemma touch_frame [simp]:
  "playlists (touch e) = playlists e" "next_playlist_id (touch e) = next_playlist_id e"
  "next_item_id (touch e) = next_item_id e" "cursor (touch e) = cursor e"
  "engine_mode (touch e) = engine_mode e"
  by (simp_all add: touch_def)

lemma engine_inv_touch [simp]: "engine_inv (touch e) \<longleftrightarrow> engine_inv e"
  by (simp add: engine_inv_def)

lemma update_playlist_frame [simp]:
  "playlists (update_playlist i f e) = (playlists e)[i := f (playlists e ! i)]"
  "next_playlist_id (update_playlist i f e) = next_playlist_id e"
  "next_item_id (update_playlist i f e) = next_item_id e"
  "cursor (update_playlist i f e) = cursor e"
  "engine_mode (update_playlist i f e) = engine_mode e"
  "revision (update_playlist i f e) = revision e"
  by (simp_all add: update_playlist_def)

lemma touch_playlist_frame [simp]:
  "pl_id (touch_content pl) = pl_id pl" "pl_items (touch_content pl) = pl_items pl"
  "pl_name (touch_content pl) = pl_name pl"
  "pl_id (touch_structure pl) = pl_id pl" "pl_items (touch_structure pl) = pl_items pl"
  "pl_name (touch_structure pl) = pl_name pl"
  "last_saved_revision (touch_content pl) = last_saved_revision pl"
  "last_saved_revision (touch_structure pl) = last_saved_revision pl"
  "content_revision (touch_content pl) = sat_add (content_revision pl) 1"
  "content_revision (touch_structure pl) = sat_add (content_revision pl) 1"
  "structure_revision (touch_content pl) = structure_revision pl"
  "structure_revision (touch_structure pl) = sat_add (structure_revision pl) 1"
  by (simp_all add: touch_content_def touch_structure_def Let_def)

lemma ids_of_items [simp]: "ids_of (pl\<lparr>pl_items := xs\<rparr>) = map item_id xs"
  by (simp add: ids_of_def)

lemma ids_of_touch [simp]:
  "ids_of (touch_content pl) = ids_of pl" "ids_of (touch_structure pl) = ids_of pl"
  by (simp_all add: ids_of_def)

lemma playlist_ok_touch_content: "playlist_ok pl \<Longrightarrow> playlist_ok (touch_content pl)"
  unfolding playlist_ok_def using sat_add_ge [of "content_revision pl" 1]
  by (auto intro: order_trans)

lemma playlist_ok_touch_structure: "playlist_ok pl \<Longrightarrow> playlist_ok (touch_structure pl)"
  unfolding playlist_ok_def using sat_add_ge [of "content_revision pl" 1]
  by (auto intro: order_trans sat_add_mono)

lemma playlist_ok_items [simp]:
  "playlist_ok (pl\<lparr>pl_items := xs\<rparr>) = playlist_ok pl"
  "playlist_ok (pl\<lparr>pl_name := n\<rparr>) = playlist_ok pl"
  by (simp_all add: playlist_ok_def)

lemma touch_preserving_frame [simp]:
  "pl_id (touch_preserving pl) = pl_id pl" "pl_items (touch_preserving pl) = pl_items pl"
  "ids_of (touch_preserving pl) = ids_of pl"
  by (simp_all add: touch_preserving_def Let_def ids_of_def)

lemma playlist_ok_touch_preserving: "playlist_ok pl \<Longrightarrow> playlist_ok (touch_preserving pl)"
  using playlist_ok_touch_structure [of pl]
  by (auto simp: touch_preserving_def Let_def playlist_ok_def)

section \<open>Stored playlists\<close>

lemma playlist_index_lt: "playlist_index e p = Some i \<Longrightarrow> i < length (playlists e)"
  by (simp add: playlist_index_def position_lt)

lemma playlist_index_id: "playlist_index e p = Some i \<Longrightarrow> pl_id (playlists e ! i) = p"
  unfolding playlist_index_def by (drule position_sat) simp

lemma playlist_conv_index: "playlist e p = map_option ((!) (playlists e)) (playlist_index e p)"
  by (simp add: playlist_def playlist_index_def find_position)

lemma item_index_lt: "item_index pl it = Some j \<Longrightarrow> j < length (pl_items pl)"
  by (simp add: item_index_def position_lt)

lemma item_index_id: "item_index pl it = Some j \<Longrightarrow> item_id (pl_items pl ! j) = it"
  unfolding item_index_def by (drule position_sat) simp

lemma item_index_None: "item_index pl it = None \<longleftrightarrow> it \<notin> set (ids_of pl)"
  by (auto simp: item_index_def position_None ids_of_def)

lemma distinct_concat_update:
  assumes "distinct (concat xss)" and "i < length xss" and "distinct ys"
    and "set ys \<subseteq> set (xss ! i) \<union> F" and "F \<inter> set (concat xss) = {}"
  shows "distinct (concat (xss[i := ys]))"
proof -
  have split: "concat xss = concat (take i xss) @ xss ! i @ concat (drop (Suc i) xss)"
    using id_take_nth_drop [OF assms(2)] by (metis concat.simps(2) concat_append)
  have "concat (xss[i := ys]) = concat (take i xss) @ ys @ concat (drop (Suc i) xss)"
    using assms(2) by (simp add: upd_conv_take_nth_drop)
  moreover have "distinct (concat (take i xss) @ ys @ concat (drop (Suc i) xss))"
    using assms(1,3-5) unfolding split by (simp only: distinct_append set_append) blast
  ultimately show ?thesis by simp
qed

lemma stored_inv_ids: "stored_inv ps np ni \<Longrightarrow> i < length ps \<Longrightarrow> distinct (ids_of (ps ! i))"
  unfolding stored_inv_def by (metis distinct_concat_iff image_eqI list.set_map nth_mem)

lemma stored_inv_update:
  assumes inv: "stored_inv ps np ni" and i: "i < length ps"
    and "pl_id pl' = pl_id (ps ! i)" and "playlist_ok pl'" and "distinct (ids_of pl')"
    and sub: "set (ids_of pl') \<subseteq> set (ids_of (ps ! i)) \<union> F"
    and fresh: "F \<inter> set (concat (map ids_of ps)) = {}"
    and F: "\<And>it. it \<in> F \<Longrightarrow> iid_get it \<le> ni'" and le: "ni \<le> ni'"
  shows "stored_inv (ps[i := pl']) np ni'"
proof -
  have "distinct (map pl_id (ps[i := pl']))"
    using inv i assms(3) by (simp add: stored_inv_def map_update) (metis list_update_id nth_map)
  moreover have "distinct (concat (map ids_of (ps[i := pl'])))"
    using distinct_concat_update [of "map ids_of ps" i "ids_of pl'" F] inv i assms(5) sub fresh
    by (simp add: stored_inv_def map_update)
  moreover have "\<forall>pl \<in> set ps. \<forall>it \<in> set (ids_of pl). iid_get it \<le> ni'"
    using inv le by (auto simp: stored_inv_def intro: order_trans)
  ultimately show ?thesis
    using inv assms(3,4) sub F i
    by (fastforce simp: stored_inv_def dest!: set_update_subset_insert [THEN subsetD])
qed

lemma stored_inv_update_sub [inv_intros]:
  assumes "stored_inv ps np ni" and "i < length ps"
    and "pl_id pl' = pl_id (ps ! i)" and "playlist_ok pl'" and "distinct (ids_of pl')"
    and "set (ids_of pl') \<subseteq> set (ids_of (ps ! i))"
  shows "stored_inv (ps[i := pl']) np ni"
  using stored_inv_update [OF assms(1-5), of "{}"] assms(6) by simp

lemma stored_inv_remove_at: "stored_inv ps np ni \<Longrightarrow> stored_inv (remove_at i ps) np ni"
proof -
  assume inv: "stored_inv ps np ni"
  have "distinct (concat (map ids_of (remove_at i ps)))"
  proof (cases "i < length ps")
    case True
    have "concat (map ids_of ps) =
        concat (map ids_of (take i ps)) @ ids_of (ps ! i) @ concat (map ids_of (drop (Suc i) ps))"
      using id_take_nth_drop [OF True] by (metis concat.simps(2) concat_append map_append list.map(2))
    with inv show ?thesis by (auto simp: stored_inv_def remove_at_def)
  next
    case False
    with inv show ?thesis by (simp add: stored_inv_def remove_at_def)
  qed
  then show ?thesis
    using inv set_remove_at [of i ps]
    by (auto simp: stored_inv_def map_remove_at intro: distinct_remove_at)
qed

lemma stored_inv_snoc:
  assumes inv: "stored_inv ps np ni" and "pid_get (pl_id pl) \<le> np'" and "playlist_ok pl"
    and "\<And>q. q \<in> set ps \<Longrightarrow> pl_id q \<noteq> pl_id pl" and "distinct (ids_of pl)"
    and fresh: "set (ids_of pl) \<inter> set (concat (map ids_of ps)) = {}"
    and "\<And>it. it \<in> set (ids_of pl) \<Longrightarrow> iid_get it \<le> ni'" and "np \<le> np'" and "ni \<le> ni'"
  shows "stored_inv (ps @ [pl]) np' ni'"
proof -
  have d: "distinct (map pl_id (ps @ [pl]))"
    using inv assms(4) by (auto simp: stored_inv_def) (metis assms(4))
  have c: "distinct (concat (map ids_of (ps @ [pl])))"
    using inv assms(5) fresh by (auto simp: stored_inv_def)
  have p: "\<forall>q \<in> set (ps @ [pl]). pid_get (pl_id q) \<le> np'"
    using inv assms(2,8) by (auto simp: stored_inv_def intro: order_trans)
  have "\<forall>q \<in> set ps. \<forall>it \<in> set (ids_of q). iid_get it \<le> ni'"
    using inv assms(9) unfolding stored_inv_def by (meson order_trans)
  then have n: "\<forall>q \<in> set (ps @ [pl]). \<forall>it \<in> set (ids_of q). iid_get it \<le> ni'"
    using assms(7) by auto
  show ?thesis
    using d c p n inv assms(3) by (auto simp: stored_inv_def)
qed

section \<open>The cursor\<close>

lemma cursor_okI:
  assumes "cursor_ok ps n c" and "n \<le> n'" and "j < length qs" and "cursor_at c (qs ! j)"
  shows "cursor_ok qs n' c"
  using assms unfolding cursor_ok_def by (auto intro: order_trans)

lemma cursor_okE:
  assumes "cursor_ok ps n c"
  obtains j where "j < length ps" and "cursor_at c (ps ! j)"
  using assms unfolding cursor_ok_def by blast

lemma cursor_ok_update:
  assumes "cursor_ok ps n c" and "pl_id pl' = pl_id (ps ! i)" and "n \<le> n'"
    and "\<And>it. cur_current c = Some it \<Longrightarrow> pl_id (ps ! i) = cur_playlist c \<Longrightarrow>
           it \<in> set (ids_of pl') \<longleftrightarrow> it \<in> set (ids_of (ps ! i))"
  shows "cursor_ok (ps[i := pl']) n' c"
proof -
  obtain j where j: "j < length ps" "cursor_at c (ps ! j)"
    using assms(1) by (rule cursor_okE)
  then have "cursor_at c (ps[i := pl'] ! j)"
    using assms(2,4) by (cases "i = j") (auto simp: cursor_at_def)
  with j(1) show ?thesis by (auto intro!: cursor_okI [OF assms(1,3)])
qed

lemma cursor_ok_same_ids [inv_intros]:
  "cursor_ok ps n c \<Longrightarrow> pl_id pl' = pl_id (ps ! i) \<Longrightarrow>
   set (ids_of pl') = set (ids_of (ps ! i)) \<Longrightarrow> cursor_ok (ps[i := pl']) n c"
  by (rule cursor_ok_update) auto

lemma cursor_ok_snoc:
  assumes "cursor_ok ps n c" and "n \<le> n'"
  shows "cursor_ok (ps @ [pl]) n' c"
proof -
  obtain j where "j < length ps" "cursor_at c (ps ! j)"
    using assms(1) by (rule cursor_okE)
  then show ?thesis
    using cursor_okI [OF assms, of j "ps @ [pl]"] by (simp add: nth_append)
qed

lemma cursor_ok_remove_at:
  assumes ok: "cursor_ok ps n c" and i: "i < length ps" and ne: "pl_id (ps ! i) \<noteq> cur_playlist c"
  shows "cursor_ok (remove_at i ps) n c"
proof -
  obtain j where j: "j < length ps" "cursor_at c (ps ! j)"
    using ok by (rule cursor_okE)
  then have "j \<noteq> i" using ne by (auto simp: cursor_at_def)
  let ?k = "if j < i then j else j - 1"
  have "?k < length (remove_at i ps)" "remove_at i ps ! ?k = ps ! j"
    using i j \<open>j \<noteq> i\<close> by (auto simp: length_remove_at nth_remove_at)
  with j(2) show ?thesis using cursor_okI [OF ok order_refl, of ?k "remove_at i ps"] by presburger
qed

section \<open>Preservation, operation by operation\<close>

lemma engine_invD:
  "engine_inv e \<Longrightarrow> stored_inv (playlists e) (next_playlist_id e) (next_item_id e)"
  "engine_inv e \<Longrightarrow> cursor e = Some c \<Longrightarrow> cursor_ok (playlists e) (next_item_id e) c"
  by (simp_all add: engine_inv_def)

text \<open>An in-place change of one playlist that keeps its id and its set of item ids.\<close>

lemma engine_inv_update_same:
  assumes inv: "engine_inv e" and i: "i < length (playlists e)"
    and "pl_id (f (playlists e ! i)) = pl_id (playlists e ! i)"
    and "playlist_ok (f (playlists e ! i))"
    and d: "distinct (ids_of (f (playlists e ! i)))"
    and s: "set (ids_of (f (playlists e ! i))) = set (ids_of (playlists e ! i))"
  shows "engine_inv (update_playlist i f e)"
proof (rule engine_invI)
  show "stored_inv (playlists (update_playlist i f e)) (next_playlist_id (update_playlist i f e))
      (next_item_id (update_playlist i f e))"
    using stored_inv_update_sub [OF engine_invD(1) [OF inv] i] assms(3,4) d s by simp
next
  fix c assume "cursor (update_playlist i f e) = Some c"
  then have "cursor_ok (playlists e) (next_item_id e) c" using inv by (simp add: engine_inv_def)
  then show "cursor_ok (playlists (update_playlist i f e)) (next_item_id (update_playlist i f e)) c"
    using cursor_ok_same_ids assms(3) s by simp
qed

lemma engine_inv_ok: "engine_inv e \<Longrightarrow> i < length (playlists e) \<Longrightarrow> playlist_ok (playlists e ! i)"
  by (simp add: engine_inv_def stored_inv_def)

lemma engine_inv_distinct:
  "engine_inv e \<Longrightarrow> i < length (playlists e) \<Longrightarrow> distinct (ids_of (playlists e ! i))"
  using stored_inv_ids engine_invD(1) by blast

lemma engine_inv_no_cursor:
  "stored_inv (playlists e) (next_playlist_id e) (next_item_id e) \<Longrightarrow> cursor e = None \<Longrightarrow> engine_inv e"
  by (simp add: engine_inv_def)

text \<open>A minted id is above every id in use.\<close>

lemma checked_add_gt: "checked_add n 1 = Some m \<Longrightarrow> n < m" for n :: u64
  by (auto simp: word_less_nat_alt dest!: unat_checked_add)

lemma mint_fresh_playlist:
  "stored_inv ps np ni \<Longrightarrow> checked_add np 1 = Some n \<Longrightarrow> q \<in> set ps \<Longrightarrow> pl_id q \<noteq> PlaylistId n"
  using checked_add_gt by (fastforce simp: stored_inv_def)

lemma mint_fresh_item:
  "stored_inv ps np ni \<Longrightarrow> ni < n \<Longrightarrow> ItemId n \<notin> set (concat (map ids_of ps))"
  by (fastforce simp: stored_inv_def)

lemma engine_inv_snoc:
  assumes "engine_inv e"
    and "stored_inv (playlists e @ [pl]) np ni" and "next_item_id e \<le> ni"
    and "playlists e' = playlists e @ [pl]" and "next_playlist_id e' = np"
    and "next_item_id e' = ni" and "cursor e' = cursor e"
  shows "engine_inv e'"
  using assms by (auto simp: engine_inv_def intro: cursor_ok_snoc)

lemma create_inv: "engine_inv e \<Longrightarrow> engine_inv (fst (create name e))"
proof (cases "checked_add (next_playlist_id e) 1")
  case (Some n)
  assume inv: "engine_inv e"
  let ?pl = "\<lparr>pl_id = PlaylistId n, pl_name = name, pl_items = [], content_revision = 0,
              structure_revision = 0, last_saved_revision = 0\<rparr>"
  have "stored_inv (playlists e @ [?pl]) n (next_item_id e)"
    using mint_fresh_playlist [OF engine_invD(1) [OF inv] Some] checked_add_gt [OF Some]
    by (intro stored_inv_snoc [OF engine_invD(1) [OF inv]]) (auto simp: playlist_ok_def ids_of_def)
  from engine_inv_snoc [OF inv this] Some show ?thesis
    by (simp add: create_def mint_playlist_id_def)
qed (simp add: create_def mint_playlist_id_def)

lemma delete_inv: "engine_inv e \<Longrightarrow> engine_inv (fst (delete p e))"
proof (cases "playlist_index e p")
  case (Some i)
  assume inv: "engine_inv e"
  have i: "i < length (playlists e)" "pl_id (playlists e ! i) = p"
    using Some by (simp_all add: playlist_index_lt playlist_index_id)
  have "cursor_ok (remove_at i (playlists e)) (next_item_id e) c"
    if "cursor e = Some c" "cur_playlist c \<noteq> p" for c
    using cursor_ok_remove_at [OF engine_invD(2) [OF inv that(1)] i(1)] i(2) that(2) by simp
  with inv Some show ?thesis
    by (auto simp: delete_def Let_def playing_playlist_def engine_inv_def stored_inv_remove_at)
qed (simp add: delete_def)

lemma rename_inv: "engine_inv e \<Longrightarrow> engine_inv (fst (rename p name e))"
  by (auto simp: rename_def ids_of_def split: option.splits
      intro!: engine_inv_update_same playlist_ok_touch_structure
      dest: playlist_index_lt engine_inv_ok engine_inv_distinct)

lemma touch_structure_preserving_dirty_inv:
  "engine_inv e \<Longrightarrow> engine_inv (fst (touch_structure_preserving_dirty p e))"
  by (auto simp: touch_structure_preserving_dirty_def split: option.splits
      intro!: engine_inv_update_same playlist_ok_touch_preserving
      dest: playlist_index_lt engine_inv_ok engine_inv_distinct)

lemma mark_revision_saved_inv: "engine_inv e \<Longrightarrow> engine_inv (fst (mark_revision_saved p r e))"
  by (auto simp: mark_revision_saved_def ids_of_def playlist_ok_def not_less split: option.splits
      intro!: engine_inv_update_same
      dest: playlist_index_lt engine_inv_ok engine_inv_distinct)

lemma mark_saved_inv: "engine_inv e \<Longrightarrow> engine_inv (fst (mark_saved p e))"
  by (auto simp: mark_saved_def mark_revision_saved_inv split: option.splits)

lemma append_item_inv: "engine_inv e \<Longrightarrow> engine_inv (fst (append_item p s e))"
proof -
  assume inv: "engine_inv e"
  show ?thesis
  proof (cases "playlist_index e p = None \<or> checked_add (next_item_id e) 1 = None")
    case True
    with inv show ?thesis by (auto simp: append_item_def mint_item_id_def split: option.splits)
  next
    case False
    then obtain i n where i: "playlist_index e p = Some i" and n: "checked_add (next_item_id e) 1 = Some n"
      by auto
    have lt: "i < length (playlists e)" and gt: "next_item_id e < n"
      using i n by (simp_all add: playlist_index_lt checked_add_gt)
    let ?pl = "playlists e ! i"
    let ?q = "touch_content (?pl\<lparr>pl_items := pl_items ?pl @ [item_of_spec (ItemId n) s]\<rparr>)"
    have ids: "ids_of ?q = ids_of ?pl @ [ItemId n]" by (simp add: ids_of_def item_of_spec_def)
    have fresh: "ItemId n \<notin> set (concat (map ids_of (playlists e)))"
      using mint_fresh_item [OF engine_invD(1) [OF inv] gt] .
    then have notin: "ItemId n \<notin> set (ids_of ?pl)" using lt by auto
    have st: "stored_inv ((playlists e)[i := ?q]) (next_playlist_id e) n"
      using engine_inv_ok [OF inv lt] engine_inv_distinct [OF inv lt] fresh gt notin ids
      by (intro stored_inv_update [OF engine_invD(1) [OF inv] lt, where F = "{ItemId n}"])
        (auto intro!: playlist_ok_touch_content)
    have "cursor_ok ((playlists e)[i := ?q]) n c" if c: "cursor e = Some c" for c
    proof (rule cursor_ok_update [OF engine_invD(2) [OF inv c]])
      fix it assume "cur_current c = Some it"
      then have "iid_get it \<le> next_item_id e"
        using engine_invD(2) [OF inv c] by (simp add: cursor_ok_def)
      then have "it \<noteq> ItemId n" using gt by auto
      then show "it \<in> set (ids_of ?q) \<longleftrightarrow> it \<in> set (ids_of ?pl)" unfolding ids by simp
    qed (use gt in auto)
    with st i n show ?thesis
      by (simp add: append_item_def mint_item_id_def engine_inv_def)
  qed
qed

lemma ids_of_update_same:
  "j < length (pl_items pl) \<Longrightarrow> item_id x = item_id (pl_items pl ! j) \<Longrightarrow>
   ids_of (pl\<lparr>pl_items := (pl_items pl)[j := x]\<rparr>) = ids_of pl"
  by (simp add: ids_of_def map_update) (metis list_update_id nth_map)

lemma edit_item_inv:
  "engine_inv e \<Longrightarrow> (\<And>x. item_id (f x) = item_id x) \<Longrightarrow> engine_inv (fst (edit_item p it f e))"
proof -
  assume inv: "engine_inv e" and f: "\<And>x. item_id (f x) = item_id x"
  have "engine_inv (update_playlist i
      (\<lambda>pl. touch_structure (pl\<lparr>pl_items := (pl_items pl)[j := f (pl_items pl ! j)]\<rparr>)) e)"
    if i: "i < length (playlists e)" and j: "j < length (pl_items (playlists e ! i))" for i j
  proof -
    have "map item_id ((pl_items (playlists e ! i))[j := f (pl_items (playlists e ! i) ! j)])
        = ids_of (playlists e ! i)"
      using ids_of_update_same [OF j f] by simp
    then show ?thesis
      using engine_inv_ok [OF inv i] engine_inv_distinct [OF inv i]
      by (intro engine_inv_update_same [OF inv i])
        (simp_all del: set_map map_update add: playlist_ok_touch_structure)
  qed
  with inv show ?thesis
    by (auto simp: edit_item_def playlist_index_lt item_index_lt split: option.splits)
qed

lemma set_relocate:
  assumes "from < length xs"
  shows "set (relocate from k xs) = set xs"
  using remove_at_mset [OF assms] by (auto simp: relocate_def set_insert_at)

lemma map_relocate: "from < length xs \<Longrightarrow> map f (relocate from k xs) = relocate from k (map f xs)"
  by (simp add: relocate_def map_insert_at map_remove_at)

lemma distinct_relocate: "distinct xs \<Longrightarrow> from < length xs \<Longrightarrow> distinct (relocate from k xs)"
  by (simp add: relocate_def distinct_insert_at distinct_remove_at remove_at_notin)

lemma move_item_inv: "engine_inv e \<Longrightarrow> engine_inv (fst (move_item p it after e))"
proof -
  assume inv: "engine_inv e"
  have "engine_inv (update_playlist i
      (\<lambda>pl. touch_structure (pl\<lparr>pl_items := relocate src k (pl_items pl)\<rparr>)) e)"
    if i: "i < length (playlists e)" and "src < length (pl_items (playlists e ! i))" for i src k
    using that engine_inv_ok [OF inv i] engine_inv_distinct [OF inv i]
    by (intro engine_inv_update_same [OF inv i] playlist_ok_touch_structure)
      (auto simp: ids_of_def map_relocate set_relocate distinct_relocate)
  with inv show ?thesis
    by (auto simp: move_item_def Let_def playlist_index_lt item_index_lt split: option.splits)
qed

lemma remove_item_inv: "engine_inv e \<Longrightarrow> engine_inv (fst (remove_item p it e))"
proof -
  assume inv: "engine_inv e"
  show ?thesis
  proof (cases "playlist_index e p")
    case None
    with inv show ?thesis by (simp add: remove_item_def)
  next
    case (Some i)
    note i = Some
    show ?thesis
    proof (cases "item_index (playlists e ! i) it")
      case None
      with i inv show ?thesis by (simp add: remove_item_def)
    next
      case (Some j)
      let ?pl = "playlists e ! i"
      let ?q = "touch_structure (?pl\<lparr>pl_items := remove_at j (pl_items ?pl)\<rparr>)"
      have lt: "i < length (playlists e)" and p: "pl_id ?pl = p"
        using i by (simp_all add: playlist_index_lt playlist_index_id)
      have d: "distinct (ids_of ?pl)" using engine_inv_distinct [OF inv lt] .
      have j: "j < length (ids_of ?pl)" and at: "ids_of ?pl ! j = it"
        using item_index_lt [OF Some] item_index_id [OF Some] by (simp_all add: ids_of_def)
      have ids: "ids_of ?q = remove_at j (ids_of ?pl)" by (simp add: ids_of_def map_remove_at)
      have gone: "it \<notin> set (ids_of ?q)" using remove_at_notin [OF d j] at ids by simp
      have keep: "x \<in> set (ids_of ?q) \<longleftrightarrow> x \<in> set (ids_of ?pl)" if "x \<noteq> it" for x
        using that in_remove_at [OF _ j] set_remove_at at ids by (metis subsetD)
      have st: "stored_inv ((playlists e)[i := ?q]) (next_playlist_id e) (next_item_id e)"
        using engine_inv_ok [OF inv lt] d set_remove_at
        by (intro stored_inv_update_sub [OF engine_invD(1) [OF inv] lt])
          (simp_all only: ids distinct_remove_at, simp_all add: playlist_ok_touch_structure)
      have cur: "cursor_ok ((playlists e)[i := ?q]) (next_item_id e)
            (if cur_playlist c = p \<and> cur_current c = Some it
             then c\<lparr>cur_position := j, cur_failures := 0, cur_removed := True\<rparr> else c)"
        if c: "cursor e = Some c" for c
      proof (cases "cur_playlist c = p \<and> cur_current c = Some it")
        case True
        then have "cursor_at (c\<lparr>cur_position := j, cur_failures := 0, cur_removed := True\<rparr>) ?q"
          using gone p by (simp add: cursor_at_def)
        then show ?thesis
          using True engine_invD(2) [OF inv c] lt unfolding cursor_ok_def by auto
      next
        case False
        have "cursor_ok ((playlists e)[i := ?q]) (next_item_id e) c"
        proof (rule cursor_ok_update [OF engine_invD(2) [OF inv c]])
          fix x assume "cur_current c = Some x" and "pl_id ?pl = cur_playlist c"
          then show "x \<in> set (ids_of ?q) \<longleftrightarrow> x \<in> set (ids_of ?pl)"
            using False p by (intro keep) auto
        qed simp_all
        with False show ?thesis by auto
      qed
      show ?thesis
        using st cur i Some
        by (auto simp: remove_item_def Let_def engine_inv_def split: option.splits)
    qed
  qed
qed

lemma remove_playlist_inv:
  "engine_inv e \<Longrightarrow> cursor e = None \<Longrightarrow> engine_inv (remove_playlist p e)"
  by (auto simp: remove_playlist_def engine_inv_def stored_inv_remove_at split: option.splits)

lemma remove_playlist_cursor [simp]: "cursor (remove_playlist p e) = cursor e"
  by (simp add: remove_playlist_def split: option.splits)

lemma stop_cursor [simp]: "cursor (stop e) = None"
  by (auto simp: stop_def Let_def split: option.splits)

lemma stop_inv: "engine_inv e \<Longrightarrow> engine_inv (stop e)"
proof -
  assume inv: "engine_inv e"
  then have "engine_inv (e\<lparr>cursor := None\<rparr>)" by (simp add: engine_inv_def)
  with inv show ?thesis
    by (auto simp: stop_def Let_def remove_playlist_inv split: option.splits)
qed

lemma playlist_Some:
  "playlist e p = Some pl \<Longrightarrow> \<exists>i < length (playlists e). playlists e ! i = pl \<and> pl_id pl = p
     \<and> playlist_index e p = Some i"
  by (auto simp: playlist_conv_index dest: playlist_index_lt playlist_index_id)

lemma start_inv: "engine_inv e \<Longrightarrow> engine_inv (fst (start p it e))"
proof -
  assume "engine_inv e"
  then have inv: "engine_inv (stop e)" by (rule stop_inv)
  show ?thesis
    using inv by (auto simp: start_def Let_def engine_inv_def cursor_ok_def cursor_at_def
        split: option.splits dest!: playlist_Some)
qed

lemma set_mode_inv: "engine_inv (set_mode m e) \<longleftrightarrow> engine_inv e"
  by (simp add: set_mode_def engine_inv_def)

text \<open>A change of the cursor that keeps its playlist, its current item and the removed flag.\<close>

lemma engine_inv_cursor:
  assumes "engine_inv e" and "cursor e = Some c" and "cur_playlist c' = cur_playlist c"
    and "cur_current c' = cur_current c" and "cur_removed c' = cur_removed c"
    and "cur_current c = None \<longleftrightarrow> cur_pending c' = Some Start"
  shows "engine_inv (e\<lparr>cursor := Some c'\<rparr>)"
proof -
  have "cursor_ok (playlists e) (next_item_id e) c" using assms(1,2) by (rule engine_invD(2))
  with assms(3-6) have "cursor_ok (playlists e) (next_item_id e) c'"
    by (auto simp: cursor_ok_def cursor_at_def)
  with assms(1) show ?thesis by (simp add: engine_inv_def)
qed

lemma pending_Start: "engine_inv e \<Longrightarrow> cursor e = Some c \<Longrightarrow>
    cur_current c = None \<longleftrightarrow> cur_pending c = Some Start"
  by (simp add: engine_inv_def cursor_ok_def)

lemma on_finished_inv: "engine_inv e \<Longrightarrow> engine_inv (on_finished e)"
  by (auto simp: on_finished_def split: option.splits intro: engine_inv_cursor)

lemma next_item_inv: "engine_inv e \<Longrightarrow> engine_inv (next_item e)"
  by (auto simp: next_item_def split: option.splits intro: engine_inv_cursor)

lemma previous_inv: "engine_inv e \<Longrightarrow> engine_inv (previous e)"
  by (auto simp: previous_def split: option.splits intro!: engine_inv_cursor dest: pending_Start)

lemma on_failed_inv: "engine_inv e \<Longrightarrow> engine_inv (on_failed e)"
proof -
  assume inv: "engine_inv e"
  have "engine_inv (e\<lparr>cursor := Some (c\<lparr>cur_failures := n\<rparr>)\<rparr>)" if "cursor e = Some c" for c n
    using engine_inv_cursor [OF inv that] pending_Start [OF inv that] by simp
  moreover have "engine_inv (e\<lparr>cursor := Some (c\<lparr>cur_failures := n, cur_pending := Some Forward\<rparr>)\<rparr>)"
    if "cursor e = Some c" "cur_current c \<noteq> None" for c n
    using engine_inv_cursor [OF inv that(1)] that(2) by simp
  ultimately show ?thesis
    using inv by (auto simp: on_failed_def Let_def split: option.splits intro: stop_inv)
qed

lemma forward_position_lt:
  "forward_position e = Some pos \<Longrightarrow> \<exists>c pl. cursor e = Some c \<and> playlist e (cur_playlist c) = Some pl
     \<and> pos < length (pl_items pl)"
  by (auto simp: forward_position_def Let_def split: option.splits if_splits)

lemma current_index_lt: "current_index c pl = Some i \<Longrightarrow> i < length (pl_items pl)"
  by (auto simp: current_index_def bind_eq_Some_conv dest: item_index_lt)

lemma playlist_index_Some:
  "playlist_index e p = Some i \<Longrightarrow> playlist e p = Some (playlists e ! i)"
  by (simp add: playlist_conv_index)

lemma target_position_bound:
  assumes "target_position a e = Some (i, pos)" and "a \<noteq> Backward"
  shows "pos < length (pl_items (playlists e ! i))"
  using assms
  by (cases a) (auto simp: target_position_def playlist_index_Some split: option.splits if_splits
      dest!: forward_position_lt)

lemma target_position_index:
  "target_position a e = Some (i, pos) \<Longrightarrow>
   \<exists>c. cursor e = Some c \<and> playlist_index e (cur_playlist c) = Some i"
  by (auto simp: target_position_def split: option.splits)

lemma poll_cases:
  obtains (idle) "poll e = Returned (e, None)"
  | (ended) c a where "cursor e = Some c" "cur_pending c = Some a" "target_position a e = None"
      "poll e = Returned (stop e, None)"
  | (item) c a i pos where "cursor e = Some c" "cur_pending c = Some a"
      "target_position a e = Some (i, pos)" "playlist_index e (cur_playlist c) = Some i"
      "pos < length (pl_items (playlists e ! i))"
      "poll e = Returned (e\<lparr>cursor := Some (c\<lparr>cur_pending := None,
              cur_current := Some (item_id (pl_items (playlists e ! i) ! pos)),
              cur_position := pos, cur_removed := False\<rparr>)\<rparr>, Some (pl_items (playlists e ! i) ! pos))"
  | (panic) c a i pos where "cursor e = Some c" "cur_pending c = Some a"
      "target_position a e = Some (i, pos)" "playlist_index e (cur_playlist c) = Some i"
      "length (pl_items (playlists e ! i)) \<le> pos" "poll e = Panic"
proof (cases "cursor e")
  case None
  then show thesis by (intro idle) (simp add: poll_def)
next
  case (Some c)
  note c = Some
  show thesis
  proof (cases "cur_pending c")
    case None
    with c show thesis by (intro idle) (simp add: poll_def)
  next
    case (Some a)
    show thesis
    proof (cases "target_position a e")
      case None
      with c Some show thesis by (intro ended) (simp_all add: poll_def)
    next
      case (Some ip)
      obtain i pos where ip: "ip = (i, pos)" by (cases ip)
      have i: "playlist_index e (cur_playlist c) = Some i"
        using target_position_index [of a e i pos] Some ip c by auto
      show thesis
      proof (cases "pos < length (pl_items (playlists e ! i))")
        case True
        with c \<open>cur_pending c = Some a\<close> Some ip i show thesis
          by (intro item) (simp_all add: poll_def Let_def)
      next
        case False
        with c \<open>cur_pending c = Some a\<close> Some ip i show thesis
          by (intro panic) (simp_all add: poll_def not_less)
      qed
    qed
  qed
qed

lemma poll_inv: "engine_inv e \<Longrightarrow> poll e = Returned (e', r) \<Longrightarrow> engine_inv e'"
proof (cases rule: poll_cases [of e])
  case (item c a i pos)
  assume inv: "engine_inv e" and ret: "poll e = Returned (e', r)"
  have i: "i < length (playlists e)" "pl_id (playlists e ! i) = cur_playlist c"
    using item(4) by (simp_all add: playlist_index_lt playlist_index_id)
  let ?it = "item_id (pl_items (playlists e ! i) ! pos)"
  have mem: "?it \<in> set (ids_of (playlists e ! i))" using item(5) by (simp add: ids_of_def)
  then have "iid_get ?it \<le> next_item_id e"
    using engine_invD(1) [OF inv] i(1) unfolding stored_inv_def by (meson nth_mem)
  then show ?thesis
    using inv i mem item(6) ret unfolding engine_inv_def cursor_ok_def cursor_at_def by auto
qed (use stop_inv in auto)

section \<open>Loading\<close>

lemma number_items_ids:
  "map item_id (number_items n ws) = map (\<lambda>k. ItemId (n + 1 + of_nat k)) [0..<length ws]"
proof (induction ws arbitrary: n)
  case Nil
  then show ?case by simp
next
  case (Cons w ws)
  have "map (\<lambda>k. ItemId (n + 1 + of_nat k)) [0..<length (w # ws)]
      = ItemId (n + 1) # map (\<lambda>k. ItemId (n + 1 + of_nat (Suc k))) [0..<length ws]"
    by (simp add: upt_conv_Cons map_Suc_upt [symmetric] del: upt_Suc)
  with Cons show ?case by (simp add: item_of_wire_def ac_simps)
qed

lemma unat_offset:
  fixes n :: u64
  assumes "unat n + m < 2 ^ 64" and "k < m"
  shows "unat (n + 1 + of_nat k) = unat n + Suc k"
proof -
  have k: "unat (of_nat k :: u64) = k"
    using assms by (simp add: unat_of_nat_small)
  have "unat (n + 1) = Suc (unat n)"
    using assms by (simp add: unat_word_ariths)
  with k assms show ?thesis by (simp add: unat_word_ariths)
qed

lemma number_items_fresh:
  fixes n :: u64
  assumes "unat n + length ws < 2 ^ 64"
  shows "distinct (map item_id (number_items n ws))"
    and "it \<in> set (map item_id (number_items n ws)) \<Longrightarrow> n < iid_get it
           \<and> iid_get it \<le> n + of_nat (length ws)"
proof -
  have inj: "inj_on (\<lambda>k. ItemId (n + 1 + of_nat k)) {0..<length ws}"
  proof (rule inj_onI)
    fix j k assume *: "j \<in> {0..<length ws}" "k \<in> {0..<length ws}"
      and "ItemId (n + 1 + of_nat j) = ItemId (n + 1 + of_nat k)"
    then have "unat (n + 1 + of_nat j) = unat (n + 1 + of_nat k)" by simp
    then show "j = k" using * by (simp add: unat_offset [OF assms])
  qed
  then show "distinct (map item_id (number_items n ws))"
    by (simp add: number_items_ids distinct_map del: map_map)
  assume "it \<in> set (map item_id (number_items n ws))"
  then obtain k where k: "k < length ws" "it = ItemId (n + 1 + of_nat k)"
    unfolding number_items_ids by auto
  have "unat (n + of_nat (length ws)) = unat n + length ws"
    using assms by (simp add: unat_word_ariths unat_of_nat_small)
  then show "n < iid_get it \<and> iid_get it \<le> n + of_nat (length ws)"
    using k unat_offset [OF assms k(1)] by (simp add: word_less_nat_alt word_le_nat_alt)
qed

lemma length_number_items [simp]: "length (number_items n ws) = length ws"
  by (induction ws arbitrary: n) auto

lemma from_bytes_cases:
  obtains (refused) x where "from_bytes rv rd bs e = (e, Inl x)"
  | (loaded) d np ni where
      "rv bs = Inr FORMAT_VERSION" "rd bs = Inr d" "checked_add (next_playlist_id e) 1 = Some np"
      "checked_add (next_item_id e) (of_nat (length (doc_items d))) = Some ni"
      "length (doc_items d) < 2 ^ 64"
      "from_bytes rv rd bs e =
         (touch (e\<lparr>next_playlist_id := np, next_item_id := ni, playlists := playlists e @
            [\<lparr>pl_id = PlaylistId np, pl_name = doc_name d,
              pl_items = number_items (next_item_id e) (doc_items d), content_revision = 0,
              structure_revision = 0, last_saved_revision = 0\<rparr>]\<rparr>), Inr (PlaylistId np))"
proof (cases "\<exists>x. from_bytes rv rd bs e = (e, Inl x)")
  case True
  then show thesis using refused by blast
next
  case False
  then have v: "rv bs = Inr FORMAT_VERSION"
    by (cases "rv bs") (auto simp: from_bytes_def split: if_splits)
  from False v obtain d where d: "rd bs = Inr d"
    by (cases "rd bs") (auto simp: from_bytes_def)
  from False v d obtain np where np: "checked_add (next_playlist_id e) 1 = Some np"
    by (cases "checked_add (next_playlist_id e) 1") (auto simp: from_bytes_def)
  from False v d np have len: "length (doc_items d) < 2 ^ 64"
    by (cases "2 ^ 64 \<le> int (length (doc_items d))") (simp_all add: from_bytes_def)
  from False v d np len obtain ni
    where "checked_add (next_item_id e) (of_nat (length (doc_items d))) = Some ni"
    by (cases "checked_add (next_item_id e) (of_nat (length (doc_items d)))")
      (auto simp: from_bytes_def)
  with v d np len show thesis by (intro loaded) (simp_all add: from_bytes_def)
qed

lemma from_bytes_inv: "engine_inv e \<Longrightarrow> engine_inv (fst (from_bytes rv rd bs e))"
proof (cases rule: from_bytes_cases [of rv rd bs e])
  case (loaded d np ni)
  assume inv: "engine_inv e"
  let ?n = "next_item_id e" and ?ws = "doc_items d"
  let ?pl = "\<lparr>pl_id = PlaylistId np, pl_name = doc_name d, pl_items = number_items ?n ?ws,
     content_revision = 0, structure_revision = 0, last_saved_revision = 0\<rparr>"
  have room: "unat ?n + length ?ws < 2 ^ 64" and ni: "ni = ?n + of_nat (length ?ws)"
    using loaded(4,5) by (simp_all add: checked_add_Some unat_of_nat_small)
  have ids: "ids_of ?pl = map item_id (number_items ?n ?ws)" by (simp add: ids_of_def)
  have le: "?n \<le> ni" using unat_checked_add [OF loaded(4)] by (simp add: word_le_nat_alt)
  have "set (ids_of ?pl) \<inter> set (concat (map ids_of (playlists e))) = {}"
  proof (rule equals0I)
    fix it assume "it \<in> set (ids_of ?pl) \<inter> set (concat (map ids_of (playlists e)))"
    then have "?n < iid_get it" and "iid_get it \<le> ?n"
      using number_items_fresh(2) [OF room] engine_invD(1) [OF inv] unfolding ids
      by (auto simp: stored_inv_def)
    then show False by simp
  qed
  moreover have "iid_get it \<le> ni" if "it \<in> set (ids_of ?pl)" for it
    using number_items_fresh(2) [OF room] that ids ni by simp
  ultimately have "stored_inv (playlists e @ [?pl]) np ni"
    using mint_fresh_playlist [OF engine_invD(1) [OF inv] loaded(3)] checked_add_gt [OF loaded(3)]
      number_items_fresh(1) [OF room] le
    by (intro stored_inv_snoc [OF engine_invD(1) [OF inv]])
      (simp_all add: ids playlist_ok_def del: map_map)
  from engine_inv_snoc [OF inv this le] loaded(6) show ?thesis by simp
qed simp

section \<open>The engine as a machine\<close>

text \<open>Every call a host can make that changes the engine.\<close>

datatype 'p op =
    Create "string option"
  | Delete PlaylistId
  | Rename PlaylistId "string option"
  | TouchPreserving PlaylistId
  | Append PlaylistId "'p item_spec"
  | Edit PlaylistId ItemId "'p item \<Rightarrow> 'p item"
  | Remove PlaylistId ItemId
  | Move PlaylistId ItemId "ItemId option"
  | MarkSaved PlaylistId
  | MarkRevisionSaved PlaylistId u64
  | StartAt PlaylistId "ItemId option"
  | Stop
  | SetMode mode
  | Poll
  | OnFinished
  | OnFailed
  | Next
  | Previous
  | Load "bytes \<Rightarrow> unit + u32" "bytes \<Rightarrow> unit + 'p document" bytes

fun exec :: "'p engine \<Rightarrow> 'p op \<Rightarrow> 'p engine" where
  "exec e (Create n) = fst (create n e)"
| "exec e (Delete p) = fst (delete p e)"
| "exec e (Rename p n) = fst (rename p n e)"
| "exec e (TouchPreserving p) = fst (touch_structure_preserving_dirty p e)"
| "exec e (Append p s) = fst (append_item p s e)"
| "exec e (Edit p it f) = fst (edit_item p it f e)"
| "exec e (Remove p it) = fst (remove_item p it e)"
| "exec e (Move p it after) = fst (move_item p it after e)"
| "exec e (MarkSaved p) = fst (mark_saved p e)"
| "exec e (MarkRevisionSaved p r) = fst (mark_revision_saved p r e)"
| "exec e (StartAt p it) = fst (start p it e)"
| "exec e Stop = stop e"
| "exec e (SetMode m) = set_mode m e"
| "exec e Poll = (case poll e of Returned (e', _) \<Rightarrow> e' | Panic \<Rightarrow> e)"
| "exec e OnFinished = on_finished e"
| "exec e OnFailed = on_failed e"
| "exec e Next = next_item e"
| "exec e Previous = previous e"
| "exec e (Load rv rd bs) = fst (from_bytes rv rd bs e)"

text \<open>The one obligation on the caller: an edit leaves the item's id alone.\<close>

fun admits :: "'p engine \<Rightarrow> 'p op \<Rightarrow> bool" where
  "admits e (Edit p it f) = (\<forall>x. item_id (f x) = item_id x)"
| "admits e _ = True"

lemma exec_inv: "engine_inv e \<Longrightarrow> admits e a \<Longrightarrow> engine_inv (exec e a)"
  by (cases a) (auto simp: create_inv delete_inv rename_inv touch_structure_preserving_dirty_inv
      append_item_inv edit_item_inv remove_item_inv move_item_inv mark_saved_inv
      mark_revision_saved_inv start_inv stop_inv set_mode_inv on_finished_inv on_failed_inv
      next_item_inv previous_inv from_bytes_inv poll_inv split: outcome.splits)

interpretation player: operation_machine exec admits engine_inv
  by unfold_locales (rule exec_inv)

end
