(* ===== verification/Playlist_Props.thy ===== *)
theory Playlist_Props
  imports Playlist_Inv
begin

text \<open>
  What the playlist engine promises its host: playback order in both modes, where a removal
  leaves the cursor, what moving and saving do, and the round trip through the stored format.
\<close>

section \<open>A host driving the engine\<close>

text \<open>
  A host polls for an item, plays it, and reports how playback ended; \<open>drive\<close> runs that loop
  over a list of reports and returns the items it was handed.
\<close>

datatype report = Finished | Failed

definition report_end :: "report \<Rightarrow> 'p engine \<Rightarrow> 'p engine" where
  "report_end r e = (case r of Finished \<Rightarrow> on_finished e | Failed \<Rightarrow> on_failed e)"

fun drive :: "report list \<Rightarrow> 'p engine \<Rightarrow> ItemId list \<times> 'p engine" where
  "drive [] e = ([], e)"
| "drive (r # rs) e = (case poll e of
     Returned (e', Some it) \<Rightarrow>
       (let (played, e'') = drive rs (report_end r e') in (item_id it # played, e''))
   | Returned (e', None) \<Rightarrow> ([], e')
   | Panic \<Rightarrow> ([], e))"

text \<open>
  Where playback stands between two polls: the item at position \<open>j\<close> of the playlist \<open>pl\<close>,
  stored at index \<open>i\<close>, ended, and the next poll moves forward.
\<close>

definition at_item :: "'p engine \<Rightarrow> nat \<Rightarrow> 'p playlist \<Rightarrow> nat \<Rightarrow> cursor \<Rightarrow> bool" where
  "at_item e i pl j c \<longleftrightarrow> cursor e = Some c \<and> playlist_index e (cur_playlist c) = Some i
     \<and> playlists e ! i = pl \<and> distinct (ids_of pl) \<and> j < length (pl_items pl)
     \<and> cur_current c = Some (ids_of pl ! j) \<and> \<not> cur_removed c"

lemma item_index_nth:
  "distinct (ids_of pl) \<Longrightarrow> j < length (pl_items pl) \<Longrightarrow> item_index pl (ids_of pl ! j) = Some j"
  using position_distinct [of item_id "pl_items pl" j] by (simp add: item_index_def ids_of_def)

lemma playlist_index_cong: "playlists e = playlists e' \<Longrightarrow> playlist_index e p = playlist_index e' p"
  by (simp add: playlist_index_def)

lemma playlist_cong: "playlists e = playlists e' \<Longrightarrow> playlist e p = playlist e' p"
  by (simp add: playlist_def)

lemma forward_position_at:
  assumes "at_item e i pl j c"
  shows "forward_position e = (if Suc j < length (pl_items pl) then Some (Suc j)
     else if engine_mode e = Loop then Some 0 else None)"
  using assms item_index_nth [of pl j]
  by (auto simp: at_item_def forward_position_def current_index_def playlist_index_Some Let_def)

lemma poll_forward:
  assumes at: "at_item e i pl j c" and pend: "cur_pending c = Some Forward"
    and pos: "forward_position e = Some k"
  obtains c' where "poll e = Returned (e\<lparr>cursor := Some c'\<rparr>, Some (pl_items pl ! k))"
    and "at_item (e\<lparr>cursor := Some c'\<rparr>) i pl k c'" and "cur_pending c' = None"
    and "cur_failures c' = cur_failures c"
proof -
  let ?c = "c\<lparr>cur_pending := None, cur_current := Some (item_id (pl_items pl ! k)),
     cur_position := k, cur_removed := False\<rparr>"
  have k: "k < length (pl_items pl)"
    using pos at forward_position_at [OF at] by (auto simp: at_item_def split: if_splits)
  have "target_position Forward e = Some (i, k)"
    using at pos by (simp add: target_position_def at_item_def)
  then have "poll e = Returned (e\<lparr>cursor := Some ?c\<rparr>, Some (pl_items pl ! k))"
    using at pend k by (simp add: poll_def at_item_def Let_def)
  moreover have "at_item (e\<lparr>cursor := Some ?c\<rparr>) i pl k ?c"
    using at k by (simp add: at_item_def ids_of_def playlist_index_def)
  ultimately show thesis by (intro that [of ?c]) simp_all
qed

lemma poll_forward_end:
  assumes "at_item e i pl j c" and "cur_pending c = Some Forward" and "forward_position e = None"
  shows "poll e = Returned (stop e, None)"
  using assms by (simp add: poll_def at_item_def target_position_def)

lemma on_finished_at:
  "at_item e i pl j c \<Longrightarrow> cur_pending c = None \<Longrightarrow>
   on_finished e = e\<lparr>cursor := Some (c\<lparr>cur_failures := 0, cur_pending := Some Forward\<rparr>)\<rparr>"
  by (simp add: on_finished_def at_item_def)

lemma on_failed_at:
  assumes "at_item e i pl j c" and "cur_pending c = None"
    and "engine_mode e = Sequential \<or> unat (sat_add (cur_failures c) 1) < length (pl_items pl)"
  shows "on_failed e = e\<lparr>cursor := Some (c\<lparr>cur_failures := sat_add (cur_failures c) 1,
            cur_pending := Some Forward\<rparr>)\<rparr>"
proof -
  have "playlist (e\<lparr>cursor := Some (c\<lparr>cur_failures := sat_add (cur_failures c) 1\<rparr>)\<rparr>)
      (cur_playlist c) = Some pl"
    using assms(1) by (simp add: at_item_def playlist_conv_index playlist_index_def)
  then show ?thesis
    using assms by (auto simp: on_failed_def at_item_def Let_def)
qed

lemma on_failed_at_stop:
  assumes "at_item e i pl j c" and "cur_pending c = None" and "engine_mode e = Loop"
    and "length (pl_items pl) \<le> unat (sat_add (cur_failures c) 1)"
  shows "cursor (on_failed e) = None"
proof -
  have "playlist (e\<lparr>cursor := Some (c\<lparr>cur_failures := sat_add (cur_failures c) 1\<rparr>)\<rparr>)
      (cur_playlist c) = Some pl"
    using assms(1) by (simp add: at_item_def playlist_conv_index playlist_index_def)
  then show ?thesis
    using assms by (auto simp: on_failed_def at_item_def Let_def)
qed

lemma at_item_pending:
  "at_item e i pl j c \<Longrightarrow> at_item (e\<lparr>cursor := Some (c\<lparr>cur_failures := n, cur_pending := a\<rparr>)\<rparr>) i pl j
     (c\<lparr>cur_failures := n, cur_pending := a\<rparr>)"
  by (simp add: at_item_def playlist_index_def)

text \<open>After a report in sequential mode the engine stands at the same item, moving forward.\<close>

lemma report_end_sequential:
  assumes "at_item e i pl j c" and "cur_pending c = None" and "engine_mode e = Sequential"
  obtains c' where "at_item (report_end r e) i pl j c'" and "cur_pending c' = Some Forward"
    and "engine_mode (report_end r e) = Sequential"
proof (cases r)
  case Finished
  then have "report_end r e = e\<lparr>cursor := Some (c\<lparr>cur_failures := 0, cur_pending := Some Forward\<rparr>)\<rparr>"
    using assms by (simp add: report_end_def on_finished_at)
  with assms show thesis
    by (intro that [of "c\<lparr>cur_failures := 0, cur_pending := Some Forward\<rparr>"]) (simp_all add: at_item_pending)
next
  case Failed
  let ?c = "c\<lparr>cur_failures := sat_add (cur_failures c) 1, cur_pending := Some Forward\<rparr>"
  have "report_end r e = e\<lparr>cursor := Some ?c\<rparr>"
    using assms Failed by (simp add: report_end_def on_failed_at)
  with assms show thesis by (intro that [of ?c]) (simp_all add: at_item_pending)
qed

lemma drive_sequential:
  assumes "at_item e i pl j c" and "cur_pending c = Some Forward" and "engine_mode e = Sequential"
    and "length (pl_items pl) - Suc j < length rs"
  shows "fst (drive rs e) = drop (Suc j) (ids_of pl) \<and> cursor (snd (drive rs e)) = None"
  using assms
proof (induction rs arbitrary: e j c)
  case Nil
  then show ?case by simp
next
  case (Cons r rs)
  note at = Cons.prems(1) and pend = Cons.prems(2) and seq = Cons.prems(3)
  show ?case
  proof (cases "Suc j < length (pl_items pl)")
    case True
    then have pos: "forward_position e = Some (Suc j)" using forward_position_at [OF at] by simp
    obtain c' where p: "poll e = Returned (e\<lparr>cursor := Some c'\<rparr>, Some (pl_items pl ! Suc j))"
      and at': "at_item (e\<lparr>cursor := Some c'\<rparr>) i pl (Suc j) c'" and none: "cur_pending c' = None"
      using poll_forward [OF at pend pos] by blast
    obtain c'' where "at_item (report_end r (e\<lparr>cursor := Some c'\<rparr>)) i pl (Suc j) c''"
      and "cur_pending c'' = Some Forward"
      and "engine_mode (report_end r (e\<lparr>cursor := Some c'\<rparr>)) = Sequential"
      using report_end_sequential [OF at' none] seq by auto
    from Cons.IH [OF this] Cons.prems(4) True
    have "fst (drive rs (report_end r (e\<lparr>cursor := Some c'\<rparr>))) = drop (Suc (Suc j)) (ids_of pl)
        \<and> cursor (snd (drive rs (report_end r (e\<lparr>cursor := Some c'\<rparr>)))) = None"
      by simp
    moreover have "drop (Suc j) (ids_of pl) = item_id (pl_items pl ! Suc j) # drop (Suc (Suc j)) (ids_of pl)"
      using True by (simp add: ids_of_def Cons_nth_drop_Suc [symmetric])
    ultimately show ?thesis using p by (simp add: case_prod_beta)
  next
    case False
    then have "poll e = Returned (stop e, None)"
      using poll_forward_end [OF at pend] forward_position_at [OF at] seq by simp
    with False show ?thesis by (simp add: ids_of_def)
  qed
qed

lemma drive_idle: "cursor e = None \<Longrightarrow> drive rs e = ([], e)"
  by (cases rs) (simp_all add: poll_def)

lemma wrap_next: "j < n \<Longrightarrow> (if Suc j < n then Suc j else 0) = Suc j mod n"
  by (metis Suc_lessI mod_less mod_self)

lemma upt_shift: "0 < n \<Longrightarrow> [0..<n] = 0 # map Suc [0..<n - 1]"
  by (cases n) (simp_all add: map_Suc_upt upt_conv_Cons del: upt_Suc)

lemma wrap_shift: "Suc (Suc j mod n + m) mod n = Suc (Suc (j + m)) mod n"
  by (metis add_Suc mod_Suc_eq mod_add_left_eq)

lemma ids_of_wrap:
  assumes "j < length (pl_items pl)"
  shows "ids_of pl ! (i mod length (pl_items pl)) = item_id (pl_items pl ! (i mod length (pl_items pl)))"
proof -
  have "i mod length (pl_items pl) < length (pl_items pl)"
    using assms by (intro mod_less_divisor) linarith
  then show ?thesis by (simp add: ids_of_def)
qed

lemma drive_loop_failing:
  assumes "at_item e i pl j c" and "cur_pending c = Some Forward" and "engine_mode e = Loop"
    and "unat (cur_failures c) < length (pl_items pl)" and "length (pl_items pl) < 2 ^ 64"
    and "length (pl_items pl) - unat (cur_failures c) \<le> n"
  shows "fst (drive (replicate n Failed) e)
       = map (\<lambda>m. ids_of pl ! ((Suc j + m) mod length (pl_items pl)))
           [0..<length (pl_items pl) - unat (cur_failures c)]
     \<and> cursor (snd (drive (replicate n Failed) e)) = None"
  using assms
proof (induction n arbitrary: e j c)
  case 0
  then show ?case by simp
next
  case (Suc n)
  let ?len = "length (pl_items pl)" and ?f = "unat (cur_failures c)"
  let ?k = "Suc j mod ?len"
  note at = Suc.prems(1) and pend = Suc.prems(2) and loop = Suc.prems(3)
  have j: "j < ?len" using at by (simp add: at_item_def)
  have pos: "forward_position e = Some ?k"
    using forward_position_at [OF at] wrap_next [OF j] loop by (auto split: if_splits)
  obtain c' where p: "poll e = Returned (e\<lparr>cursor := Some c'\<rparr>, Some (pl_items pl ! ?k))"
    and at': "at_item (e\<lparr>cursor := Some c'\<rparr>) i pl ?k c'" and none: "cur_pending c' = None"
    and f': "cur_failures c' = cur_failures c"
    using poll_forward [OF at pend pos] by blast
  let ?e' = "e\<lparr>cursor := Some c'\<rparr>"
  have sat: "unat (sat_add (cur_failures c') 1) = Suc ?f"
    using Suc.prems(4,5) f' by (simp add: unat_sat_add)
  have k: "item_id (pl_items pl ! ?k) = ids_of pl ! ?k"
    using ids_of_wrap [OF j] by simp
  have step: "drive (replicate (Suc n) Failed) e
      = (ids_of pl ! ?k # fst (drive (replicate n Failed) (on_failed ?e')),
         snd (drive (replicate n Failed) (on_failed ?e')))"
    using p k by (simp add: report_end_def case_prod_beta)
  have upt: "[0..<?len - ?f] = 0 # map Suc [0..<?len - Suc ?f]"
    using Suc.prems(4) by (simp add: map_Suc_upt upt_conv_Cons Suc_diff_Suc)
  show ?case
  proof (cases "?len \<le> Suc ?f")
    case True
    then have "cursor (on_failed ?e') = None"
      using on_failed_at_stop [OF at' none] loop sat by simp
    moreover have "?len - Suc ?f = 0" using True by simp
    ultimately show ?thesis using step upt by (simp add: drive_idle del: drive.simps)
  next
    case False
    let ?c'' = "c'\<lparr>cur_failures := sat_add (cur_failures c') 1, cur_pending := Some Forward\<rparr>"
    have e'': "on_failed ?e' = e\<lparr>cursor := Some ?c''\<rparr>"
      using on_failed_at [OF at' none] sat False by simp
    have at'': "at_item (e\<lparr>cursor := Some ?c''\<rparr>) i pl ?k ?c''"
      using at_item_pending [OF at'] by simp
    have shift: "Suc (?k + m) mod ?len = Suc (Suc (j + m)) mod ?len" for m
      by (rule wrap_shift)
    show ?thesis
      using Suc.IH [OF at''] loop sat False Suc.prems(5,6) step upt
      by (simp add: e'' shift o_def del: upt_Suc)
  qed
qed

lemma drive_loop_finishing:
  assumes "at_item e i pl j c" and "cur_pending c = Some Forward" and "engine_mode e = Loop"
  shows "fst (drive (replicate n Finished) e)
       = map (\<lambda>m. ids_of pl ! ((Suc j + m) mod length (pl_items pl))) [0..<n]
     \<and> cursor (snd (drive (replicate n Finished) e)) \<noteq> None"
  using assms
proof (induction n arbitrary: e j c)
  case 0
  then show ?case by (simp add: at_item_def)
next
  case (Suc n)
  let ?len = "length (pl_items pl)" and ?k = "Suc j mod length (pl_items pl)"
  note at = Suc.prems(1) and pend = Suc.prems(2) and loop = Suc.prems(3)
  have j: "j < ?len" using at by (simp add: at_item_def)
  have pos: "forward_position e = Some ?k"
    using forward_position_at [OF at] wrap_next [OF j] loop by (auto split: if_splits)
  obtain c' where p: "poll e = Returned (e\<lparr>cursor := Some c'\<rparr>, Some (pl_items pl ! ?k))"
    and at': "at_item (e\<lparr>cursor := Some c'\<rparr>) i pl ?k c'" and none: "cur_pending c' = None"
    using poll_forward [OF at pend pos] by blast
  let ?c'' = "c'\<lparr>cur_failures := 0, cur_pending := Some Forward\<rparr>"
  have e'': "on_finished (e\<lparr>cursor := Some c'\<rparr>) = e\<lparr>cursor := Some ?c''\<rparr>"
    using on_finished_at [OF at' none] by simp
  have at'': "at_item (e\<lparr>cursor := Some ?c''\<rparr>) i pl ?k ?c''"
    using at_item_pending [OF at'] by simp
  have k: "item_id (pl_items pl ! ?k) = ids_of pl ! ?k"
    using ids_of_wrap [OF j] by simp
  have shift: "Suc (?k + m) mod ?len = Suc (Suc (j + m)) mod ?len" for m
    by (rule wrap_shift)
  have upt: "[0..<Suc n] = 0 # map Suc [0..<n]"
    by (simp add: map_Suc_upt upt_conv_Cons del: upt_Suc)
  show ?case
    using Suc.IH [OF at''] loop p k upt
    by (simp add: e'' shift o_def report_end_def case_prod_beta del: upt_Suc)
qed

section \<open>From the start\<close>

lemma start_state:
  assumes "playlist (stop e) p = Some pl" and "item_index pl it = Some k"
  shows "start p (Some it) e = ((stop e)\<lparr>engine_mode := Sequential,
            cursor := Some \<lparr>cur_playlist = p, cur_current = None, cur_position = k,
              cur_pending = Some Start, cur_failures = 0, cur_removed = False\<rparr>\<rparr>, True)"
proof -
  have "pl_items pl \<noteq> []" using item_index_lt [OF assms(2)] by auto
  with assms show ?thesis by (simp add: start_def Let_def)
qed

text \<open>The first poll after a start hands out the requested item.\<close>

lemma start_poll:
  assumes inv: "engine_inv e" and pl: "playlist (stop e) p = Some pl"
    and k: "item_index pl it = Some k"
  obtains e' i c where "poll (set_mode m (fst (start p (Some it) e))) = Returned (e', Some (pl_items pl ! k))"
    and "at_item e' i pl k c" and "cur_pending c = None" and "cur_failures c = 0"
    and "engine_mode e' = m" and "playlists e' = playlists (stop e)"
    and "e' = set_mode m ((stop e)\<lparr>cursor := Some c\<rparr>)"
proof -
  let ?e = "set_mode m (fst (start p (Some it) e))"
  let ?c = "\<lparr>cur_playlist = p, cur_current = Some (item_id (pl_items pl ! k)), cur_position = k,
              cur_pending = None, cur_failures = 0, cur_removed = False\<rparr>"
  obtain i where i: "i < length (playlists (stop e))" "playlists (stop e) ! i = pl"
    "playlist_index (stop e) p = Some i"
    using playlist_Some [OF pl] by blast
  have d: "distinct (ids_of pl)"
    using engine_inv_distinct [OF stop_inv [OF inv] i(1)] i(2) by simp
  have lt: "k < length (pl_items pl)" using item_index_lt [OF k] .
  have idx: "playlist_index ?e p = Some i"
    using i(3) start_state [OF pl k] by (simp add: set_mode_def playlist_index_def)
  have "poll ?e = Returned (?e\<lparr>cursor := Some ?c\<rparr>, Some (pl_items pl ! k))"
    using start_state [OF pl k] idx lt i(2)
    by (simp add: poll_def target_position_def set_mode_def Let_def)
  moreover have "at_item (?e\<lparr>cursor := Some ?c\<rparr>) i pl k ?c"
    using idx d lt i(2) start_state [OF pl k]
    by (simp add: at_item_def ids_of_def playlist_index_def set_mode_def)
  ultimately show thesis
    using start_state [OF pl k] by (intro that [of "?e\<lparr>cursor := Some ?c\<rparr>" i ?c]) (simp_all add: set_mode_def)
qed

lemma set_mode_start:
  assumes "playlist (stop e) p = Some pl" and "item_index pl it = Some k"
  shows "set_mode Sequential (fst (start p (Some it) e)) = fst (start p (Some it) e)"
  using start_state [OF assms] by (simp add: set_mode_def)

section \<open>A concrete engine\<close>

text \<open>A named playlist of three items, built through the engine's own operations.\<close>

definition sample_ops :: "nat op list" where
  "sample_ops = [Create (Some ''mix''), Append (PlaylistId 1) (item_spec_new ''a'' 10),
     Append (PlaylistId 1) (item_spec_new ''b'' 20), Append (PlaylistId 1) (item_spec_new ''c'' 30)]"

definition sample :: "nat engine" where
  "sample = foldl exec engine_new sample_ops"

definition sample_playlist :: "nat playlist" where
  "sample_playlist = \<lparr>pl_id = PlaylistId 1, pl_name = Some ''mix'',
     pl_items = [item_of_spec (ItemId 1) (item_spec_new ''a'' 10),
       item_of_spec (ItemId 2) (item_spec_new ''b'' 20),
       item_of_spec (ItemId 3) (item_spec_new ''c'' 30)],
     content_revision = 3, structure_revision = 0, last_saved_revision = 0\<rparr>"

lemma foldl_exec_inv:
  "engine_inv e \<Longrightarrow> list_all (admits e) as \<Longrightarrow> engine_inv (foldl exec e as)"
proof -
  assume inv: "engine_inv e" and ok: "list_all (admits e) as"
  have "admits t a" if "admits e a" for t :: "'a engine" and a
    using that by (cases a) auto
  from player.run_invar [OF inv player.admitted_stateless [OF this ok]]
  show ?thesis by (simp add: player.run_foldl)
qed

lemma sample_inv: "engine_inv sample"
  unfolding sample_def by (rule foldl_exec_inv) (simp_all add: engine_inv_new sample_ops_def)

lemma sample_stored: "playlist (stop sample) (PlaylistId 1) = Some sample_playlist"
  by code_simp

section \<open>Properties\<close>

text \<open>
  C1: whatever operations a host performs on a new engine, in any order, playlist ids and item
  ids stay unique and below the mint, revisions stay ordered, and the cursor points at a stored
  playlist and knows whether its item was removed.
\<close>

theorem engine_invariant:
  assumes "list_all (admits engine_new) ops"
  shows "engine_inv (foldl exec engine_new ops)"
  using foldl_exec_inv [OF engine_inv_new assms] .

theorem engine_invariant_witness:
  "engine_inv (foldl exec engine_new (sample_ops @ [StartAt (PlaylistId 1) None, Poll,
      Edit (PlaylistId 1) (ItemId 2) (\<lambda>it. it\<lparr>title := ''x''\<rparr>), Remove (PlaylistId 1) (ItemId 1), OnFinished]))"
  by (rule engine_invariant) (simp add: sample_ops_def)

text \<open>
  C2: in sequential mode, playback started at an item hands the host that item and then every
  later one in playlist order, each once, however each playback ended, and then stops.
\<close>

theorem sequential_plays_in_order:
  assumes inv: "engine_inv e" and pl: "playlist (stop e) p = Some pl"
    and k: "item_index pl it = Some k" and n: "length (pl_items pl) - k < length rs"
  shows "fst (drive rs (fst (start p (Some it) e))) = drop k (ids_of pl)
       \<and> \<not> is_playing (snd (drive rs (fst (start p (Some it) e))))"
proof -
  let ?e = "fst (start p (Some it) e)"
  obtain r rs' where rs: "rs = r # rs'" using n by (cases rs) auto
  obtain e' i c where poll: "poll ?e = Returned (e', Some (pl_items pl ! k))"
    and at: "at_item e' i pl k c" and none: "cur_pending c = None" and seq: "engine_mode e' = Sequential"
    using start_poll [OF inv pl k, of Sequential] set_mode_start [OF pl k] by metis
  obtain c' where at': "at_item (report_end r e') i pl k c'" "cur_pending c' = Some Forward"
    "engine_mode (report_end r e') = Sequential"
    using report_end_sequential [OF at none seq] by blast
  have lt: "k < length (pl_items pl)" using item_index_lt [OF k] .
  then have "drop k (ids_of pl) = item_id (pl_items pl ! k) # drop (Suc k) (ids_of pl)"
    by (simp add: ids_of_def Cons_nth_drop_Suc [symmetric])
  then show ?thesis
    using drive_sequential [OF at', of rs'] n rs poll lt by (simp add: case_prod_beta is_playing_def)
qed

theorem sequential_plays_in_order_witness:
  "fst (drive [Finished, Failed, Finished] (fst (start (PlaylistId 1) (Some (ItemId 2)) sample)))
     = [ItemId 2, ItemId 3]"
proof -
  have k: "item_index sample_playlist (ItemId 2) = Some 1" by code_simp
  have "drop 1 (ids_of sample_playlist) = [ItemId 2, ItemId 3]"
    by (simp add: ids_of_def sample_playlist_def item_of_spec_def)
  then show ?thesis
    using sequential_plays_in_order [OF sample_inv sample_stored k, of "[Finished, Failed, Finished]"]
    by (simp add: sample_playlist_def)
qed

text \<open>
  In loop mode, playback in which every item finishes never ends: after any number of
  finished items the engine has handed out the playlist cyclically from the starting item and is
  still playing.
\<close>

theorem loop_cycles:
  assumes inv: "engine_inv e" and pl: "playlist (stop e) p = Some pl"
    and k: "item_index pl it = Some k"
  shows "fst (drive (replicate n Finished) (set_mode Loop (fst (start p (Some it) e))))
       = map (\<lambda>m. ids_of pl ! ((k + m) mod length (pl_items pl))) [0..<n]
     \<and> is_playing (snd (drive (replicate n Finished) (set_mode Loop (fst (start p (Some it) e)))))"
proof (cases n)
  case 0
  then show ?thesis using start_state [OF pl k] by (simp add: is_playing_def set_mode_def)
next
  case (Suc m)
  let ?e = "set_mode Loop (fst (start p (Some it) e))"
  obtain e' i c where poll: "poll ?e = Returned (e', Some (pl_items pl ! k))"
    and at: "at_item e' i pl k c" and none: "cur_pending c = None" and loop: "engine_mode e' = Loop"
    using start_poll [OF inv pl k, of Loop] by metis
  let ?c = "c\<lparr>cur_failures := 0, cur_pending := Some Forward\<rparr>"
  have lt: "k < length (pl_items pl)" using item_index_lt [OF k] .
  have upt: "[0..<n] = 0 # map Suc [0..<m]"
    using Suc by (simp add: map_Suc_upt upt_conv_Cons del: upt_Suc)
  have rest: "fst (drive (replicate m Finished) (e'\<lparr>cursor := Some ?c\<rparr>))
        = map (\<lambda>l. ids_of pl ! (Suc (k + l) mod length (pl_items pl))) [0..<m]
      \<and> cursor (snd (drive (replicate m Finished) (e'\<lparr>cursor := Some ?c\<rparr>))) \<noteq> None"
    using drive_loop_finishing [OF at_item_pending [OF at, where n = 0 and a = "Some Forward"], of m] loop by simp
  then show ?thesis
    using poll Suc lt upt on_finished_at [OF at none]
    by (simp add: report_end_def is_playing_def case_prod_beta o_def ids_of_def del: upt_Suc)
qed

theorem loop_cycles_witness:
  "fst (drive (replicate 4 Finished) (set_mode Loop (fst (start (PlaylistId 1) (Some (ItemId 2)) sample))))
     = [ItemId 2, ItemId 3, ItemId 1, ItemId 2]"
proof -
  have k: "item_index sample_playlist (ItemId 2) = Some 1" by code_simp
  have "map (\<lambda>m. ids_of sample_playlist ! ((1 + m) mod length (pl_items sample_playlist))) [0..<4]
     = [ItemId 2, ItemId 3, ItemId 1, ItemId 2]"
    by code_simp
  then show ?thesis using loop_cycles [OF sample_inv sample_stored k, of 4] by simp
qed

text \<open>
  In loop mode, a playlist none of whose items can be played is given up after each of its
  items has been tried exactly once, however many failures the host goes on to report.
\<close>

theorem loop_gives_up:
  assumes inv: "engine_inv e" and pl: "playlist (stop e) p = Some pl"
    and k: "item_index pl it = Some k" and small: "length (pl_items pl) < 2 ^ 64"
    and n: "length (pl_items pl) \<le> n"
  shows "fst (drive (replicate n Failed) (set_mode Loop (fst (start p (Some it) e))))
       = map (\<lambda>m. ids_of pl ! ((k + m) mod length (pl_items pl))) [0..<length (pl_items pl)]
     \<and> \<not> is_playing (snd (drive (replicate n Failed) (set_mode Loop (fst (start p (Some it) e)))))"
proof -
  let ?e = "set_mode Loop (fst (start p (Some it) e))" and ?len = "length (pl_items pl)"
  have lt: "k < ?len" using item_index_lt [OF k] .
  obtain m where m: "n = Suc m" using n lt by (cases n) auto
  obtain e' i c where poll: "poll ?e = Returned (e', Some (pl_items pl ! k))"
    and at: "at_item e' i pl k c" and none: "cur_pending c = None" and zero: "cur_failures c = 0"
    and loop: "engine_mode e' = Loop"
    using start_poll [OF inv pl k, of Loop] by metis
  have sat: "unat (sat_add (cur_failures c) 1) = 1" by (simp add: zero unat_sat_add)
  have upt: "[0..<?len] = 0 # map Suc [0..<?len - 1]"
    using lt by (intro upt_shift) linarith
  show ?thesis
  proof (cases "?len \<le> 1")
    case True
    then have "cursor (on_failed e') = None" using on_failed_at_stop [OF at none loop] sat by simp
    with True lt m poll upt show ?thesis
      by (simp add: report_end_def is_playing_def drive_idle ids_of_def)
  next
    case False
    let ?c = "c\<lparr>cur_failures := sat_add (cur_failures c) 1, cur_pending := Some Forward\<rparr>"
    have "on_failed e' = e'\<lparr>cursor := Some ?c\<rparr>" using on_failed_at [OF at none] sat False by simp
    moreover have "fst (drive (replicate m Failed) (e'\<lparr>cursor := Some ?c\<rparr>))
        = map (\<lambda>l. ids_of pl ! (Suc (k + l) mod ?len)) [0..<?len - 1]
      \<and> cursor (snd (drive (replicate m Failed) (e'\<lparr>cursor := Some ?c\<rparr>))) = None"
      using drive_loop_failing [OF at_item_pending [OF at, where n = "sat_add (cur_failures c) 1" and a = "Some Forward"], of m]
        loop sat False small n m by simp
    ultimately show ?thesis
      using poll m lt upt by (simp add: report_end_def is_playing_def case_prod_beta o_def ids_of_def)
  qed
qed

theorem loop_gives_up_witness:
  "fst (drive (replicate 9 Failed) (set_mode Loop (fst (start (PlaylistId 1) (Some (ItemId 2)) sample))))
     = [ItemId 2, ItemId 3, ItemId 1]"
proof -
  have k: "item_index sample_playlist (ItemId 2) = Some 1" by code_simp
  have "map (\<lambda>m. ids_of sample_playlist ! ((1 + m) mod length (pl_items sample_playlist)))
       [0..<length (pl_items sample_playlist)] = [ItemId 2, ItemId 3, ItemId 1]"
    by code_simp
  then show ?thesis
    using loop_gives_up [OF sample_inv sample_stored k, of 9] by (simp add: sample_playlist_def)
qed

text \<open>
  A poll indexes past the end of the item list exactly when the pending move is backward, the
  current item has been removed, and its remembered position is beyond the end of what is left.
\<close>

theorem poll_panics_iff:
  "poll e = Panic \<longleftrightarrow> (\<exists>c pl. cursor e = Some c \<and> cur_pending c = Some Backward
     \<and> playlist e (cur_playlist c) = Some pl \<and> current_index c pl = None
     \<and> length (pl_items pl) < cur_position c)"
proof
  assume "poll e = Panic"
  then obtain c a i pos where c: "cursor e = Some c" "cur_pending c = Some a"
    and t: "target_position a e = Some (i, pos)" and i: "playlist_index e (cur_playlist c) = Some i"
    and le: "length (pl_items (playlists e ! i)) \<le> pos"
    by (cases rule: poll_cases [of e]) auto
  have a: "a = Backward" using target_position_bound [OF t] le by fastforce
  let ?pl = "playlists e ! i"
  have prev: "previous_position e = Some pos"
    using t a c i by (auto simp: target_position_def split: option.splits)
  then have "current_index c ?pl = None" and "pos < cur_position c"
    using c playlist_index_Some [OF i] le current_index_lt [of c ?pl]
    by (auto simp: previous_position_def Let_def split: option.splits if_splits)
  with c a le playlist_index_Some [OF i] show "\<exists>c pl. cursor e = Some c \<and> cur_pending c = Some Backward
     \<and> playlist e (cur_playlist c) = Some pl \<and> current_index c pl = None
     \<and> length (pl_items pl) < cur_position c"
    by fastforce
next
  assume "\<exists>c pl. cursor e = Some c \<and> cur_pending c = Some Backward
     \<and> playlist e (cur_playlist c) = Some pl \<and> current_index c pl = None
     \<and> length (pl_items pl) < cur_position c"
  then obtain c pl where *: "cursor e = Some c" "cur_pending c = Some Backward"
    "playlist e (cur_playlist c) = Some pl" "current_index c pl = None"
    "length (pl_items pl) < cur_position c" by blast
  then obtain i where i: "playlist_index e (cur_playlist c) = Some i" "playlists e ! i = pl"
    using playlist_Some by blast
  have "previous_position e = Some (cur_position c - 1)"
    using * by (simp add: previous_position_def)
  moreover have "\<not> cur_position c - 1 < length (pl_items pl)" using *(5) by linarith
  ultimately show "poll e = Panic" using * i by (simp add: poll_def target_position_def)
qed


text \<open>The position of the item list after a successful move.\<close>

lemma removeAll_at: "distinct xs \<Longrightarrow> i < length xs \<Longrightarrow> removeAll (xs ! i) xs = remove_at i xs"
proof -
  assume d: "distinct xs" and i: "i < length xs"
  have xs: "xs = take i xs @ xs ! i # drop (Suc i) xs" using id_take_nth_drop [OF i] .
  have "xs ! i \<notin> set (take i xs)" "xs ! i \<notin> set (drop (Suc i) xs)"
    using d xs by (metis distinct_append distinct.simps(2) disjoint_iff list.set_intros(1))+
  then show ?thesis using xs by (metis remove_at_def removeAll.simps(2) removeAll_append removeAll_id)
qed

lemma removeAll_insert_at: "x \<notin> set xs \<Longrightarrow> removeAll x (insert_at i x xs) = xs"
proof -
  assume "x \<notin> set xs"
  then have "removeAll x (take i xs) = take i xs" "removeAll x (drop i xs) = drop i xs"
    by (metis in_set_takeD removeAll_id, metis in_set_dropD removeAll_id)
  then show ?thesis by (simp add: insert_at_def)
qed

lemma removeAll_relocate:
  assumes "distinct xs" and "src < length xs"
  shows "removeAll (xs ! src) (relocate src k xs) = removeAll (xs ! src) xs"
  using assms by (simp add: relocate_def removeAll_at removeAll_insert_at remove_at_notin)

text \<open>
  The anchor sits at position \<open>a\<close>; after the removal of the moved item it sits just before the
  adjusted destination.
\<close>

lemma remove_at_anchor:
  assumes "src < length xs" and "a < length xs" and "src \<noteq> a"
  defines "adj \<equiv> (if src < Suc a then a else Suc a)"
  shows "0 < adj" and "adj \<le> length (remove_at src xs)" and "remove_at src xs ! (adj - 1) = xs ! a"
  using assms by (auto simp: length_remove_at nth_remove_at)

lemma insert_at_after:
  assumes "0 < k" and "k \<le> length ys"
  shows "\<exists>us vs. insert_at k x ys = us @ ys ! (k - 1) # x # vs"
proof -
  have "take k ys = take (k - 1) ys @ [ys ! (k - 1)]"
    using assms take_Suc_conv_app_nth [of "k - 1" ys] by simp
  then have "insert_at k x ys = take (k - 1) ys @ ys ! (k - 1) # x # drop k ys"
    by (simp add: insert_at_def)
  then show ?thesis by blast
qed

lemma playlist_index_map: "playlist_index e p = position (\<lambda>i. i = p) (map pl_id (playlists e))"
  by (simp add: playlist_index_def position_map comp_def)

lemma move_item_True:
  assumes "move_item p it after e = (e', True)"
  obtains i src where "playlist_index e p = Some i" and "item_index (playlists e ! i) it = Some src"
    and "after \<noteq> Some it"
    and "after = None \<Longrightarrow> ids_of (playlists e' ! i) = relocate src 0 (ids_of (playlists e ! i))"
    and "\<And>a. after = Some a \<Longrightarrow> \<exists>d. item_index (playlists e ! i) a = Some d
      \<and> ids_of (playlists e' ! i) = relocate src (if src < Suc d then d else Suc d) (ids_of (playlists e ! i))"
    and "playlist_index e' p = Some i"
proof -
  from assms obtain i src where i: "playlist_index e p = Some i"
    and src: "item_index (playlists e ! i) it = Some src" and ne: "after \<noteq> Some it"
    by (auto simp: move_item_def split: if_splits option.splits)
  note lt = playlist_index_lt [OF i] and slt = item_index_lt [OF src]
  have idx: "playlist_index e' p = Some i"
  proof -
    have "map pl_id (playlists e') = map pl_id (playlists e)"
      using assms i src ne lt
      by (auto simp: move_item_def Let_def map_update split: if_splits option.splits)
        (metis list_update_id map_update touch_playlist_frame(4) nth_map)+
    then show ?thesis using i by (simp add: playlist_index_map)
  qed
  show thesis
  proof (rule that [OF i src ne _ _ idx])
    assume "after = None"
    with assms i src lt slt show "ids_of (playlists e' ! i) = relocate src 0 (ids_of (playlists e ! i))"
      by (auto simp: move_item_def Let_def map_relocate ids_of_def split: if_splits)
  next
    fix a assume a: "after = Some a"
    with assms i src ne obtain d where d: "item_index (playlists e ! i) a = Some d"
      by (auto simp: move_item_def split: if_splits option.splits)
    from assms a i src ne d lt slt
    have "ids_of (playlists e' ! i) = relocate src (if src < Suc d then d else Suc d) (ids_of (playlists e ! i))"
      by (auto simp: move_item_def Let_def map_relocate ids_of_def split: if_splits)
    with d show "\<exists>d. item_index (playlists e ! i) a = Some d
      \<and> ids_of (playlists e' ! i) = relocate src (if src < Suc d then d else Suc d) (ids_of (playlists e ! i))"
      by blast
  qed
qed

text \<open>
  A move puts the item at the front, or immediately after the anchor, and leaves every other
  item where it was relative to the rest.
\<close>

theorem move_item_places:
  assumes inv: "engine_inv e" and move: "move_item p it after e = (e', True)"
  shows "\<exists>pl pl'. playlist e p = Some pl \<and> playlist e' p = Some pl'
     \<and> removeAll it (ids_of pl') = removeAll it (ids_of pl)
     \<and> (case after of None \<Rightarrow> \<exists>vs. ids_of pl' = it # vs
        | Some a \<Rightarrow> \<exists>us vs. ids_of pl' = us @ a # it # vs)"
proof -
  obtain i src where i: "playlist_index e p = Some i" and src: "item_index (playlists e ! i) it = Some src"
    and ne: "after \<noteq> Some it"
    and front: "after = None \<Longrightarrow> ids_of (playlists e' ! i) = relocate src 0 (ids_of (playlists e ! i))"
    and anchored: "\<And>a. after = Some a \<Longrightarrow> \<exists>d. item_index (playlists e ! i) a = Some d
      \<and> ids_of (playlists e' ! i) = relocate src (if src < Suc d then d else Suc d) (ids_of (playlists e ! i))"
    and i': "playlist_index e' p = Some i"
    using move_item_True [OF move] by metis
  let ?ids = "ids_of (playlists e ! i)"
  have d: "distinct ?ids" using engine_inv_distinct [OF inv playlist_index_lt [OF i]] .
  have lt: "src < length ?ids" and at: "?ids ! src = it"
    using item_index_lt [OF src] item_index_id [OF src] by (simp_all add: ids_of_def)
  have keep: "removeAll it (relocate src k ?ids) = removeAll it ?ids" for k
    using removeAll_relocate [OF d lt] at by simp
  show ?thesis
  proof (cases "after")
    case None
    then have "ids_of (playlists e' ! i) = it # remove_at src ?ids"
      using front at by (simp add: relocate_def insert_at_def)
    then have "\<exists>vs. ids_of (playlists e' ! i) = it # vs" by blast
    moreover have "removeAll it (ids_of (playlists e' ! i)) = removeAll it ?ids"
      using front [OF None] keep by simp
    ultimately show ?thesis using None
      by (simp add: playlist_index_Some [OF i] playlist_index_Some [OF i'])
  next
    case (Some a)
    then obtain k where k: "item_index (playlists e ! i) a = Some k"
      and ids': "ids_of (playlists e' ! i) = relocate src (if src < Suc k then k else Suc k) ?ids"
      using anchored by blast
    have klt: "k < length ?ids" and kat: "?ids ! k = a"
      using item_index_lt [OF k] item_index_id [OF k] by (simp_all add: ids_of_def)
    have "src \<noteq> k" using ne Some at kat by auto
    from remove_at_anchor [OF lt klt this] insert_at_after
    have "\<exists>us vs. ids_of (playlists e' ! i) = us @ a # it # vs"
      unfolding ids' relocate_def using at kat by metis
    with Some keep ids' show ?thesis
      by (simp add: playlist_index_Some [OF i] playlist_index_Some [OF i'])
  qed
qed

theorem move_item_places_witness:
  "\<exists>pl. playlist (fst (move_item (PlaylistId 1) (ItemId 1) (Some (ItemId 2)) sample)) (PlaylistId 1) = Some pl
     \<and> (\<exists>us vs. ids_of pl = us @ ItemId 2 # ItemId 1 # vs)"
proof -
  have "snd (move_item (PlaylistId 1) (ItemId 1) (Some (ItemId 2)) sample) = True" by code_simp
  then have "move_item (PlaylistId 1) (ItemId 1) (Some (ItemId 2)) sample
      = (fst (move_item (PlaylistId 1) (ItemId 1) (Some (ItemId 2)) sample), True)"
    by (metis prod.collapse)
  from move_item_places [OF sample_inv this] show ?thesis by auto
qed

text \<open>
  Acknowledging the save of revision \<open>r\<close> leaves the playlist clean exactly when nothing
  changed after that revision was serialized, and a revision that does not exist yet is refused.
\<close>

theorem mark_revision_saved_late:
  assumes inv: "engine_inv e" and pl: "playlist e p = Some pl"
  shows "\<exists>e' pl'. mark_revision_saved p r e = (e', r \<le> content_revision pl)
     \<and> playlist e' p = Some pl' \<and> pl_items pl' = pl_items pl
     \<and> (is_dirty pl' \<longleftrightarrow> is_dirty pl \<and> r \<noteq> content_revision pl)"
proof -
  obtain i where i: "i < length (playlists e)" "playlists e ! i = pl" "playlist_index e p = Some i"
    using playlist_Some [OF pl] by blast
  have ok: "last_saved_revision pl \<le> content_revision pl"
    using engine_inv_ok [OF inv i(1)] i(2) by (simp add: playlist_ok_def)
  show ?thesis
  proof (cases "r \<le> content_revision pl")
    case False
    then have "mark_revision_saved p r e = (e, False)" and "r \<noteq> content_revision pl"
      using i by (auto simp: mark_revision_saved_def)
    with False pl show ?thesis by simp
  next
    case True
    let ?q = "pl\<lparr>last_saved_revision := max (last_saved_revision pl) r\<rparr>"
    let ?e = "update_playlist i (\<lambda>pl. pl\<lparr>last_saved_revision := max (last_saved_revision pl) r\<rparr>) e"
    have m: "mark_revision_saved p r e = (?e, True)"
      using True i by (simp add: mark_revision_saved_def)
    have "map pl_id (playlists ?e) = map pl_id (playlists e)"
      using i by (simp add: map_update) (metis list_update_id nth_map)
    then have "playlist_index ?e p = Some i" using i(3) by (simp add: playlist_index_map)
    then have "playlist ?e p = Some ?q" using i by (simp add: playlist_index_Some)
    moreover have "is_dirty ?q \<longleftrightarrow> is_dirty pl \<and> r \<noteq> content_revision pl"
      using ok True by (auto simp: is_dirty_def max_def)
    ultimately show ?thesis using m True by auto
  qed
qed

theorem mark_revision_saved_late_witness:
  "\<exists>pl'. playlist (fst (mark_revision_saved (PlaylistId 1) 2 sample)) (PlaylistId 1) = Some pl' \<and> is_dirty pl'"
proof -
  have "playlist sample (PlaylistId 1) = Some sample_playlist" by code_simp
  from mark_revision_saved_late [OF sample_inv this, of 2] show ?thesis
    by (auto simp: is_dirty_def sample_playlist_def)
qed

text \<open>
  When the item being played is removed, the next forward poll hands out the item that
  followed it, which has taken its place in the list.
\<close>

theorem removed_item_successor:
  assumes inv: "engine_inv e" and pl: "playlist (stop e) p = Some pl"
    and k: "item_index pl it = Some k" and more: "Suc k < length (pl_items pl)"
    and first: "poll (fst (start p (Some it) e)) = Returned (e1, Some x)"
  shows "item_id x = it \<and>
    (\<exists>e2. poll (on_finished (fst (remove_item p it e1))) = Returned (e2, Some (pl_items pl ! Suc k)))"
proof -
  obtain e' i c where poll: "poll (fst (start p (Some it) e)) = Returned (e', Some (pl_items pl ! k))"
    and at: "at_item e' i pl k c" and none: "cur_pending c = None"
    and st: "playlists e' = playlists (stop e)" and e': "e' = set_mode Sequential ((stop e)\<lparr>cursor := Some c\<rparr>)"
    using start_poll [OF inv pl k, of Sequential] set_mode_start [OF pl k] by metis
  have eq: "e1 = e'" "x = pl_items pl ! k" using poll first by simp_all
  have it: "item_id (pl_items pl ! k) = it" using item_index_id [OF k] .
  have p: "cur_playlist c = p"
  proof -
    have "playlist_index e' (cur_playlist c) = Some i" and "playlists e' ! i = pl"
      using at by (simp_all add: at_item_def)
    then show ?thesis using playlist_index_id playlist_Some [OF pl] by metis
  qed
  have c: "cursor e' = Some c" "cur_current c = Some it" "playlist_index e' p = Some i" "playlists e' ! i = pl"
    using at p it item_index_lt [OF k] by (simp_all add: at_item_def ids_of_def)
  let ?c1 = "c\<lparr>cur_position := k, cur_failures := 0, cur_removed := True\<rparr>"
  let ?q = "touch_structure (pl\<lparr>pl_items := remove_at k (pl_items pl)\<rparr>)"
  let ?e1 = "fst (remove_item p it e')"
  have r: "cursor ?e1 = Some ?c1" "playlists ?e1 = (playlists e')[i := ?q]"
    using c p k by (simp_all add: remove_item_def Let_def)
  have lt: "i < length (playlists e')" using playlist_index_lt [OF c(3)] .
  let ?e2 = "on_finished ?e1"
  let ?c2 = "?c1\<lparr>cur_failures := 0, cur_pending := Some Forward\<rparr>"
  have f: "cursor ?e2 = Some ?c2" "playlists ?e2 = (playlists e')[i := ?q]"
    using r c none by (simp_all add: on_finished_def)
  have "map pl_id (playlists ?e2) = map pl_id (playlists e')"
    using f(2) lt c(4) by (simp add: map_update) (metis list_update_id nth_map touch_playlist_frame(4))
  then have idx: "playlist_index ?e2 p = Some i" using c(3) by (simp add: playlist_index_map)
  have at_i: "playlists ?e2 ! i = ?q" using f(2) lt by simp
  have d: "distinct (ids_of pl)" using at by (simp add: at_item_def)
  have klt: "k < length (pl_items pl)" using more by simp
  have gone: "item_index ?q it = None"
  proof -
    have "ids_of ?q = remove_at k (ids_of pl)" by (simp add: ids_of_def map_remove_at)
    moreover have "ids_of pl ! k = it" using klt it by (simp add: ids_of_def)
    ultimately show ?thesis
      using remove_at_notin [OF d, of k] klt by (simp add: item_index_None ids_of_def)
  qed
  have len: "k < length (pl_items ?q)" using more klt by (simp add: length_remove_at)
  then have ne: "pl_items ?q \<noteq> []" by auto
  have "forward_position ?e2 = Some k"
    using f(1) idx at_i gone len ne c(2) p
    by (simp add: forward_position_def playlist_index_Some current_index_def Let_def)
  then have "target_position Forward ?e2 = Some (i, k)"
    using f(1) idx p by (simp add: target_position_def)
  moreover have "pl_items ?q ! k = pl_items pl ! Suc k"
    using more klt by (simp add: nth_remove_at)
  ultimately have "\<exists>e2. poll ?e2 = Returned (e2, Some (pl_items pl ! Suc k))"
    using f(1) at_i len by (simp add: poll_def Let_def)
  then show ?thesis using eq it by simp
qed

theorem removed_item_successor_witness:
  "\<exists>e2 x. poll (on_finished (fst (remove_item (PlaylistId 1) (ItemId 2)
      (exec (fst (start (PlaylistId 1) (Some (ItemId 2)) sample)) Poll)))) = Returned (e2, Some x)
    \<and> item_id x = ItemId 3"
proof -
  let ?e1 = "exec (fst (start (PlaylistId 1) (Some (ItemId 2)) sample)) Poll"
  have k: "item_index sample_playlist (ItemId 2) = Some 1" by code_simp
  have more: "Suc 1 < length (pl_items sample_playlist)" by code_simp
  obtain e1 x where p: "poll (fst (start (PlaylistId 1) (Some (ItemId 2)) sample)) = Returned (e1, Some x)"
    using start_poll [OF sample_inv sample_stored k, of Sequential] set_mode_start [OF sample_stored k]
    by metis
  then have e1: "?e1 = e1" by simp
  from removed_item_successor [OF sample_inv sample_stored k more p]
  show ?thesis unfolding e1 by (auto simp: sample_playlist_def item_of_spec_def)
qed

lemma wire_of_number_items [simp]: "map wire_of_item (number_items n ws) = ws"
  by (induction ws arbitrary: n) (simp_all add: wire_of_item_def item_of_wire_def)



end
