(* ===== verification/Digest.thy ===== *)
theory Digest
  imports Prelude
begin

text \<open>
  Artifact digests, \<open>crates/updater/src/transport/digest.rs\<close>, with the third-party functions the
  updater computes them with: the \<open>hex\<close> and \<open>sha2\<close> crates are the fields of the record \<open>lib\<close>
  that every definition using them takes as an argument, and \<open>lib_ok\<close> is what their
  documentation promises. Strings are lists of bytes, as Rust's are.
\<close>

section \<open>Third-party functions\<close>

record lib =
  hex_decode :: "string \<Rightarrow> bytes option"  \<comment> \<open>\<open>hex::decode_to_slice\<close> into 32 bytes\<close>
  hex_encode :: "bytes \<Rightarrow> string"  \<comment> \<open>\<open>hex::encode\<close>\<close>
  sha256 :: "bytes \<Rightarrow> bytes"  \<comment> \<open>\<open>Sha256::digest\<close>\<close>

section \<open>Lowercase hex\<close>

text \<open>What \<open>{byte:02x}\<close> prints.\<close>

definition hex_digits :: string where "hex_digits = ''0123456789abcdef''"

definition hex_byte :: "u8 \<Rightarrow> string" where
  "hex_byte b = [hex_digits ! (unat b div 16), hex_digits ! (unat b mod 16)]"

definition to_hex :: "bytes \<Rightarrow> string" where
  "to_hex bs = concat (map hex_byte bs)"

definition is_lower_hex :: "char \<Rightarrow> bool" where
  "is_lower_hex c \<longleftrightarrow> c \<in> set hex_digits"

text \<open>The value of a hex digit of either case.\<close>

definition hex_value :: "char \<Rightarrow> nat option" where
  "hex_value c = (case position (\<lambda>d. d = c) hex_digits of
       Some v \<Rightarrow> Some v
     | None \<Rightarrow> position (\<lambda>d. d = c) ''0123456789ABCDEF'')"

fun unhex :: "string \<Rightarrow> bytes option" where
  "unhex [] = Some []"
| "unhex [c] = None"
| "unhex (c # d # cs) = (case hex_value c of None \<Rightarrow> None
     | Some hi \<Rightarrow> (case hex_value d of None \<Rightarrow> None
       | Some lo \<Rightarrow> map_option ((#) (of_nat (16 * hi + lo))) (unhex cs)))"

definition lib_ok :: "lib \<Rightarrow> bool" where
  "lib_ok l \<longleftrightarrow>
     (\<forall>s. hex_decode l s = (if length s = 64 then unhex s else None))
     \<and> (\<forall>bs. hex_encode l bs = to_hex bs)
     \<and> (\<forall>bs. length (sha256 l bs) = 32)"

section \<open>The digest type\<close>

datatype ArtifactDigest = ArtifactDigest (as_bytes: bytes)

definition digest_from_hex :: "lib \<Rightarrow> string \<Rightarrow> string + ArtifactDigest" where
  "digest_from_hex l s = (case hex_decode l s of None \<Rightarrow> Inl s | Some bs \<Rightarrow> Inr (ArtifactDigest bs))"

definition digest_to_string :: "ArtifactDigest \<Rightarrow> string" where
  "digest_to_string d = concat (map hex_byte (as_bytes d))"

section \<open>Reading back\<close>

lemma hex_digits_length [simp]: "length hex_digits = 16"
  by (simp add: hex_digits_def)

lemma hex_value_digit: "i < 16 \<Longrightarrow> hex_value (hex_digits ! i) = Some i"
proof -
  assume "i < 16"
  have "distinct (map id hex_digits)" by (simp add: hex_digits_def)
  from position_distinct [OF this, of i] \<open>i < 16\<close>
  show ?thesis by (simp add: hex_value_def)
qed

lemma unhex_to_hex [simp]: "unhex (to_hex bs) = Some bs"
proof (induction bs)
  case Nil
  then show ?case by (simp add: to_hex_def)
next
  case (Cons b bs)
  have "unat b < 256" using unsigned_less [of b, where 'a = nat] by simp
  then have "hex_value (hex_digits ! (unat b div 16)) = Some (unat b div 16)"
    and "hex_value (hex_digits ! (unat b mod 16)) = Some (unat b mod 16)"
    by (auto intro!: hex_value_digit)
  moreover have "(of_nat (16 * (unat b div 16) + unat b mod 16) :: u8) = b" by simp
  ultimately show ?case using Cons by (simp add: to_hex_def hex_byte_def)
qed

lemma length_to_hex [simp]: "length (to_hex bs) = 2 * length bs"
  by (induction bs) (simp_all add: to_hex_def hex_byte_def)

lemma to_hex_lower: "c \<in> set (to_hex bs) \<Longrightarrow> is_lower_hex c"
proof (induction bs)
  case Nil
  then show ?case by (simp add: to_hex_def)
next
  case (Cons b bs)
  have "unat b < 256" using unsigned_less [of b, where 'a = nat] by simp
  then have "unat b div 16 < length hex_digits" "unat b mod 16 < length hex_digits" by auto
  then have "set (hex_byte b) \<subseteq> set hex_digits" by (simp add: hex_byte_def)
  with Cons show ?case by (auto simp: to_hex_def is_lower_hex_def)
qed

definition digest_ok :: "ArtifactDigest \<Rightarrow> bool" where
  "digest_ok d \<longleftrightarrow> length (as_bytes d) = 32"

lemma digest_to_string_hex: "digest_to_string d = to_hex (as_bytes d)"
  by (simp add: digest_to_string_def to_hex_def)

text \<open>The code's printer and the crate's parser are a codec on digests of 32 bytes.\<close>

interpretation digest_codec: wire_codec digest_to_string
  "\<lambda>s. if length s = 64 then map_option ArtifactDigest (unhex s) else None" digest_ok
  by unfold_locales (auto simp: digest_to_string_hex digest_ok_def)

lemma digest_from_hex_to_string:
  "lib_ok l \<Longrightarrow> digest_ok d \<Longrightarrow> digest_from_hex l (digest_to_string d) = Inr d"
  using digest_codec.decode_encode [of d]
  by (auto simp: digest_from_hex_def lib_ok_def digest_ok_def digest_to_string_hex split: option.splits)

lemma digest_to_string_inj:
  "digest_ok d \<Longrightarrow> digest_ok d' \<Longrightarrow> digest_to_string d = digest_to_string d' \<longleftrightarrow> d = d'"
  by (rule digest_codec.encode_eq_iff)

lemma unhex_length: "unhex s = Some bs \<Longrightarrow> length s = 2 * length bs"
  by (induction s arbitrary: bs rule: unhex.induct) (auto split: option.splits)

lemma digest_from_hex_ok: "lib_ok l \<Longrightarrow> digest_from_hex l s = Inr d \<Longrightarrow> digest_ok d \<and> length s = 64"
  by (auto simp: digest_from_hex_def lib_ok_def digest_ok_def split: option.splits if_splits
      dest: unhex_length)

section \<open>A concrete library\<close>

text \<open>For witnesses: the crates' documented hex functions and a stand-in hash of 32 bytes.\<close>

definition sample_lib :: lib where
  "sample_lib = \<lparr>hex_decode = (\<lambda>s. if length s = 64 then unhex s else None), hex_encode = to_hex,
     sha256 = (\<lambda>bs. take 32 (bs @ replicate 32 0))\<rparr>"

lemma sample_lib_ok: "lib_ok sample_lib"
  by (auto simp: lib_ok_def sample_lib_def min_def)

end
