(* ===== verification/Sidecar.thy ===== *)
theory Sidecar
  imports Prelude
begin

text \<open>
  The \<open>.meta\<close> sidecar that makes an interrupted transfer resumable,
  \<open>crates/updater/src/transport/meta.rs\<close>, down to its bytes, and the file-system map it is
  stored in. \<open>String::from_utf8_lossy\<close> is the identity on ASCII, which is all an HTTP header
  value the transport reads can hold; the model is written for such tags.
\<close>

section \<open>Files\<close>

text \<open>Regular files by path. Joining and suffixing paths is what \<open>PathBuf\<close> does on strings.\<close>

type_synonym fs = "string \<Rightarrow> bytes option"

definition path_join :: "string \<Rightarrow> string \<Rightarrow> string" where
  "path_join root name =
     (if name \<noteq> [] \<and> hd name = CHR ''/'' then name
      else if root = [] then name
      else if last root = CHR ''/'' then root @ name else root @ ''/'' @ name)"

definition content_at :: "fs \<Rightarrow> string \<Rightarrow> bytes" where
  "content_at f path = (case f path of Some c \<Rightarrow> c | None \<Rightarrow> [])"

section \<open>Little-endian fields\<close>

fun to_le :: "nat \<Rightarrow> int \<Rightarrow> bytes" where
  "to_le 0 x = []"
| "to_le (Suc n) x = of_int (x mod 256) # to_le n (x div 256)"

fun from_le :: "bytes \<Rightarrow> int" where
  "from_le [] = 0"
| "from_le (b # bs) = uint b + 256 * from_le bs"

lemma length_to_le [simp]: "length (to_le n x) = n"
  by (induction n arbitrary: x) auto

lemma uint_of_int_byte [simp]: "uint (of_int (x mod 256) :: u8) = x mod 256"
  by (simp add: uint_word_of_int_eq take_bit_eq_mod)

lemma from_le_to_le: "from_le (to_le n x) = x mod 256 ^ n"
proof (induction n arbitrary: x)
  case 0
  then show ?case by simp
next
  case (Suc n)
  then show ?case by (simp add: zmod_zmult2_eq)
qed

section \<open>The record\<close>

definition MAGIC :: bytes where "MAGIC = [0x44, 0x4C, 0x4D, 0x54]"  \<comment> \<open>\<open>DLMT\<close>\<close>
definition VERSION :: int where "VERSION = 1"
definition SIZE :: nat where "SIZE = 280"
definition ETAG_LEN :: nat where "ETAG_LEN = 256"

record meta =
  file_size :: u64
  bytes_written :: u64
  meta_etag :: bytes

definition sidecar_path :: "string \<Rightarrow> string" where
  "sidecar_path path = path @ ''.meta''"

definition serialize :: "meta \<Rightarrow> bytes" where
  "serialize m = MAGIC @ to_le 4 VERSION @ to_le 8 (uint (file_size m))
     @ to_le 8 (uint (bytes_written m)) @ meta_etag m"

text \<open>\<open>i64::from_le_bytes\<close>, then \<open>u64::try_from\<close>, which refuses a negative.\<close>

definition read_size :: "bytes \<Rightarrow> u64 option" where
  "read_size field =
     (let u = from_le field; v = (if u < 2 ^ 63 then u else u - 2 ^ 64)
      in if v < 0 then None else Some (of_int v))"

definition slice :: "nat \<Rightarrow> nat \<Rightarrow> 'a list \<Rightarrow> 'a list" where
  "slice a b xs = take (b - a) (drop a xs)"

definition deserialize :: "bytes \<Rightarrow> meta option" where
  "deserialize data =
     (if length data < SIZE \<or> slice 0 4 data \<noteq> MAGIC then None
      else if from_le (slice 4 8 data) \<noteq> VERSION then None
      else (case read_size (slice 8 16 data) of None \<Rightarrow> None
        | Some fsz \<Rightarrow> (case read_size (slice 16 24 data) of None \<Rightarrow> None
          | Some written \<Rightarrow>
              Some \<lparr>file_size = fsz, bytes_written = written, meta_etag = slice 24 SIZE data\<rparr>)))"

definition meta_read :: "fs \<Rightarrow> string \<Rightarrow> meta option" where
  "meta_read f path = Option.bind (f (sidecar_path path)) deserialize"

text \<open>
  How a write that may fail ends: the whole content landed, a prefix of it did, or the file was
  never opened.
\<close>

datatype landing = Landed | Cut nat | NotOpened

definition write_file :: "landing \<Rightarrow> string \<Rightarrow> bytes \<Rightarrow> fs \<Rightarrow> fs" where
  "write_file w path content f = (case w of
       Landed \<Rightarrow> f(path \<mapsto> content)
     | Cut n \<Rightarrow> f(path \<mapsto> take n content)
     | NotOpened \<Rightarrow> f)"

definition meta_write :: "landing \<Rightarrow> string \<Rightarrow> meta \<Rightarrow> fs \<Rightarrow> fs" where
  "meta_write w path m f = write_file w (sidecar_path path) (serialize m) f"

text \<open>\<open>fs::remove_file\<close> with its error ignored: the file is gone, or the removal failed.\<close>

definition remove_file :: "bool \<Rightarrow> string \<Rightarrow> fs \<Rightarrow> fs" where
  "remove_file ok path f = (if ok then f(path := None) else f)"

definition meta_delete :: "bool \<Rightarrow> string \<Rightarrow> fs \<Rightarrow> fs" where
  "meta_delete ok path f = remove_file ok (sidecar_path path) f"

definition byte_of_char :: "char \<Rightarrow> u8" where "byte_of_char c = of_nat (of_char c)"
definition char_of_byte :: "u8 \<Rightarrow> char" where "char_of_byte b = char_of (unat b)"

definition pack_etag :: "string \<Rightarrow> bytes" where
  "pack_etag etag =
     (let n = min (length etag) (ETAG_LEN - 1)
      in map byte_of_char (take n etag) @ replicate (ETAG_LEN - n) 0)"

definition unpack_etag :: "bytes \<Rightarrow> string" where
  "unpack_etag etag =
     (let e = (case position (\<lambda>c. c = 0) etag of Some i \<Rightarrow> i | None \<Rightarrow> ETAG_LEN)
      in map char_of_byte (take e etag))"

section \<open>Round trips\<close>

definition meta_valid :: "meta \<Rightarrow> bool" where
  "meta_valid m \<longleftrightarrow> uint (file_size m) < 2 ^ 63 \<and> uint (bytes_written m) < 2 ^ 63
     \<and> length (meta_etag m) = ETAG_LEN"

lemma read_size_to_le: "uint v < 2 ^ 63 \<Longrightarrow> read_size (to_le 8 (uint v)) = Some v" for v :: u64
  by (simp add: read_size_def from_le_to_le Let_def)

lemma read_size_negative: "2 ^ 63 \<le> uint v \<Longrightarrow> read_size (to_le 8 (uint v)) = None" for v :: u64
proof -
  assume "2 ^ 63 \<le> uint v"
  moreover have "uint v < 2 ^ 64" using unsigned_less [of v, where 'a = int] by simp
  ultimately show ?thesis by (simp add: read_size_def from_le_to_le Let_def)
qed

lemma serialize_slices:
  assumes "length (meta_etag m) = ETAG_LEN"
  shows "length (serialize m) = SIZE" "slice 0 4 (serialize m) = MAGIC"
    "slice 4 8 (serialize m) = to_le 4 VERSION"
    "slice 8 16 (serialize m) = to_le 8 (uint (file_size m))"
    "slice 16 24 (serialize m) = to_le 8 (uint (bytes_written m))"
    "slice 24 SIZE (serialize m) = meta_etag m"
  using assms by (simp_all add: serialize_def slice_def MAGIC_def SIZE_def ETAG_LEN_def)

lemma deserialize_serialize: "meta_valid m \<Longrightarrow> deserialize (serialize m) = Some m"
  by (simp add: meta_valid_def deserialize_def serialize_slices read_size_to_le from_le_to_le VERSION_def)

interpretation sidecar: wire_codec serialize deserialize meta_valid
  by unfold_locales (rule deserialize_serialize)

lemma meta_read_write: "meta_valid m \<Longrightarrow> meta_read (meta_write Landed path m f) path = Some m"
  by (simp add: meta_read_def meta_write_def write_file_def sidecar.decode_encode)

lemma sidecar_path_neq [simp]: "sidecar_path path \<noteq> path" "path \<noteq> sidecar_path path"
  by (simp_all add: sidecar_path_def)

lemma length_pack_etag [simp]: "length (pack_etag etag) = ETAG_LEN"
  by (simp add: pack_etag_def Let_def ETAG_LEN_def)

lemma char_of_byte_of_char [simp]: "char_of_byte (byte_of_char c) = c"
  by (simp add: char_of_byte_def byte_of_char_def unat_of_nat_small)

lemma byte_of_char_0: "byte_of_char c = 0 \<longleftrightarrow> c = CHR 0x00"
proof -
  have zero: "byte_of_char (CHR 0x00) = 0" by (simp add: byte_of_char_def)
  have "c = CHR 0x00" if "byte_of_char c = 0"
    using that zero char_of_byte_of_char [of c] char_of_byte_of_char [of "CHR 0x00"] by simp
  with zero show ?thesis by blast
qed

text \<open>An ETag short enough and free of NUL survives packing.\<close>

lemma unpack_pack_etag:
  assumes "length e < ETAG_LEN" "CHR 0x00 \<notin> set e"
  shows "unpack_etag (pack_etag e) = e"
proof -
  have none: "position (\<lambda>c. c = 0) (map byte_of_char e) = None"
    using assms(2) by (auto simp: position_None byte_of_char_0)
  obtain k where k: "ETAG_LEN - length e = Suc k" using assms(1) by (cases "ETAG_LEN - length e") auto
  have le: "min (length e) (ETAG_LEN - 1) = length e" using assms(1) by simp
  have pack: "pack_etag e = map byte_of_char e @ replicate (Suc k) 0"
    unfolding pack_etag_def Let_def le k by simp
  have pos: "position (\<lambda>c. c = 0) (pack_etag e) = Some (length e)"
    using none by (simp add: pack position_append)
  have "take (length e) (pack_etag e) = map byte_of_char e" by (simp add: pack)
  with pos show ?thesis by (simp add: unpack_etag_def Let_def comp_def)
qed

end
