(* ===== verification/Transport.thy ===== *)
theory Transport
  imports Digest Sidecar
begin

text \<open>
  The download cache and the bounded fetches, \<open>crates/updater/src/transport/cache.rs\<close> and
  \<open>transport/mod.rs\<close>. The HTTP client (the crate \<open>ureq\<close>) is a parameter: a function from the
  agent and the request to the response, absent when the call failed.
\<close>

section \<open>The cache\<close>

text \<open>\<open>is_complete_at\<close>, \<open>Cache::path_for\<close>, \<open>is_complete\<close>, \<open>has_partial\<close> and \<open>evict\<close>; a removal may fail.\<close>

definition is_complete_at :: "fs \<Rightarrow> string \<Rightarrow> bool" where
  "is_complete_at f path = (case f path of
       None \<Rightarrow> False
     | Some content \<Rightarrow>
         if length content = 0 then False
         else (case meta_read f path of
             Some m \<Rightarrow> bytes_written m = file_size m
           | None \<Rightarrow> False))"

definition path_for :: "string \<Rightarrow> ArtifactDigest \<Rightarrow> string" where
  "path_for root d = path_join root (digest_to_string d)"

definition is_complete :: "string \<Rightarrow> fs \<Rightarrow> ArtifactDigest \<Rightarrow> bool" where
  "is_complete root f d = is_complete_at f (path_for root d)"

definition has_partial :: "string \<Rightarrow> fs \<Rightarrow> ArtifactDigest \<Rightarrow> bool" where
  "has_partial root f d \<longleftrightarrow> meta_read f (path_for root d) \<noteq> None"

definition evict :: "bool \<times> bool \<Rightarrow> string \<Rightarrow> ArtifactDigest \<Rightarrow> fs \<Rightarrow> fs" where
  "evict ok root d f =
     remove_file (snd ok) (path_for root d) (meta_delete (fst ok) (path_for root d) f)"

section \<open>Agents\<close>

definition SHORT_TIMEOUT :: nat where "SHORT_TIMEOUT = 60"

record agent =
  timeout_global :: "nat option"
  https_only :: bool

record agents =
  streaming :: agent
  streaming_tls :: agent
  short_agent :: agent
  tls_only :: agent

definition make_agent :: "nat option \<Rightarrow> bool \<Rightarrow> agent" where
  "make_agent timeout tls = \<lparr>timeout_global = timeout, https_only = tls\<rparr>"

definition agents_new :: agents where
  "agents_new = \<lparr>streaming = make_agent None False, streaming_tls = make_agent None True,
     short_agent = make_agent (Some SHORT_TIMEOUT) False,
     tls_only = make_agent (Some SHORT_TIMEOUT) True\<rparr>"

definition starts_with :: "string \<Rightarrow> string \<Rightarrow> bool" where
  "starts_with prefix s \<longleftrightarrow> take (length prefix) s = prefix"

definition is_tls :: "string \<Rightarrow> bool" where
  "is_tls url = starts_with ''https://'' url"

definition streaming_for :: "agents \<Rightarrow> string \<Rightarrow> agent" where
  "streaming_for a url = (if is_tls url then streaming_tls a else streaming a)"

definition short_for :: "agents \<Rightarrow> string \<Rightarrow> agent" where
  "short_for a url = (if is_tls url then tls_only a else short_agent a)"

section \<open>Requests and responses\<close>

text \<open>
  Headers are the pairs the code sets or reads, names in lower case; a header value that is not
  visible ASCII is as absent as \<open>to_str().ok()\<close> makes it. A body is the bytes it delivers and
  whether reading it then fails.
\<close>

datatype verb = GET | HEAD

record request =
  req_verb :: verb
  req_url :: string
  req_headers :: "(string \<times> string) list"

record response =
  resp_status :: u16
  resp_headers :: "(string \<times> string) list"
  resp_body :: "bytes \<times> bool"

type_synonym http = "agent \<Rightarrow> request \<Rightarrow> response option"

definition header :: "response \<Rightarrow> string \<Rightarrow> string option" where
  "header r name = map_of (resp_headers r) name"

definition is_success :: "u16 \<Rightarrow> bool" where
  "is_success status \<longleftrightarrow> 200 \<le> status \<and> status < 300"

definition url_size :: "http \<Rightarrow> agent \<Rightarrow> string \<Rightarrow> u64 option" where
  "url_size net ag url =
     (case net ag \<lparr>req_verb = HEAD, req_url = url, req_headers = []\<rparr> of
        None \<Rightarrow> None
      | Some r \<Rightarrow> if \<not> is_success (resp_status r) then None
          else Option.bind (header r ''content-length'') parse_u64)"

section \<open>Bounded fetches\<close>

datatype fetch_error = Request | BadStatus u16 | TooLarge u64

record bounded_response =
  br_body :: bytes
  br_date :: "string option"

text \<open>\<open>reader.take(cap).read_to_end\<close>: an error past the cap is never reached.\<close>

definition read_bounded :: "bytes \<times> bool \<Rightarrow> u64 \<Rightarrow> unit + bytes option" where
  "read_bounded src limit =
     (let cap = sat_add limit 1; body = fst src
      in if int (length body) < uint cap \<and> snd src then Inl ()
         else let kept = take (unat cap) body
           in Inr (if int (length kept) \<le> uint limit then Some kept else None))"

definition bounded :: "http \<Rightarrow> agent \<Rightarrow> string \<Rightarrow> u64 \<Rightarrow> fetch_error + bounded_response" where
  "bounded net ag url limit =
     (case net ag \<lparr>req_verb = GET, req_url = url,
                 req_headers = [(''cache-control'', ''no-cache''), (''pragma'', ''no-cache'')]\<rparr> of
        None \<Rightarrow> Inl Request
      | Some r \<Rightarrow>
          if \<not> is_success (resp_status r) then Inl (BadStatus (resp_status r))
          else (case read_bounded (resp_body r) limit of
              Inl _ \<Rightarrow> Inl Request
            | Inr None \<Rightarrow> Inl (TooLarge limit)
            | Inr (Some body) \<Rightarrow> Inr \<lparr>br_body = body, br_date = header r ''date''\<rparr>))"

definition get_bounded :: "http \<Rightarrow> agents \<Rightarrow> string \<Rightarrow> u64 \<Rightarrow> fetch_error + bounded_response" where
  "get_bounded net a url limit = bounded net (short_for a url) url limit"

definition get_bounded_over_tls ::
  "http \<Rightarrow> agents \<Rightarrow> string \<Rightarrow> u64 \<Rightarrow> fetch_error + bounded_response" where
  "get_bounded_over_tls net a url limit = bounded net (tls_only a) url limit"

section \<open>Lemmas\<close>

lemma is_complete_at_iff:
  "is_complete_at f path \<longleftrightarrow> (\<exists>content m. f path = Some content \<and> content \<noteq> []
     \<and> meta_read f path = Some m \<and> bytes_written m = file_size m)"
  by (auto simp: is_complete_at_def split: option.splits)

lemma evict_gone:
  "evict (True, True) root d f (path_for root d) = None"
  "meta_read (evict (True, True) root d f) (path_for root d) = None"
  by (simp_all add: evict_def meta_delete_def remove_file_def meta_read_def)

lemma path_join_inj:
  assumes "path_join root a = path_join root b" "a \<noteq> []" "b \<noteq> []" "hd a \<noteq> CHR ''/''" "hd b \<noteq> CHR ''/''"
  shows "a = b"
  using assms by (auto simp: path_join_def split: if_splits)

lemma to_hex_hd: "bs \<noteq> [] \<Longrightarrow> to_hex bs \<noteq> [] \<and> is_lower_hex (hd (to_hex bs))"
proof -
  assume "bs \<noteq> []"
  then have "to_hex bs \<noteq> []" using length_to_hex [of bs] by (cases "to_hex bs") auto
  with to_hex_lower [OF hd_in_set] show ?thesis by blast
qed

lemma digest_name_relative:
  "digest_ok d \<Longrightarrow> digest_to_string d \<noteq> [] \<and> hd (digest_to_string d) \<noteq> CHR ''/''"
proof -
  assume "digest_ok d"
  then have "as_bytes d \<noteq> []" by (auto simp: digest_ok_def)
  from to_hex_hd [OF this] show ?thesis
    by (auto simp: digest_to_string_hex is_lower_hex_def hex_digits_def)
qed

lemma path_for_inj:
  "digest_ok d \<Longrightarrow> digest_ok d' \<Longrightarrow> path_for root d = path_for root d' \<longleftrightarrow> d = d'"
  using path_join_inj [of root "digest_to_string d" "digest_to_string d'"] digest_name_relative
  by (auto simp: path_for_def digest_to_string_inj)

lemma read_bounded_cases:
  assumes "uint limit < 2 ^ 64 - 1"
  shows "read_bounded (body, fails) limit =
    (if int (length body) \<le> uint limit then if fails then Inl () else Inr (Some body) else Inr None)"
proof -
  have cap: "uint (sat_add limit 1) = uint limit + 1"
    using assms by (simp add: sat_add_def uint_word_ariths)
  then have "int (unat (sat_add limit 1)) = int (unat limit + 1)" by simp
  then have cap': "unat (sat_add limit 1) = unat limit + 1" by linarith
  have iff: "int (length body) \<le> uint limit \<longleftrightarrow> length body \<le> unat limit"
    by (simp only: uint_nat of_nat_le_iff)
  show ?thesis
  proof (cases "length body \<le> unat limit")
    case True
    with iff show ?thesis
      unfolding read_bounded_def Let_def cap cap' fst_conv snd_conv by simp
  next
    case False
    with iff show ?thesis
      unfolding read_bounded_def Let_def cap cap' fst_conv snd_conv by simp
  qed
qed

end
