(* ===== verification/Manifest.thy ===== *)
theory Manifest
  imports Digest
begin

text \<open>
  The release-set manifest, \<open>crates/tuf/src/manifest.rs\<close>: the checks between a JSON document and
  a manifest the updater acts on. The JSON reader (\<open>serde_json\<close>) and the timestamp parser
  (\<open>jiff\<close>) are parameters. Strings are their UTF-8 bytes.
\<close>

definition TARGET_PATH :: string where "TARGET_PATH = ''manifest.json''"
definition SCHEMA_VERSION :: u32 where "SCHEMA_VERSION = 1"

record artifact =
  art_name :: string
  art_target :: "string option"
  art_path :: string
  art_sha256 :: string
  art_size :: u64
  art_revision :: string
  art_version :: "string option"

record manifest =
  m_schema :: u32
  m_version :: u64
  m_source_revision :: string
  m_published :: string
  m_artifacts :: "artifact list"

datatype manifest_error = Json | Schema u32 | ZeroVersion | NoSource | BadPublished
  | NoName | DuplicateArtifact string "string option" | EmptyTarget string | NoRevision string
  | BadDigest string | BadPath string

record manifest_lib =
  ml_probe :: "bytes \<Rightarrow> u32 option"
  ml_manifest :: "bytes \<Rightarrow> manifest option"
  ml_timestamp :: "string \<Rightarrow> bool"

section \<open>Shapes\<close>

definition is_hex_sha256 :: "string \<Rightarrow> bool" where
  "is_hex_sha256 s \<longleftrightarrow> length s = 64 \<and> list_all is_lower_hex s"

text \<open>\<open>str::split\<close> on one character: always at least one part.\<close>

fun split_on :: "char \<Rightarrow> string \<Rightarrow> string list" where
  "split_on sep [] = [[]]"
| "split_on sep (c # cs) =
     (if c = sep then [] # split_on sep cs
      else (case split_on sep cs of [] \<Rightarrow> [[c]] | p # ps \<Rightarrow> (c # p) # ps))"

definition is_ascii_control :: "char \<Rightarrow> bool" where
  "is_ascii_control c \<longleftrightarrow> (of_char c :: nat) < 32 \<or> (of_char c :: nat) = 127"

definition unclean_byte :: "char \<Rightarrow> bool" where
  "unclean_byte c \<longleftrightarrow> is_ascii_control c \<or> (of_char c :: nat) = 92 \<or> c = CHR '':'' \<or> c = CHR ''?''
     \<or> c = CHR ''#'' \<or> c = CHR ''%''"

definition is_clean_relative_path :: "string \<Rightarrow> bool" where
  "is_clean_relative_path s \<longleftrightarrow> s \<noteq> [] \<and> \<not> list_ex unclean_byte s
     \<and> list_all (\<lambda>part. part \<noteq> [] \<and> part \<noteq> ''.'' \<and> part \<noteq> ''..'') (split_on CHR ''/'' s)"

section \<open>Parsing\<close>

text \<open>One turn of the loop over the artifacts, with the identities already seen.\<close>

definition check_artifact ::
  "(string \<times> string option) list \<Rightarrow> artifact \<Rightarrow> manifest_error option" where
  "check_artifact seen a =
     (if art_name a = [] then Some NoName
      else if (art_name a, art_target a) \<in> set seen then Some (DuplicateArtifact (art_name a) (art_target a))
      else if art_target a = Some [] then Some (EmptyTarget (art_name a))
      else if art_revision a = [] then Some (NoRevision (art_name a))
      else if \<not> is_hex_sha256 (art_sha256 a) then Some (BadDigest (art_name a))
      else if \<not> is_clean_relative_path (art_path a) then Some (BadPath (art_name a))
      else None)"

fun check_artifacts ::
  "(string \<times> string option) list \<Rightarrow> artifact list \<Rightarrow> manifest_error option" where
  "check_artifacts seen [] = None"
| "check_artifacts seen (a # as) = (case check_artifact seen a of
       Some e \<Rightarrow> Some e
     | None \<Rightarrow> check_artifacts ((art_name a, art_target a) # seen) as)"

definition parse_manifest :: "manifest_lib \<Rightarrow> bytes \<Rightarrow> manifest_error + manifest" where
  "parse_manifest l bytes =
     (case ml_probe l bytes of
        None \<Rightarrow> Inl Json
      | Some schema \<Rightarrow>
          if schema \<noteq> SCHEMA_VERSION then Inl (Schema schema)
          else (case ml_manifest l bytes of
              None \<Rightarrow> Inl Json
            | Some m \<Rightarrow>
                if m_version m = 0 then Inl ZeroVersion
                else if m_source_revision m = [] then Inl NoSource
                else if \<not> ml_timestamp l (m_published m) then Inl BadPublished
                else (case check_artifacts [] (m_artifacts m) of
                    Some e \<Rightarrow> Inl e
                  | None \<Rightarrow> Inr m)))"

definition generation_id :: "lib \<Rightarrow> bytes \<Rightarrow> string" where
  "generation_id l bytes = hex_encode l (sha256 l bytes)"

section \<open>What a parsed manifest guarantees\<close>

definition art_id :: "artifact \<Rightarrow> string \<times> string option" where
  "art_id a = (art_name a, art_target a)"

definition sound_artifact :: "artifact \<Rightarrow> bool" where
  "sound_artifact a \<longleftrightarrow> art_name a \<noteq> [] \<and> art_target a \<noteq> Some [] \<and> art_revision a \<noteq> []
     \<and> is_hex_sha256 (art_sha256 a) \<and> is_clean_relative_path (art_path a)"

lemma check_artifact_None:
  "check_artifact seen a = None \<longleftrightarrow> sound_artifact a \<and> art_id a \<notin> set seen"
  by (auto simp: check_artifact_def sound_artifact_def art_id_def)

lemma check_artifacts_None:
  "check_artifacts seen as = None \<longleftrightarrow> list_all sound_artifact as \<and> distinct (map art_id as)
     \<and> (\<forall>a \<in> set as. art_id a \<notin> set seen)"
proof (induction as arbitrary: seen)
  case (Cons a as)
  show ?case
  proof (cases "check_artifact seen a")
    case None
    have ids: "(art_name a, art_target a) = art_id a" by (simp add: art_id_def)
    from None check_artifact_None [of seen a] Cons [of "art_id a # seen"] show ?thesis
      by (auto simp: ids) (metis image_eqI)
  next
    case (Some e)
    with check_artifact_None [of seen a] show ?thesis by auto
  qed
qed simp

lemma hex_value_lower: "is_lower_hex c \<Longrightarrow> hex_value c \<noteq> None"
proof -
  assume "is_lower_hex c"
  then obtain i where "i < 16" "c = hex_digits ! i"
    by (auto simp: is_lower_hex_def in_set_conv_nth)
  then show ?thesis by (simp add: hex_value_digit)
qed

lemma unhex_total: "list_all is_lower_hex s \<Longrightarrow> even (length s) \<Longrightarrow> unhex s \<noteq> None"
proof (induction s rule: unhex.induct)
  case (3 c d cs)
  then have "hex_value c \<noteq> None" "hex_value d \<noteq> None" using hex_value_lower by auto
  then obtain hi lo where v: "hex_value c = Some hi" "hex_value d = Some lo" by blast
  with "3.IH" [OF v] "3.prems" show ?case by auto
qed simp_all

text \<open>A clean path names a place under its base: following its parts never leaves it.\<close>

fun walk :: "string list \<Rightarrow> string list \<Rightarrow> string list option" where
  "walk at [] = Some at"
| "walk at (p # ps) =
     (if p = [] \<or> p = ''.'' then walk at ps
      else if p = ''..'' then (if at = [] then None else walk (butlast at) ps)
      else walk (at @ [p]) ps)"

lemma walk_clean:
  "list_all (\<lambda>part. part \<noteq> [] \<and> part \<noteq> ''.'' \<and> part \<noteq> ''..'') ps \<Longrightarrow> walk at ps = Some (at @ ps)"
  by (induction ps arbitrary: at) auto

lemma parse_manifest_iff:
  "parse_manifest l bytes = Inr m \<longleftrightarrow> ml_probe l bytes = Some SCHEMA_VERSION \<and> ml_manifest l bytes = Some m
     \<and> m_version m \<noteq> 0 \<and> m_source_revision m \<noteq> [] \<and> ml_timestamp l (m_published m)
     \<and> list_all sound_artifact (m_artifacts m) \<and> distinct (map art_id (m_artifacts m))"
proof -
  have "check_artifacts [] (m_artifacts m) = None \<longleftrightarrow> list_all sound_artifact (m_artifacts m)
      \<and> distinct (map art_id (m_artifacts m))"
    using check_artifacts_None [of "[]" "m_artifacts m"] by simp
  then show ?thesis by (auto simp: parse_manifest_def split: option.splits if_splits)
qed

section \<open>Properties\<close>

text \<open>
  A manifest parses exactly when its schema is the one this build reads, its document reads,
  its own fields are present and dated, every artifact is sound and no two share a name and a
  target.
\<close>

theorem parse_accepts:
  "parse_manifest l bytes = Inr m \<longleftrightarrow> ml_probe l bytes = Some SCHEMA_VERSION \<and> ml_manifest l bytes = Some m
     \<and> m_version m \<noteq> 0 \<and> m_source_revision m \<noteq> [] \<and> ml_timestamp l (m_published m)
     \<and> list_all sound_artifact (m_artifacts m) \<and> distinct (map art_id (m_artifacts m))"
  by (rule parse_manifest_iff)

text \<open>
  Every artifact of a parsed manifest can be acted on: its digest reads as a 32-byte SHA-256,
  and its path, followed part by part from the release's base, ends under the base at exactly the
  parts it names.
\<close>

theorem parsed_artifacts_usable:
  assumes "lib_ok l" "parse_manifest ml bytes = Inr m" "a \<in> set (m_artifacts m)"
  shows "(\<exists>d. digest_from_hex l (art_sha256 a) = Inr d \<and> digest_ok d)
    \<and> walk base (split_on CHR ''/'' (art_path a)) = Some (base @ split_on CHR ''/'' (art_path a))"
proof -
  have "sound_artifact a" using assms(2,3) by (auto simp: parse_manifest_iff list_all_iff)
  then have hex: "length (art_sha256 a) = 64" "list_all is_lower_hex (art_sha256 a)"
    and clean: "is_clean_relative_path (art_path a)"
    by (simp_all add: sound_artifact_def is_hex_sha256_def)
  from unhex_total [OF hex(2)] hex(1) obtain bs where "unhex (art_sha256 a) = Some bs" by auto
  with hex(1) assms(1) have "digest_from_hex l (art_sha256 a) = Inr (ArtifactDigest bs)"
    by (simp add: digest_from_hex_def lib_ok_def)
  with digest_from_hex_ok [OF assms(1)] have "\<exists>d. digest_from_hex l (art_sha256 a) = Inr d \<and> digest_ok d" by blast
  with clean show ?thesis by (simp add: is_clean_relative_path_def walk_clean)
qed

section \<open>A concrete manifest\<close>

definition sample_artifact :: artifact where
  "sample_artifact = \<lparr>art_name = ''uade'', art_target = Some ''linux-x86_64'', art_path = ''plugins/uade.so'',
     art_sha256 = replicate 64 CHR ''0'', art_size = 3, art_revision = ''abc'', art_version = None\<rparr>"

definition sample_manifest :: manifest where
  "sample_manifest = \<lparr>m_schema = 1, m_version = 1, m_source_revision = ''abc'',
     m_published = ''2026-08-15T12:00:00Z'', m_artifacts = [sample_artifact]\<rparr>"

definition sample_manifest_lib :: manifest_lib where
  "sample_manifest_lib = \<lparr>ml_probe = \<lambda>_. Some 1, ml_manifest = \<lambda>_. Some sample_manifest, ml_timestamp = \<lambda>_. True\<rparr>"

lemma sample_parses: "parse_manifest sample_manifest_lib bytes = Inr sample_manifest"
proof -
  have "sound_artifact sample_artifact" by code_simp
  then have "check_artifacts [] [sample_artifact] = None" by (subst check_artifacts_None) simp
  then show ?thesis
    by (simp add: parse_manifest_def sample_manifest_lib_def sample_manifest_def SCHEMA_VERSION_def)
qed

theorem parsed_artifacts_usable_witness:
  "walk [''base''] (split_on CHR ''/'' ''plugins/uade.so'') = Some [''base'', ''plugins'', ''uade.so'']"
proof -
  have "sample_artifact \<in> set (m_artifacts sample_manifest)" by (simp add: sample_manifest_def)
  from parsed_artifacts_usable [OF sample_lib_ok sample_parses this, of "[''base'']"]
  show ?thesis by (simp add: sample_artifact_def)
qed

end
