(* ===== verification/Metadata.thy ===== *)
theory Metadata
  imports Manifest "HOL-Library.List_Lexorder" "HOL-Library.Char_ord"
begin

text \<open>
  The TUF metadata model a publisher builds, \<open>crates/tuf/src/metadata.rs\<close>, the key objects it names,
  \<open>crates/tuf/src/key.rs\<close>, the names it is published under, \<open>crates/tuf/src/repository.rs\<close>, and the
  expiry policy, \<open>crates/tuf/src/policy.rs\<close>. Canonical JSON, Ed25519, SHA-256 and hex come from
  third-party crates: they are the record \<open>signer\<close>, over an arbitrary type of signing keys. Maps
  keyed by strings are functions; where their order shows (the key ids of a role), the sorted list is
  written out. The fields a compatible producer may add are kept as the JSON text of each.
\<close>

section \<open>Roles\<close>

datatype RoleName = Root | Targets | Snapshot | Timestamp

definition ALL_ROLES :: "RoleName list" where "ALL_ROLES = [Root, Targets, Snapshot, Timestamp]"

definition role_str :: "RoleName \<Rightarrow> string" where
  "role_str r = (case r of Root \<Rightarrow> ''root'' | Targets \<Rightarrow> ''targets'' | Snapshot \<Rightarrow> ''snapshot''
     | Timestamp \<Rightarrow> ''timestamp'')"

definition file_name :: "RoleName \<Rightarrow> string" where
  "file_name r = role_str r @ ''.json''"

section \<open>Published names\<close>

definition versioned_name :: "RoleName \<Rightarrow> u64 \<Rightarrow> string" where
  "versioned_name r version = show_u64 version @ ''.'' @ file_name r"

definition published_names :: "RoleName \<Rightarrow> u64 \<Rightarrow> string list" where
  "published_names r version = (case r of
       Timestamp \<Rightarrow> [file_name r]
     | Root \<Rightarrow> [versioned_name r version, file_name r]
     | Targets \<Rightarrow> [versioned_name r version]
     | Snapshot \<Rightarrow> [versioned_name r version])"

text \<open>\<open>rsplit_once('/')\<close>: the parts around the last separator.\<close>

definition rsplit_slash :: "string \<Rightarrow> (string \<times> string) option" where
  "rsplit_slash s = (case position (\<lambda>c. c = CHR ''/'') (rev s) of
       None \<Rightarrow> None
     | Some k \<Rightarrow> Some (take (length s - Suc k) s, drop (length s - k) s))"

definition target_published_name :: "string \<Rightarrow> string \<Rightarrow> string" where
  "target_published_name target_path sha256_hex = (case rsplit_slash target_path of
       Some (dir, name) \<Rightarrow> dir @ ''/'' @ sha256_hex @ ''.'' @ name
     | None \<Rightarrow> sha256_hex @ ''.'' @ target_path)"

section \<open>Expiry policy\<close>

definition SPEC_VERSION :: string where "SPEC_VERSION = ''1.0.33''"
definition TIMESTAMP_EXPIRY_DAYS :: int where "TIMESTAMP_EXPIRY_DAYS = 90"
definition SNAPSHOT_TARGETS_EXPIRY_DAYS :: int where "SNAPSHOT_TARGETS_EXPIRY_DAYS = 365"
definition ROOT_EXPIRY_YEARS :: int where "ROOT_EXPIRY_YEARS = 10"

datatype span = Years int | Days int

definition expiry_span :: "RoleName \<Rightarrow> span" where
  "expiry_span r = (case r of Root \<Rightarrow> Years ROOT_EXPIRY_YEARS
     | Targets \<Rightarrow> Days SNAPSHOT_TARGETS_EXPIRY_DAYS | Snapshot \<Rightarrow> Days SNAPSHOT_TARGETS_EXPIRY_DAYS
     | Timestamp \<Rightarrow> Days TIMESTAMP_EXPIRY_DAYS)"

section \<open>Keys\<close>

type_synonym json_extra = "string \<Rightarrow> string option"

definition KEY_TYPE :: string where "KEY_TYPE = ''ed25519''"
definition SCHEME :: string where "SCHEME = ''ed25519''"

record key_val =
  kv_public :: string
  kv_extra :: json_extra

record public_key =
  pk_keytype :: string
  pk_scheme :: string
  pk_keyval :: key_val
  pk_extra :: json_extra

record ('k, 'p) signer =
  sg_lib :: lib
  sg_canonical :: "'p \<Rightarrow> bytes option"
  sg_canonical_key :: "public_key \<Rightarrow> bytes option"
  sg_verifying :: "'k \<Rightarrow> bytes"
  sg_sign :: "'k \<Rightarrow> bytes \<Rightarrow> bytes"

definition key_id :: "('k, 'p) signer \<Rightarrow> public_key \<Rightarrow> string option" where
  "key_id s key = map_option (\<lambda>c. hex_encode (sg_lib s) (sha256 (sg_lib s) c)) (sg_canonical_key s key)"

definition public_of :: "('k, 'p) signer \<Rightarrow> 'k \<Rightarrow> public_key" where
  "public_of s k = \<lparr>pk_keytype = KEY_TYPE, pk_scheme = SCHEME,
     pk_keyval = \<lparr>kv_public = hex_encode (sg_lib s) (sg_verifying s k), kv_extra = Map.empty\<rparr>,
     pk_extra = Map.empty\<rparr>"

definition pair_key_id :: "('k, 'p) signer \<Rightarrow> 'k \<Rightarrow> string option" where
  "pair_key_id s k = key_id s (public_of s k)"

definition sign_hex :: "('k, 'p) signer \<Rightarrow> 'k \<Rightarrow> bytes \<Rightarrow> string" where
  "sign_hex s k message = hex_encode (sg_lib s) (sg_sign s k message)"

section \<open>Signing\<close>

datatype tuf_error = JsonError | DuplicateKeyId string
  | UnsatisfiableThreshold RoleName u32 nat | DuplicateRoleKey RoleName string

record signature =
  sig_keyid :: string
  sig_sig :: string
  sig_extra :: json_extra

record 'p signed =
  signatures :: "signature list"
  signed_payload :: 'p
  signed_extra :: json_extra

fun sign_all :: "('k, 'p) signer \<Rightarrow> bytes \<Rightarrow> 'k list \<Rightarrow> signature list option" where
  "sign_all s canonical [] = Some []"
| "sign_all s canonical (k # ks) = (case pair_key_id s k of None \<Rightarrow> None
     | Some kid \<Rightarrow> map_option ((#) \<lparr>sig_keyid = kid, sig_sig = sign_hex s k canonical, sig_extra = Map.empty\<rparr>)
         (sign_all s canonical ks))"

text \<open>\<open>windows(2).find\<close> on neighbours with one key id.\<close>

fun twin :: "signature list \<Rightarrow> string option" where
  "twin (a # b # rest) = (if sig_keyid a = sig_keyid b then Some (sig_keyid a) else twin (b # rest))"
| "twin _ = None"

definition signed_new :: "('k, 'p) signer \<Rightarrow> 'p \<Rightarrow> 'k list \<Rightarrow> tuf_error + 'p signed" where
  "signed_new s payload keys =
     (case sg_canonical s payload of
        None \<Rightarrow> Inl JsonError
      | Some canonical \<Rightarrow>
          (case sign_all s canonical keys of
             None \<Rightarrow> Inl JsonError
           | Some sigs \<Rightarrow>
               let sorted_sigs = sort_key sig_keyid sigs
               in (case twin sorted_sigs of
                     Some kid \<Rightarrow> Inl (DuplicateKeyId kid)
                   | None \<Rightarrow> Inr \<lparr>signatures = sorted_sigs, signed_payload = payload,
                       signed_extra = Map.empty\<rparr>)))"

section \<open>Authorizations\<close>

record role_keys =
  rk_keyids :: "string list"
  rk_threshold :: u32
  rk_extra :: json_extra

record role_authorization =
  ra_role :: RoleName
  ra_keys :: "public_key list"
  ra_threshold :: u32

definition authorize_single :: "RoleName \<Rightarrow> public_key \<Rightarrow> role_authorization" where
  "authorize_single r key = \<lparr>ra_role = r, ra_keys = [key], ra_threshold = 1\<rparr>"

text \<open>The loop over the keys, with the map so far and the ids it holds.\<close>

fun index_keys ::
  "('k, 'p) signer \<Rightarrow> RoleName \<Rightarrow> public_key list \<Rightarrow> string list \<Rightarrow> (string \<Rightarrow> public_key option)
     \<Rightarrow> tuf_error + string list \<times> (string \<Rightarrow> public_key option)" where
  "index_keys s r [] ids m = Inr (ids, m)"
| "index_keys s r (k # ks) ids m = (case key_id s k of
       None \<Rightarrow> Inl JsonError
     | Some kid \<Rightarrow> if m kid \<noteq> None then Inl (DuplicateRoleKey r kid)
         else index_keys s r ks (kid # ids) (m(kid \<mapsto> k)))"

definition resolve_authorization ::
  "('k, 'p) signer \<Rightarrow> role_authorization \<Rightarrow> tuf_error + role_keys \<times> (string \<Rightarrow> public_key option)" where
  "resolve_authorization s a =
     (if ra_threshold a = 0 \<or> int (length (ra_keys a)) < uint (ra_threshold a)
      then Inl (UnsatisfiableThreshold (ra_role a) (ra_threshold a) (length (ra_keys a)))
      else (case index_keys s (ra_role a) (ra_keys a) [] (\<lambda>_. None) of
          Inl e \<Rightarrow> Inl e
        | Inr (ids, m) \<Rightarrow> Inr (\<lparr>rk_keyids = sort ids, rk_threshold = ra_threshold a, rk_extra = Map.empty\<rparr>, m)))"

record root_role =
  root_type :: string
  root_spec_version :: string
  root_version :: u64
  root_expires :: string
  root_consistent_snapshot :: bool
  root_keys :: "string \<Rightarrow> public_key option"
  root_roles :: "string \<Rightarrow> role_keys option"
  root_extra :: json_extra

fun add_authorizations ::
  "('k, 'p) signer \<Rightarrow> role_authorization list \<Rightarrow> (string \<Rightarrow> public_key option) \<Rightarrow> (string \<Rightarrow> role_keys option)
     \<Rightarrow> tuf_error + (string \<Rightarrow> public_key option) \<times> (string \<Rightarrow> role_keys option)" where
  "add_authorizations s [] keys roles = Inr (keys, roles)"
| "add_authorizations s (a # as) keys roles = (case resolve_authorization s a of
       Inl e \<Rightarrow> Inl e
     | Inr (rk, m) \<Rightarrow> add_authorizations s as (keys ++ m) (roles(role_str (ra_role a) \<mapsto> rk)))"

definition root_new ::
  "('k, 'p) signer \<Rightarrow> u64 \<Rightarrow> string \<Rightarrow> role_authorization list \<Rightarrow> tuf_error + root_role" where
  "root_new s version expires as =
     (case add_authorizations s as (\<lambda>_. None) (\<lambda>_. None) of
        Inl e \<Rightarrow> Inl e
      | Inr (keys, roles) \<Rightarrow> Inr \<lparr>root_type = role_str Root, root_spec_version = SPEC_VERSION,
          root_version = version, root_expires = expires, root_consistent_snapshot = True,
          root_keys = keys, root_roles = roles, root_extra = Map.empty\<rparr>)"

definition single_key_per_role ::
  "('k, 'p) signer \<Rightarrow> u64 \<Rightarrow> string \<Rightarrow> (RoleName \<times> public_key) list \<Rightarrow> tuf_error + root_role" where
  "single_key_per_role s version expires rks =
     root_new s version expires (map (\<lambda>(r, k). authorize_single r k) rks)"

section \<open>Pins\<close>

record meta_file =
  mf_version :: u64
  mf_length :: "u64 option"
  mf_hashes :: "(string \<Rightarrow> string option) option"
  mf_extra :: json_extra

record target_file =
  tf_length :: u64
  tf_hashes :: "string \<Rightarrow> string option"
  tf_extra :: json_extra

definition sha256_map :: "lib \<Rightarrow> bytes \<Rightarrow> string \<Rightarrow> string option" where
  "sha256_map l bytes = [''sha256'' \<mapsto> hex_encode l (sha256 l bytes)]"

definition meta_pinning :: "lib \<Rightarrow> u64 \<Rightarrow> bytes \<Rightarrow> meta_file" where
  "meta_pinning l version bytes = \<lparr>mf_version = version, mf_length = Some (of_nat (length bytes)),
     mf_hashes = Some (sha256_map l bytes), mf_extra = Map.empty\<rparr>"

record 'm role_body =
  rb_type :: string
  rb_spec_version :: string
  rb_version :: u64
  rb_expires :: string
  rb_meta :: 'm
  rb_extra :: json_extra

definition targets_new ::
  "u64 \<Rightarrow> string \<Rightarrow> (string \<Rightarrow> target_file option) \<Rightarrow> (string \<Rightarrow> target_file option) role_body" where
  "targets_new version expires targets = \<lparr>rb_type = role_str Targets, rb_spec_version = SPEC_VERSION,
     rb_version = version, rb_expires = expires, rb_meta = targets, rb_extra = Map.empty\<rparr>"

definition snapshot_new ::
  "u64 \<Rightarrow> string \<Rightarrow> (string \<Rightarrow> meta_file option) \<Rightarrow> (string \<Rightarrow> meta_file option) role_body" where
  "snapshot_new version expires m = \<lparr>rb_type = role_str Snapshot, rb_spec_version = SPEC_VERSION,
     rb_version = version, rb_expires = expires, rb_meta = m, rb_extra = Map.empty\<rparr>"

definition timestamp_new :: "u64 \<Rightarrow> string \<Rightarrow> meta_file \<Rightarrow> (string \<Rightarrow> meta_file option) role_body" where
  "timestamp_new version expires snap = \<lparr>rb_type = role_str Timestamp, rb_spec_version = SPEC_VERSION,
     rb_version = version, rb_expires = expires, rb_meta = [file_name Snapshot \<mapsto> snap], rb_extra = Map.empty\<rparr>"

section \<open>Lemmas\<close>

lemma file_name_inj: "file_name r = file_name r' \<longleftrightarrow> r = r'"
  by (cases r; cases r') (simp_all add: file_name_def role_str_def)

lemma file_name_not_digit: "file_name r \<noteq> [] \<and> \<not> is_digit (hd (file_name r))"
  by (cases r) (simp_all add: file_name_def role_str_def is_digit_def)

lemma show_u64_inj: "show_u64 v = show_u64 w \<longleftrightarrow> v = w"
  by (rule decimal_codec.encode_eq_iff) simp_all

lemma show_u64_digits: "list_all is_digit (show_u64 v)"
  by (simp add: show_u64_def show_digits)

lemma digits_dot_split:
  assumes "list_all is_digit a" "list_all is_digit b" "a @ CHR ''.'' # x = b @ CHR ''.'' # y"
  shows "a = b \<and> x = y"
proof -
  have "takeWhile is_digit (c @ CHR ''.'' # z) = c" if "list_all is_digit c" for c z
  proof -
    have "takeWhile is_digit (c @ CHR ''.'' # z) = c @ takeWhile is_digit (CHR ''.'' # z)"
      using that by (intro takeWhile_append2) (simp add: list_all_iff)
    then show ?thesis by (simp add: is_digit_def)
  qed
  with assms have "a = b" by metis
  with assms(3) show ?thesis by simp
qed

lemma versioned_name_inj: "versioned_name r v = versioned_name r' v' \<longleftrightarrow> r = r' \<and> v = v'"
proof
  assume "versioned_name r v = versioned_name r' v'"
  then have "show_u64 v @ CHR ''.'' # file_name r = show_u64 v' @ CHR ''.'' # file_name r'"
    by (simp add: versioned_name_def)
  from digits_dot_split [OF show_u64_digits show_u64_digits this]
  show "r = r' \<and> v = v'" by (simp add: show_u64_inj file_name_inj)
qed simp

lemma versioned_not_plain: "versioned_name r v \<noteq> file_name r'"
proof
  assume eq: "versioned_name r v = file_name r'"
  have ne: "show_u64 v \<noteq> []" by (simp add: show_u64_def show_nonempty)
  then have "is_digit (hd (show_u64 v))"
    using show_u64_digits [of v] hd_in_set by (auto simp: list_all_iff)
  moreover have "hd (versioned_name r v) = hd (show_u64 v)" using ne by (simp add: versioned_name_def)
  ultimately show False using eq file_name_not_digit [of r'] by simp
qed

lemma index_keys_Inr:
  "index_keys s r ks ids m = Inr (ids', m') \<Longrightarrow> distinct ids \<Longrightarrow> set ids = dom m \<Longrightarrow>
   distinct ids' \<and> set ids' = dom m' \<and> length ids' = length ids + length ks
     \<and> (\<forall>k \<in> set ks. \<exists>kid. key_id s k = Some kid \<and> m' kid = Some k)
     \<and> (\<forall>kid \<in> dom m. m' kid = m kid)"
proof (induction ks arbitrary: ids m)
  case (Cons k ks)
  obtain kid where kid: "key_id s k = Some kid" "m kid = None"
    and rest: "index_keys s r ks (kid # ids) (m(kid \<mapsto> k)) = Inr (ids', m')"
    using Cons.prems(1) by (auto split: option.splits if_splits)
  have "distinct (kid # ids)" "set (kid # ids) = dom (m(kid \<mapsto> k))"
    using Cons.prems(2,3) kid by auto
  note ih = Cons.IH [OF rest this]
  have "kid \<in> dom (m(kid \<mapsto> k))" by simp
  with ih have "m' kid = (m(kid \<mapsto> k)) kid" by blast
  then have "m' kid = Some k" by simp
  moreover have "\<forall>x \<in> dom m. m' x = m x"
  proof
    fix x
    assume "x \<in> dom m"
    then have "x \<noteq> kid" "x \<in> dom (m(kid \<mapsto> k))" using kid by auto
    with ih have "m' x = (m(kid \<mapsto> k)) x" by blast
    with \<open>x \<noteq> kid\<close> show "m' x = m x" by simp
  qed
  ultimately show ?case using ih kid by auto
qed simp

section \<open>Properties\<close>

text \<open>
  Publishing is collision-free in one flat namespace: the names two metadata files are
  published under overlap only when they are the same role, and then only at the same version or
  under the unversioned name of the root or the timestamp.
\<close>

theorem published_names_disjoint:
  "set (published_names r v) \<inter> set (published_names r' v') \<noteq> {} \<longleftrightarrow>
     r = r' \<and> (v = v' \<or> r = Root \<or> r = Timestamp)"
  by (cases r; cases r')
     (auto simp: published_names_def versioned_name_inj versioned_not_plain versioned_not_plain [symmetric] file_name_inj)

text \<open>
  An authorization that resolves can be met and counts every key once: its threshold is between
  one and the number of its keys, its key ids are as many as its keys, strictly sorted, and each of
  its keys is stored under its own id.
\<close>

theorem resolved_authorization_sound:
  assumes "resolve_authorization s a = Inr (rk, m)"
  shows "rk_threshold rk \<noteq> 0 \<and> uint (rk_threshold rk) \<le> int (length (rk_keyids rk))
    \<and> length (rk_keyids rk) = length (ra_keys a) \<and> sorted_wrt (<) (rk_keyids rk) \<and> set (rk_keyids rk) = dom m
    \<and> (\<forall>k \<in> set (ra_keys a). \<exists>kid. key_id s k = Some kid \<and> m kid = Some k)"
proof -
  obtain ids where ids: "index_keys s (ra_role a) (ra_keys a) [] (\<lambda>_. None) = Inr (ids, m)"
    and rk: "rk = \<lparr>rk_keyids = sort ids, rk_threshold = ra_threshold a, rk_extra = Map.empty\<rparr>"
    and th: "ra_threshold a \<noteq> 0" "uint (ra_threshold a) \<le> int (length (ra_keys a))"
    using assms by (auto simp: resolve_authorization_def not_less split: if_splits sum.splits)
  from index_keys_Inr [OF ids] have i: "distinct ids" "set ids = dom m" "length ids = length (ra_keys a)"
    "\<forall>k \<in> set (ra_keys a). \<exists>kid. key_id s k = Some kid \<and> m kid = Some k"
    by auto
  with rk th show ?thesis by (simp add: strict_sorted_iff)
qed

definition sample_signer :: "(nat, bytes) signer" where
  "sample_signer = \<lparr>sg_lib = sample_lib, sg_canonical = Some, sg_canonical_key = (\<lambda>k. Some [of_nat (length (kv_public (pk_keyval k)))]),
     sg_verifying = (\<lambda>k. replicate k 0), sg_sign = (\<lambda>k b. of_nat k # b)\<rparr>"

theorem resolved_authorization_sound_witness:
  "\<exists>rk m. resolve_authorization sample_signer (authorize_single Targets (public_of sample_signer 3)) = Inr (rk, m)
     \<and> rk_threshold rk \<noteq> 0"
proof -
  obtain rk m where r: "resolve_authorization sample_signer (authorize_single Targets (public_of sample_signer 3)) = Inr (rk, m)"
    by (simp add: resolve_authorization_def authorize_single_def key_id_def sample_signer_def)
  from resolved_authorization_sound [OF r] r show ?thesis by blast
qed

lemma sign_all_Some:
  "sign_all s canonical ks = Some sigs \<Longrightarrow>
   map (Some \<circ> sig_keyid) sigs = map (pair_key_id s) ks
     \<and> list_all (\<lambda>g. \<exists>k \<in> set ks. pair_key_id s k = Some (sig_keyid g) \<and> sig_sig g = sign_hex s k canonical) sigs"
proof (induction ks arbitrary: sigs)
  case (Cons k ks)
  then obtain kid rest where "pair_key_id s k = Some kid" "sign_all s canonical ks = Some rest"
    "sigs = \<lparr>sig_keyid = kid, sig_sig = sign_hex s k canonical, sig_extra = Map.empty\<rparr> # rest"
    by (auto split: option.splits)
  with Cons.IH [of rest] show ?case by (auto simp: list_all_iff)
qed simp

lemma twin_None: "twin xs = None \<Longrightarrow> sorted (map sig_keyid xs) \<Longrightarrow> sorted_wrt (<) (map sig_keyid xs)"
proof (induction xs rule: twin.induct)
  case (1 a b rest)
  then have "sig_keyid a < sig_keyid b" "sorted_wrt (<) (map sig_keyid (b # rest))"
    by (auto split: if_splits)
  then show ?case by (auto intro: less_trans)
qed simp_all

lemma twin_Some: "twin xs = Some kid \<Longrightarrow> \<not> distinct (map sig_keyid xs)"
  by (induction xs rule: twin.induct) (auto split: if_splits)

text \<open>
  A metadata file that was signed carries its payload unchanged and one signature per key, each
  made by the key it names over the payload's canonical form, in strictly increasing key ids.
\<close>

theorem signed_by_every_key_once:
  assumes "signed_new s payload keys = Inr sd"
  shows "signed_payload sd = payload \<and> sorted_wrt (<) (map sig_keyid (signatures sd))
    \<and> length (signatures sd) = length keys \<and> Some ` sig_keyid ` set (signatures sd) = pair_key_id s ` set keys
    \<and> (\<exists>c. sg_canonical s payload = Some c
         \<and> (\<forall>g \<in> set (signatures sd). \<exists>k \<in> set keys.
               pair_key_id s k = Some (sig_keyid g) \<and> sig_sig g = sign_hex s k c))"
proof -
  obtain c sigs where c: "sg_canonical s payload = Some c" and sigs: "sign_all s c keys = Some sigs"
    and tw: "twin (sort_key sig_keyid sigs) = None"
    and sd: "sd = \<lparr>signatures = sort_key sig_keyid sigs, signed_payload = payload, signed_extra = Map.empty\<rparr>"
    using assms by (auto simp: signed_new_def Let_def split: option.splits)
  note g = sign_all_Some [OF sigs]
  then have "length sigs = length keys" "Some ` sig_keyid ` set sigs = pair_key_id s ` set keys"
    by (metis length_map, metis (no_types) image_comp set_map)
  moreover have "sorted_wrt (<) (map sig_keyid (sort_key sig_keyid sigs))" by (rule twin_None [OF tw]) simp
  ultimately show ?thesis using g c by (simp add: sd list_all_iff)
qed

theorem signed_by_every_key_once_witness:
  "\<exists>sd. signed_new sample_signer [1, 2] [2, 1] = Inr sd \<and> sorted_wrt (<) (map sig_keyid (signatures sd))"
proof -
  have "case signed_new sample_signer [1, 2] [2, 1] of Inl _ \<Rightarrow> False | Inr _ \<Rightarrow> True" by code_simp
  then obtain sd where r: "signed_new sample_signer [1, 2] [2, 1] = Inr sd" by (auto split: sum.splits)
  from signed_by_every_key_once [OF r] r show ?thesis by blast
qed

text \<open>The converse of the last property: a key given twice is the only thing the check refuses.\<close>

lemma duplicate_signer_refused:
  assumes "sg_canonical s payload = Some c" "sign_all s c keys = Some sigs"
  shows "(\<exists>kid. signed_new s payload keys = Inl (DuplicateKeyId kid)) \<longleftrightarrow> \<not> distinct (map sig_keyid sigs)"
proof (cases "twin (sort_key sig_keyid sigs)")
  case None
  from twin_None [OF None] have "sorted_wrt (<) (map sig_keyid (sort_key sig_keyid sigs))" by simp
  then have "distinct (map sig_keyid (sort_key sig_keyid sigs))" by (simp only: strict_sorted_iff)
  then have "distinct (map sig_keyid sigs)"
    by (metis distinct_map distinct_sort set_sort)
  with None assms show ?thesis by (simp add: signed_new_def)
next
  case (Some kid)
  from twin_Some [OF this] have "\<not> distinct (map sig_keyid sigs)"
    by (metis distinct_map distinct_sort set_sort)
  with Some assms show ?thesis by (simp add: signed_new_def)
qed

end
