(* ===== verification/Channel.thy ===== *)
theory Channel
  imports Transport Metadata
begin

text \<open>
  Authenticating an update channel, \<open>crates/updater/src/channel/\<close>: the trust floor
  (\<open>trust.rs\<close>), the network clock (\<open>time.rs\<close>), the HTTP source (\<open>source.rs\<close>) and one
  authentication attempt (\<open>mod.rs\<close>). The TUF client (the crate \<open>sigstore_tuf\<close>), its file store,
  the JSON form of the floor and the date parser are the record \<open>channel_lib\<close>, over an arbitrary
  environment \<open>'e\<close> (what the network and the disk do during one attempt). Timestamps are integers
  (nanoseconds since the epoch).
\<close>

section \<open>Errors\<close>

datatype channel_error = Tuf | ManifestError manifest_error | Rollback string u64 u64
  | TimeRollback int int | Trust string | IncompleteRefresh string | Insecure string

section \<open>The floor\<close>

definition FLOOR_FILE :: string where "FLOOR_FILE = ''floor.json''"
definition METADATA_DIR :: string where "METADATA_DIR = ''metadata''"

record trust_floor =
  fl_root :: u64
  fl_timestamp :: u64
  fl_snapshot :: u64
  fl_targets :: u64
  fl_verified_at :: int

definition floor_default :: trust_floor where
  "floor_default = \<lparr>fl_root = 0, fl_timestamp = 0, fl_snapshot = 0, fl_targets = 0, fl_verified_at = 0\<rparr>"

text \<open>The versions the code reads off the client's trusted metadata set.\<close>

record trusted_set =
  ts_root :: u64
  ts_timestamp :: "u64 option"
  ts_snapshot :: "u64 option"
  ts_targets :: "u64 option"

record ('e, 'u) channel_lib =
  cl_second :: "int \<Rightarrow> int"
  cl_http_date :: "string \<Rightarrow> int option"
  cl_timestamp_max :: u64
  cl_floor_ser :: "trust_floor \<Rightarrow> bytes option"
  cl_floor_de :: "bytes \<Rightarrow> trust_floor option"
  cl_readable :: "'e \<Rightarrow> bool"
  cl_store :: "'e \<Rightarrow> string \<Rightarrow> string \<Rightarrow> bytes \<Rightarrow> fs \<Rightarrow> fs \<times> bool"
  cl_root_ok :: "bytes \<Rightarrow> bool"
  cl_refresh :: "'e \<Rightarrow> (string \<Rightarrow> u64 \<Rightarrow> unit + bytes option) \<Rightarrow> bytes \<Rightarrow> string \<Rightarrow> int \<Rightarrow> fs \<Rightarrow> fs \<times> 'u option"
  cl_trusted :: "'u \<Rightarrow> trusted_set"
  cl_target :: "'e \<Rightarrow> (string \<Rightarrow> u64 \<Rightarrow> unit + bytes option) \<Rightarrow> 'u \<Rightarrow> string \<Rightarrow> string \<Rightarrow> int \<Rightarrow> fs \<Rightarrow> fs \<times> bytes option"

definition floor_of :: "('e, 'u) channel_lib \<Rightarrow> trusted_set \<Rightarrow> int \<Rightarrow> channel_error + trust_floor" where
  "floor_of L trusted verified_at =
     (case ts_timestamp trusted of None \<Rightarrow> Inl (IncompleteRefresh ''timestamp'')
      | Some tv \<Rightarrow> (case ts_snapshot trusted of None \<Rightarrow> Inl (IncompleteRefresh ''snapshot'')
      | Some sv \<Rightarrow> (case ts_targets trusted of None \<Rightarrow> Inl (IncompleteRefresh ''targets'')
      | Some gv \<Rightarrow> Inr \<lparr>fl_root = ts_root trusted, fl_timestamp = tv, fl_snapshot = sv,
          fl_targets = gv, fl_verified_at = cl_second L verified_at\<rparr>)))"

definition admit_time :: "('e, 'u) channel_lib \<Rightarrow> trust_floor \<Rightarrow> int \<Rightarrow> channel_error + unit" where
  "admit_time L fl offered =
     (if cl_second L offered < fl_verified_at fl
      then Inl (TimeRollback (fl_verified_at fl) (cl_second L offered)) else Inr ())"

fun admit_roles :: "(string \<times> u64 \<times> u64) list \<Rightarrow> channel_error + unit" where
  "admit_roles [] = Inr ()"
| "admit_roles ((role, fl, offered) # rest) =
     (if offered < fl then Inl (Rollback role fl offered) else admit_roles rest)"

definition admit :: "trust_floor \<Rightarrow> trust_floor \<Rightarrow> channel_error + unit" where
  "admit fl offered = admit_roles
     [(''root'', fl_root fl, fl_root offered), (''timestamp'', fl_timestamp fl, fl_timestamp offered),
      (''snapshot'', fl_snapshot fl, fl_snapshot offered), (''targets'', fl_targets fl, fl_targets offered)]"

definition raised_to :: "trust_floor \<Rightarrow> trust_floor \<Rightarrow> trust_floor" where
  "raised_to fl offered =
     \<lparr>fl_root = max (fl_root fl) (fl_root offered),
      fl_timestamp = max (fl_timestamp fl) (fl_timestamp offered),
      fl_snapshot = max (fl_snapshot fl) (fl_snapshot offered),
      fl_targets = max (fl_targets fl) (fl_targets offered),
      fl_verified_at = max (fl_verified_at fl) (fl_verified_at offered)\<rparr>"

section \<open>The trust store\<close>

definition floor_path :: "string \<Rightarrow> string" where
  "floor_path dir = path_join dir FLOOR_FILE"

definition read_floor :: "('e, 'u) channel_lib \<Rightarrow> string \<Rightarrow> 'e \<Rightarrow> fs \<Rightarrow> channel_error + trust_floor" where
  "read_floor L dir e f =
     (if \<not> cl_readable L e then Inl (Trust (floor_path dir))
      else (case f (floor_path dir) of
          None \<Rightarrow> Inr floor_default
        | Some b \<Rightarrow> (case cl_floor_de L b of
              None \<Rightarrow> Inl (Trust (floor_path dir))
            | Some fl \<Rightarrow> Inr fl)))"

definition record_floor ::
  "('e, 'u) channel_lib \<Rightarrow> string \<Rightarrow> 'e \<Rightarrow> trust_floor \<Rightarrow> fs \<Rightarrow> fs \<times> (channel_error + unit)" where
  "record_floor L dir e fl f =
     (case cl_floor_ser L fl of
        None \<Rightarrow> (f, Inl (Trust (floor_path dir)))
      | Some b \<Rightarrow> (case cl_store L e dir FLOOR_FILE b f of
            (f', ok) \<Rightarrow> (f', if ok then Inr () else Inl (Trust (floor_path dir)))))"

definition metadata_dir :: "string \<Rightarrow> string" where
  "metadata_dir dir = path_join dir METADATA_DIR"

section \<open>The HTTP source\<close>

definition base_of :: "string \<Rightarrow> string" where
  "base_of base_url = rev (dropWhile (\<lambda>c. c = CHR ''/'') (rev base_url)) @ ''/''"

text \<open>What \<open>{}\<close> prints for an \<open>i128\<close>: at most 39 digits.\<close>

definition show_i128 :: "int \<Rightarrow> string" where
  "show_i128 n = (if n < 0 then CHR ''-'' # show_nat_fuel 39 (nat (- n)) else show_nat_fuel 39 (nat n))"

definition cache_key :: "int \<Rightarrow> string \<Rightarrow> string" where
  "cache_key now name =
     (if name = file_name Timestamp \<or> name = file_name Root then ''?t='' @ show_i128 now else [])"

definition flat_name :: "string \<Rightarrow> unit + string" where
  "flat_name name =
     (if name = [] \<or> list_ex (\<lambda>c. c = CHR ''/'' \<or> (of_char c :: nat) = 92 \<or> c = CHR ''?'' \<or> c = CHR ''#'') name
        \<or> starts_with ''.'' name \<and> dropWhile (\<lambda>c. c = CHR ''.'') name = []
      then Inl () else Inr name)"

text \<open>\<open>HttpSource::fetch\<close>: a missing asset is an answer, any other failure an error.\<close>

definition http_fetch :: "http \<Rightarrow> agents \<Rightarrow> string \<Rightarrow> int \<Rightarrow> string \<Rightarrow> u64 \<Rightarrow> unit + bytes option" where
  "http_fetch net a base now name limit =
     (case flat_name name of
        Inl _ \<Rightarrow> Inl ()
      | Inr name' \<Rightarrow> (case get_bounded net a (base @ name' @ cache_key now name') limit of
            Inr r \<Rightarrow> Inr (Some (br_body r))
          | Inl (BadStatus s) \<Rightarrow> if s = 404 then Inr None else Inl ()
          | Inl _ \<Rightarrow> Inl ()))"

section \<open>The network clock\<close>

definition verification_time :: "int \<Rightarrow> int \<Rightarrow> int" where
  "verification_time reported local = max reported local"

definition host_date_new :: "string \<Rightarrow> channel_error + string" where
  "host_date_new base_url =
     (if \<not> starts_with ''https://'' base_url then Inl (Insecure base_url) else Inr (base_of base_url))"

definition host_date_time ::
  "('e, 'u) channel_lib \<Rightarrow> http \<Rightarrow> agents \<Rightarrow> string \<Rightarrow> int \<Rightarrow> int option" where
  "host_date_time L net a base now =
     (let name = file_name Timestamp; url = base @ name @ cache_key now name
      in case get_bounded_over_tls net a url (cl_timestamp_max L) of
           Inl _ \<Rightarrow> None
         | Inr r \<Rightarrow> (case br_date r of
               None \<Rightarrow> None
             | Some d \<Rightarrow> (case cl_http_date L d of
                   None \<Rightarrow> None
                 | Some reported \<Rightarrow> Some (verification_time reported now))))"

section \<open>The channel\<close>

record 'e channel =
  ch_source :: "'e \<Rightarrow> string \<Rightarrow> u64 \<Rightarrow> unit + bytes option"
  ch_clock :: "'e \<Rightarrow> int option"
  ch_root :: bytes
  ch_trust :: string

definition channel_new ::
  "('e \<Rightarrow> string \<Rightarrow> u64 \<Rightarrow> unit + bytes option) \<Rightarrow> ('e \<Rightarrow> int option) \<Rightarrow> bytes \<Rightarrow> string \<Rightarrow> 'e channel" where
  "channel_new source clock root trust =
     \<lparr>ch_source = source, ch_clock = clock, ch_root = root, ch_trust = trust\<rparr>"

text \<open>The local clock is read once per attempt and use: \<open>now\<close> stands for it.\<close>

definition channel_https ::
  "('e, 'u) channel_lib \<Rightarrow> ('e \<Rightarrow> http) \<Rightarrow> ('e \<Rightarrow> int) \<Rightarrow> string \<Rightarrow> bytes \<Rightarrow> string
     \<Rightarrow> channel_error + 'e channel" where
  "channel_https L net now base_url root trust =
     (case host_date_new base_url of
        Inl err \<Rightarrow> Inl err
      | Inr base \<Rightarrow> Inr (channel_new
          (\<lambda>e. http_fetch (net e) agents_new (base_of base_url) (now e))
          (\<lambda>e. host_date_time L (net e) agents_new base (now e)) root trust))"

record authenticated =
  au_manifest :: manifest
  au_generation_id :: string
  au_verified_at :: int

datatype attempt = Skipped | Authenticated authenticated

definition authenticate ::
  "('e, 'u) channel_lib \<Rightarrow> manifest_lib \<Rightarrow> lib \<Rightarrow> 'e channel \<Rightarrow> 'e \<Rightarrow> fs
     \<Rightarrow> fs \<times> (channel_error + attempt)" where
  "authenticate L ml l ch e f =
     (case ch_clock ch e of
        None \<Rightarrow> (f, Inr Skipped)
      | Some at \<Rightarrow>
     (case read_floor L (ch_trust ch) e f of
        Inl err \<Rightarrow> (f, Inl err)
      | Inr fl \<Rightarrow>
     (case admit_time L fl at of
        Inl err \<Rightarrow> (f, Inl err)
      | Inr _ \<Rightarrow>
      if \<not> cl_root_ok L (ch_root ch) then (f, Inl Tuf)
      else
     (case cl_refresh L e (ch_source ch e) (ch_root ch) (metadata_dir (ch_trust ch)) at f of
        (f1, None) \<Rightarrow> (f1, Inl Tuf)
      | (f1, Some u) \<Rightarrow>
     (case floor_of L (cl_trusted L u) at of
        Inl err \<Rightarrow> (f1, Inl err)
      | Inr offered \<Rightarrow>
     (case admit fl offered of
        Inl err \<Rightarrow> (f1, Inl err)
      | Inr _ \<Rightarrow>
     (case record_floor L (ch_trust ch) e (raised_to fl offered) f1 of
        (f2, Inl err) \<Rightarrow> (f2, Inl err)
      | (f2, Inr _) \<Rightarrow>
     (case cl_target L e (ch_source ch e) u (metadata_dir (ch_trust ch)) TARGET_PATH at f2 of
        (f3, None) \<Rightarrow> (f3, Inl Tuf)
      | (f3, Some bytes) \<Rightarrow>
     (case parse_manifest ml bytes of
        Inl err \<Rightarrow> (f3, Inl (ManifestError err))
      | Inr m \<Rightarrow> (f3, Inr (Authenticated \<lparr>au_manifest = m, au_generation_id = generation_id l bytes,
          au_verified_at = at\<rparr>)))))))))))"

section \<open>A ratchet\<close>

text \<open>
  What the trust store promises its caller: a value that is only ever joined with what was
  accepted, so it ends at the least bound of where it started and everything accepted since.
\<close>

locale ratchet =
  fixes below :: "'s \<Rightarrow> 's \<Rightarrow> bool"
    and join :: "'s \<Rightarrow> 's \<Rightarrow> 's"
  assumes below_refl: "below a a"
    and below_trans: "below a b \<Longrightarrow> below b c \<Longrightarrow> below a c"
    and join_upper1: "below a (join a b)"
    and join_upper2: "below b (join a b)"
    and join_least: "below a c \<Longrightarrow> below b c \<Longrightarrow> below (join a b) c"
begin

lemma fold_upper: "below a (foldl join a bs)"
  by (induction bs arbitrary: a) (auto intro: below_refl below_trans join_upper1)

lemma fold_upper_mem: "b \<in> set bs \<Longrightarrow> below b (foldl join a bs)"
proof (induction bs arbitrary: a)
  case (Cons c bs)
  then show ?case
    by (auto intro: below_trans [OF join_upper2 fold_upper])
qed simp

lemma fold_least: "below a c \<Longrightarrow> (\<And>b. b \<in> set bs \<Longrightarrow> below b c) \<Longrightarrow> below (foldl join a bs) c"
  by (induction bs arbitrary: a) (auto intro: join_least)

lemma fold_below_mono: "below a b \<Longrightarrow> below a (foldl join b bs)"
  using fold_upper below_trans by blast

end

definition floor_le :: "trust_floor \<Rightarrow> trust_floor \<Rightarrow> bool" where
  "floor_le a b \<longleftrightarrow> fl_root a \<le> fl_root b \<and> fl_timestamp a \<le> fl_timestamp b
     \<and> fl_snapshot a \<le> fl_snapshot b \<and> fl_targets a \<le> fl_targets b
     \<and> fl_verified_at a \<le> fl_verified_at b"

interpretation trust: ratchet floor_le raised_to
  by unfold_locales (auto simp: floor_le_def raised_to_def le_max_iff_disj)

lemma raised_to_same: "floor_le a b \<Longrightarrow> raised_to a b = b"
  by (cases b) (simp add: floor_le_def raised_to_def max_def)

lemma admit_iff:
  "admit fl offered = Inr () \<longleftrightarrow> fl_root fl \<le> fl_root offered \<and> fl_timestamp fl \<le> fl_timestamp offered
     \<and> fl_snapshot fl \<le> fl_snapshot offered \<and> fl_targets fl \<le> fl_targets offered"
  by (auto simp: admit_def not_less)

lemma admit_time_iff: "admit_time L fl at = Inr () \<longleftrightarrow> fl_verified_at fl \<le> cl_second L at"
  by (auto simp: admit_time_def)

lemma floor_of_time: "floor_of L ts at = Inr fl \<Longrightarrow> fl_verified_at fl = cl_second L at"
  by (auto simp: floor_of_def split: option.splits)

section \<open>What the trust store relies on\<close>

text \<open>
  The documented behaviour of the client and its store: the floor's JSON reads back, a store writes
  one file whole or not at all, and the client writes beneath its own metadata directory only.
\<close>

definition channel_lib_ok :: "('e, 'u) channel_lib \<Rightarrow> bool" where
  "channel_lib_ok L \<longleftrightarrow>
     (\<forall>fl b. cl_floor_ser L fl = Some b \<longrightarrow> cl_floor_de L b = Some fl)
   \<and> (\<forall>e dir name b f f'. cl_store L e dir name b f = (f', True) \<longrightarrow> f' (path_join dir name) = Some b)
   \<and> (\<forall>e dir name b f f'. cl_store L e dir name b f = (f', False) \<longrightarrow> f' (path_join dir name) = f (path_join dir name))
   \<and> (\<forall>e src root dir at f p. \<not> starts_with (path_join dir []) p \<longrightarrow> fst (cl_refresh L e src root dir at f) p = f p)
   \<and> (\<forall>e src u dir t at f p. \<not> starts_with (path_join dir []) p \<longrightarrow> fst (cl_target L e src u dir t at f) p = f p)"

definition stored_floor :: "('e, 'u) channel_lib \<Rightarrow> string \<Rightarrow> fs \<Rightarrow> trust_floor option" where
  "stored_floor L dir f = (case f (floor_path dir) of None \<Rightarrow> Some floor_default | Some b \<Rightarrow> cl_floor_de L b)"

lemma floor_outside_metadata: "\<not> starts_with (path_join (metadata_dir dir) []) (floor_path dir)"
proof -
  have "\<exists>pre. path_join (metadata_dir dir) [] = pre @ ''metadata/'' \<and> floor_path dir = pre @ ''floor.json''"
    by (auto simp: path_join_def metadata_dir_def floor_path_def METADATA_DIR_def FLOOR_FILE_def)
  then show ?thesis by (auto simp: starts_with_def)
qed

lemma read_floor_cases:
  "read_floor L dir e f = (if cl_readable L e
     then (case stored_floor L dir f of None \<Rightarrow> Inl (Trust (floor_path dir)) | Some fl \<Rightarrow> Inr fl)
     else Inl (Trust (floor_path dir)))"
  by (auto simp: read_floor_def stored_floor_def split: option.splits)

lemma read_floor_Inr: "read_floor L dir e f = Inr fl \<longleftrightarrow> cl_readable L e \<and> stored_floor L dir f = Some fl"
  by (auto simp: read_floor_cases split: option.splits)

lemma refresh_keeps_floor:
  "channel_lib_ok L \<Longrightarrow> cl_refresh L e src root (metadata_dir dir) at f = (f', r) \<Longrightarrow>
   stored_floor L dir f' = stored_floor L dir f"
  using floor_outside_metadata [of dir] unfolding channel_lib_ok_def stored_floor_def by (metis fst_conv)

lemma target_keeps_floor:
  "channel_lib_ok L \<Longrightarrow> cl_target L e src u (metadata_dir dir) t at f = (f', r) \<Longrightarrow>
   stored_floor L dir f' = stored_floor L dir f"
  using floor_outside_metadata [of dir] unfolding channel_lib_ok_def stored_floor_def by (metis fst_conv)

lemma record_floor_Inr:
  "channel_lib_ok L \<Longrightarrow> record_floor L dir e fl f = (f', Inr ()) \<Longrightarrow> stored_floor L dir f' = Some fl"
  unfolding channel_lib_ok_def record_floor_def stored_floor_def floor_path_def
  by (auto split: option.splits prod.splits if_splits) (metis option.distinct(1))+

lemma record_floor_Inl:
  "channel_lib_ok L \<Longrightarrow> record_floor L dir e fl f = (f', Inl err) \<Longrightarrow> stored_floor L dir f' = stored_floor L dir f"
  unfolding channel_lib_ok_def record_floor_def stored_floor_def floor_path_def
  by (auto split: option.splits prod.splits if_splits) (metis option.distinct(1) option.inject)+

section \<open>Attempts\<close>

text \<open>The chain an attempt is offered, once the client has verified it against the root.\<close>

definition chain_of :: "('e, 'u) channel_lib \<Rightarrow> 'e channel \<Rightarrow> 'e \<Rightarrow> fs \<Rightarrow> trust_floor option" where
  "chain_of L ch e f =
     Option.bind (ch_clock ch e) (\<lambda>at.
     Option.bind (snd (cl_refresh L e (ch_source ch e) (ch_root ch) (metadata_dir (ch_trust ch)) at f)) (\<lambda>u.
     case floor_of L (cl_trusted L u) at of Inl _ \<Rightarrow> None | Inr offered \<Rightarrow> Some offered))"

text \<open>What an attempt did to the trust store.\<close>

datatype effect = Unchanged | Raised trust_floor trust_floor

definition effect_ok :: "('e, 'u) channel_lib \<Rightarrow> 'e channel \<Rightarrow> 'e \<Rightarrow> fs \<Rightarrow> fs \<Rightarrow> effect \<Rightarrow> bool" where
  "effect_ok L ch e f f' x = (case x of
       Unchanged \<Rightarrow> stored_floor L (ch_trust ch) f' = stored_floor L (ch_trust ch) f
     | Raised fl offered \<Rightarrow> stored_floor L (ch_trust ch) f = Some fl \<and> chain_of L ch e f = Some offered
         \<and> floor_le fl offered \<and> stored_floor L (ch_trust ch) f' = Some offered)"

lemma authenticate_effect:
  assumes ok: "channel_lib_ok L" and r: "authenticate L ml l ch e f = (f', res)"
  shows "\<exists>x. effect_ok L ch e f f' x \<and> (\<forall>au. res = Inr (Authenticated au) \<longrightarrow> x \<noteq> Unchanged)"
proof (cases "ch_clock ch e")
  case None
  with r show ?thesis by (auto simp: authenticate_def effect_ok_def intro!: exI [of _ Unchanged])
next
  case at: (Some at)
  show ?thesis
  proof (cases "(\<exists>err. read_floor L (ch_trust ch) e f = Inl err) \<or> \<not> cl_root_ok L (ch_root ch)
      \<or> (\<exists>fl err. read_floor L (ch_trust ch) e f = Inr fl \<and> admit_time L fl at = Inl err)")
    case True
    with r at show ?thesis
      by (auto simp: authenticate_def effect_ok_def split: sum.splits intro!: exI [of _ Unchanged])
  next
    case False
    then obtain fl where fl: "read_floor L (ch_trust ch) e f = Inr fl" "admit_time L fl at = Inr ()"
      "cl_root_ok L (ch_root ch)"
      by (metis (full_types) old.sum.exhaust old.unit.exhaust)
    obtain f1 u where u: "cl_refresh L e (ch_source ch e) (ch_root ch) (metadata_dir (ch_trust ch)) at f = (f1, u)"
      by fastforce
    note kept1 = refresh_keeps_floor [OF ok u]
    show ?thesis
    proof (cases "\<exists>u' offered. u = Some u' \<and> floor_of L (cl_trusted L u') at = Inr offered
        \<and> admit fl offered = Inr ()")
      case False
      with r at fl u kept1 show ?thesis
        by (auto simp: authenticate_def effect_ok_def split: sum.splits option.splits intro!: exI [of _ Unchanged])
    next
      case True
      then obtain u' offered where o: "u = Some u'" "floor_of L (cl_trusted L u') at = Inr offered"
        "admit fl offered = Inr ()" by blast
      have le: "floor_le fl offered"
        using o(3) fl(2) floor_of_time [OF o(2)] by (simp add: admit_iff admit_time_iff floor_le_def)
      obtain f2 w where w: "record_floor L (ch_trust ch) e offered f1 = (f2, w)" by fastforce
      show ?thesis
      proof (cases w)
        case (Inl err)
        with r at fl u o w le record_floor_Inl [OF ok w [unfolded Inl]] kept1 show ?thesis
          by (auto simp: authenticate_def effect_ok_def raised_to_same intro!: exI [of _ Unchanged])
      next
        case (Inr unit)
        then have w': "record_floor L (ch_trust ch) e offered f1 = (f2, Inr ())" using w by simp
        obtain f3 b where b: "cl_target L e (ch_source ch e) u' (metadata_dir (ch_trust ch)) TARGET_PATH at f2 = (f3, b)"
          by fastforce
        have "f' = f3"
          using r at fl u o w' le b
          by (auto simp: authenticate_def raised_to_same split: option.splits sum.splits)
        moreover have "stored_floor L (ch_trust ch) f3 = Some offered"
          using target_keeps_floor [OF ok b] record_floor_Inr [OF ok w'] by simp
        moreover have "stored_floor L (ch_trust ch) f = Some fl" using fl(1) by (simp add: read_floor_Inr)
        moreover have "chain_of L ch e f = Some offered" using at u o by (simp add: chain_of_def)
        ultimately have "effect_ok L ch e f f' (Raised fl offered)" using le by (simp add: effect_ok_def)
        then show ?thesis by blast
      qed
    qed
  qed
qed

fun attempts :: "('e, 'u) channel_lib \<Rightarrow> manifest_lib \<Rightarrow> lib \<Rightarrow> 'e channel \<Rightarrow> 'e list \<Rightarrow> fs \<Rightarrow> fs" where
  "attempts L ml l ch [] f = f"
| "attempts L ml l ch (e # es) f = attempts L ml l ch es (fst (authenticate L ml l ch e f))"

lemma attempts_fold:
  "channel_lib_ok L \<Longrightarrow> stored_floor L (ch_trust ch) f = Some fl \<Longrightarrow>
   \<exists>accepted. stored_floor L (ch_trust ch) (attempts L ml l ch es f) = Some (foldl raised_to fl accepted)"
proof (induction es arbitrary: f fl)
  case Nil
  then show ?case by (auto intro!: exI [of _ "[]"])
next
  case (Cons e es)
  obtain f' res where r: "authenticate L ml l ch e f = (f', res)" by fastforce
  obtain x where x: "effect_ok L ch e f f' x" using authenticate_effect [OF Cons.prems(1) r] by blast
  show ?case
  proof (cases x)
    case Unchanged
    with x Cons.prems r Cons.IH [of f' fl] show ?thesis by (simp add: effect_ok_def)
  next
    case (Raised fl' offered)
    with x Cons.prems have "stored_floor L (ch_trust ch) f' = Some (raised_to fl offered)"
      by (simp add: effect_ok_def raised_to_same)
    from Cons.IH [OF Cons.prems(1) this] obtain accepted where
      "stored_floor L (ch_trust ch) (attempts L ml l ch es f') = Some (foldl raised_to fl (offered # accepted))"
      by auto
    with r show ?thesis by (metis attempts.simps(2) fst_conv)
  qed
qed

lemma floor_monotone:
  assumes "channel_lib_ok L" "stored_floor L (ch_trust ch) f = Some fl"
  shows "\<exists>fl'. stored_floor L (ch_trust ch) (attempts L ml l ch es f) = Some fl' \<and> floor_le fl fl'"
  using attempts_fold [OF assms] trust.fold_upper by metis

section \<open>Sample\<close>

text \<open>
  A client over one-byte floors: the environment is the time and the version of the chain served,
  the four versions of which agree, and the store keeps the version and the second.
\<close>

definition sample_channel_lib :: "(nat \<times> nat, nat) channel_lib" where
  "sample_channel_lib = \<lparr>cl_second = (\<lambda>t. t), cl_http_date = (\<lambda>_. None), cl_timestamp_max = 0,
     cl_floor_ser = (\<lambda>fl. if fl_root fl = 1 \<and> fl_snapshot fl = fl_timestamp fl \<and> fl_targets fl = fl_timestamp fl
         \<and> fl_timestamp fl < 256 \<and> 0 \<le> fl_verified_at fl \<and> fl_verified_at fl < 256
       then Some [of_nat (unat (fl_timestamp fl)), of_int (fl_verified_at fl)] else None),
     cl_floor_de = (\<lambda>b. case b of
         [v, t] \<Rightarrow> Some \<lparr>fl_root = 1, fl_timestamp = of_nat (unat v), fl_snapshot = of_nat (unat v),
           fl_targets = of_nat (unat v), fl_verified_at = uint t\<rparr>
       | _ \<Rightarrow> None),
     cl_readable = (\<lambda>_. True),
     cl_store = (\<lambda>_ dir name b f. (f(path_join dir name \<mapsto> b), True)),
     cl_root_ok = (\<lambda>_. True),
     cl_refresh = (\<lambda>e _ _ _ _ f. (f, Some (snd e))),
     cl_trusted = (\<lambda>v. \<lparr>ts_root = 1, ts_timestamp = Some (of_nat v), ts_snapshot = Some (of_nat v), ts_targets = Some (of_nat v)\<rparr>),
     cl_target = (\<lambda>_ _ _ _ _ _ f. (f, Some [])) \<rparr>"

definition sample_channel :: "(nat \<times> nat) channel" where
  "sample_channel = channel_new (\<lambda>_ _ _. Inr None) (\<lambda>e. Some (int (fst e))) [] ''trust''"

lemma sample_channel_sel:
  "ch_trust sample_channel = ''trust''" "ch_clock sample_channel e = Some (int (fst e))"
  "cl_second sample_channel_lib t = t" "cl_readable sample_channel_lib e"
  by (simp_all add: sample_channel_def channel_new_def sample_channel_lib_def)

lemma sample_channel_lib_ok: "channel_lib_ok sample_channel_lib"
proof -
  have "of_nat (unat (of_nat (unat w) :: u8)) = w" if "w < 256" for w :: u64
  proof -
    have "unat w < 2 ^ LENGTH(8)" using that by (simp add: word_less_nat_alt)
    then have "unat (of_nat (unat w) :: u8) = unat w" by (rule unat_of_nat_small)
    then show ?thesis by (simp only: of_nat_unat unsigned_ucast_eq ucast_id)
  qed
  moreover have "uint (of_int t :: u8) = t" if "0 \<le> t" "t < 256" for t
    using that by (simp add: word_of_int_inverse uint_word_of_int_eq take_bit_int_eq_self)
  ultimately show ?thesis
    by (auto simp: channel_lib_ok_def sample_channel_lib_def)
qed

section \<open>Properties\<close>

text \<open>
  C13: the trust floor never goes down: however many attempts are made, and whatever the network and
  the disk do in each, the floor on disk afterwards is readable and at least the one before in every
  role's version and in the verification time.
\<close>

theorem floor_never_lowered:
  assumes "channel_lib_ok L" "stored_floor L (ch_trust ch) f = Some fl"
  shows "\<exists>fl'. stored_floor L (ch_trust ch) (attempts L ml l ch es f) = Some fl' \<and> floor_le fl fl'"
  using floor_monotone [OF assms] .

theorem floor_never_lowered_witness:
  "\<exists>fl'. stored_floor sample_channel_lib ''trust''
     (attempts sample_channel_lib sample_manifest_lib sample_lib sample_channel [(5, 3), (4, 9), (6, 2)] Map.empty)
     = Some fl' \<and> floor_le floor_default fl'"
proof -
  have "stored_floor sample_channel_lib (ch_trust sample_channel) Map.empty = Some floor_default"
    by (simp add: stored_floor_def)
  from floor_never_lowered [OF sample_channel_lib_ok this] show ?thesis
    unfolding sample_channel_sel(1) .
qed

text \<open>
  No rollback and no freeze by an older chain: once an attempt has authenticated a chain, every
  later attempt that authenticates, after any attempts in between, does so on a chain at least as new
  in each of the four roles and at a time no earlier.
\<close>

theorem later_chain_not_older:
  assumes "channel_lib_ok L"
    and "authenticate L ml l ch e1 f = (f1, Inr (Authenticated a1))"
    and "authenticate L ml l ch e2 (attempts L ml l ch es f1) = (f2, Inr (Authenticated a2))"
  shows "\<exists>c1 c2. chain_of L ch e1 f = Some c1 \<and> chain_of L ch e2 (attempts L ml l ch es f1) = Some c2
    \<and> floor_le c1 c2 \<and> stored_floor L (ch_trust ch) f2 = Some c2"
proof -
  obtain fl1 c1 where 1: "effect_ok L ch e1 f f1 (Raised fl1 c1)"
    using authenticate_effect [OF assms(1,2)] by (metis effect.exhaust)
  obtain fl2 c2 where 2: "effect_ok L ch e2 (attempts L ml l ch es f1) f2 (Raised fl2 c2)"
    using authenticate_effect [OF assms(1,3)] by (metis effect.exhaust)
  have "floor_le c1 fl2"
    using floor_monotone [OF assms(1), of ch f1 c1 ml l es] 1 2 by (auto simp: effect_ok_def)
  with 1 2 show ?thesis by (auto simp: effect_ok_def intro: trust.below_trans)
qed

theorem later_chain_not_older_witness:
  "\<exists>a1 f1 a2 f2 c1 c2.
     authenticate sample_channel_lib sample_manifest_lib sample_lib sample_channel (5, 3) Map.empty = (f1, Inr (Authenticated a1))
   \<and> authenticate sample_channel_lib sample_manifest_lib sample_lib sample_channel (6, 4)
       (attempts sample_channel_lib sample_manifest_lib sample_lib sample_channel [(7, 1)] f1) = (f2, Inr (Authenticated a2))
   \<and> floor_le c1 c2"
proof -
  let ?A = "authenticate sample_channel_lib sample_manifest_lib sample_lib sample_channel"
  let ?S = "attempts sample_channel_lib sample_manifest_lib sample_lib sample_channel"
  have s: "?S [(7, 1)] f = fst (?A (7, 1) f)" for f by simp
  have "\<exists>f1 a1. ?A (5, 3) Map.empty = (f1, Inr (Authenticated a1)) \<and>
      (\<exists>f2 a2. ?A (6, 4) (?S [(7, 1)] f1) = (f2, Inr (Authenticated a2)))"
    by (simp add: authenticate_def sample_channel_def channel_new_def sample_channel_lib_def read_floor_def
        record_floor_def floor_of_def admit_time_def admit_def raised_to_def floor_default_def floor_path_def
        sample_parses uint_word_of_int_eq word_less_alt)
  then obtain f1 a1 f2 a2 where r: "?A (5, 3) Map.empty = (f1, Inr (Authenticated a1))"
    "?A (6, 4) (?S [(7, 1)] f1) = (f2, Inr (Authenticated a2))" by blast
  from later_chain_not_older [OF sample_channel_lib_ok r] r show ?thesis by blast
qed

text \<open>
  A floor that exists but cannot be read, or an attempt dated before the last verified time, is
  refused before anything is fetched: the file system is left exactly as it was.
\<close>

theorem refused_before_fetch:
  assumes "ch_clock ch e = Some at"
    and "\<not> cl_readable L e \<or> (case stored_floor L (ch_trust ch) f of
           None \<Rightarrow> True | Some fl \<Rightarrow> cl_second L at < fl_verified_at fl)"
  shows "\<exists>err. authenticate L ml l ch e f = (f, Inl err)"
  using assms by (auto simp: authenticate_def read_floor_cases admit_time_def split: option.splits)

theorem refused_before_fetch_witness:
  "\<exists>err. authenticate sample_channel_lib sample_manifest_lib sample_lib sample_channel (4, 9)
     [''trust/floor.json'' \<mapsto> [3, 5]] = ([''trust/floor.json'' \<mapsto> [3, 5]], Inl err)"
proof -
  have "stored_floor sample_channel_lib ''trust'' [''trust/floor.json'' \<mapsto> [3, 5]]
      = Some \<lparr>fl_root = 1, fl_timestamp = 3, fl_snapshot = 3, fl_targets = 3, fl_verified_at = 5\<rparr>"
    by (simp add: stored_floor_def sample_channel_lib_def floor_path_def path_join_def FLOOR_FILE_def)
  then show ?thesis
    by (intro refused_before_fetch [of _ _ 4]) (simp_all add: sample_channel_sel)
qed

section \<open>TLS\<close>

lemma base_of_tls:
  assumes "starts_with ''https://'' base_url" "\<exists>c \<in> set (drop 8 base_url). c \<noteq> CHR ''/''"
  shows "is_tls (base_of base_url @ rest)"
proof -
  define host where "host = drop 8 base_url"
  have "length ''https://'' = 8" by simp
  with assms(1) have b: "base_url = ''https://'' @ host"
    unfolding host_def starts_with_def by (metis append_take_drop_id)
  have "dropWhile (\<lambda>c. c = CHR ''/'') (rev host @ rev ''https://'')
      = dropWhile (\<lambda>c. c = CHR ''/'') (rev host) @ rev ''https://''"
    using assms(2) unfolding host_def [symmetric] by (auto intro: dropWhile_append1)
  then have "base_of base_url = ''https://'' @ rev (dropWhile (\<lambda>c. c = CHR ''/'') (rev host)) @ ''/''"
    unfolding base_of_def b rev_append by simp
  then show ?thesis by (simp add: is_tls_def starts_with_def)
qed

lemma tls_only_https: "https_only (tls_only agents_new)"
  by (simp add: agents_new_def make_agent_def)

text \<open>
  A channel is deaf to plaintext: two networks that answer alike to the agents that refuse
  plaintext, redirects included, are the same channel, whatever they answer to any other agent; and
  a base that is not https makes no channel at all.
\<close>

theorem https_channel_ignores_plaintext:
  assumes "\<And>e ag req. https_only ag \<Longrightarrow> net e ag req = net' e ag req"
    and "\<exists>c \<in> set (drop 8 base_url). c \<noteq> CHR ''/''"
  shows "channel_https L net now base_url root trust = channel_https L net' now base_url root trust
    \<and> (\<not> starts_with ''https://'' base_url \<longrightarrow> channel_https L net now base_url root trust = Inl (Insecure base_url))"
proof (cases "starts_with ''https://'' base_url")
  case True
  have b: "bounded (net e) (tls_only agents_new) url lim = bounded (net' e) (tls_only agents_new) url lim"
    for e url lim
    using assms(1) [OF tls_only_https] by (simp add: bounded_def)
  have "http_fetch (net e) agents_new (base_of base_url) n = http_fetch (net' e) agents_new (base_of base_url) n"
    for e n
  proof (intro ext)
    fix name lim
    have "short_for agents_new (base_of base_url @ name @ key) = tls_only agents_new" for key
      using base_of_tls [OF True assms(2)] by (simp add: short_for_def)
    then show "http_fetch (net e) agents_new (base_of base_url) n name lim
        = http_fetch (net' e) agents_new (base_of base_url) n name lim"
      by (simp add: http_fetch_def flat_name_def get_bounded_def b)
  qed
  moreover have "host_date_time L (net e) agents_new base n = host_date_time L (net' e) agents_new base n"
    for e base n
    by (simp add: host_date_time_def get_bounded_over_tls_def b)
  ultimately show ?thesis using True by (simp add: channel_https_def host_date_new_def)
next
  case False
  then show ?thesis by (simp add: channel_https_def host_date_new_def)
qed

theorem https_channel_ignores_plaintext_witness:
  "channel_https sample_channel_lib (\<lambda>_ ag _. if https_only ag then None else Some undefined) (\<lambda>_. 0) ''https://h'' [] ''t''
     = channel_https sample_channel_lib (\<lambda>_ _ _. None) (\<lambda>_. 0) ''https://h'' [] ''t''"
  using https_channel_ignores_plaintext [of "\<lambda>_ ag _. if https_only ag then None else Some undefined"
      "\<lambda>_ _ _. None" "''https://h''" sample_channel_lib "\<lambda>_. 0" "[]" "''t''"] by simp

end
