(* ===== verification/Check.thy ===== *)
theory Check
  imports Channel
begin

text \<open>
  Asking a channel what it offers, \<open>crates/updater/src/check/\<close>: the plan of what would be fetched
  and its price (\<open>plan.rs\<close>), the bounded record of checks (\<open>record.rs\<close>) and one check
  (\<open>mod.rs\<close>). The JSON of the record and the text of an error are the record \<open>check_lib\<close>.
\<close>

section \<open>Plans\<close>

record plan =
  plan_generation_id :: string
  plan_release_version :: u64
  plan_artifacts :: "artifact list"
  plan_total_bytes :: u64
  plan_cached_bytes :: u64

definition artifact_count :: "plan \<Rightarrow> nat" where
  "artifact_count p = length (plan_artifacts p)"

definition bytes_to_fetch :: "plan \<Rightarrow> u64" where
  "bytes_to_fetch p = sat_sub (plan_total_bytes p) (plan_cached_bytes p)"

definition applies_to :: "artifact \<Rightarrow> string option \<Rightarrow> bool" where
  "applies_to a target = (case art_target a of None \<Rightarrow> True | Some named \<Rightarrow> Some named = target)"

definition is_cached :: "lib \<Rightarrow> string \<Rightarrow> fs \<Rightarrow> artifact \<Rightarrow> bool" where
  "is_cached l cache f a = (case digest_from_hex l (art_sha256 a) of
       Inl _ \<Rightarrow> False | Inr d \<Rightarrow> is_complete cache f d)"

text \<open>The loop that prices the artifacts, with the two saturating totals so far.\<close>

fun price :: "lib \<Rightarrow> string \<Rightarrow> fs \<Rightarrow> artifact list \<Rightarrow> u64 \<times> u64 \<Rightarrow> u64 \<times> u64" where
  "price l cache f [] t = t"
| "price l cache f (a # as) (all, cached) =
     price l cache f as (sat_add all (art_size a),
       if is_cached l cache f a then sat_add cached (art_size a) else cached)"

definition select :: "lib \<Rightarrow> string \<Rightarrow> manifest \<Rightarrow> string option \<Rightarrow> string \<Rightarrow> fs \<Rightarrow> plan" where
  "select l gen m target cache f =
     (let artifacts = filter (\<lambda>a. applies_to a target) (m_artifacts m);
          t = price l cache f artifacts (0, 0)
      in \<lparr>plan_generation_id = gen, plan_release_version = m_version m, plan_artifacts = artifacts,
          plan_total_bytes = fst t, plan_cached_bytes = snd t\<rparr>)"

section \<open>The record of checks\<close>

definition RECORD_FILE :: string where "RECORD_FILE = ''checks.json''"
definition MAX_ENTRIES :: nat where "MAX_ENTRIES = 64"

datatype conclusion = Skipped_check | Up_to_date | Update_available | Failed_check

record check_record =
  rec_at :: int
  rec_conclusion :: conclusion
  rec_error :: "string option"

datatype check_error = ChannelError channel_error | RecordError string

record ('e, 'u) check_lib =
  ck_channel :: "('e, 'u) channel_lib"
  ck_ser :: "check_record list \<Rightarrow> bytes option"
  ck_de :: "bytes \<Rightarrow> check_record list option"
  ck_readable :: "'e \<Rightarrow> bool"
  ck_show :: "check_error \<Rightarrow> string"

definition record_path :: "string \<Rightarrow> string" where
  "record_path dir = path_join dir RECORD_FILE"

definition entries :: "('e, 'u) check_lib \<Rightarrow> string \<Rightarrow> 'e \<Rightarrow> fs \<Rightarrow> check_error + check_record list" where
  "entries K dir e f =
     (if \<not> ck_readable K e then Inl (RecordError (record_path dir))
      else (case f (record_path dir) of
          None \<Rightarrow> Inr []
        | Some b \<Rightarrow> (case ck_de K b of
              None \<Rightarrow> Inl (RecordError (record_path dir))
            | Some rs \<Rightarrow> Inr rs)))"

definition last_record ::
  "('e, 'u) check_lib \<Rightarrow> string \<Rightarrow> 'e \<Rightarrow> fs \<Rightarrow> check_error + check_record option" where
  "last_record K dir e f = (case entries K dir e f of
       Inl err \<Rightarrow> Inl err
     | Inr rs \<Rightarrow> Inr (if rs = [] then None else Some (last rs)))"

definition append_record ::
  "('e, 'u) check_lib \<Rightarrow> string \<Rightarrow> 'e \<Rightarrow> check_record \<Rightarrow> fs \<Rightarrow> fs \<times> (check_error + unit)" where
  "append_record K dir e r f =
     (let kept = (case entries K dir e f of Inl _ \<Rightarrow> [] | Inr rs \<Rightarrow> rs);
          pushed = kept @ [r];
          bounded = (if MAX_ENTRIES < length pushed then drop (length pushed - MAX_ENTRIES) pushed else pushed)
      in case ck_ser K bounded of
           None \<Rightarrow> (f, Inl (RecordError (record_path dir)))
         | Some b \<Rightarrow> (case cl_store (ck_channel K) e dir RECORD_FILE b f of
               (f', ok) \<Rightarrow> (f', if ok then Inr () else Inl (RecordError (record_path dir)))))"

section \<open>One check\<close>

datatype check_outcome = Skipped_outcome | UpToDate string | UpdateAvailable plan

record 'e checker =
  ckr_channel :: "'e channel"
  ckr_target :: "string option"
  ckr_cache :: string
  ckr_log :: string

definition resolve_check ::
  "('e, 'u) check_lib \<Rightarrow> manifest_lib \<Rightarrow> lib \<Rightarrow> 'e checker \<Rightarrow> string option \<Rightarrow> 'e \<Rightarrow> fs
     \<Rightarrow> fs \<times> (check_error + check_outcome)" where
  "resolve_check K ml l c installed e f =
     (case authenticate (ck_channel K) ml l (ckr_channel c) e f of
        (f', Inl err) \<Rightarrow> (f', Inl (ChannelError err))
      | (f', Inr Skipped) \<Rightarrow> (f', Inr Skipped_outcome)
      | (f', Inr (Authenticated au)) \<Rightarrow>
          (f', Inr (if installed = Some (au_generation_id au) then UpToDate (au_generation_id au)
             else UpdateAvailable
               (select l (au_generation_id au) (au_manifest au) (ckr_target c) (ckr_cache c) f'))))"

definition record_of ::
  "('e, 'u) check_lib \<Rightarrow> int \<Rightarrow> check_error + check_outcome \<Rightarrow> check_record" where
  "record_of K now outcome = (case outcome of
       Inr Skipped_outcome \<Rightarrow> \<lparr>rec_at = now, rec_conclusion = Skipped_check, rec_error = None\<rparr>
     | Inr (UpToDate _) \<Rightarrow> \<lparr>rec_at = now, rec_conclusion = Up_to_date, rec_error = None\<rparr>
     | Inr (UpdateAvailable _) \<Rightarrow> \<lparr>rec_at = now, rec_conclusion = Update_available, rec_error = None\<rparr>
     | Inl err \<Rightarrow> \<lparr>rec_at = now, rec_conclusion = Failed_check, rec_error = Some (ck_show K err)\<rparr>)"

definition check ::
  "('e, 'u) check_lib \<Rightarrow> manifest_lib \<Rightarrow> lib \<Rightarrow> 'e checker \<Rightarrow> string option \<Rightarrow> int \<Rightarrow> 'e \<Rightarrow> fs
     \<Rightarrow> fs \<times> (check_error + check_outcome)" where
  "check K ml l c installed now e f =
     (case resolve_check K ml l c installed e f of
        (f1, outcome) \<Rightarrow>
          (case append_record K (ckr_log c) e (record_of K now outcome) f1 of
             (f2, appended) \<Rightarrow> (f2, (case outcome of
                 Inl err \<Rightarrow> Inl err
               | Inr o' \<Rightarrow> (case appended of Inl err \<Rightarrow> Inl err | Inr _ \<Rightarrow> Inr o')))))"

section \<open>Lemmas\<close>

lemma sat_add_u64_min:
  "unat (sat_add a b) = min (unat a + unat b) (2 ^ 64 - 1)" for a :: u64
  using unat_sat_add [of a b] by simp

lemma price_sums:
  "unat all = min t (2 ^ 64 - 1) \<Longrightarrow> unat cached = min c (2 ^ 64 - 1) \<Longrightarrow>
   price l cache f as (all, cached) = (all', cached') \<Longrightarrow>
   unat all' = min (t + (\<Sum>a\<leftarrow>as. unat (art_size a))) (2 ^ 64 - 1)
     \<and> unat cached' = min (c + (\<Sum>a\<leftarrow>filter (is_cached l cache f) as. unat (art_size a))) (2 ^ 64 - 1)"
proof (induction as arbitrary: all cached t c)
  case (Cons a as)
  let ?s = "unat (art_size a)"
  let ?k = "if is_cached l cache f a then ?s else 0"
  have "unat (sat_add all (art_size a)) = min (t + ?s) (2 ^ 64 - 1)"
    using Cons.prems(1) by (simp add: sat_add_u64_min)
  moreover have "unat (if is_cached l cache f a then sat_add cached (art_size a) else cached)
      = min (c + ?k) (2 ^ 64 - 1)"
    using Cons.prems(2) by (cases "is_cached l cache f a") (simp_all add: sat_add_u64_min)
  ultimately show ?case
    using Cons.IH [of _ "t + ?s" _ "c + ?k"] Cons.prems(3) by (auto simp: add.assoc)
qed simp

lemma select_sums:
  "unat (plan_total_bytes (select l gen m target cache f))
     = min (\<Sum>a\<leftarrow>plan_artifacts (select l gen m target cache f). unat (art_size a)) (2 ^ 64 - 1)"
  "unat (plan_cached_bytes (select l gen m target cache f))
     = min (\<Sum>a\<leftarrow>filter (is_cached l cache f) (plan_artifacts (select l gen m target cache f)). unat (art_size a)) (2 ^ 64 - 1)"
  using price_sums [of 0 0 0 0 l cache f "plan_artifacts (select l gen m target cache f)"]
  by (cases "price l cache f (plan_artifacts (select l gen m target cache f)) (0, 0)",
      simp add: select_def Let_def)+

lemma sum_filter_le: "(\<Sum>a\<leftarrow>filter P as. g a) \<le> (\<Sum>a\<leftarrow>as. g a)" for g :: "'a \<Rightarrow> nat"
  by (induction as) auto

lemma sum_filter_split:
  "(\<Sum>a\<leftarrow>as. g a) = (\<Sum>a\<leftarrow>filter P as. g a) + (\<Sum>a\<leftarrow>filter (\<lambda>a. \<not> P a) as. g a)" for g :: "'a \<Rightarrow> nat"
  by (induction as) auto

lemma store_lands:
  "channel_lib_ok L \<Longrightarrow> cl_store L e dir name b f = (f', True) \<Longrightarrow> f' (path_join dir name) = Some b"
  by (simp add: channel_lib_ok_def)

lemma append_record_Inr:
  assumes "channel_lib_ok (ck_channel K)" "\<And>rs b. ck_ser K rs = Some b \<Longrightarrow> ck_de K b = Some rs"
    and "append_record K dir e r f = (f', Inr ())"
  shows "\<exists>b rs. f' (record_path dir) = Some b \<and> ck_de K b = Some rs
    \<and> rs = drop (length (case entries K dir e f of Inl _ \<Rightarrow> [] | Inr k \<Rightarrow> k) - (MAX_ENTRIES - 1))
             (case entries K dir e f of Inl _ \<Rightarrow> [] | Inr k \<Rightarrow> k) @ [r]"
proof -
  define kept where "kept = (case entries K dir e f of Inl _ \<Rightarrow> [] | Inr k \<Rightarrow> k)"
  define rs where "rs = (if MAX_ENTRIES < length (kept @ [r])
    then drop (length (kept @ [r]) - MAX_ENTRIES) (kept @ [r]) else kept @ [r])"
  have rs: "rs = drop (length kept - (MAX_ENTRIES - 1)) kept @ [r]"
    by (auto simp: rs_def MAX_ENTRIES_def)
  obtain b where "ck_ser K rs = Some b" "cl_store (ck_channel K) e dir RECORD_FILE b f = (f', True)"
    using assms(3) unfolding append_record_def Let_def kept_def [symmetric] rs_def [symmetric]
    by (auto split: option.splits prod.splits if_splits)
  moreover from this store_lands [OF assms(1)] have "f' (record_path dir) = Some b"
    unfolding record_path_def by blast
  ultimately show ?thesis using assms(2) rs unfolding kept_def by blast
qed

section \<open>Properties\<close>

text \<open>
  A plan covers exactly the artifacts that apply to the consumer, in manifest order, and as long
  as they weigh less than 2^64 bytes together, what it says is left to fetch is the exact weight of
  those the cache does not hold whole.
\<close>

theorem plan_prices_what_is_missing:
  fixes l gen m target cache f
  defines "p \<equiv> select l gen m target cache f"
  shows "plan_artifacts p = filter (\<lambda>a. applies_to a target) (m_artifacts m)
    \<and> ((\<Sum>a\<leftarrow>plan_artifacts p. unat (art_size a)) < 2 ^ 64 \<longrightarrow>
         unat (bytes_to_fetch p)
           = (\<Sum>a\<leftarrow>filter (\<lambda>a. \<not> is_cached l cache f a) (plan_artifacts p). unat (art_size a)))"
proof -
  have "plan_artifacts p = filter (\<lambda>a. applies_to a target) (m_artifacts m)"
    by (simp add: p_def select_def Let_def)
  moreover have "unat (bytes_to_fetch p)
      = (\<Sum>a\<leftarrow>filter (\<lambda>a. \<not> is_cached l cache f a) (plan_artifacts p). unat (art_size a))"
    if fits: "(\<Sum>a\<leftarrow>plan_artifacts p. unat (art_size a)) < 2 ^ 64"
  proof -
    have "unat (plan_total_bytes p) = (\<Sum>a\<leftarrow>plan_artifacts p. unat (art_size a))"
      using fits select_sums(1) [of l gen m target cache f] by (simp add: p_def)
    moreover have "unat (plan_cached_bytes p) = (\<Sum>a\<leftarrow>filter (is_cached l cache f) (plan_artifacts p). unat (art_size a))"
      using fits select_sums(2) [of l gen m target cache f]
        sum_filter_le [of "\<lambda>a. unat (art_size a)" "is_cached l cache f" "plan_artifacts p"] by (simp add: p_def)
    ultimately show ?thesis
      using sum_filter_split [of "\<lambda>a. unat (art_size a)" "plan_artifacts p" "is_cached l cache f"]
      by (simp add: bytes_to_fetch_def unat_sat_sub)
  qed
  ultimately show ?thesis by blast
qed

theorem plan_prices_what_is_missing_witness:
  "unat (bytes_to_fetch (select sample_lib ''g'' sample_manifest None ''/c'' Map.empty))
     = (\<Sum>a\<leftarrow>plan_artifacts (select sample_lib ''g'' sample_manifest None ''/c'' Map.empty). unat (art_size a))"
proof -
  let ?p = "select sample_lib ''g'' sample_manifest None ''/c'' Map.empty"
  have none: "\<not> is_cached sample_lib ''/c'' Map.empty a" for a
    by (simp add: is_cached_def is_complete_def is_complete_at_def split: sum.split)
  have "(\<Sum>a\<leftarrow>plan_artifacts ?p. unat (art_size a)) < 2 ^ 64"
    by (simp add: select_def Let_def sample_manifest_def sample_artifact_def applies_to_def)
  with plan_prices_what_is_missing [of sample_lib "''g''" sample_manifest None "''/c''" Map.empty] none
  show ?thesis by simp
qed

text \<open>
  Every check that answers is on record when it does: the newest entry on disk is this check's
  own, the entries before it are the newest of those that could be read, and there are never more
  than 64.
\<close>

theorem check_is_on_record:
  assumes "channel_lib_ok (ck_channel K)" "\<And>rs b. ck_ser K rs = Some b \<Longrightarrow> ck_de K b = Some rs"
    and "check K ml l c installed now e f = (f', Inr out)"
  shows "\<exists>f1 b older. resolve_check K ml l c installed e f = (f1, Inr out)
    \<and> f' (record_path (ckr_log c)) = Some b \<and> ck_de K b = Some (older @ [record_of K now (Inr out)])
    \<and> length older < MAX_ENTRIES
    \<and> older = (case entries K (ckr_log c) e f1 of Inl _ \<Rightarrow> [] | Inr k \<Rightarrow> drop (length k - (MAX_ENTRIES - 1)) k)"
proof -
  obtain f1 where r: "resolve_check K ml l c installed e f = (f1, Inr out)"
    and a: "append_record K (ckr_log c) e (record_of K now (Inr out)) f1 = (f', Inr ())"
    using assms(3) by (auto simp: check_def split: prod.splits sum.splits)
  from append_record_Inr [OF assms(1,2) a] obtain b where
    "f' (record_path (ckr_log c)) = Some b" "ck_de K b = Some ((case entries K (ckr_log c) e f1 of
        Inl _ \<Rightarrow> [] | Inr k \<Rightarrow> drop (length k - (MAX_ENTRIES - 1)) k) @ [record_of K now (Inr out)])"
    by (cases "entries K (ckr_log c) e f1") auto
  with r show ?thesis by (auto simp: MAX_ENTRIES_def split: sum.split)
qed

text \<open>A log of at most one entry, whose time is a byte.\<close>

definition sample_check_lib :: "(nat \<times> nat, nat) check_lib" where
  "sample_check_lib = \<lparr>ck_channel = sample_channel_lib,
     ck_ser = (\<lambda>rs. if rs = [\<lparr>rec_at = 7, rec_conclusion = Update_available, rec_error = None\<rparr>] then Some [7] else None),
     ck_de = (\<lambda>b. if b = [7] then Some [\<lparr>rec_at = 7, rec_conclusion = Update_available, rec_error = None\<rparr>] else None),
     ck_readable = (\<lambda>_. True), ck_show = (\<lambda>_. [])\<rparr>"

definition sample_checker :: "(nat \<times> nat) checker" where
  "sample_checker = \<lparr>ckr_channel = sample_channel, ckr_target = None, ckr_cache = ''/c'', ckr_log = ''log''\<rparr>"

theorem check_is_on_record_witness:
  "\<exists>f' out older. check sample_check_lib sample_manifest_lib sample_lib sample_checker None 7 (5, 3) Map.empty = (f', Inr out)
     \<and> ck_de sample_check_lib (the (f' (record_path ''log''))) = Some (older @ [record_of sample_check_lib 7 (Inr out)])"
proof -
  have "\<exists>f' out. check sample_check_lib sample_manifest_lib sample_lib sample_checker None 7 (5, 3) Map.empty = (f', Inr out)"
    by (simp add: check_def resolve_check_def sample_checker_def sample_check_lib_def authenticate_def
        sample_channel_def channel_new_def sample_channel_lib_def read_floor_def record_floor_def floor_of_def
        admit_time_def admit_def raised_to_def floor_default_def floor_path_def sample_parses
        uint_word_of_int_eq word_less_alt append_record_def entries_def record_path_def record_of_def
        path_join_def FLOOR_FILE_def RECORD_FILE_def MAX_ENTRIES_def)
  then obtain f' out where
    c: "check sample_check_lib sample_manifest_lib sample_lib sample_checker None 7 (5, 3) Map.empty = (f', Inr out)"
    by blast
  have "channel_lib_ok (ck_channel sample_check_lib)" by (simp add: sample_check_lib_def sample_channel_lib_ok)
  moreover have "ck_de sample_check_lib b = Some rs" if "ck_ser sample_check_lib rs = Some b" for rs b
    using that by (auto simp: sample_check_lib_def split: if_splits)
  ultimately show ?thesis
    using check_is_on_record [OF _ _ c] c by (fastforce simp: sample_checker_def)
qed

end
