(* ===== verification/Download.thy ===== *)
theory Download
  imports Transport
begin

text \<open>
  One transfer, \<open>crates/updater/src/transport/download.rs\<close>: how it is set up from what the cache
  holds, one poll of \<open>read_chunk\<close>, pause, cancel and drop. The state is the \<open>Download\<close> with its
  atomics, the \<open>Transfer\<close> behind its mutex, and the file system. What the world answers during
  one poll (the response, the read, whether each write landed) is the record \<open>poll_env\<close>. An open
  handle appends to its path: a transfer is the only writer of its file.
\<close>

section \<open>States\<close>

definition PARTIAL_CONTENT :: u16 where "PARTIAL_CONTENT = 206"
definition UNKNOWN_LENGTH :: u64 where "UNKNOWN_LENGTH = - 1"

datatype Status = Pending | Downloading | Paused | Complete | Cancelled | Failed

definition status_repr :: "Status \<Rightarrow> u8" where
  "status_repr s = (case s of Pending \<Rightarrow> 0 | Downloading \<Rightarrow> 1 | Paused \<Rightarrow> 2 | Complete \<Rightarrow> 3
     | Cancelled \<Rightarrow> 4 | Failed \<Rightarrow> 5)"

definition status_from_repr :: "u8 \<Rightarrow> Status" where
  "status_from_repr v =
     (if v = 0 then Pending else if v = 1 then Downloading else if v = 2 then Paused
      else if v = 3 then Complete else if v = 4 then Cancelled else Failed)"

datatype Failure = Server | ResumeRestart | HtmlPage | Transfer

definition failure_repr :: "Failure \<Rightarrow> u8" where
  "failure_repr f = (case f of Server \<Rightarrow> 1 | ResumeRestart \<Rightarrow> 2 | HtmlPage \<Rightarrow> 3 | Transfer \<Rightarrow> 4)"

definition failure_from_repr :: "u8 \<Rightarrow> Failure option" where
  "failure_from_repr v =
     (if v = 1 then Some Server else if v = 2 then Some ResumeRestart
      else if v = 3 then Some HtmlPage else if v = 4 then Some Transfer else None)"

record snapshot =
  snap_downloaded :: u64
  snap_total :: "u64 option"
  snap_status :: Status
  snap_failure :: "Failure option"
  snap_no_retry :: bool

text \<open>A read carries the bytes it put at the front of the caller's buffer.\<close>

datatype Chunk = Read bytes | Idle | ChunkFailed

record transfer =
  x_url :: string
  x_path :: string
  x_file_size :: "u64 option"
  x_bytes_written :: u64
  x_resume_offset :: u64
  x_etag :: string
  x_started :: bool
  x_is_cached :: bool
  x_reader :: bool  \<comment> \<open>a response body is open\<close>
  x_file :: bool  \<comment> \<open>the destination is open\<close>
  x_cached_file :: "bytes option"  \<comment> \<open>the unread rest of an open cached file\<close>

record download =
  d_agent :: agent
  d_progress_bytes :: u64
  d_progress_total :: u64
  d_status :: u8
  d_failure :: u8
  d_no_retry :: bool
  d_cancel :: bool
  d_pause :: bool
  d_xfer :: transfer

record resume =
  r_offset :: u64
  r_file_size :: u64
  r_etag :: string

datatype Setup = Cached bytes u64 | Resume resume | Fresh "u64 option"

interpretation status_codec: wire_codec status_repr "\<lambda>c. Some (status_from_repr c)" "\<lambda>_. True"
  by unfold_locales (simp add: status_repr_def status_from_repr_def split: Status.split)

interpretation failure_codec: wire_codec failure_repr failure_from_repr "\<lambda>_. True"
  by unfold_locales (simp add: failure_repr_def failure_from_repr_def split: Failure.split)

lemma status_from_repr_repr [simp]: "status_from_repr (status_repr s) = s"
  using status_codec.decode_encode by simp

section \<open>What the code decides on its own\<close>

definition has_enough_disk_space :: "u64 \<Rightarrow> u64 \<Rightarrow> bool" where
  "has_enough_disk_space required available =
     (if required = 0 then True
      else let headroom = max (required div 10) (1024 * 1024)
        in sat_add required headroom \<le> available)"

text \<open>Free space is never known, so the check never refuses.\<close>

definition available_disk_space :: "string \<Rightarrow> u64 option" where
  "available_disk_space path = None"

definition check_disk_space :: "string \<Rightarrow> u64 option \<Rightarrow> bool" where
  "check_disk_space path required =
     (case (required, available_disk_space path) of
        (Some r, Some a) \<Rightarrow> has_enough_disk_space r a
      | _ \<Rightarrow> True)"

definition resume_response_is_valid :: "u64 \<Rightarrow> u16 \<Rightarrow> bool" where
  "resume_response_is_valid offset status \<longleftrightarrow> offset = 0 \<or> status = PARTIAL_CONTENT"

definition url_has_extension :: "string \<Rightarrow> string \<Rightarrow> bool" where
  "url_has_extension url ext =
     (let path = takeWhile (\<lambda>c. c \<noteq> CHR ''?'' \<and> c \<noteq> CHR ''#'') url;
          name = rev (takeWhile (\<lambda>c. c \<noteq> CHR ''/'') (rev path))
      in case position (\<lambda>c. c = CHR ''.'') (rev name) of
           None \<Rightarrow> False
         | Some k \<Rightarrow> if Suc k = length name then False
             else eq_ignore_ascii_case (drop (length name - k) name) ext)"

definition is_content_type_mismatch :: "string \<Rightarrow> string \<Rightarrow> bool" where
  "is_content_type_mismatch content_type url =
     (if \<not> (9 \<le> length content_type \<and> eq_ignore_ascii_case (take 9 content_type) ''text/html'')
      then False
      else \<not> list_ex (url_has_extension url) [''html'', ''htm'', ''xhtml''])"

section \<open>Setting up\<close>

text \<open>What opening and creating files answers while a transfer is set up.\<close>

record setup_env =
  s_net :: http
  s_open_cached :: bool
  s_open_append :: bool
  s_remove_meta :: bool
  s_remove_file :: bool
  s_create_dirs :: bool
  s_create_file :: bool

datatype start_error = EmptyUrl | DiskSpace | Io

definition open_cached :: "setup_env \<Rightarrow> string \<Rightarrow> fs \<Rightarrow> Setup option" where
  "open_cached e path f =
     (if \<not> is_complete_at f path then None
      else if \<not> s_open_cached e then None
      else map_option (\<lambda>content. Cached content (of_nat (length content))) (f path))"

definition plan_resume :: "string \<Rightarrow> fs \<Rightarrow> resume option" where
  "plan_resume path f =
     (case meta_read f path of None \<Rightarrow> None
      | Some m \<Rightarrow> (case f path of None \<Rightarrow> None
        | Some content \<Rightarrow>
          if int (length content) \<noteq> uint (bytes_written m) \<or> bytes_written m = 0 then None
          else if file_size m \<le> bytes_written m then None
          else if \<not> check_disk_space path (Some (file_size m - bytes_written m)) then None
          else Some \<lparr>r_offset = bytes_written m, r_file_size = file_size m,
                 r_etag = unpack_etag (meta_etag m)\<rparr>))"

definition open_resume :: "setup_env \<Rightarrow> string \<Rightarrow> fs \<Rightarrow> Setup option" where
  "open_resume e path f =
     (case plan_resume path f of None \<Rightarrow> None
      | Some r \<Rightarrow> if s_open_append e then Some (Resume r) else None)"

definition start_fresh ::
  "setup_env \<Rightarrow> agents \<Rightarrow> string \<Rightarrow> string \<Rightarrow> fs \<Rightarrow> (start_error + Setup) \<times> fs" where
  "start_fresh e a path url f =
     (let fsz = url_size (s_net e) (short_for a url) url
      in if \<not> check_disk_space path fsz then (Inl DiskSpace, f)
         else if \<not> s_create_dirs e then (Inl Io, f)
         else if \<not> s_create_file e then (Inl Io, f)
         else (Inr (Fresh fsz), f(path \<mapsto> [])))"

definition prepare ::
  "setup_env \<Rightarrow> agents \<Rightarrow> string \<Rightarrow> string \<Rightarrow> bool \<Rightarrow> fs \<Rightarrow> (start_error + Setup) \<times> fs" where
  "prepare e a path url allow_resume f =
     (case open_cached e path f of
        Some cached \<Rightarrow> (Inr cached, f)
      | None \<Rightarrow>
          if allow_resume then
            (case open_resume e path f of
               Some resumed \<Rightarrow> (Inr resumed, f)
             | None \<Rightarrow> start_fresh e a path url
                 (remove_file (s_remove_file e) path (meta_delete (s_remove_meta e) path f)))
          else start_fresh e a path url f)"

definition new_xfer :: "string \<Rightarrow> string \<Rightarrow> transfer" where
  "new_xfer path url = \<lparr>x_url = url, x_path = path, x_file_size = None, x_bytes_written = 0,
     x_resume_offset = 0, x_etag = [], x_started = False, x_is_cached = False, x_reader = False,
     x_file = False, x_cached_file = None\<rparr>"

definition from_setup :: "agent \<Rightarrow> string \<Rightarrow> string \<Rightarrow> Setup \<Rightarrow> download" where
  "from_setup ag path url setup =
     (let x = new_xfer path url;
          (x, status, downloaded, len) = (case setup of
             Cached content n \<Rightarrow>
               (x\<lparr>x_cached_file := Some content, x_file_size := Some n, x_is_cached := True,
                  x_started := True\<rparr>, Complete, n, Some n)
           | Resume r \<Rightarrow>
               (x\<lparr>x_file := True, x_resume_offset := r_offset r, x_file_size := Some (r_file_size r),
                  x_etag := r_etag r\<rparr>, Pending, r_offset r, Some (r_file_size r))
           | Fresh fsz \<Rightarrow> (x\<lparr>x_file := True, x_file_size := fsz\<rparr>, Pending, 0, fsz))
      in \<lparr>d_agent = ag, d_progress_bytes = downloaded,
          d_progress_total = (case len of Some n \<Rightarrow> n | None \<Rightarrow> UNKNOWN_LENGTH),
          d_status = status_repr status, d_failure = 0, d_no_retry = False, d_cancel = False,
          d_pause = False, d_xfer = x\<rparr>)"

definition start_download ::
  "setup_env \<Rightarrow> agents \<Rightarrow> string \<Rightarrow> string \<Rightarrow> bool \<Rightarrow> fs \<Rightarrow> (start_error + download) \<times> fs" where
  "start_download e a path url allow_resume f =
     (if url = [] then (Inl EmptyUrl, f)
      else (case prepare e a path url allow_resume f of
          (Inl err, f') \<Rightarrow> (Inl err, f')
        | (Inr setup, f') \<Rightarrow> (Inr (from_setup (streaming_for a url) path url setup), f')))"

text \<open>\<open>Transport::download\<close>: the cache entry of the digest.\<close>

definition transport_download ::
  "setup_env \<Rightarrow> agents \<Rightarrow> string \<Rightarrow> string \<Rightarrow> ArtifactDigest \<Rightarrow> bool \<Rightarrow> fs
     \<Rightarrow> (start_error + download) \<times> fs" where
  "transport_download e a root url d allow_resume f =
     start_download e a (path_for root d) url allow_resume f"

section \<open>One poll\<close>

record poll_env =
  e_net :: http
  e_read :: "bytes option"  \<comment> \<open>what the body hands over; nothing is its end\<close>
  e_cached_read :: "nat option"  \<comment> \<open>how much one read of a cached file yields\<close>
  e_write :: landing
  e_meta :: landing
  e_remove :: "bool \<times> bool"  \<comment> \<open>removing the file, removing its sidecar\<close>

definition status_of :: "download \<Rightarrow> Status" where
  "status_of d = status_from_repr (d_status d)"

definition set_status :: "Status \<Rightarrow> download \<Rightarrow> download" where
  "set_status s d = d\<lparr>d_status := status_repr s\<rparr>"

definition progress :: "download \<Rightarrow> snapshot" where
  "progress d = \<lparr>snap_downloaded = d_progress_bytes d,
     snap_total = (if d_progress_total d \<noteq> UNKNOWN_LENGTH then Some (d_progress_total d) else None),
     snap_status = status_of d, snap_failure = failure_from_repr (d_failure d),
     snap_no_retry = d_no_retry d\<rparr>"

definition request_pause :: "download \<Rightarrow> download" where
  "request_pause d = d\<lparr>d_pause := True\<rparr>"

definition request_cancel :: "download \<Rightarrow> download" where
  "request_cancel d = d\<lparr>d_cancel := True\<rparr>"

definition fail :: "Failure \<Rightarrow> bool \<Rightarrow> download \<Rightarrow> download" where
  "fail why no_retry d = set_status Failed (d\<lparr>d_failure := failure_repr why, d_no_retry := no_retry\<rparr>)"

definition close_file :: "download \<Rightarrow> download" where
  "close_file d = d\<lparr>d_xfer := (d_xfer d)\<lparr>x_file := False\<rparr>\<rparr>"

definition discard :: "poll_env \<Rightarrow> download \<times> fs \<Rightarrow> download \<times> fs" where
  "discard e s = (case s of (d, f) \<Rightarrow>
     (close_file d,
      meta_delete (snd (e_remove e)) (x_path (d_xfer d))
        (remove_file (fst (e_remove e)) (x_path (d_xfer d)) f)))"

definition save_meta :: "landing \<Rightarrow> transfer \<Rightarrow> fs \<Rightarrow> fs" where
  "save_meta w x f = (case x_file_size x of
       None \<Rightarrow> f
     | Some fsz \<Rightarrow>
         if x_bytes_written x = 0 then f
         else meta_write w (x_path x)
           \<lparr>file_size = fsz, bytes_written = x_resume_offset x + x_bytes_written x,
            meta_etag = pack_etag (x_etag x)\<rparr> f)"

definition transfer_request :: "transfer \<Rightarrow> request" where
  "transfer_request x = \<lparr>req_verb = GET, req_url = x_url x,
     req_headers =
       (if 0 < x_resume_offset x then
          (''range'', ''bytes='' @ show_u64 (x_resume_offset x) @ ''-'')
            # (if x_etag x \<noteq> [] then [(''if-range'', x_etag x)] else [])
        else [])\<rparr>"

definition or_default :: "string option \<Rightarrow> string" where
  "or_default s = (case s of Some t \<Rightarrow> t | None \<Rightarrow> [])"

definition start_transfer :: "poll_env \<Rightarrow> download \<times> fs \<Rightarrow> bool \<times> download \<times> fs" where
  "start_transfer e s = (case s of (d, f) \<Rightarrow>
     (case e_net e (d_agent d) (transfer_request (d_xfer d)) of
        None \<Rightarrow> (False, fail Transfer False (close_file d), f)
      | Some r \<Rightarrow>
          let status = resp_status r;
              content_type = or_default (header r ''content-type'');
              etag = or_default (header r ''etag'');
              d1 = (if etag \<noteq> [] then d\<lparr>d_xfer := (d_xfer d)\<lparr>x_etag := etag\<rparr>\<rparr> else d)
          in if 400 \<le> status then
               (let (d2, f2) = discard e (d1, f)
                in (False, fail Server (400 \<le> status \<and> status < 500) d2, f2))
             else if \<not> resume_response_is_valid (x_resume_offset (d_xfer d1)) status then
               (let (d2, f2) = discard e (d1, f) in (False, fail ResumeRestart False d2, f2))
             else if is_content_type_mismatch content_type (x_url (d_xfer d1)) then
               (let (d2, f2) = discard e (d1, f) in (False, fail HtmlPage True d2, f2))
             else (True,
               set_status Downloading
                 (d1\<lparr>d_xfer := (d_xfer d1)\<lparr>x_reader := True, x_started := True\<rparr>\<rparr>), f)))"

definition finalize_complete :: "poll_env \<Rightarrow> download \<times> fs \<Rightarrow> download \<times> fs" where
  "finalize_complete e s = (case s of (d, f) \<Rightarrow>
     (let x = d_xfer d; done_len = x_resume_offset x + x_bytes_written x
      in (set_status Complete ((close_file d)\<lparr>d_progress_bytes := done_len, d_progress_total := done_len\<rparr>),
          meta_write (e_meta e) (x_path x)
            \<lparr>file_size = done_len, bytes_written = done_len, meta_etag = pack_etag (x_etag x)\<rparr> f)))"

text \<open>\<open>write_all\<close> on the destination's handle: the bytes, a prefix of them, or none.\<close>

definition append_file :: "landing \<Rightarrow> string \<Rightarrow> bytes \<Rightarrow> fs \<Rightarrow> fs" where
  "append_file w path new f = (case f path of
       None \<Rightarrow> f
     | Some content \<Rightarrow> f(path \<mapsto> content @ (case w of Landed \<Rightarrow> new | Cut n \<Rightarrow> take n new | NotOpened \<Rightarrow> [])))"

definition read_body :: "poll_env \<Rightarrow> nat \<Rightarrow> download \<times> fs \<Rightarrow> Chunk \<times> download \<times> fs" where
  "read_body e buf_len s = (case s of (d, f) \<Rightarrow>
     (if \<not> x_reader (d_xfer d) then (ChunkFailed, d, f)
      else (case map_option (take buf_len) (e_read e) of
          Some [] \<Rightarrow> (Idle, finalize_complete e (d, f))
        | Some new \<Rightarrow>
            let f' = (if x_file (d_xfer d) then append_file (e_write e) (x_path (d_xfer d)) new f else f)
            in if x_file (d_xfer d) \<and> e_write e \<noteq> Landed then
                 (ChunkFailed, fail Transfer False (close_file d), f')
               else
                 let x = (d_xfer d)\<lparr>x_bytes_written := x_bytes_written (d_xfer d) + of_nat (length new)\<rparr>
                 in (Read new,
                     d\<lparr>d_xfer := x, d_progress_bytes := x_resume_offset x + x_bytes_written x\<rparr>, f')
        | None \<Rightarrow> (ChunkFailed, fail Transfer False (close_file d), f))))"

definition read_cached :: "poll_env \<Rightarrow> nat \<Rightarrow> download \<Rightarrow> Chunk \<times> download" where
  "read_cached e buf_len d =
     (case x_cached_file (d_xfer d) of
        None \<Rightarrow> (Idle, d)
      | Some rest \<Rightarrow>
          (case e_cached_read e of
             None \<Rightarrow> (Idle, d\<lparr>d_xfer := (d_xfer d)\<lparr>x_cached_file := None\<rparr>\<rparr>)
           | Some k \<Rightarrow>
               let n = min (max 1 k) (min buf_len (length rest))
               in if n = 0 then (Idle, d\<lparr>d_xfer := (d_xfer d)\<lparr>x_cached_file := None\<rparr>\<rparr>)
                  else (Read (take n rest),
                        d\<lparr>d_xfer := (d_xfer d)\<lparr>x_cached_file := Some (drop n rest)\<rparr>\<rparr>)))"

definition read_chunk :: "poll_env \<Rightarrow> nat \<Rightarrow> download \<times> fs \<Rightarrow> Chunk \<times> download \<times> fs" where
  "read_chunk e buf_len s = (case s of (d, f) \<Rightarrow>
     (if buf_len = 0 then (ChunkFailed, d, f)
      else if x_is_cached (d_xfer d) then
        (case read_cached e buf_len d of (c, d') \<Rightarrow> (c, d', f))
      else if status_of d = Failed \<or> status_of d = Cancelled then (ChunkFailed, d, f)
      else if status_of d = Complete \<or> status_of d = Paused then (Idle, d, f)
      else if d_cancel d then
        (let (d', f') = discard e (d, f) in (ChunkFailed, set_status Cancelled d', f'))
      else if d_pause d then
        (Idle, set_status Paused d, save_meta (e_meta e) (d_xfer d) f)
      else if x_started (d_xfer d) then read_body e buf_len (d, f)
      else (case start_transfer e (d, f) of
          (started, s') \<Rightarrow> if started then read_body e buf_len s' else (ChunkFailed, s'))))"

text \<open>\<open>Drop for Download\<close>.\<close>

definition drop_download :: "poll_env \<Rightarrow> download \<times> fs \<Rightarrow> fs" where
  "drop_download e s = (case s of (d, f) \<Rightarrow>
     (if x_is_cached (d_xfer d) then f
      else if status_of d = Downloading \<and> x_bytes_written (d_xfer d) > 0 then
        save_meta (e_meta e) (d_xfer d) f
      else if status_of d = Failed \<and> x_bytes_written (d_xfer d) = 0 then
        meta_delete (snd (e_remove e)) (x_path (d_xfer d))
          (remove_file (fst (e_remove e)) (x_path (d_xfer d)) f)
      else f))"

end
