(* ===== verification/Validate.thy ===== *)
theory Validate
  imports Download
begin

text \<open>
  What a completed transfer has to prove, \<open>crates/updater/src/queue/validate.rs\<close>. The incremental
  hasher of the crate \<open>sha2\<close> is the bytes fed to it so far; its digest is \<open>sha256\<close> of them. How
  much one read of a file returns, and whether it fails, is the environment's choice.
\<close>

section \<open>Failures\<close>

datatype queue_failure =
    Digest string
  | DiskDigest string
  | Size u64 u64
  | Oversize u64 u64
  | Unreadable
  | TransferFailure Failure
  | Start start_error
  | Panicked

section \<open>Reading a file chunk by chunk\<close>

definition CHUNK_SIZE :: nat where "CHUNK_SIZE = 64 * 1024"

record disk_env =
  opens :: bool
  reads :: "nat \<Rightarrow> nat option"  \<comment> \<open>what the \<open>k\<close>-th read yields, at least one byte before the end\<close>

definition read_len :: "nat \<Rightarrow> nat \<Rightarrow> nat" where
  "read_len granted left = min (max 1 granted) (min CHUNK_SIZE left)"

function read_loop :: "(nat \<Rightarrow> nat option) \<Rightarrow> nat \<Rightarrow> bytes \<Rightarrow> bytes \<Rightarrow> bool \<times> bytes" where
  "read_loop rs k rest digest =
     (case rs k of
        None \<Rightarrow> (False, digest)
      | Some granted \<Rightarrow>
          let n = read_len granted (length rest)
          in if n = 0 then (True, digest)
             else read_loop rs (Suc k) (drop n rest) (digest @ take n rest))"
  by pat_completeness auto
termination
  by (relation "measure (\<lambda>(rs, k, rest, digest). length rest)") (auto simp: read_len_def)

declare read_loop.simps [simp del]

definition hash_prefix :: "disk_env \<Rightarrow> string \<Rightarrow> u64 \<Rightarrow> bytes \<Rightarrow> fs \<Rightarrow> bool \<times> bytes" where
  "hash_prefix e path len digest f =
     (if \<not> opens e then (False, digest)
      else (case f path of
          None \<Rightarrow> (False, digest)
        | Some content \<Rightarrow>
            (case read_loop (reads e) 0 (take (unat len) content) digest of
               (ok, digest') \<Rightarrow> (ok \<and> int (length digest') - int (length digest) = uint len, digest'))))"

definition hash_file :: "lib \<Rightarrow> disk_env \<Rightarrow> string \<Rightarrow> fs \<Rightarrow> bytes option" where
  "hash_file l e path f =
     (if \<not> opens e then None
      else (case f path of
          None \<Rightarrow> None
        | Some content \<Rightarrow>
            (case read_loop (reads e) 0 content [] of
               (ok, digest) \<Rightarrow> if ok \<and> length digest > 0 then Some (sha256 l digest) else None)))"

section \<open>The gates\<close>

definition verify_on_disk ::
  "lib \<Rightarrow> disk_env \<Rightarrow> string \<Rightarrow> ArtifactDigest \<Rightarrow> fs \<Rightarrow> queue_failure option" where
  "verify_on_disk l e path d f =
     (case hash_file l e path f of
        None \<Rightarrow> Some Unreadable
      | Some on_disk \<Rightarrow>
          if on_disk \<noteq> as_bytes d then Some (DiskDigest (hex_encode l on_disk)) else None)"

definition validate ::
  "lib \<Rightarrow> disk_env \<Rightarrow> string \<Rightarrow> ArtifactDigest \<Rightarrow> u64 option \<Rightarrow> bytes \<Rightarrow> u64 \<Rightarrow> fs
     \<Rightarrow> queue_failure option" where
  "validate l e path d expected_size in_flight downloaded f =
     (let hashed = sha256 l in_flight
      in if hashed \<noteq> as_bytes d then Some (Digest (hex_encode l hashed))
         else (case expected_size of
             Some expected \<Rightarrow>
               if downloaded \<noteq> expected then Some (Size expected downloaded)
               else verify_on_disk l e path d f
           | None \<Rightarrow> verify_on_disk l e path d f))"

section \<open>What the loops compute\<close>

lemma read_loop_all: "read_loop rs k rest digest = (True, digest') \<Longrightarrow> digest' = digest @ rest"
proof (induction rs k rest digest rule: read_loop.induct)
  case (1 rs k rest digest)
  from "1.prems" obtain granted where g: "rs k = Some granted"
    by (subst (asm) read_loop.simps) (auto split: option.splits)
  show ?case
  proof (cases "read_len granted (length rest) = 0")
    case True
    then have "rest = []" by (cases rest) (auto simp: read_len_def CHUNK_SIZE_def)
    with "1.prems" g show ?thesis
      by (subst (asm) read_loop.simps) (simp add: read_len_def)
  next
    case False
    let ?n = "read_len granted (length rest)"
    have "read_loop rs (Suc k) (drop ?n rest) (digest @ take ?n rest) = (True, digest')"
      using "1.prems" g False by (subst (asm) read_loop.simps) (simp add: Let_def)
    from "1.IH" [OF g refl False this] show ?thesis by simp
  qed
qed

lemma read_loop_succeeds: "(\<And>j. rs j \<noteq> None) \<Longrightarrow> fst (read_loop rs k rest digest)"
proof (induction rs k rest digest rule: read_loop.induct)
  case (1 rs k rest digest)
  obtain granted where g: "rs k = Some granted" using "1.prems" [of k] by blast
  show ?case
  proof (cases "read_len granted (length rest) = 0")
    case True
    with g show ?thesis by (subst read_loop.simps) simp
  next
    case False
    from "1.IH" [OF g refl False "1.prems"] g False show ?thesis
      by (subst read_loop.simps) (simp add: Let_def)
  qed
qed

lemma hash_file_Some:
  "hash_file l e path f = Some h \<Longrightarrow> \<exists>content. f path = Some content \<and> content \<noteq> [] \<and> h = sha256 l content"
  by (auto simp: hash_file_def split: if_splits option.splits prod.splits dest: read_loop_all)

lemma hash_file_reads:
  "opens e \<Longrightarrow> (\<And>j. reads e j \<noteq> None) \<Longrightarrow> f path = Some content \<Longrightarrow>
   hash_file l e path f = (if content = [] then None else Some (sha256 l content))"
  using read_loop_succeeds [of "reads e" 0 content "[]"] read_loop_all [of "reads e" 0 content "[]"]
  by (cases "read_loop (reads e) 0 content []") (auto simp: hash_file_def)

lemma hash_prefix_True:
  "hash_prefix e path len digest f = (True, digest') \<Longrightarrow>
   \<exists>content. f path = Some content \<and> unat len \<le> length content \<and> digest' = digest @ take (unat len) content"
proof -
  assume h: "hash_prefix e path len digest f = (True, digest')"
  then obtain content where c: "f path = Some content"
    "read_loop (reads e) 0 (take (unat len) content) digest = (True, digest')"
    "int (length digest') - int (length digest) = uint len"
    by (auto simp: hash_prefix_def split: if_splits option.splits prod.splits)
  from read_loop_all [OF c(2)] have d: "digest' = digest @ take (unat len) content" .
  with c(3) have "int (min (length content) (unat len)) = int (unat len)" by simp
  then have "min (length content) (unat len) = unat len" by (simp only: of_nat_eq_iff)
  with c(1) d show ?thesis by (intro exI [of _ content]) linarith
qed

text \<open>What passing the three gates means, and that the gates pass it.\<close>

lemma validate_passes:
  assumes "validate l e path d expected in_flight downloaded f = None"
  shows "sha256 l in_flight = as_bytes d \<and> (expected = None \<or> expected = Some downloaded)
    \<and> (\<exists>content. f path = Some content \<and> content \<noteq> [] \<and> sha256 l content = as_bytes d)"
proof -
  have "sha256 l in_flight = as_bytes d" "expected = None \<or> expected = Some downloaded"
    "verify_on_disk l e path d f = None"
    using assms by (auto simp: validate_def Let_def split: if_splits option.splits)
  moreover from this(3) obtain h where "hash_file l e path f = Some h" "h = as_bytes d"
    by (auto simp: verify_on_disk_def split: option.splits if_splits)
  ultimately show ?thesis using hash_file_Some by metis
qed

section \<open>Properties\<close>

text \<open>
  The three gates in order. A transfer whose file can be read back validates exactly when the
  bytes that streamed past hash to the digest, the length is the expected one where one was given,
  and the file on disk is not empty and hashes to the digest too; otherwise the first gate that
  fails is the one reported.
\<close>

theorem validate_gates:
  assumes "opens e" "\<forall>j. reads e j \<noteq> None" "f path = Some content"
  shows "validate l e path d expected in_flight downloaded f =
    (if sha256 l in_flight \<noteq> as_bytes d then Some (Digest (hex_encode l (sha256 l in_flight)))
     else if expected \<noteq> None \<and> expected \<noteq> Some downloaded then Some (Size (the expected) downloaded)
     else if content = [] then Some Unreadable
     else if sha256 l content \<noteq> as_bytes d then Some (DiskDigest (hex_encode l (sha256 l content)))
     else None)"
  using hash_file_reads [of e f path content l] assms
  by (cases expected) (auto simp: validate_def verify_on_disk_def Let_def)

theorem validate_gates_witness:
  "validate sample_lib \<lparr>opens = True, reads = \<lambda>k. Some (k + 1)\<rparr> ''a'' (ArtifactDigest ([7, 7] @ replicate 30 0))
     (Some 2) [7, 7] 2 (\<lambda>p. Some [7, 7]) = None
   \<and> validate sample_lib \<lparr>opens = True, reads = \<lambda>k. Some (k + 1)\<rparr> ''a'' (ArtifactDigest ([7, 7] @ replicate 30 0))
     (Some 2) [7, 7] 2 (\<lambda>p. Some [7]) = Some (DiskDigest (to_hex (7 # replicate 31 0)))"
proof -
  let ?e = "\<lparr>opens = True, reads = \<lambda>k. Some (k + 1)\<rparr>" and ?d = "ArtifactDigest ([7, 7] @ replicate 30 0)"
  have ok: "opens ?e" "\<forall>j. reads ?e j \<noteq> None" by simp_all
  have h: "sha256 sample_lib [7, 7] = [7, 7] @ replicate 30 0" "sha256 sample_lib [7] = 7 # replicate 31 0"
    by (simp_all add: sample_lib_def min_def eval_nat_numeral)
  have ne: "7 # replicate 31 0 \<noteq> [7, 7 :: u8] @ replicate 30 0" by code_simp
  show ?thesis
    using validate_gates [OF ok, of "\<lambda>p. Some [7, 7]" "''a''" "[7, 7]" sample_lib ?d "Some 2" "[7, 7]" 2]
      validate_gates [OF ok, of "\<lambda>p. Some [7]" "''a''" "[7]" sample_lib ?d "Some 2" "[7, 7]" 2] h ne
    by (simp add: sample_lib_def)
qed

end
