(* ===== verification/Install.thy ===== *)
theory Install
  imports Check Validate
begin

text \<open>
  The install root, \<open>crates/updater/src/apply/install.rs\<close>, and the errors of an apply,
  \<open>apply/error.rs\<close>. A directory is the files whose paths begin with it; the claims of the applies
  that are publishing are a map. What \<open>read_dir\<close> lists, how a removal ends, and the JSON and the
  store of the record are the environment and the record \<open>install_lib\<close>.
\<close>

section \<open>Data\<close>

datatype apply_error = ArtifactError string queue_failure | CancelledError string
  | DigestError string string | UnsafePath string string | GenerationIdError string
  | Collision string string string | InstallError string

definition RECORD_SCHEMA :: u32 where "RECORD_SCHEMA = 1"
definition RECORD_SUFFIX :: string where "RECORD_SUFFIX = ''.generation.json''"

record installed =
  inst_name :: string
  inst_target :: "string option"
  inst_version :: "string option"
  inst_revision :: string
  inst_sha256 :: string
  inst_size :: u64
  inst_path :: string

record install_record =
  ir_schema :: u32
  ir_generation :: string
  ir_artifacts :: "installed list"

record generation =
  gen_id :: string
  gen_dir :: string
  gen_artifacts :: "installed list"

definition path_of :: "generation \<Rightarrow> installed \<Rightarrow> string" where
  "path_of g a = path_join (gen_dir g) (inst_path a)"

record install_lib =
  il_ser :: "install_record \<Rightarrow> bytes option"
  il_de :: "bytes \<Rightarrow> install_record option"
  il_store :: "nat \<Rightarrow> string \<Rightarrow> string \<Rightarrow> bytes \<Rightarrow> fs \<Rightarrow> fs \<times> bool"

section \<open>Paths and claims\<close>

definition record_name :: "string \<Rightarrow> string" where
  "record_name ident = ident @ RECORD_SUFFIX"

definition generation_record :: "string \<Rightarrow> string \<Rightarrow> string" where
  "generation_record root ident = path_join root (record_name ident)"

definition dir_of :: "string \<Rightarrow> string \<Rightarrow> string" where
  "dir_of root ident = path_join root ident"

type_synonym claims = "string \<Rightarrow> nat option"

definition claim_publish :: "string \<Rightarrow> claims \<Rightarrow> claims" where
  "claim_publish ident m = m(ident \<mapsto> (case m ident of None \<Rightarrow> 0 | Some n \<Rightarrow> n) + 1)"

definition drop_publishing :: "string \<Rightarrow> claims \<Rightarrow> claims" where
  "drop_publishing ident m = (case m ident of
       None \<Rightarrow> m
     | Some n \<Rightarrow> if n - 1 = 0 then m(ident := None) else m(ident \<mapsto> n - 1))"

section \<open>Resolving and recording\<close>

text \<open>\<open>readable\<close>: whether the record, if it is there, can be read.\<close>

definition resolve_generation ::
  "install_lib \<Rightarrow> string \<Rightarrow> bool \<Rightarrow> string \<Rightarrow> fs \<Rightarrow> generation option" where
  "resolve_generation il root readable ident f =
     (if \<not> readable then None
      else (case f (generation_record root ident) of
          None \<Rightarrow> None
        | Some b \<Rightarrow> (case il_de il b of
              None \<Rightarrow> None
            | Some r \<Rightarrow>
                if ir_schema r \<noteq> RECORD_SCHEMA \<or> ir_generation r \<noteq> ident then None
                else Some \<lparr>gen_id = ir_generation r, gen_dir = dir_of root ident,
                       gen_artifacts = ir_artifacts r\<rparr>)))"

definition record_generation ::
  "install_lib \<Rightarrow> string \<Rightarrow> nat \<Rightarrow> string \<Rightarrow> installed list \<Rightarrow> fs \<Rightarrow> fs \<times> (apply_error + generation)" where
  "record_generation il root e ident artifacts f =
     (let r = \<lparr>ir_schema = RECORD_SCHEMA, ir_generation = ident, ir_artifacts = artifacts\<rparr>
      in case il_ser il r of
           None \<Rightarrow> (f, Inl (InstallError (generation_record root ident)))
         | Some b \<Rightarrow> (case il_store il e root (record_name ident) b f of
               (f', ok) \<Rightarrow> (f', if ok then Inr \<lparr>gen_id = ident, gen_dir = dir_of root ident,
                     gen_artifacts = artifacts\<rparr>
                   else Inl (InstallError (generation_record root ident)))))"

section \<open>Listing\<close>

text \<open>
  What \<open>read_dir\<close> answers: for every entry its name, when it is Unicode, and whether it is a
  directory, or that the entry could not be read.
\<close>

datatype listing = NoRoot | RootError | Listed "(string option \<times> bool) option list"

definition strip_suffix :: "string \<Rightarrow> string \<Rightarrow> string option" where
  "strip_suffix suffix s =
     (let n = length s - length suffix
      in if length suffix \<le> length s \<and> drop n s = suffix then Some (take n s) else None)"

fun collect_ids :: "string \<Rightarrow> (string option \<times> bool) option list \<Rightarrow> string list \<Rightarrow> apply_error + string list" where
  "collect_ids root [] found = Inr found"
| "collect_ids root (None # es) found = Inl (InstallError root)"
| "collect_ids root (Some (None, d) # es) found = collect_ids root es found"
| "collect_ids root (Some (Some nm, d) # es) found =
     (case strip_suffix RECORD_SUFFIX nm of
        Some ident \<Rightarrow> collect_ids root es (List.insert ident found)
      | None \<Rightarrow> collect_ids root es (if d then List.insert nm found else found))"

definition ids :: "string \<Rightarrow> listing \<Rightarrow> apply_error + string list" where
  "ids root ls = (case ls of
       NoRoot \<Rightarrow> Inr [] | RootError \<Rightarrow> Inl (InstallError root) | Listed es \<Rightarrow> collect_ids root es [])"

definition generations ::
  "install_lib \<Rightarrow> string \<Rightarrow> (string \<Rightarrow> bool) \<Rightarrow> listing \<Rightarrow> fs \<Rightarrow> apply_error + generation list" where
  "generations il root readable ls f = (case ids root ls of
       Inl err \<Rightarrow> Inl err
     | Inr is \<Rightarrow> Inr (List.map_filter (\<lambda>i. resolve_generation il root (readable i) i f) is))"

section \<open>Collecting\<close>

text \<open>
  How the two removals of one id end: whether a record that is there can be removed, whether the
  directory's removal succeeds, and, when it does not, which files it took with it.
\<close>

record removal =
  rm_record :: bool
  rm_dir :: bool
  rm_took :: "string \<Rightarrow> bool"

definition beneath :: "string \<Rightarrow> string \<Rightarrow> bool" where
  "beneath dir p = starts_with (path_join dir []) p"

definition remove_record :: "removal \<Rightarrow> string \<Rightarrow> fs \<Rightarrow> fs \<times> bool" where
  "remove_record rm path f =
     (if f path = None then (f, True) else if rm_record rm then (f(path := None), True) else (f, False))"

definition remove_dir_all :: "removal \<Rightarrow> string \<Rightarrow> fs \<Rightarrow> fs \<times> bool" where
  "remove_dir_all rm dir f =
     (\<lambda>p. if beneath dir p \<and> (rm_dir rm \<or> rm_took rm p) then None else f p, rm_dir rm)"

definition collect_generation :: "string \<Rightarrow> removal \<Rightarrow> string \<Rightarrow> fs \<Rightarrow> fs \<times> apply_error option" where
  "collect_generation root rm ident f =
     (case remove_record rm (generation_record root ident) f of
        (f1, False) \<Rightarrow> (f1, Some (InstallError (generation_record root ident)))
      | (f1, True) \<Rightarrow> (case remove_dir_all rm (dir_of root ident) f1 of
            (f2, False) \<Rightarrow> (f2, Some (InstallError (dir_of root ident)))
          | (f2, True) \<Rightarrow> (f2, None)))"

definition is_kept :: "string list \<Rightarrow> claims \<Rightarrow> string \<Rightarrow> bool" where
  "is_kept live m ident \<longleftrightarrow> ident \<in> set live \<or> m ident \<noteq> None"

text \<open>The loop of \<open>retain\<close>; the claims are read afresh for every id.\<close>

fun retain_loop ::
  "string \<Rightarrow> string list \<Rightarrow> (nat \<Rightarrow> claims) \<Rightarrow> (nat \<Rightarrow> removal) \<Rightarrow> nat \<Rightarrow> string list \<Rightarrow> string list \<Rightarrow> fs
     \<Rightarrow> fs \<times> (apply_error + string list)" where
  "retain_loop root live ms rms k [] gone f = (f, Inr gone)"
| "retain_loop root live ms rms k (ident # is) gone f =
     (if is_kept live (ms k) ident then retain_loop root live ms rms (Suc k) is gone f
      else (case collect_generation root (rms k) ident f of
          (f', Some err) \<Rightarrow> (f', Inl err)
        | (f', None) \<Rightarrow> retain_loop root live ms rms (Suc k) is (gone @ [ident]) f'))"

text \<open>\<open>order\<close> is the order the hash set of ids is walked in.\<close>

definition retain ::
  "string \<Rightarrow> listing \<Rightarrow> (string list \<Rightarrow> string list) \<Rightarrow> string list \<Rightarrow> (nat \<Rightarrow> claims) \<Rightarrow> (nat \<Rightarrow> removal) \<Rightarrow> fs
     \<Rightarrow> fs \<times> (apply_error + string list)" where
  "retain root ls order live ms rms f = (case ids root ls of
       Inl err \<Rightarrow> (f, Inl err)
     | Inr is \<Rightarrow> retain_loop root live ms rms 0 (order is) [] f)"

section \<open>Claims\<close>

text \<open>Claims count: a release undoes a claim, and an id is claimed until its last release.\<close>

lemma claim_release: "(\<forall>n. m ident = Some n \<longrightarrow> 0 < n) \<Longrightarrow> drop_publishing ident (claim_publish ident m) = m"
  by (auto simp: drop_publishing_def claim_publish_def fun_eq_iff split: option.splits)

lemma claim_publish_claims: "claim_publish ident m ident \<noteq> None"
  by (simp add: claim_publish_def)

section \<open>Names\<close>

definition plain_name :: "string \<Rightarrow> bool" where
  "plain_name s \<longleftrightarrow> s \<noteq> [] \<and> CHR ''/'' \<notin> set s \<and> s \<noteq> ''.'' \<and> s \<noteq> ''..''"

lemma path_join_base: "s \<noteq> [] \<Longrightarrow> hd s \<noteq> CHR ''/'' \<Longrightarrow> path_join root s = path_join root [] @ s"
  by (simp add: path_join_def)

lemma plain_ends: "plain_name i \<Longrightarrow> i \<noteq> [] \<and> hd i \<noteq> CHR ''/'' \<and> last i \<noteq> CHR ''/''"
  by (metis hd_in_set last_in_set plain_name_def)

lemma plain_dir_of: "plain_name i \<Longrightarrow> dir_of root i = path_join root [] @ i"
  unfolding dir_of_def using plain_ends path_join_base by blast

lemma plain_record: "plain_name i \<Longrightarrow> generation_record root i = path_join root [] @ i @ RECORD_SUFFIX"
  unfolding generation_record_def record_name_def
  using plain_ends [of i] by (subst path_join_base) auto

lemma plain_inside: "plain_name i \<Longrightarrow> path_join (dir_of root i) [] = path_join root [] @ i @ ''/''"
  using plain_ends [of i] plain_dir_of [of i root] by (simp add: path_join_def)

lemma slash_split:
  "CHR ''/'' \<notin> set a \<Longrightarrow> CHR ''/'' \<notin> set b \<Longrightarrow> a @ CHR ''/'' # x = b @ CHR ''/'' # y \<Longrightarrow> a = b"
  by (induction a arbitrary: b) (auto simp: Cons_eq_append_conv append_eq_Cons_conv)

lemma beneath_iff: "plain_name i \<Longrightarrow> beneath (dir_of root i) p \<longleftrightarrow> (\<exists>x. p = path_join root [] @ i @ CHR ''/'' # x)"
  by (auto simp: beneath_def plain_inside starts_with_def)
     (metis append.assoc append_Cons append_Nil append_take_drop_id)

lemma beneath_same:
  assumes "plain_name i" "plain_name j" "beneath (dir_of root i) p" "beneath (dir_of root j) p"
  shows "i = j"
proof -
  obtain x y where "i @ CHR ''/'' # x = j @ CHR ''/'' # y"
    using assms by (metis beneath_iff same_append_eq)
  with slash_split assms(1,2) show ?thesis by (metis plain_name_def)
qed

lemma record_not_beneath: "plain_name i \<Longrightarrow> plain_name j \<Longrightarrow> \<not> beneath (dir_of root i) (generation_record root j)"
proof
  assume i: "plain_name i" and j: "plain_name j" and b: "beneath (dir_of root i) (generation_record root j)"
  then obtain x where "j @ RECORD_SUFFIX = i @ CHR ''/'' # x" by (auto simp: beneath_iff plain_record)
  then have "CHR ''/'' \<in> set (j @ RECORD_SUFFIX)" by simp
  with j show False by (auto simp: plain_name_def RECORD_SUFFIX_def)
qed

lemma record_same: "plain_name i \<Longrightarrow> plain_name j \<Longrightarrow> generation_record root i = generation_record root j \<longleftrightarrow> i = j"
  by (simp add: plain_record)

section \<open>What a collection does\<close>

text \<open>A generation is intact when its record and every file beneath its directory are as they were.\<close>

definition intact :: "string \<Rightarrow> fs \<Rightarrow> fs \<Rightarrow> string \<Rightarrow> bool" where
  "intact root f f' ident \<longleftrightarrow> f' (generation_record root ident) = f (generation_record root ident)
     \<and> (\<forall>p. beneath (dir_of root ident) p \<longrightarrow> f' p = f p)"

lemma intact_refl: "intact root f f i"
  by (simp add: intact_def)

lemma intact_trans: "intact root f g i \<Longrightarrow> intact root g h i \<Longrightarrow> intact root f h i"
  by (simp add: intact_def)

lemma resolve_intact: "intact root f f' i \<Longrightarrow> resolve_generation il root r i f' = resolve_generation il root r i f"
  by (simp add: intact_def resolve_generation_def)

lemma resolve_no_record: "f (generation_record root i) = None \<Longrightarrow> resolve_generation il root r i f = None"
  by (simp add: resolve_generation_def)

lemma collect_cases:
  assumes "collect_generation root rm i f = (f', r)"
  shows "(f' = f \<and> r \<noteq> None)
    \<or> (f' = fst (remove_dir_all rm (dir_of root i) (f(generation_record root i := None))) \<and> (r = None \<longleftrightarrow> rm_dir rm))"
  using assms
  by (cases "f (generation_record root i) = None"; cases "rm_record rm"; cases "rm_dir rm")
     (auto simp: collect_generation_def remove_record_def remove_dir_all_def fun_upd_idem_iff)

lemma collect_shrinks: "collect_generation root rm i f = (f', r) \<Longrightarrow> f p = None \<Longrightarrow> f' p = None"
  using collect_cases [of root rm i f f' r] by (auto simp: remove_dir_all_def)

lemma collect_other:
  assumes "collect_generation root rm i f = (f', r)" "plain_name i" "plain_name j" "i \<noteq> j"
  shows "intact root f f' j"
proof -
  have "\<not> beneath (dir_of root i) (generation_record root j)" "generation_record root j \<noteq> generation_record root i"
    "\<And>p. beneath (dir_of root j) p \<Longrightarrow> \<not> beneath (dir_of root i) p \<and> p \<noteq> generation_record root i"
    using assms record_not_beneath record_same beneath_same by blast+
  with collect_cases [OF assms(1)] show ?thesis by (auto simp: intact_def remove_dir_all_def)
qed

lemma collect_self:
  assumes "collect_generation root rm i f = (f', r)"
  shows "f' = f \<or> f' (generation_record root i) = None"
    and "r = None \<Longrightarrow> f' (generation_record root i) = None \<and> (\<forall>p. beneath (dir_of root i) p \<longrightarrow> f' p = None)"
  using collect_cases [OF assms] by (auto simp: remove_dir_all_def split: if_splits)

lemma collect_commits:
  assumes "collect_generation root rm i f = (f', r)" "plain_name i" "plain_name j"
  shows "intact root f f' j \<or> f' (generation_record root j) = None"
  using collect_other [OF assms] collect_self(1) [OF assms(1)] intact_refl by metis

lemma retain_loop_shrinks:
  "retain_loop root live ms rms k is gone f = (f', r) \<Longrightarrow> f p = None \<Longrightarrow> f' p = None"
proof (induction "is" arbitrary: k gone f)
  case (Cons i "is")
  obtain f1 c where c: "collect_generation root (rms k) i f = (f1, c)" by fastforce
  with collect_shrinks [OF c] Cons show ?case by (auto split: if_splits option.splits)
qed simp

lemma retain_loop_commits:
  "retain_loop root live ms rms k is gone f = (f', r) \<Longrightarrow> list_all plain_name is \<Longrightarrow> plain_name j \<Longrightarrow>
   intact root f f' j \<or> f' (generation_record root j) = None"
proof (induction "is" arbitrary: k gone f)
  case (Cons i "is")
  obtain f1 c where c: "collect_generation root (rms k) i f = (f1, c)" by fastforce
  have one: "intact root f f1 j \<or> f1 (generation_record root j) = None"
    using collect_commits [OF c] Cons.prems by simp
  show ?case
  proof (cases "is_kept live (ms k) i \<or> c \<noteq> None")
    case True
    with Cons one c show ?thesis by (cases "is_kept live (ms k) i") auto
  next
    case False
    with Cons.prems c have rest: "retain_loop root live ms rms (Suc k) is (gone @ [i]) f1 = (f', r)" by simp
    from Cons.IH [OF rest] Cons.prems retain_loop_shrinks [OF rest, of "generation_record root j"] one
    show ?thesis by (auto intro: intact_trans)
  qed
qed (simp add: intact_refl)

lemma retain_loop_keeps:
  "retain_loop root live ms rms k is gone f = (f', r) \<Longrightarrow> list_all plain_name is \<Longrightarrow> plain_name j \<Longrightarrow>
   (\<And>n. is_kept live (ms n) j) \<Longrightarrow> intact root f f' j"
proof (induction "is" arbitrary: k gone f)
  case (Cons i "is")
  obtain f1 c where c: "collect_generation root (rms k) i f = (f1, c)" by fastforce
  show ?case
  proof (cases "is_kept live (ms k) i")
    case True
    with Cons show ?thesis by simp
  next
    case False
    then have "i \<noteq> j" using Cons.prems(4) by blast
    with collect_other [OF c] Cons.prems have "intact root f f1 j" by simp
    with False Cons c show ?thesis by (cases c) (auto intro: intact_trans)
  qed
qed (simp add: intact_refl)

text \<open>What a successful sweep reports as removed is gone, and everything not kept is reported.\<close>

lemma retain_loop_removes:
  "retain_loop root live ms rms k is gone f = (f', Inr gone') \<Longrightarrow>
   (\<forall>i \<in> set gone. f (generation_record root i) = None \<and> (\<forall>p. beneath (dir_of root i) p \<longrightarrow> f p = None)) \<Longrightarrow>
   (\<forall>i \<in> set gone'. f' (generation_record root i) = None \<and> (\<forall>p. beneath (dir_of root i) p \<longrightarrow> f' p = None))
     \<and> set gone \<subseteq> set gone' \<and> (\<forall>i \<in> set is. i \<in> set gone' \<or> (\<exists>n. is_kept live (ms n) i))"
proof (induction "is" arbitrary: k gone f)
  case (Cons i "is")
  obtain f1 c where c: "collect_generation root (rms k) i f = (f1, c)" by fastforce
  show ?case
  proof (cases "is_kept live (ms k) i")
    case True
    with Cons.IH [of "Suc k" gone f] Cons.prems show ?thesis by auto
  next
    case False
    with Cons.prems(1) c have n: "c = None" by (cases c) auto
    with Cons.prems(1) c False have rest: "retain_loop root live ms rms (Suc k) is (gone @ [i]) f1 = (f', Inr gone')"
      by simp
    have "\<forall>j \<in> set (gone @ [i]). f1 (generation_record root j) = None \<and> (\<forall>p. beneath (dir_of root j) p \<longrightarrow> f1 p = None)"
      using Cons.prems(2) collect_shrinks [OF c] collect_self(2) [OF c n] by auto
    from Cons.IH [OF rest this] show ?thesis by auto
  qed
qed simp

section \<open>Properties\<close>


text \<open>A root of two generations, each a record and one file.\<close>

definition sample_install_root :: fs where
  "sample_install_root = [''r/a.generation.json'' \<mapsto> [1], ''r/a/x'' \<mapsto> [2], ''r/b.generation.json'' \<mapsto> [3], ''r/b/y'' \<mapsto> [4]]"

definition sample_listing :: "(string option \<times> bool) option list" where
  "sample_listing = [Some (Some ''a'', True), Some (Some ''a.generation.json'', False),
     Some (Some ''b.generation.json'', False), Some (Some ''b'', True)]"

definition clean_removal :: removal where
  "clean_removal = \<lparr>rm_record = True, rm_dir = True, rm_took = (\<lambda>_. True)\<rparr>"

lemma sample_ids: "ids ''r'' (Listed sample_listing) = Inr [''b'', ''a'']"
  by code_simp



end
