(* ===== verification/Paths.thy ===== *)
theory Paths
  imports Manifest Transport
begin

text \<open>
  What the code uses of \<open>std::path\<close>, on paths as text: components, prefixes, the file name and its
  stem and extension.
\<close>

section \<open>Components\<close>

text \<open>\<open>Path::components\<close> and the component-wise \<open>Path::starts_with\<close>.\<close>

definition path_components :: "string \<Rightarrow> string list" where
  "path_components s =
     (let parts = split_on CHR ''/'' s; kept = filter (\<lambda>p. p \<noteq> [] \<and> p \<noteq> ''.'') parts
      in if starts_with ''/'' s then ''/'' # kept
         else if hd parts = ''.'' then ''.'' # kept else kept)"

definition path_starts_with :: "string \<Rightarrow> string \<Rightarrow> bool" where
  "path_starts_with p base =
     (take (length (path_components base)) (path_components p) = path_components base)"

section \<open>File names\<close>

text \<open>The last component, unless it is the root or a dot name.\<close>

definition normal :: "string \<Rightarrow> bool" where
  "normal c \<longleftrightarrow> c \<noteq> ''/'' \<and> c \<noteq> ''.'' \<and> c \<noteq> ''..''"

definition last_name :: "string list \<Rightarrow> string option" where
  "last_name cs = (if cs = [] \<or> \<not> normal (last cs) then None else Some (last cs))"

definition path_name :: "string \<Rightarrow> string option" where
  "path_name s = last_name (path_components s)"

text \<open>A name split at its last dot; a leading dot is part of the stem.\<close>

definition split_name :: "string \<Rightarrow> string \<times> string option" where
  "split_name n = (case position (\<lambda>c. c = CHR ''.'') (rev n) of
       None \<Rightarrow> (n, None)
     | Some k \<Rightarrow> if Suc k = length n then (n, None)
         else (take (length n - Suc k) n, Some (drop (length n - k) n)))"

definition path_extension :: "string \<Rightarrow> string option" where
  "path_extension s = Option.bind (path_name s) (\<lambda>n. snd (split_name n))"

definition path_stem :: "string \<Rightarrow> string option" where
  "path_stem s = map_option (\<lambda>n. fst (split_name n)) (path_name s)"

text \<open>\<open>Path::strip_prefix\<close> on components, and the parent of what is left.\<close>

definition strip_components :: "string \<Rightarrow> string \<Rightarrow> string list option" where
  "strip_components base s =
     (if path_starts_with s base then Some (drop (length (path_components base)) (path_components s)) else None)"

definition parent_components :: "string list \<Rightarrow> string list option" where
  "parent_components cs = (if cs = [] \<or> last cs = ''/'' then None else Some (butlast cs))"

text \<open>\<open>Path::with_extension\<close>: trailing separators and dots go, then the old extension.\<close>

fun trim_tail :: "string \<Rightarrow> string" where
  "trim_tail (c # cs) = (if c = CHR ''/'' then trim_tail cs
     else if c = CHR ''.'' \<and> cs \<noteq> [] \<and> hd cs = CHR ''/'' then trim_tail cs else c # cs)"
| "trim_tail [] = []"

definition with_extension :: "string \<Rightarrow> string \<Rightarrow> string" where
  "with_extension ext s = (case path_name s of None \<Rightarrow> s
     | Some n \<Rightarrow> (let t = rev (trim_tail (rev s))
         in take (length t - length n) t @ fst (split_name n) @ (if ext = [] then [] else ''.'' @ ext)))"

lemma split_name_joins: "split_name n = (stem, Some ext) \<Longrightarrow> n = stem @ ''.'' @ ext \<and> CHR ''.'' \<notin> set ext \<and> stem \<noteq> []"
proof -
  assume s: "split_name n = (stem, Some ext)"
  then obtain k where k: "position (\<lambda>c. c = CHR ''.'') (rev n) = Some k" "Suc k \<noteq> length n"
    and st: "stem = take (length n - Suc k) n" and ex: "ext = drop (length n - k) n"
    by (auto simp: split_name_def split: option.splits if_splits)
  from position_SomeD [OF k(1)] have lt: "k < length n" and at: "rev n ! k = CHR ''.''"
    and before: "\<And>j. j < k \<Longrightarrow> rev n ! j \<noteq> CHR ''.''" by auto
  from lt at have "n ! (length n - Suc k) = CHR ''.''" by (simp add: rev_nth)
  with id_take_nth_drop [of "length n - Suc k" n] lt have "n = stem @ ''.'' @ ext"
    by (simp add: st ex Suc_diff_Suc)
  moreover have "CHR ''.'' \<notin> set ext"
  proof
    assume "CHR ''.'' \<in> set ext"
    then obtain j where j: "j < length ext" "ext ! j = CHR ''.''" by (auto simp: in_set_conv_nth)
    from j lt have "rev n ! (k - Suc j) = ext ! j" by (auto simp: ex rev_nth intro!: arg_cong [where f = "(!) n"])
    with before [of "k - Suc j"] j lt show False by (simp add: ex)
  qed
  moreover from lt k(2) have "stem \<noteq> []" by (auto simp: st)
  ultimately show ?thesis by simp
qed

text \<open>Splitting what was joined.\<close>

lemma split_on_ne [simp]: "split_on c a \<noteq> []"
  by (induction a) (auto split: list.split)

lemma split_on_append: "split_on c (a @ c # b) = split_on c a @ split_on c b"
  by (induction a) (auto split: list.split)

lemma split_on_none: "c \<notin> set a \<Longrightarrow> split_on c a = [a]"
  by (induction a) auto

lemma path_name_join:
  assumes "CHR ''/'' \<notin> set n" "normal n" "n \<noteq> []"
  shows "path_name (path_join root n) = Some n"
proof -
  obtain pre where pre: "path_join root n = pre @ n" "pre = [] \<or> (\<exists>p. pre = p @ ''/'')"
  proof -
    have hd: "hd n \<noteq> CHR ''/''" using assms(1,3) hd_in_set by force
    show ?thesis
    proof (cases "root = [] \<or> last root \<noteq> CHR ''/''")
      case True
      with hd that [of "if root = [] then [] else root @ ''/''"] show ?thesis by (auto simp: path_join_def split: if_splits)
    next
      case False
      then have "root = butlast root @ ''/''" by (metis append_butlast_last_id)
      with hd False that [of root] show ?thesis by (auto simp: path_join_def)
    qed
  qed
  have "last (split_on CHR ''/'' (pre @ n)) = n" "split_on CHR ''/'' (pre @ n) \<noteq> []"
    using pre(2) by (auto simp: split_on_append split_on_none [OF assms(1)])
  then obtain ps where ps: "split_on CHR ''/'' (pre @ n) = ps @ [n]" by (metis append_butlast_last_id)
  then have "\<exists>qs. path_components (pre @ n) = qs @ [n]"
    using assms(2,3) by (auto simp: path_components_def Let_def normal_def)
  then show ?thesis using assms(2) pre(1) by (auto simp: path_name_def last_name_def)
qed

end
