(* ===== verification/Payload.thy ===== *)
theory Payload
  imports Install Paths
begin

text \<open>
  The plugin catalog's two stores, \<open>crates/catalog/src/payload.rs\<close> and \<open>record.rs\<close>: the trees a
  generation's archives are extracted into, and the activation record. The directories directly
  beneath the payload root are a map from their name to their tree; the archive formats, the JSON of
  the record and how each file operation ends are parameters.
\<close>

section \<open>Payload trees\<close>

definition ARCHIVE_SUFFIX :: string where "ARCHIVE_SUFFIX = ''.tar.zst''"
definition STAGING_PREFIX :: string where "STAGING_PREFIX = ''.staging-''"

datatype node = Regular | Symlink | Directory

type_synonym tree = "string \<Rightarrow> node option"
type_synonym trees = "string \<Rightarrow> tree option"

datatype payload_error = BadName string | ClearFailed string | CreateFailed string
  | NotAnArchive string string | OpenFailed string | DecodeFailed string | UnpackFailed string
  | CommitFailed string string | LibraryMissing string

text \<open>
  What the code does not have: the suffix of a shared library here, the texts of the errors, and
  what unpacking one archive over a tree leaves, without overwriting, and whether it went through.
\<close>

record payload_lib =
  pl_dll :: string
  pl_text :: "payload_error \<Rightarrow> string"
  pl_unpack :: "bytes \<Rightarrow> tree \<Rightarrow> tree \<times> bool"

text \<open>How one extraction's file operations go; a removal that fails leaves the entries it kept.\<close>

record extract_env =
  xe_clear :: bool
  xe_kept :: "string \<Rightarrow> bool"
  xe_create :: bool
  xe_opens :: "string \<Rightarrow> bool"
  xe_decodes :: "string \<Rightarrow> bool"
  xe_commit :: bool

definition plain_char :: "char \<Rightarrow> bool" where
  "plain_char c = (let n = (of_char c :: nat) in
     (48 \<le> n \<and> n \<le> 57) \<or> (65 \<le> n \<and> n \<le> 90) \<or> (97 \<le> n \<and> n \<le> 122) \<or> c = CHR ''-'' \<or> c = CHR ''_'')"

definition check_name :: "string \<Rightarrow> payload_error option" where
  "check_name nm = (if nm = [] \<or> \<not> list_all plain_char nm then Some (BadName nm) else None)"

fun check_names :: "installed list \<Rightarrow> payload_error option" where
  "check_names [] = None"
| "check_names (a # as) = (case check_name (inst_name a) of Some err \<Rightarrow> Some err | None \<Rightarrow> check_names as)"

definition library_name :: "payload_lib \<Rightarrow> installed \<Rightarrow> string" where
  "library_name PL a = inst_name a @ ''_playback'' @ pl_dll PL"

definition payload_dir :: "string \<Rightarrow> string \<Rightarrow> string" where
  "payload_dir root ident = path_join root ident"

definition libraries :: "payload_lib \<Rightarrow> string \<Rightarrow> installed list \<Rightarrow> string list" where
  "libraries PL dir as = map (\<lambda>a. path_join dir (library_name PL a)) as"

text \<open>The loop of \<open>extract\<close> over the archives.\<close>

fun unpack_all ::
  "payload_lib \<Rightarrow> extract_env \<Rightarrow> fs \<Rightarrow> string \<Rightarrow> installed list \<Rightarrow> tree \<Rightarrow> tree \<times> payload_error option" where
  "unpack_all PL e f gdir [] t = (t, None)"
| "unpack_all PL e f gdir (a # as) t =
     (if strip_suffix ARCHIVE_SUFFIX (inst_path a) = None then (t, Some (NotAnArchive (inst_name a) (inst_path a)))
      else (let archive = path_join gdir (inst_path a)
        in case f archive of
             None \<Rightarrow> (t, Some (OpenFailed archive))
           | Some content \<Rightarrow>
               if \<not> xe_opens e archive then (t, Some (OpenFailed archive))
               else if \<not> xe_decodes e archive then (t, Some (DecodeFailed archive))
               else (case pl_unpack PL content t of
                   (t', False) \<Rightarrow> (t', Some (UnpackFailed archive))
                 | (t', True) \<Rightarrow> unpack_all PL e f gdir as t')))"

definition extract_tree ::
  "payload_lib \<Rightarrow> extract_env \<Rightarrow> string \<Rightarrow> fs \<Rightarrow> string \<Rightarrow> string \<Rightarrow> installed list \<Rightarrow> trees
     \<Rightarrow> trees \<times> payload_error option" where
  "extract_tree PL e root f ident gdir as ts =
     (let staging = STAGING_PREFIX @ ident; path = payload_dir root staging;
          kept = (\<lambda>t n. if xe_kept e n then t n else None)
      in if ts staging \<noteq> None \<and> \<not> xe_clear e then (ts(staging := map_option kept (ts staging)), Some (ClearFailed path))
         else (let ts1 = ts(staging := None)
           in if \<not> xe_create e then (ts1, Some (CreateFailed path))
              else (case unpack_all PL e f gdir as Map.empty of
                  (t, Some err) \<Rightarrow> (ts1(staging := Some t), Some err)
                | (t, None) \<Rightarrow>
                    if \<not> xe_commit e then (ts1(staging := Some t), Some (CommitFailed path (payload_dir root ident)))
                    else ((ts1(staging := None))(ident := Some t), None))))"

text \<open>The check that every library is there as a plain file.\<close>

fun first_missing :: "payload_lib \<Rightarrow> string \<Rightarrow> tree \<Rightarrow> installed list \<Rightarrow> payload_error option" where
  "first_missing PL dir t [] = None"
| "first_missing PL dir t (a # as) =
     (if t (library_name PL a) = Some Regular then first_missing PL dir t as
      else Some (LibraryMissing (path_join dir (library_name PL a))))"

definition ensure ::
  "payload_lib \<Rightarrow> extract_env \<Rightarrow> string \<Rightarrow> fs \<Rightarrow> generation \<Rightarrow> trees \<Rightarrow> trees \<times> (payload_error + string list)" where
  "ensure PL e root f g ts =
     (let ident = gen_id g; as = gen_artifacts g; dir = payload_dir root ident
      in case check_names as of
           Some err \<Rightarrow> (ts, Inl err)
         | None \<Rightarrow>
             (case (if ts ident = None then extract_tree PL e root f ident (gen_dir g) as ts else (ts, None)) of
                (ts', Some err) \<Rightarrow> (ts', Inl err)
              | (ts', None) \<Rightarrow>
                  (case first_missing PL dir (case ts' ident of Some t \<Rightarrow> t | None \<Rightarrow> Map.empty) as of
                     Some err \<Rightarrow> (ts', Inl err)
                   | None \<Rightarrow> (ts', Inr (libraries PL dir as)))))"

text \<open>
  \<open>PayloadStore::retain\<close>: \<open>None\<close> when the root cannot be listed; otherwise which directories are
  listed with a Unicode name, and what the removal of one keeps, if it does not go through.
\<close>

definition payload_retain ::
  "((string \<Rightarrow> bool) \<times> (string \<Rightarrow> (string \<Rightarrow> bool) option)) option \<Rightarrow> string list \<Rightarrow> trees \<Rightarrow> trees" where
  "payload_retain e live ts = (case e of
       None \<Rightarrow> ts
     | Some (listed, stuck) \<Rightarrow> (\<lambda>n. case ts n of
           None \<Rightarrow> None
         | Some t \<Rightarrow> if \<not> listed n \<or> n \<in> set live then Some t
             else (case stuck n of None \<Rightarrow> None | Some kept \<Rightarrow> Some (\<lambda>p. if kept p then t p else None))))"

section \<open>The activation record\<close>

definition SCHEMA :: u32 where "SCHEMA = 1"
definition HISTORY_CAP :: nat where "HISTORY_CAP = 64"

datatype event_kind = Activated | FellBack | ProbeFailed | ExtractFailed

record catalog_event =
  ev_what :: event_kind
  ev_generation :: string
  ev_detail :: "string option"
  ev_at :: int

record record_file =
  rf_schema :: u32
  rf_active :: "string option"
  rf_previous :: "string option"
  rf_history :: "catalog_event list"

definition record_default :: record_file where
  "record_default = \<lparr>rf_schema = SCHEMA, rf_active = None, rf_previous = None, rf_history = []\<rparr>"

record activation_log =
  al_path :: string
  al_record :: record_file

record log_lib =
  ll_ser :: "record_file \<Rightarrow> bytes option"
  ll_de :: "bytes \<Rightarrow> record_file option"

definition log_load :: "log_lib \<Rightarrow> string \<Rightarrow> bool \<Rightarrow> fs \<Rightarrow> activation_log" where
  "log_load LL path readable f =
     \<lparr>al_path = path, al_record = (case (if readable then Option.bind (f path) (ll_de LL) else None) of
        Some r \<Rightarrow> if rf_schema r = SCHEMA then r else record_default
      | None \<Rightarrow> record_default)\<rparr>"

definition log_active :: "activation_log \<Rightarrow> string option" where "log_active l = rf_active (al_record l)"
definition log_previous :: "activation_log \<Rightarrow> string option" where "log_previous l = rf_previous (al_record l)"
definition log_history :: "activation_log \<Rightarrow> catalog_event list" where "log_history l = rf_history (al_record l)"

text \<open>The time, how the write of the staging file goes, and whether it can be renamed.\<close>

type_synonym log_env = "int \<times> landing \<times> bool"

definition log_staging :: "activation_log \<Rightarrow> string" where
  "log_staging l = with_extension ''json.next'' (al_path l)"

definition log_persist :: "log_lib \<Rightarrow> log_env \<Rightarrow> activation_log \<Rightarrow> fs \<Rightarrow> fs" where
  "log_persist LL e l f = (case e of (now, landing, renamed) \<Rightarrow>
     (case ll_ser LL (al_record l) of
        None \<Rightarrow> f
      | Some b \<Rightarrow>
          (let f1 = write_file landing (log_staging l) b f
           in if landing = Landed \<and> renamed then (f1(log_staging l := None))(al_path l := f1 (log_staging l)) else f1)))"

definition log_push ::
  "log_lib \<Rightarrow> log_env \<Rightarrow> event_kind \<Rightarrow> string \<Rightarrow> string option \<Rightarrow> activation_log \<times> fs \<Rightarrow> activation_log \<times> fs" where
  "log_push LL e what ident detail s = (case s of (l, f) \<Rightarrow>
     (let history = rf_history (al_record l) @
            [\<lparr>ev_what = what, ev_generation = ident, ev_detail = detail, ev_at = fst e\<rparr>];
          kept = (if HISTORY_CAP < length history then drop (length history - HISTORY_CAP) history else history);
          l1 = l\<lparr>al_record := (al_record l)\<lparr>rf_history := kept\<rparr>\<rparr>
      in (l1, log_persist LL e l1 f)))"

definition log_activated :: "log_lib \<Rightarrow> log_env \<Rightarrow> string \<Rightarrow> activation_log \<times> fs \<Rightarrow> activation_log \<times> fs" where
  "log_activated LL e ident s = (case s of (l, f) \<Rightarrow>
     (let r = al_record l;
          r1 = (if rf_active r \<noteq> Some ident then r\<lparr>rf_previous := rf_active r\<rparr> else r)
      in log_push LL e Activated ident None (l\<lparr>al_record := r1\<lparr>rf_active := Some ident\<rparr>\<rparr>, f)))"

definition log_fell_back ::
  "log_lib \<Rightarrow> log_env \<Rightarrow> string \<Rightarrow> string \<Rightarrow> string \<Rightarrow> activation_log \<times> fs \<Rightarrow> activation_log \<times> fs" where
  "log_fell_back LL e refused back detail s = log_push LL e FellBack refused (Some (detail @ ''; reloaded '' @ back)) s"

definition log_probe_failed ::
  "log_lib \<Rightarrow> log_env \<Rightarrow> string \<Rightarrow> string \<Rightarrow> activation_log \<times> fs \<Rightarrow> activation_log \<times> fs" where
  "log_probe_failed LL e ident detail s = log_push LL e ProbeFailed ident (Some detail) s"

definition log_extract_failed ::
  "log_lib \<Rightarrow> log_env \<Rightarrow> string \<Rightarrow> string \<Rightarrow> activation_log \<times> fs \<Rightarrow> activation_log \<times> fs" where
  "log_extract_failed LL e ident detail s = log_push LL e ExtractFailed ident (Some detail) s"

end
