(* ===== verification/Player.thy ===== *)
theory Player
  imports Paths
begin

text \<open>
  The decode session behind every front end, \<open>crates/player/src/lib.rs\<close> and \<open>extensions.rs\<close>: the
  decoder set with the index of the extensions it claims, and at most one mounted session with its
  status and its frame counter. The decoders, their loader and what they render are the host
  library's and are the record \<open>host\<close>; samples are the 32 bits of a float. Paths and names are ASCII.
\<close>

section \<open>Data\<close>

definition MEDIA_PROBE_BYTES :: nat where "MEDIA_PROBE_BYTES = 16384"

datatype playback_status = Idle | Loading | Playing | Paused | Error | Finished

datatype owned_error = OwnedSession string | OwnedVisualization string | OwnedOther string

datatype backend_error = Media | NoPlugin | Session string | Visualization string | Runtime string

fun from_owned :: "owned_error \<Rightarrow> backend_error" where
  "from_owned (OwnedSession x) = Session x"
| "from_owned (OwnedVisualization x) = Visualization x"
| "from_owned (OwnedOther x) = Runtime x"

text \<open>
  The host library: of a loaded plugin \<open>'w\<close> its kind and what its extension callback answers (no
  callback, a null pointer, or a text), the selection of a decoder \<open>'p\<close>, and the prepared session
  \<open>'s\<close>. \<open>'d\<close> are values the code only passes on: configurations, layouts, snapshots, metadata.
\<close>

record ('w, 'p, 's, 'd) host =
  h_playback :: "'w \<Rightarrow> bool"
  h_extensions :: "'w \<Rightarrow> string option option"
  h_select :: "'w list \<Rightarrow> bytes \<Rightarrow> string \<Rightarrow> u64 \<Rightarrow> 'p option"
  h_name :: "'p \<Rightarrow> string"
  h_metadata :: "'p \<Rightarrow> string \<Rightarrow> owned_error + 'd option"
  h_open :: "'p \<Rightarrow> string \<Rightarrow> u32 \<Rightarrow> u32 \<times> u32 \<Rightarrow> u32 \<Rightarrow> 'd \<Rightarrow> owned_error + 's"
  h_scope :: "bool \<Rightarrow> 's \<Rightarrow> 's"
  h_read :: "u32 \<Rightarrow> 's \<Rightarrow> 's \<times> (owned_error + nat \<times> bool \<times> u32 list)"
  h_seek :: "int \<Rightarrow> 's \<Rightarrow> 's \<times> int option"
  h_layout :: "'s \<Rightarrow> 'd option"
  h_capture :: "u64 \<Rightarrow> 'd \<Rightarrow> 's \<Rightarrow> 's \<times> 'd \<times> owned_error option"

text \<open>What \<open>load_plugins\<close> answers.\<close>

record 'w load_report =
  lr_plugins :: "'w list"
  lr_errors :: "string list"

record swap_report =
  sw_loaded :: nat
  sw_errors :: "string list"

record 's session =
  se_player :: 's
  se_plugin_name :: string
  se_media_extension :: string
  se_status :: playback_status
  se_output_frame :: u64

record ('w, 's, 'd) backend =
  be_plugins :: "'w list"
  be_extensions :: "string set"
  be_visualization :: 'd
  be_target :: "u32 \<times> u32"
  be_max_frames :: u32
  be_session :: "'s session option"

section \<open>The extension index\<close>

definition extension_list :: "string \<Rightarrow> string list" where
  "extension_list s = map lowercase (filter (\<lambda>e. e \<noteq> []) (map trim
     (concat (map (split_on CHR ''|'') (split_on CHR '','' s)))))"

definition claims_of :: "('w, 'p, 's, 'd) host \<Rightarrow> 'w \<Rightarrow> string list" where
  "claims_of H w = (case h_extensions H w of Some (Some s) \<Rightarrow> extension_list s | _ \<Rightarrow> [])"

definition supported_extensions :: "('w, 'p, 's, 'd) host \<Rightarrow> 'w list \<Rightarrow> string set" where
  "supported_extensions H ws = set (concat (map (claims_of H) (filter (h_playback H) ws)))"

definition can_handle_extension :: "('w, 's, 'd) backend \<Rightarrow> string \<Rightarrow> bool" where
  "can_handle_extension be e \<longleftrightarrow> lowercase (dropWhile (\<lambda>c. c = CHR ''.'') e) \<in> be_extensions be"

section \<open>The decoder set\<close>

definition backend_new ::
  "('w, 'p, 's, 'd) host \<Rightarrow> 'w load_report \<Rightarrow> 'd \<Rightarrow> u32 \<times> u32 \<Rightarrow> u32 \<Rightarrow> ('w, 's, 'd) backend" where
  "backend_new H r viz target max_frames =
     \<lparr>be_plugins = lr_plugins r, be_extensions = supported_extensions H (lr_plugins r),
      be_visualization = viz, be_target = target, be_max_frames = max_frames, be_session = None\<rparr>"

definition swap_plugins ::
  "('w, 'p, 's, 'd) host \<Rightarrow> (string list \<Rightarrow> 'w load_report) \<Rightarrow> string list \<Rightarrow> ('w, 's, 'd) backend
     \<Rightarrow> ('w, 's, 'd) backend \<times> swap_report" where
  "swap_plugins H load paths be =
     (let r = load paths
      in (be\<lparr>be_session := None, be_extensions := supported_extensions H (lr_plugins r),
             be_plugins := lr_plugins r\<rparr>,
          \<lparr>sw_loaded = length (filter (h_playback H) (lr_plugins r)), sw_errors = lr_errors r\<rparr>))"

section \<open>Selecting and mounting\<close>

text \<open>How reading the media goes: whether it opens, whether its size is known, and the one read.\<close>

record media_env =
  me_opens :: bool
  me_sized :: bool
  me_read :: "nat option"

definition select_plugin ::
  "('w, 'p, 's, 'd) host \<Rightarrow> media_env \<Rightarrow> fs \<Rightarrow> string \<Rightarrow> ('w, 's, 'd) backend \<Rightarrow> backend_error + 'p" where
  "select_plugin H e f path be = (case f path of
       None \<Rightarrow> Inl Media
     | Some content \<Rightarrow>
         if \<not> me_opens e \<or> \<not> me_sized e then Inl Media
         else (case me_read e of
             None \<Rightarrow> Inl Media
           | Some n \<Rightarrow> (case h_select H (be_plugins be) (take (min n MEDIA_PROBE_BYTES) content) path
                 (of_nat (length content)) of
               None \<Rightarrow> Inl NoPlugin
             | Some p \<Rightarrow> Inr p)))"

definition mount ::
  "('w, 'p, 's, 'd) host \<Rightarrow> media_env \<Rightarrow> fs \<Rightarrow> string \<Rightarrow> u16 \<Rightarrow> ('w, 's, 'd) backend
     \<Rightarrow> ('w, 's, 'd) backend \<times> (backend_error + unit)" where
  "mount H e f path subsong be0 =
     (let be = be0\<lparr>be_session := None\<rparr>
      in case select_plugin H e f path be of
           Inl err \<Rightarrow> (be, Inl err)
         | Inr p \<Rightarrow>
             let name = h_name H p;
                 media = lowercase (case path_extension path of Some x \<Rightarrow> x | None \<Rightarrow> [])
             in (case h_open H p path (ucast subsong) (be_target be) (be_max_frames be) (be_visualization be) of
                   Inl err \<Rightarrow> (be, Inl (from_owned err))
                 | Inr s \<Rightarrow> (be\<lparr>be_session := Some \<lparr>se_player = h_scope H True s, se_plugin_name = name,
                       se_media_extension = media, se_status = Playing, se_output_frame = 0\<rparr>\<rparr>, Inr ())))"

definition close :: "('w, 's, 'd) backend \<Rightarrow> ('w, 's, 'd) backend" where
  "close be = be\<lparr>be_session := None\<rparr>"

definition is_live :: "('w, 's, 'd) backend \<Rightarrow> bool" where "is_live be \<longleftrightarrow> be_session be \<noteq> None"

definition probe_metadata ::
  "('w, 'p, 's, 'd) host \<Rightarrow> media_env \<Rightarrow> fs \<Rightarrow> string \<Rightarrow> ('w, 's, 'd) backend \<Rightarrow> backend_error + 'd option" where
  "probe_metadata H e f path be = (case select_plugin H e f path be of
       Inl err \<Rightarrow> Inl err
     | Inr p \<Rightarrow> (case h_metadata H p path of Inl err \<Rightarrow> Inl (from_owned err) | Inr m \<Rightarrow> Inr m))"

section \<open>The session\<close>

definition toggle_pause :: "('w, 's, 'd) backend \<Rightarrow> ('w, 's, 'd) backend \<times> bool option" where
  "toggle_pause be = (case be_session be of
       None \<Rightarrow> (be, None)
     | Some s \<Rightarrow> (case se_status s of
           Playing \<Rightarrow> (be\<lparr>be_session := Some (s\<lparr>se_status := Paused\<rparr>)\<rparr>, Some False)
         | Paused \<Rightarrow> (be\<lparr>be_session := Some (s\<lparr>se_status := Playing\<rparr>)\<rparr>, Some True)
         | _ \<Rightarrow> (be, None)))"

definition render ::
  "('w, 'p, 's, 'd) host \<Rightarrow> u32 \<Rightarrow> ('w, 's, 'd) backend \<Rightarrow> ('w, 's, 'd) backend \<times> (backend_error + u32 list)" where
  "render H frames be = (case be_session be of
       None \<Rightarrow> (be, Inr [])
     | Some s \<Rightarrow>
         if se_status s \<noteq> Playing \<or> frames = 0 then (be, Inr [])
         else (case h_read H (min frames (be_max_frames be)) (se_player s) of
             (p, Inl err) \<Rightarrow> (be\<lparr>be_session := Some (s\<lparr>se_player := p\<rparr>)\<rparr>, Inl (from_owned err))
           | (p, Inr (produced, finished, samples)) \<Rightarrow>
               (be\<lparr>be_session := Some (s\<lparr>se_player := p,
                    se_output_frame := sat_add (se_output_frame s) (of_nat produced),
                    se_status := (if finished then Finished else Playing)\<rparr>)\<rparr>, Inr samples)))"

definition seek ::
  "('w, 'p, 's, 'd) host \<Rightarrow> int \<Rightarrow> ('w, 's, 'd) backend \<Rightarrow> ('w, 's, 'd) backend \<times> int option" where
  "seek H ms be = (case be_session be of
       None \<Rightarrow> (be, None)
     | Some s \<Rightarrow> (case h_seek H ms (se_player s) of
           (p, None) \<Rightarrow> (be\<lparr>be_session := Some (s\<lparr>se_player := p\<rparr>)\<rparr>, None)
         | (p, Some reached) \<Rightarrow>
             (be\<lparr>be_session := Some (s\<lparr>se_player := p,
                  se_output_frame := sat_mul (if reached < 0 then 0 else word_of_int reached)
                    (ucast (fst (be_target be))) div 1000,
                  se_status := (if se_status s = Finished then Playing else se_status s)\<rparr>)\<rparr>, Some reached)))"

definition position_ms :: "('w, 's, 'd) backend \<Rightarrow> int option" where
  "position_ms be = (case be_session be of
       None \<Rightarrow> None
     | Some s \<Rightarrow>
         if fst (be_target be) = 0 then Some 0
         else (let v = uint (sat_mul (se_output_frame s) 1000 div ucast (fst (be_target be)))
           in if v \<le> I64_MAX then Some v else None))"

definition visualization_layout :: "('w, 'p, 's, 'd) host \<Rightarrow> ('w, 's, 'd) backend \<Rightarrow> 'd option" where
  "visualization_layout H be = Option.bind (be_session be) (\<lambda>s. h_layout H (se_player s))"

definition capture ::
  "('w, 'p, 's, 'd) host \<Rightarrow> 'd \<Rightarrow> ('w, 's, 'd) backend \<Rightarrow> ('w, 's, 'd) backend \<times> 'd \<times> backend_error option" where
  "capture H snapshot be = (case be_session be of
       None \<Rightarrow> (be, snapshot, None)
     | Some s \<Rightarrow> (case h_capture H (se_output_frame s) snapshot (se_player s) of
           (p, snapshot', err) \<Rightarrow> (be\<lparr>be_session := Some (s\<lparr>se_player := p\<rparr>)\<rparr>, snapshot', map_option from_owned err)))"

definition status :: "('w, 's, 'd) backend \<Rightarrow> playback_status" where
  "status be = (case be_session be of None \<Rightarrow> Idle | Some s \<Rightarrow> se_status s)"

definition plugin_name :: "('w, 's, 'd) backend \<Rightarrow> string" where
  "plugin_name be = (case be_session be of None \<Rightarrow> [] | Some s \<Rightarrow> se_plugin_name s)"

definition media_extension :: "('w, 's, 'd) backend \<Rightarrow> string" where
  "media_extension be = (case be_session be of None \<Rightarrow> [] | Some s \<Rightarrow> se_media_extension s)"

section \<open>Every way a backend is driven\<close>

datatype ('w, 'd) player_event = SwapTo "string list \<Rightarrow> 'w load_report" "string list" | MountSong media_env fs string u16
  | CloseSong | TogglePause | RenderFrames u32 | SeekTo int | CaptureInto 'd

definition exec_player ::
  "('w, 'p, 's, 'd) host \<Rightarrow> ('w, 's, 'd) backend \<Rightarrow> ('w, 'd) player_event \<Rightarrow> ('w, 's, 'd) backend" where
  "exec_player H be ev = (case ev of
       SwapTo load paths \<Rightarrow> fst (swap_plugins H load paths be)
     | MountSong e f path subsong \<Rightarrow> fst (mount H e f path subsong be)
     | CloseSong \<Rightarrow> close be
     | TogglePause \<Rightarrow> fst (toggle_pause be)
     | RenderFrames n \<Rightarrow> fst (render H n be)
     | SeekTo ms \<Rightarrow> fst (seek H ms be)
     | CaptureInto d \<Rightarrow> fst (capture H d be))"

text \<open>
  What every backend keeps: the index is that of the resident set, every entry of it in lower case
  and not empty, and a mounted session is playing, paused or finished.
\<close>

definition backend_ok :: "('w, 'p, 's, 'd) host \<Rightarrow> ('w, 's, 'd) backend \<Rightarrow> bool" where
  "backend_ok H be \<longleftrightarrow>
     be_extensions be = supported_extensions H (be_plugins be)
     \<and> (\<forall>s. be_session be = Some s \<longrightarrow> se_status s \<in> {Playing, Paused, Finished})"

lemma backend_new_ok: "backend_ok H (backend_new H r viz target max_frames)"
  by (simp add: backend_ok_def backend_new_def)

lemma exec_player_ok: "backend_ok H be \<Longrightarrow> backend_ok H (exec_player H be ev)"
  by (cases ev)
    (auto simp: backend_ok_def exec_player_def swap_plugins_def mount_def close_def toggle_pause_def render_def seek_def
      capture_def Let_def split: option.splits sum.splits playback_status.splits prod.splits)

interpretation player: operation_machine "exec_player H" "\<lambda>_ _. True" "backend_ok H" for H
  by unfold_locales (rule exec_player_ok)

lemma player_runs: "backend_ok H be \<Longrightarrow> backend_ok H (foldl (exec_player H) be evs)"
  using player.run_invar [of H be evs] player.admitted_stateless [of "\<lambda>_. True" evs H be]
  by (simp add: player.run_foldl list_all_iff)

text \<open>The extensions of a plugin are normalized, so a lookup normalizes only its argument.\<close>

lemma supported_normal: "e \<in> supported_extensions H ws \<Longrightarrow> lowercase e = e \<and> e \<noteq> []"
  by (auto simp: supported_extensions_def claims_of_def extension_list_def split: option.splits)
    (simp_all add: lowercase_def)


lemma rescaled:
  fixes r R :: int
  assumes "0 \<le> r" "1000 \<le> R"
  defines "q \<equiv> r * R div 1000"
  shows "0 \<le> q * 1000 div R" "q * 1000 div R \<le> r" "r \<le> q * 1000 div R + 1" "1000 dvd R \<Longrightarrow> q * 1000 div R = r"
proof -
  have rR: "r * R = q * 1000 + r * R mod 1000" by (simp add: q_def)
  have m: "0 \<le> r * R mod 1000" "r * R mod 1000 < 1000" by simp_all
  have "0 \<le> r * R" using assms(1,2) by simp
  then have q: "0 \<le> q" by (simp add: q_def)
  with assms(2) show "0 \<le> q * 1000 div R" by (simp add: pos_imp_zdiv_nonneg_iff)
  have "q * 1000 div R \<le> r * R div R" using rR m(1) assms(2) by (intro zdiv_mono1) linarith+
  with assms(2) show "q * 1000 div R \<le> r" by simp
  have "(r - 1) * R \<le> q * 1000" using rR m(2) assms(2) by (simp add: left_diff_distrib)
  then have "(r - 1) * R div R \<le> q * 1000 div R" using assms(2) by (intro zdiv_mono1) linarith+
  with assms(2) show "r \<le> q * 1000 div R + 1" by simp
  show "q * 1000 div R = r" if "1000 dvd R"
  proof -
    from that have "r * R mod 1000 = 0" by simp
    with rR assms(2) show ?thesis by (metis add.right_neutral nonzero_mult_div_cancel_right not_numeral_le_zero)
  qed
qed

section \<open>Properties\<close>

text \<open>
  C21: Whatever a backend is asked to do, the status it reports is one of idle, playing, paused and
  finished; it is idle, with no decoder name and no extension, exactly while no session is mounted;
  and an extension is claimed exactly when a resident playback plugin lists it, whatever its case and
  its leading dots.
\<close>

theorem player_status_typed:
  assumes "be = foldl (exec_player H) (backend_new H r viz target max_frames) evs"
  shows "status be \<in> {Idle, Playing, Paused, Finished}
    \<and> (status be = Idle \<longleftrightarrow> \<not> is_live be)
    \<and> (\<not> is_live be \<longrightarrow> plugin_name be = [] \<and> media_extension be = [] \<and> position_ms be = None)
    \<and> (can_handle_extension be e \<longleftrightarrow>
        (\<exists>w \<in> set (be_plugins be). h_playback H w \<and> lowercase (dropWhile (\<lambda>c. c = CHR ''.'') e) \<in> set (claims_of H w)))"
proof -
  from player_runs [OF backend_new_ok] assms have ok: "backend_ok H be" by simp
  then show ?thesis
    by (auto simp: backend_ok_def status_def is_live_def plugin_name_def media_extension_def position_ms_def
      can_handle_extension_def supported_extensions_def split: option.split)
qed

text \<open>
  A seek the decoder answers puts the reported position where the decoder landed, never past it
  and at most one millisecond before it, exactly there when the rate is whole frames per millisecond,
  as far as the arithmetic stays inside 64 bits; a finished song plays again, and a paused one stays
  paused.
\<close>

theorem seek_lands_where_reported:
  assumes sk: "seek H ms be = (be', Some reached)"
    and rate: "1000 \<le> fst (be_target be)"
    and fits: "reached * uint (fst (be_target be)) < 2 ^ 54"
  shows "(\<exists>p. position_ms be' = Some p \<and> p \<le> max 0 reached \<and> max 0 reached \<le> p + 1
      \<and> (1000 dvd uint (fst (be_target be)) \<longrightarrow> p = max 0 reached))
    \<and> status be' = (if status be = Finished then Playing else status be)"
proof -
  define R where "R = uint (fst (be_target be))"
  define r where "r = max 0 reached"
  from sk obtain s p where s: "be_session be = Some s" and sought: "h_seek H ms (se_player s) = (p, Some reached)"
    by (auto simp: seek_def split: option.splits prod.splits)
  from rate have R: "1000 \<le> R" by (simp add: R_def word_le_def)
  have Rmax: "R < 2 ^ 32" using uint_lt2p [of "fst (be_target be)"] by (simp add: R_def)
  have r0: "0 \<le> r" by (simp add: r_def)
  have rR: "r * R < 2 ^ 54" using fits R by (simp add: r_def R_def max_def)
  have small: "r < 2 ^ 54" using rR R r0 by (smt (verit) mult_le_cancel_left1)
  have wr: "uint (if reached < 0 then 0 else word_of_int reached :: u64) = r"
    using small r0 by (simp add: r_def unsigned_of_int take_bit_int_eq_self)
  have wR: "uint (ucast (fst (be_target be)) :: u64) = R"
    using Rmax by (simp add: R_def unsigned_ucast_eq take_bit_int_eq_self)
  define frame :: u64 where "frame = sat_mul (if reached < 0 then 0 else word_of_int reached) (ucast (fst (be_target be))) div 1000"
  have frame: "uint frame = r * R div 1000"
    using rR r0 R by (simp add: frame_def sat_mul_def wr wR uint_div uint_mult_lem [THEN iffD1] uint_word_ariths take_bit_int_eq_self)
  note scaled = rescaled [OF r0 R]
  have "r * R div 1000 * 1000 \<le> r * R" by simp
  with rR have prod: "r * R div 1000 * 1000 < 2 ^ 64" using power_strict_increasing [of 54 64 "2 :: int"] by simp
  have "0 \<le> r * R div 1000 * 1000" using r0 R by (simp add: pos_imp_zdiv_nonneg_iff)
  with prod have wraps: "r * R div 1000 * 1000 mod 2 ^ 64 = r * R div 1000 * 1000" by (intro mod_pos_pos_trivial)
  have "uint frame * uint (1000 :: u64) < 2 ^ 64" using prod by (simp add: frame)
  then have "sat_mul frame 1000 = frame * 1000" by (simp add: sat_mul_def)
  then have at: "uint (sat_mul frame 1000 div ucast (fst (be_target be))) = r * R div 1000 * 1000 div R"
    using wraps by (simp add: uint_div wR uint_word_ariths frame)
  from sk s sought have be': "be' = be\<lparr>be_session := Some (s\<lparr>se_player := p, se_output_frame := frame,
      se_status := (if se_status s = Finished then Playing else se_status s)\<rparr>)\<rparr>"
    by (simp add: seek_def frame_def)
  have "r * R div 1000 * 1000 div R \<le> I64_MAX" using scaled(2) small by (simp add: I64_MAX_def)
  moreover have "fst (be_target be) \<noteq> 0" using rate by auto
  ultimately have "position_ms be' = Some (r * R div 1000 * 1000 div R)" by (simp add: be' position_ms_def at)
  moreover have "status be' = (if status be = Finished then Playing else status be)" by (simp add: be' status_def s)
  ultimately show ?thesis using scaled unfolding r_def [symmetric] R_def [symmetric] by blast
qed

section \<open>A concrete host\<close>

text \<open>A decoder that lands on whole tenths of a second and lists its extensions the two ways plugins do.\<close>

definition sample_host :: "(nat, nat, int, unit) host" where
  "sample_host = \<lparr>h_playback = (\<lambda>w. w < 10),
     h_extensions = (\<lambda>w. if w = 0 then Some (Some ''mod, XM|.it'') else None),
     h_select = (\<lambda>ws b p n. if ws = [] then None else Some (hd ws)), h_name = (\<lambda>p. ''hively''),
     h_metadata = (\<lambda>_ _. Inr None), h_open = (\<lambda>_ _ _ _ _ _. Inr 0), h_scope = (\<lambda>_ s. s),
     h_read = (\<lambda>n s. (s + 1, Inr (unat n, False, replicate (unat n) 0))),
     h_seek = (\<lambda>ms s. (ms, Some (ms div 100 * 100))), h_layout = (\<lambda>_. None),
     h_capture = (\<lambda>_ d s. (s, d, None))\<rparr>"

definition sample_backend :: "(nat, int, unit) backend" where
  "sample_backend = backend_new sample_host \<lparr>lr_plugins = [0, 1], lr_errors = []\<rparr> () (44100, 2) 4096"

definition sample_song :: "(nat, unit) player_event" where
  "sample_song = MountSong \<lparr>me_opens = True, me_sized = True, me_read = Some 3\<rparr> (\<lambda>_. Some [1, 2, 3]) ''songs/a.XM'' 0"

theorem player_status_typed_witness:
  "status (foldl (exec_player sample_host) sample_backend [sample_song, TogglePause]) = Paused
    \<and> can_handle_extension (foldl (exec_player sample_host) sample_backend [sample_song, TogglePause]) ''.Xm''"
proof -
  have st: "status (foldl (exec_player sample_host) sample_backend [sample_song, TogglePause]) = Paused" by code_simp
  have "be_plugins (foldl (exec_player sample_host) sample_backend [sample_song, TogglePause]) = [0, 1]" by code_simp
  moreover have "h_playback sample_host 0" "lowercase (dropWhile (\<lambda>c. c = CHR ''.'') ''.Xm'') \<in> set (claims_of sample_host 0)"
    by code_simp+
  ultimately show ?thesis
    using st player_status_typed [OF refl, of sample_host "\<lparr>lr_plugins = [0, 1], lr_errors = []\<rparr>" "()" "(44100, 2)" 4096
      "[sample_song, TogglePause]" "''.Xm''"]
    by (auto simp: sample_backend_def)
qed

theorem seek_lands_where_reported_witness:
  "\<exists>p. position_ms (fst (seek sample_host 12345 (exec_player sample_host sample_backend sample_song))) = Some p
    \<and> p \<in> {12299, 12300}"
proof -
  let ?be = "exec_player sample_host sample_backend sample_song"
  have sk: "seek sample_host 12345 ?be = (fst (seek sample_host 12345 ?be), Some 12300)" by code_simp
  have rate: "fst (be_target ?be) = 44100" by code_simp
  from seek_lands_where_reported [OF sk] rate obtain p
    where "position_ms (fst (seek sample_host 12345 ?be)) = Some p" "p \<le> 12300" "12300 \<le> p + 1" by auto
  then show ?thesis by auto
qed

end
