(* ===== verification/Entry.thy ===== *)
theory Entry
  imports Prelude
begin

text \<open>
  The scheduling policy of the transfer queue, \<open>crates/updater/src/queue/entry.rs\<close>: which entry
  runs next, how a cancel, pause, resume or remove resolves against an entry's state, which
  transfer yields to a user request, and when preempted entries come back.
\<close>

section \<open>Priorities and states\<close>

datatype Priority = Background | User

instantiation Priority :: linorder
begin

definition less_eq_Priority :: "Priority \<Rightarrow> Priority \<Rightarrow> bool" where
  "less_eq_Priority a b \<longleftrightarrow> a = Background \<or> b = User"

definition less_Priority :: "Priority \<Rightarrow> Priority \<Rightarrow> bool" where
  "less_Priority a b \<longleftrightarrow> a = Background \<and> b = User"

instance
proof
  fix x y z :: Priority
  show "x < y \<longleftrightarrow> x \<le> y \<and> \<not> y \<le> x"
    by (cases x; cases y) (simp_all add: less_eq_Priority_def less_Priority_def)
  show "x \<le> x" by (cases x) (simp_all add: less_eq_Priority_def)
  show "x \<le> z" if "x \<le> y" "y \<le> z"
    using that by (cases x; cases z) (simp_all add: less_eq_Priority_def)
  show "x = y" if "x \<le> y" "y \<le> x"
    using that by (cases x; cases y) (simp_all add: less_eq_Priority_def)
  show "x \<le> y \<or> y \<le> x" by (cases x; cases y) (simp_all add: less_eq_Priority_def)
qed

end

type_synonym i32 = "32 word"

definition priority_code :: "Priority \<Rightarrow> i32" where
  "priority_code p = (case p of Background \<Rightarrow> 0 | User \<Rightarrow> 1)"

definition priority_from_code :: "i32 \<Rightarrow> Priority" where
  "priority_from_code c = (if c = priority_code User then User else Background)"

datatype State = Pending | Downloading | Paused | Preempted | Complete | Failed | Cancelled

definition state_code :: "State \<Rightarrow> i32" where
  "state_code s = (case s of Pending \<Rightarrow> 0 | Downloading \<Rightarrow> 1 | Paused \<Rightarrow> 2 | Preempted \<Rightarrow> 3
     | Complete \<Rightarrow> 4 | Failed \<Rightarrow> 5 | Cancelled \<Rightarrow> 6)"

definition state_from_code :: "i32 \<Rightarrow> State" where
  "state_from_code c =
     (if c = 1 then Downloading else if c = 2 then Paused else if c = 3 then Preempted
      else if c = 4 then Complete else if c = 5 then Failed else if c = 6 then Cancelled
      else Pending)"

text \<open>What is stored in a slot's atomics reads back as the value that was written.\<close>

interpretation priority_codec: wire_codec priority_code "\<lambda>c. Some (priority_from_code c)" "\<lambda>_. True"
  by unfold_locales (simp add: priority_code_def priority_from_code_def split: Priority.split)

interpretation state_codec: wire_codec state_code "\<lambda>c. Some (state_from_code c)" "\<lambda>_. True"
  by unfold_locales (simp add: state_code_def state_from_code_def split: State.split)

lemma from_code_code [simp]:
  "state_from_code (state_code s) = s" "priority_from_code (priority_code p) = p"
  using state_codec.decode_encode priority_codec.decode_encode by simp_all

definition UNKNOWN_TOTAL :: int where "UNKNOWN_TOTAL = - 1"

record entry =
  in_use :: bool
  priority :: Priority
  state :: State
  queue_time_ms :: int
  bytes_downloaded :: int
  bytes_total :: int

section \<open>Choosing\<close>

definition has_user_pending :: "entry list \<Rightarrow> bool" where
  "has_user_pending entries \<longleftrightarrow>
     list_ex (\<lambda>e. in_use e \<and> priority e = User \<and> state e = Pending) entries"

text \<open>The body of the loop of \<open>next_pending\<close>, one entry at a time, with the best index so far.\<close>

definition outranks :: "entry \<Rightarrow> entry \<Rightarrow> bool" where
  "outranks e b \<longleftrightarrow> priority b < priority e
     \<or> priority e = priority b \<and> queue_time_ms e < queue_time_ms b"

definition pending_step :: "entry list \<Rightarrow> nat option \<Rightarrow> nat \<Rightarrow> nat option" where
  "pending_step entries best i =
     (let e = entries ! i
      in if \<not> in_use e \<or> state e \<noteq> Pending then best
         else if (case best of None \<Rightarrow> True | Some b \<Rightarrow> outranks e (entries ! b)) then Some i
         else best)"

definition next_pending :: "entry list \<Rightarrow> nat option" where
  "next_pending entries = foldl (pending_step entries) None [0..<length entries]"

section \<open>Transitions\<close>

definition cancel :: "entry \<Rightarrow> bool \<Rightarrow> entry \<times> bool" where
  "cancel e is_active = (case state e of
       Downloading \<Rightarrow> (e, is_active)
     | Preempted \<Rightarrow> if is_active then (e, True) else (e\<lparr>state := Cancelled\<rparr>, True)
     | Pending \<Rightarrow> (e\<lparr>state := Cancelled\<rparr>, True)
     | Paused \<Rightarrow> (e\<lparr>state := Cancelled\<rparr>, True)
     | _ \<Rightarrow> (e, False))"

definition pause :: "entry \<Rightarrow> bool \<Rightarrow> bool" where
  "pause e is_active \<longleftrightarrow> state e = Downloading \<and> is_active"

definition resume :: "entry \<Rightarrow> entry \<times> bool" where
  "resume e = (if state e = Paused then (e\<lparr>state := Pending\<rparr>, True) else (e, False))"

definition remove :: "entry \<Rightarrow> bool \<Rightarrow> entry \<times> bool" where
  "remove e is_active =
     (if is_active \<or> state e = Downloading then (e, False) else (e\<lparr>in_use := False\<rparr>, True))"

section \<open>Preemption\<close>

definition yields_before :: "entry \<Rightarrow> entry \<Rightarrow> bool" where
  "yields_before e b \<longleftrightarrow> bytes_downloaded e < bytes_downloaded b
     \<or> bytes_downloaded e = bytes_downloaded b \<and> queue_time_ms b < queue_time_ms e"

definition preempt_step :: "entry list \<Rightarrow> nat option \<Rightarrow> nat \<Rightarrow> nat option" where
  "preempt_step entries best i =
     (if \<not> i < length entries then best
      else let candidate = entries ! i
        in if \<not> in_use candidate \<or> state candidate \<noteq> Downloading \<or> priority candidate \<noteq> Background
           then best
           else if (case best of None \<Rightarrow> True | Some b \<Rightarrow> yields_before candidate (entries ! b))
           then Some i else best)"

definition preempt_for_user ::
  "entry list \<Rightarrow> nat list \<Rightarrow> Priority \<Rightarrow> bool \<Rightarrow> entry list \<times> nat option" where
  "preempt_for_user entries active queued_priority idle_worker =
     (if queued_priority \<noteq> User \<or> idle_worker then (entries, None)
      else let best = foldl (preempt_step entries) None active
        in (case best of
              Some i \<Rightarrow> (entries[i := (entries ! i)\<lparr>state := Preempted\<rparr>], best)
            | None \<Rightarrow> (entries, best)))"

definition is_user_work_outstanding :: "entry \<Rightarrow> bool" where
  "is_user_work_outstanding e \<longleftrightarrow>
     in_use e \<and> priority e = User \<and> (state e = Pending \<or> state e = Downloading)"

definition auto_resume_preempted :: "entry list \<Rightarrow> entry list" where
  "auto_resume_preempted entries =
     (if list_ex is_user_work_outstanding entries then entries
      else map (\<lambda>e. if in_use e \<and> state e = Preempted then e\<lparr>state := Pending\<rparr> else e) entries)"

section \<open>Selection\<close>

text \<open>
  Both loops keep the best candidate seen so far. The contract of the comparison is that of a
  strict weak order; the selection then returns a candidate no other candidate beats.
\<close>

locale preference =
  fixes better :: "'a \<Rightarrow> 'a \<Rightarrow> bool"
  assumes better_asym: "better x y \<Longrightarrow> \<not> better y x"
    and better_negtrans: "better x z \<Longrightarrow> better x y \<or> better y z"
begin

definition choose_step :: "('a \<Rightarrow> bool) \<Rightarrow> 'a list \<Rightarrow> nat option \<Rightarrow> nat \<Rightarrow> nat option" where
  "choose_step ok xs best i =
     (if i < length xs \<and> ok (xs ! i)
         \<and> (case best of None \<Rightarrow> True | Some b \<Rightarrow> better (xs ! i) (xs ! b)) then Some i else best)"

definition select_best :: "('a \<Rightarrow> bool) \<Rightarrow> 'a list \<Rightarrow> nat list \<Rightarrow> nat option" where
  "select_best ok xs idxs = foldl (choose_step ok xs) None idxs"

definition chosen :: "('a \<Rightarrow> bool) \<Rightarrow> 'a list \<Rightarrow> nat list \<Rightarrow> nat option \<Rightarrow> bool" where
  "chosen ok xs idxs r = (case r of
       None \<Rightarrow> \<forall>j \<in> set idxs. \<not> (j < length xs \<and> ok (xs ! j))
     | Some i \<Rightarrow> i \<in> set idxs \<and> i < length xs \<and> ok (xs ! i)
         \<and> (\<forall>j \<in> set idxs. j < length xs \<and> ok (xs ! j) \<longrightarrow> \<not> better (xs ! j) (xs ! i)))"

lemma chosen_step: "chosen ok xs idxs r \<Longrightarrow> chosen ok xs (idxs @ [k]) (choose_step ok xs r k)"
proof (cases r)
  case None
  assume "chosen ok xs idxs r"
  then show ?thesis
    using None better_asym by (auto simp: chosen_def choose_step_def)
next
  case (Some b)
  assume ch: "chosen ok xs idxs r"
  show ?thesis
  proof (cases "k < length xs \<and> ok (xs ! k) \<and> better (xs ! k) (xs ! b)")
    case True
    have "\<not> better (xs ! j) (xs ! k)" if "j \<in> set idxs" "j < length xs" "ok (xs ! j)" for j
    proof
      assume "better (xs ! j) (xs ! k)"
      then have "better (xs ! j) (xs ! b) \<or> better (xs ! b) (xs ! k)" by (rule better_negtrans)
      moreover have "\<not> better (xs ! j) (xs ! b)" using ch Some that by (simp add: chosen_def)
      ultimately show False using True better_asym by blast
    qed
    with True Some ch better_asym show ?thesis by (auto simp: chosen_def choose_step_def)
  next
    case False
    with Some ch show ?thesis by (auto simp: chosen_def choose_step_def)
  qed
qed

lemma chosen_foldl:
  "chosen ok xs done_idxs r \<Longrightarrow> chosen ok xs (done_idxs @ idxs) (foldl (choose_step ok xs) r idxs)"
proof (induction idxs arbitrary: done_idxs r)
  case Nil
  then show ?case by simp
next
  case (Cons i idxs)
  from Cons.IH [OF chosen_step [OF Cons.prems, of i]] show ?case by simp
qed

lemma select_best_chosen: "chosen ok xs idxs (select_best ok xs idxs)"
  using chosen_foldl [of ok xs "[]" None idxs] by (simp add: select_best_def chosen_def)

lemma select_best_None: "select_best ok xs idxs = None \<longleftrightarrow> (\<forall>j \<in> set idxs. \<not> (j < length xs \<and> ok (xs ! j)))"
  using select_best_chosen [of ok xs idxs] by (cases "select_best ok xs idxs") (auto simp: chosen_def)

lemma select_best_SomeD:
  "select_best ok xs idxs = Some i \<Longrightarrow> i \<in> set idxs \<and> i < length xs \<and> ok (xs ! i)
     \<and> (\<forall>j \<in> set idxs. j < length xs \<and> ok (xs ! j) \<longrightarrow> \<not> better (xs ! j) (xs ! i))"
  using select_best_chosen [of ok xs idxs] by (simp add: chosen_def)

end

interpretation schedule: preference outranks
  by unfold_locales (auto simp: outranks_def)

interpretation yielding: preference yields_before
  by unfold_locales (auto simp: yields_before_def)

definition is_pending :: "entry \<Rightarrow> bool" where
  "is_pending e \<longleftrightarrow> in_use e \<and> state e = Pending"

definition may_yield :: "entry \<Rightarrow> bool" where
  "may_yield e \<longleftrightarrow> in_use e \<and> state e = Downloading \<and> priority e = Background"

lemma next_pending_choose:
  "next_pending entries = schedule.select_best is_pending entries [0..<length entries]"
  unfolding next_pending_def schedule.select_best_def
  by (rule foldl_cong) (auto simp: pending_step_def schedule.choose_step_def is_pending_def Let_def)

lemma preempt_choose:
  "foldl (preempt_step entries) None active = yielding.select_best may_yield entries active"
  unfolding yielding.select_best_def
  by (rule foldl_cong) (auto simp: preempt_step_def yielding.choose_step_def may_yield_def Let_def)

lemma next_pending_SomeD:
  "next_pending entries = Some i \<Longrightarrow> i < length entries \<and> is_pending (entries ! i)
     \<and> (\<forall>j < length entries. is_pending (entries ! j) \<longrightarrow> \<not> outranks (entries ! j) (entries ! i))"
  unfolding next_pending_choose by (drule schedule.select_best_SomeD) simp

lemma next_pending_None:
  "next_pending entries = None \<longleftrightarrow> (\<forall>e \<in> set entries. \<not> is_pending e)"
  unfolding next_pending_choose schedule.select_best_None by (auto simp: set_conv_nth)

lemma preempt_for_user_SomeD:
  assumes "preempt_for_user entries active p idle = (entries', Some i)"
  shows "p = User" "\<not> idle" "i \<in> set active" "i < length entries" "may_yield (entries ! i)"
    "\<forall>j \<in> set active. j < length entries \<and> may_yield (entries ! j) \<longrightarrow>
        \<not> yields_before (entries ! j) (entries ! i)"
    "entries' = entries[i := (entries ! i)\<lparr>state := Preempted\<rparr>]"
proof -
  have best: "yielding.select_best may_yield entries active = Some i"
    and "entries' = entries[i := (entries ! i)\<lparr>state := Preempted\<rparr>]" "p = User" "\<not> idle"
    using assms by (auto simp: preempt_for_user_def preempt_choose Let_def split: if_splits option.splits)
  with yielding.select_best_SomeD [OF best]
  show "p = User" "\<not> idle" "i \<in> set active" "i < length entries" "may_yield (entries ! i)"
    "\<forall>j \<in> set active. j < length entries \<and> may_yield (entries ! j) \<longrightarrow>
        \<not> yields_before (entries ! j) (entries ! i)"
    "entries' = entries[i := (entries ! i)\<lparr>state := Preempted\<rparr>]"
    by blast+
qed

lemma preempt_for_user_None:
  "preempt_for_user entries active p idle = (entries', None) \<Longrightarrow> entries' = entries \<and>
     (p \<noteq> User \<or> idle \<or> (\<forall>j \<in> set active. j < length entries \<longrightarrow> \<not> may_yield (entries ! j)))"
  using yielding.select_best_None [of may_yield entries active]
  by (auto simp: preempt_for_user_def preempt_choose Let_def split: if_splits option.splits)

section \<open>Properties\<close>

text \<open>
  The entry a worker claims next is a pending one in use that no other pending entry outranks
  (higher priority first, then earlier queue time), and there is none exactly when nothing is
  pending.
\<close>

theorem next_pending_best:
  "case next_pending entries of
     None \<Rightarrow> list_all (\<lambda>e. \<not> (in_use e \<and> state e = Pending)) entries
   | Some i \<Rightarrow> i < length entries \<and> in_use (entries ! i) \<and> state (entries ! i) = Pending
       \<and> list_all (\<lambda>e. \<not> (in_use e \<and> state e = Pending \<and> outranks e (entries ! i))) entries"
  using next_pending_None [of entries] next_pending_SomeD [of entries]
  by (auto simp: is_pending_def list_all_length all_set_conv_all_nth split: option.splits)

text \<open>
  A queued request takes a worker from at most one transfer, and only when it is a user
  request and no worker is idle: the transfer that yields is an active background download with
  the fewest bytes on disk, ties to the one queued last, and nothing else changes.
\<close>

theorem preempt_for_user_choice:
  "case preempt_for_user entries active p idle of
     (entries', None) \<Rightarrow> entries' = entries
       \<and> (p = Background \<or> idle \<or> list_all (\<lambda>j. \<not> (j < length entries \<and> may_yield (entries ! j))) active)
   | (entries', Some i) \<Rightarrow> p = User \<and> \<not> idle \<and> i \<in> set active \<and> may_yield (entries ! i)
       \<and> list_all (\<lambda>j. \<not> (j < length entries \<and> may_yield (entries ! j) \<and> yields_before (entries ! j) (entries ! i))) active
       \<and> entries' = entries[i := (entries ! i)\<lparr>state := Preempted\<rparr>]"
proof -
  obtain entries' r where r: "preempt_for_user entries active p idle = (entries', r)"
    by (cases "preempt_for_user entries active p idle")
  show ?thesis
  proof (cases r)
    case None
    with preempt_for_user_None [of entries active p idle entries'] r show ?thesis
      by (cases p) (auto simp: list_all_iff)
  next
    case (Some i)
    with preempt_for_user_SomeD [of entries active p idle entries' i] r show ?thesis
      by (auto simp: list_all_iff)
  qed
qed

lemma auto_resume_nth:
  "i < length entries \<Longrightarrow> auto_resume_preempted entries ! i =
     (if \<not> list_ex is_user_work_outstanding entries \<and> in_use (entries ! i) \<and> state (entries ! i) = Preempted
      then (entries ! i)\<lparr>state := Pending\<rparr> else entries ! i)"
  by (simp add: auto_resume_preempted_def)

lemma length_auto_resume [simp]: "length (auto_resume_preempted entries) = length entries"
  by (simp add: auto_resume_preempted_def)

end
