(* ===== verification/Queue.thy ===== *)
theory Queue
  imports Entry Validate
begin

text \<open>
  The transfer queue and its worker threads, \<open>crates/updater/src/queue/mod.rs\<close>. One shared state
  holds the slots, what \<open>WorkerState\<close> keeps under the queue lock, the file system and, for every
  worker, where its thread stands (\<open>pc\<close>, with the locals that live across a step). Every section
  under the queue lock is one step, and so is every group of reads between two of them; an
  \<open>event\<close> names the step and carries what the world answered.
\<close>

section \<open>State\<close>

definition QUEUE_MAX :: nat where "QUEUE_MAX = 32"
definition MAX_WORKERS :: nat where "MAX_WORKERS = QUEUE_MAX"

record slot_request =
  sr_url :: string
  sr_digest :: ArtifactDigest
  sr_expected_size :: "u64 option"

record queue_request =
  qr_url :: string
  qr_digest :: ArtifactDigest
  qr_expected_size :: "u64 option"
  qr_priority :: Priority

record slot =
  s_in_use :: bool
  s_priority :: i32
  s_state :: i32
  s_cancel_requested :: bool
  s_pause_requested :: bool
  s_queue_time_ms :: int
  s_bytes_downloaded :: int
  s_bytes_total :: int
  s_request :: "slot_request option"
  s_path :: "string option"
  s_failure :: "queue_failure option"

definition slot_default :: slot where
  "slot_default = \<lparr>s_in_use = False, s_priority = 0, s_state = 0, s_cancel_requested = False,
     s_pause_requested = False, s_queue_time_ms = 0, s_bytes_downloaded = 0, s_bytes_total = 0,
     s_request = None, s_path = None, s_failure = None\<rparr>"

definition snapshot :: "slot \<Rightarrow> entry" where
  "snapshot s = \<lparr>in_use = s_in_use s, priority = priority_from_code (s_priority s),
     state = state_from_code (s_state s), queue_time_ms = s_queue_time_ms s,
     bytes_downloaded = s_bytes_downloaded s, bytes_total = s_bytes_total s\<rparr>"

definition apply_entry :: "entry \<Rightarrow> slot \<Rightarrow> slot" where
  "apply_entry e s = s\<lparr>s_in_use := in_use e, s_state := state_code (state e)\<rparr>"

definition slot_state :: "slot \<Rightarrow> State" where
  "slot_state s = state_from_code (s_state s)"

definition set_state :: "State \<Rightarrow> slot \<Rightarrow> slot" where
  "set_state st s = s\<lparr>s_state := state_code st\<rparr>"

definition store_progress :: "snapshot \<Rightarrow> slot \<Rightarrow> slot" where
  "store_progress p s = s\<lparr>s_bytes_downloaded := as_i64 (snap_downloaded p),
     s_bytes_total := (case snap_total p of None \<Rightarrow> UNKNOWN_TOTAL | Some v \<Rightarrow> as_i64 v)\<rparr>"

definition publish_failure :: "queue_failure \<Rightarrow> slot \<Rightarrow> slot" where
  "publish_failure why s = (if s_failure s = None then s\<lparr>s_failure := Some why\<rparr> else s)"

record active =
  a_slot :: "nat option"
  a_download :: "download option"

definition active_default :: active where
  "active_default = \<lparr>a_slot = None, a_download = None\<rparr>"

text \<open>Where a worker's thread stands.\<close>

datatype pc =
    Off
  | Looping
  | Claimed nat
  | CheckingCache nat slot_request
  | Opening nat slot_request
  | Opened nat slot_request download
  | Registering nat slot_request download
  | Registered nat slot_request
  | Prepared nat slot_request
  | Streaming nat slot_request bytes "queue_failure option"
  | Ended nat slot_request bytes "queue_failure option"
  | Settling nat "ArtifactDigest option" "download option" State "queue_failure option"
      "ArtifactDigest option"

record queue =
  q_slots :: "slot list"
  q_armed :: "bool list"
  q_active :: "active list"
  q_handles :: "nat list"
  q_running :: bool
  q_workers :: nat
  q_pcs :: "pc list"
  q_fs :: fs

record world =
  w_lib :: lib
  w_root :: string
  w_agents :: agents

definition with_config :: "nat \<Rightarrow> fs \<Rightarrow> queue" where
  "with_config configured f =
     (let workers = max 1 (min configured MAX_WORKERS)
      in \<lparr>q_slots = replicate QUEUE_MAX slot_default, q_armed = replicate workers False,
          q_active = replicate workers active_default, q_handles = [], q_running = True,
          q_workers = workers, q_pcs = replicate workers Off, q_fs = f\<rparr>)"

section \<open>What is read under the lock\<close>

definition claimed :: "queue \<Rightarrow> nat list" where
  "claimed q = List.map_filter a_slot (q_active q)"

definition is_active :: "queue \<Rightarrow> nat \<Rightarrow> bool" where
  "is_active q i = list_ex (\<lambda>a. a_slot a = Some i) (q_active q)"

definition holder :: "queue \<Rightarrow> nat \<Rightarrow> nat option" where
  "holder q i = position (\<lambda>a. a_slot a = Some i) (q_active q)"

definition has_idle_worker :: "queue \<Rightarrow> bool" where
  "has_idle_worker q = list_ex (\<lambda>a. a_slot a = None) (q_active q)"

definition snapshot_all :: "queue \<Rightarrow> entry list" where
  "snapshot_all q = map snapshot (q_slots q)"

definition upd_slot :: "nat \<Rightarrow> (slot \<Rightarrow> slot) \<Rightarrow> queue \<Rightarrow> queue" where
  "upd_slot i g q = q\<lparr>q_slots := (q_slots q)[i := g (q_slots q ! i)]\<rparr>"

definition set_pc :: "nat \<Rightarrow> pc \<Rightarrow> queue \<Rightarrow> queue" where
  "set_pc w p q = q\<lparr>q_pcs := (q_pcs q)[w := p]\<rparr>"

text \<open>\<open>download_for\<close> finds the first worker holding the slot; \<open>upd_download\<close> is a call on its handle.\<close>

definition download_of :: "queue \<Rightarrow> nat \<Rightarrow> download option" where
  "download_of q w = a_download (q_active q ! w)"

definition upd_download :: "nat \<Rightarrow> (download \<Rightarrow> download) \<Rightarrow> queue \<Rightarrow> queue" where
  "upd_download w g q = q\<lparr>q_active := (q_active q)[w := (q_active q ! w)
     \<lparr>a_download := map_option g (a_download (q_active q ! w))\<rparr>]\<rparr>"

definition with_download_for :: "nat \<Rightarrow> (download \<Rightarrow> download) \<Rightarrow> queue \<Rightarrow> queue" where
  "with_download_for i g q = (case holder q i of None \<Rightarrow> q | Some w \<Rightarrow> upd_download w g q)"

definition request_pause_slot :: "nat \<Rightarrow> queue \<Rightarrow> queue" where
  "request_pause_slot i q =
     with_download_for i request_pause (upd_slot i (\<lambda>s. s\<lparr>s_pause_requested := True\<rparr>) q)"

section \<open>Workers\<close>

text \<open>Which spawns succeed and which finished threads \<open>reap\<close> sees.\<close>

record threads =
  spawn_ok :: "nat \<Rightarrow> bool"
  finished :: "nat \<Rightarrow> bool"

definition reap :: "threads \<Rightarrow> queue \<Rightarrow> queue" where
  "reap t q = q\<lparr>q_handles := filter (\<lambda>h. \<not> finished t h) (q_handles q)\<rparr>"

fun spawn_from :: "threads \<Rightarrow> nat list \<Rightarrow> queue \<Rightarrow> queue" where
  "spawn_from t [] q = q"
| "spawn_from t (w # ws) q =
     (if q_armed q ! w then spawn_from t ws q
      else if \<not> spawn_ok t w then q
      else spawn_from t ws (set_pc w Looping
        (q\<lparr>q_handles := q_handles q @ [w], q_armed := (q_armed q)[w := True]\<rparr>)))"

definition arm_workers :: "threads \<Rightarrow> queue \<Rightarrow> queue" where
  "arm_workers t q =
     (if list_all (\<lambda>b. b) (q_armed q) \<or> \<not> q_running q then q
      else if next_pending (snapshot_all q) = None then q
      else spawn_from t [0..<q_workers q] (reap t q))"

definition resume_preempted :: "queue \<Rightarrow> queue" where
  "resume_preempted q =
     q\<lparr>q_slots := map2 (\<lambda>s e. apply_entry e s) (q_slots q) (auto_resume_preempted (snapshot_all q))\<rparr>"

definition retire :: "nat \<Rightarrow> queue \<Rightarrow> queue" where
  "retire w q = set_pc w Off (q\<lparr>q_armed := (q_armed q)[w := False]\<rparr>)"

definition claim :: "nat \<Rightarrow> nat \<Rightarrow> queue \<Rightarrow> queue" where
  "claim w i q = set_pc w (Claimed i) ((upd_slot i (set_state State.Downloading) q)
     \<lparr>q_active := (q_active q)[w := (q_active q ! w)\<lparr>a_slot := Some i\<rparr>]\<rparr>)"

text \<open>One turn of \<open>run_drain\<close> up to \<open>process\<close>.\<close>

definition drain_turn :: "threads \<Rightarrow> nat \<Rightarrow> queue \<Rightarrow> queue" where
  "drain_turn t w q =
     (if \<not> q_running q then retire w q
      else let q1 = resume_preempted q
        in (case next_pending (snapshot_all q1) of
              None \<Rightarrow> retire w q1
            | Some i \<Rightarrow> arm_workers t (claim w i q1)))"

definition release_worker :: "nat \<Rightarrow> queue \<Rightarrow> queue" where
  "release_worker w q =
     (let released = q_active q ! w;
          q1 = q\<lparr>q_armed := (q_armed q)[w := False], q_active := (q_active q)[w := active_default]\<rparr>
      in set_pc w Off (case a_slot released of
           Some i \<Rightarrow> upd_slot i (\<lambda>s. set_state State.Failed (publish_failure Panicked s)) q1
         | None \<Rightarrow> q1))"

section \<open>Settling a slot\<close>

definition settle_slot ::
  "world \<Rightarrow> ArtifactDigest option \<Rightarrow> State \<Rightarrow> queue_failure option \<Rightarrow> slot \<Rightarrow> slot" where
  "settle_slot wd digest st failure s0 =
     (let s = s0\<lparr>s_pause_requested := False\<rparr>;
          settled = (if s_cancel_requested s then State.Cancelled else st);
          s1 = (if settled = State.Complete \<and> digest \<noteq> None
                then s\<lparr>s_path := Some (path_for (w_root wd) (the digest))\<rparr>
                else (case failure of Some why \<Rightarrow> publish_failure why s | None \<Rightarrow> s))
      in if slot_state s1 \<noteq> State.Preempted \<or> settled \<noteq> State.Paused then set_state settled s1 else s1)"

text \<open>
  \<open>finish\<close>, and what follows it: the last handle on the transfer is dropped, then an unreadable
  partial file is evicted.
\<close>

definition finish ::
  "world \<Rightarrow> poll_env \<Rightarrow> nat \<Rightarrow> nat \<Rightarrow> ArtifactDigest option \<Rightarrow> download option \<Rightarrow> State
     \<Rightarrow> queue_failure option \<Rightarrow> queue \<Rightarrow> queue" where
  "finish wd e w i digest local st failure q =
     (let released = q_active q ! w;
          q1 = upd_slot i (settle_slot wd digest st failure) (q\<lparr>q_active := (q_active q)[w := active_default]\<rparr>)
      in (case (if local = None then a_download released else local) of
            None \<Rightarrow> q1
          | Some d \<Rightarrow> q1\<lparr>q_fs := drop_download e (d, q_fs q)\<rparr>))"

section \<open>One transfer\<close>

text \<open>The start of \<open>process\<close>: the request and a cancel that came before anything went out.\<close>

definition begin_slot :: "nat \<Rightarrow> nat \<Rightarrow> queue \<Rightarrow> queue" where
  "begin_slot w i q = set_pc w
     (case s_request (q_slots q ! i) of
        None \<Rightarrow> Settling i None None State.Failed None None
      | Some r \<Rightarrow>
          if s_cancel_requested (q_slots q ! i) then Settling i None None State.Cancelled None None
          else CheckingCache i r) q"

definition check_cache :: "world \<Rightarrow> nat \<Rightarrow> nat \<Rightarrow> slot_request \<Rightarrow> queue \<Rightarrow> queue" where
  "check_cache wd w i r q =
     (if is_complete (w_root wd) (q_fs q) (sr_digest r) then
        let cached = as_i64 (of_nat (length (content_at (q_fs q) (path_for (w_root wd) (sr_digest r)))))
        in set_pc w (Settling i (Some (sr_digest r)) None State.Complete None None)
             (upd_slot i (\<lambda>s. s\<lparr>s_bytes_downloaded := cached, s_bytes_total := cached\<rparr>) q)
      else set_pc w (Opening i r) q)"

definition open_transfer :: "world \<Rightarrow> setup_env \<Rightarrow> nat \<Rightarrow> nat \<Rightarrow> slot_request \<Rightarrow> queue \<Rightarrow> queue" where
  "open_transfer wd e w i r q =
     (case transport_download e (w_agents wd) (w_root wd) (sr_url r) (sr_digest r) True (q_fs q) of
        (Inl err, f) \<Rightarrow>
          set_pc w (Settling i None None State.Failed (Some (Start err)) None) (q\<lparr>q_fs := f\<rparr>)
      | (Inr d, f) \<Rightarrow> set_pc w (Opened i r d) (q\<lparr>q_fs := f\<rparr>))"

definition recheck_cancel :: "nat \<Rightarrow> nat \<Rightarrow> slot_request \<Rightarrow> download \<Rightarrow> queue \<Rightarrow> queue" where
  "recheck_cancel w i r d q = set_pc w
     (if s_cancel_requested (q_slots q ! i) then Settling i None (Some d) State.Cancelled None None
      else Registering i r d) q"

definition register_download :: "nat \<Rightarrow> nat \<Rightarrow> slot_request \<Rightarrow> download \<Rightarrow> queue \<Rightarrow> queue" where
  "register_download w i r d q = set_pc w (Registered i r)
     (q\<lparr>q_active := (q_active q)[w := (q_active q ! w)\<lparr>a_download := Some d\<rparr>]\<rparr>)"

definition carry_flags :: "nat \<Rightarrow> nat \<Rightarrow> slot_request \<Rightarrow> queue \<Rightarrow> queue" where
  "carry_flags w i r q =
     (let q1 = (if s_cancel_requested (q_slots q ! i) \<or> \<not> q_running q
                then upd_download w request_cancel q else q);
          q2 = (if s_pause_requested (q_slots q1 ! i) then upd_download w request_pause q1 else q1)
      in set_pc w (Prepared i r) q2)"

text \<open>\<open>transfer\<close> up to its loop: the bytes a resumed file already holds go through the digest.\<close>

definition hash_resumed :: "world \<Rightarrow> disk_env \<Rightarrow> nat \<Rightarrow> nat \<Rightarrow> slot_request \<Rightarrow> download \<Rightarrow> queue \<Rightarrow> queue" where
  "hash_resumed wd e w i r d q =
     (let resumed_from = snap_downloaded (progress d);
          path = path_for (w_root wd) (sr_digest r)
      in set_pc w
           (if 0 < resumed_from then
              (case hash_prefix e path resumed_from [] (q_fs q) of
                 (True, digest) \<Rightarrow> Streaming i r digest None
               | (False, _) \<Rightarrow>
                   Settling i None (Some d) State.Failed (Some Unreadable) (Some (sr_digest r)))
            else Streaming i r [] None) q)"

text \<open>One turn of the loop of \<open>transfer\<close>.\<close>

definition stream_turn ::
  "poll_env \<Rightarrow> nat \<Rightarrow> nat \<Rightarrow> slot_request \<Rightarrow> bytes \<Rightarrow> queue_failure option \<Rightarrow> download \<Rightarrow> queue \<Rightarrow> queue" where
  "stream_turn e w i r digest oversize d q =
     (case read_chunk e CHUNK_SIZE (d, q_fs q) of
        (c, d', f) \<Rightarrow>
          let q1 = upd_slot i (store_progress (progress d'))
                ((upd_download w (\<lambda>_. d') q)\<lparr>q_fs := f\<rparr>)
          in (case c of
                Read new \<Rightarrow>
                  (let downloaded = snap_downloaded (progress d')
                   in (case sr_expected_size r of
                         Some expected \<Rightarrow>
                           if expected < downloaded \<and> oversize = None then
                             set_pc w (Streaming i r (digest @ new) (Some (Oversize expected downloaded)))
                               (upd_download w request_cancel q1)
                           else set_pc w (Streaming i r (digest @ new) oversize) q1
                       | None \<Rightarrow> set_pc w (Streaming i r (digest @ new) oversize) q1))
              | _ \<Rightarrow> set_pc w (Ended i r digest oversize) q1))"

definition end_transfer ::
  "world \<Rightarrow> disk_env \<Rightarrow> bool \<times> bool \<Rightarrow> nat \<Rightarrow> nat \<Rightarrow> slot_request \<Rightarrow> bytes \<Rightarrow> queue_failure option
     \<Rightarrow> download \<Rightarrow> queue \<Rightarrow> queue" where
  "end_transfer wd e gone w i r digest oversize d q =
     (let snap = progress d; path = path_for (w_root wd) (sr_digest r);
          settle = (\<lambda>st why. set_pc w (Settling i (Some (sr_digest r)) None st why None));
          evicted = q\<lparr>q_fs := evict gone (w_root wd) (sr_digest r) (q_fs q)\<rparr>
      in (case oversize of
            Some refused \<Rightarrow> settle State.Failed (Some refused) evicted
          | None \<Rightarrow>
              (case snap_status snap of
                 Status.Complete \<Rightarrow>
                   (case validate (w_lib wd) e path (sr_digest r) (sr_expected_size r) digest
                       (snap_downloaded snap) (q_fs q) of
                      None \<Rightarrow> settle State.Complete None q
                    | Some refused \<Rightarrow> settle State.Failed (Some refused) evicted)
               | Status.Cancelled \<Rightarrow> settle State.Cancelled None q
               | Status.Paused \<Rightarrow> settle State.Paused None q
               | _ \<Rightarrow> settle State.Failed (map_option TransferFailure (snap_failure snap)) q)))"

section \<open>The caller's operations\<close>

definition fill_slot :: "queue_request \<Rightarrow> int \<Rightarrow> slot \<Rightarrow> slot" where
  "fill_slot req now s = s\<lparr>s_request := Some \<lparr>sr_url = qr_url req, sr_digest = qr_digest req,
       sr_expected_size = qr_expected_size req\<rparr>, s_path := None, s_failure := None,
     s_priority := priority_code (qr_priority req), s_cancel_requested := False,
     s_pause_requested := False, s_bytes_downloaded := 0, s_bytes_total := UNKNOWN_TOTAL,
     s_queue_time_ms := now, s_state := state_code State.Pending, s_in_use := True\<rparr>"

definition queue_push :: "threads \<Rightarrow> queue_request \<Rightarrow> int \<Rightarrow> queue \<Rightarrow> queue \<times> nat option" where
  "queue_push t req now q =
     (case position (\<lambda>s. \<not> s_in_use s) (q_slots q) of
        None \<Rightarrow> (q, None)
      | Some i \<Rightarrow>
          let q1 = upd_slot i (fill_slot req now) q;
              q2 = (case preempt_for_user (snapshot_all q1) (claimed q1) (qr_priority req)
                        (has_idle_worker q1) of
                      (snap, Some target) \<Rightarrow>
                        request_pause_slot target (upd_slot target (apply_entry (snap ! target)) q1)
                    | (_, None) \<Rightarrow> q1)
          in (arm_workers t q2, Some i))"

definition queue_cancel :: "nat \<Rightarrow> queue \<Rightarrow> queue \<times> bool" where
  "queue_cancel i q =
     (case cancel (snapshot (q_slots q ! i)) (is_active q i) of
        (_, False) \<Rightarrow> (q, False)
      | (snap, True) \<Rightarrow>
          let q1 = upd_slot i (apply_entry snap) q
          in ((if is_active q1 i then
                 with_download_for i request_cancel (upd_slot i (\<lambda>s. s\<lparr>s_cancel_requested := True\<rparr>) q1)
               else q1), True))"

definition queue_pause :: "nat \<Rightarrow> queue \<Rightarrow> queue \<times> bool" where
  "queue_pause i q =
     (if \<not> pause (snapshot (q_slots q ! i)) (is_active q i) then (q, False)
      else (request_pause_slot i q, True))"

definition queue_resume :: "threads \<Rightarrow> nat \<Rightarrow> queue \<Rightarrow> queue \<times> bool" where
  "queue_resume t i q =
     (case resume (snapshot (q_slots q ! i)) of
        (_, False) \<Rightarrow> (q, False)
      | (snap, True) \<Rightarrow> (arm_workers t (upd_slot i (apply_entry snap) q), True))"

definition queue_remove :: "nat \<Rightarrow> queue \<Rightarrow> queue \<times> bool" where
  "queue_remove i q =
     (case remove (snapshot (q_slots q ! i)) (is_active q i) of
        (_, False) \<Rightarrow> (q, False)
      | (snap, True) \<Rightarrow> (upd_slot i (apply_entry snap) q, True))"

text \<open>\<open>cancel_all\<close>, \<open>pause_all\<close> and \<open>resume_all\<close>: one lock per slot, in order, counting.\<close>

fun over_slots :: "(nat \<Rightarrow> queue \<Rightarrow> queue \<times> bool) \<Rightarrow> nat list \<Rightarrow> queue \<Rightarrow> queue \<times> nat" where
  "over_slots op [] q = (q, 0)"
| "over_slots op (i # is) q =
     (case op i q of (q1, took) \<Rightarrow>
        (case over_slots op is q1 of (q2, n) \<Rightarrow> (q2, if took then Suc n else n)))"

definition cancel_all :: "queue \<Rightarrow> queue \<times> nat" where
  "cancel_all q = over_slots queue_cancel [0..<length (q_slots q)] q"

definition pause_all :: "queue \<Rightarrow> queue \<times> nat" where
  "pause_all q = over_slots queue_pause [0..<length (q_slots q)] q"

definition resume_all :: "threads \<Rightarrow> queue \<Rightarrow> queue \<times> nat" where
  "resume_all t q = over_slots (queue_resume t) [0..<length (q_slots q)] q"

definition queue_state :: "queue \<Rightarrow> nat \<Rightarrow> State" where
  "queue_state q i = slot_state (q_slots q ! i)"

definition queue_path :: "queue \<Rightarrow> nat \<Rightarrow> string option" where
  "queue_path q i = s_path (q_slots q ! i)"

definition queue_failure_of :: "queue \<Rightarrow> nat \<Rightarrow> queue_failure option" where
  "queue_failure_of q i = s_failure (q_slots q ! i)"

text \<open>\<open>Drop\<close> up to the joins, which wait until every worker is \<open>Off\<close>.\<close>

definition queue_drop :: "queue \<Rightarrow> queue" where
  "queue_drop q = q\<lparr>q_running := False, q_handles := [],
     q_active := map (\<lambda>a. a\<lparr>a_download := map_option request_cancel (a_download a)\<rparr>) (q_active q)\<rparr>"

section \<open>Events\<close>

datatype event =
    Push threads queue_request int
  | Cancel nat
  | Pause nat
  | Resume threads nat
  | Remove nat
  | DropQueue
  | Drain nat threads
  | HookPanic nat
  | Work nat setup_env disk_env poll_env "bool \<times> bool"
  | WorkPanic nat poll_env

definition holding :: "pc \<Rightarrow> nat option" where
  "holding p = (case p of
       Off \<Rightarrow> None | Looping \<Rightarrow> None
     | Claimed i \<Rightarrow> Some i | CheckingCache i _ \<Rightarrow> Some i | Opening i _ \<Rightarrow> Some i
     | Opened i _ _ \<Rightarrow> Some i | Registering i _ _ \<Rightarrow> Some i | Registered i _ \<Rightarrow> Some i
     | Prepared i _ \<Rightarrow> Some i | Streaming i _ _ _ \<Rightarrow> Some i | Ended i _ _ _ \<Rightarrow> Some i
     | Settling i _ _ _ _ _ \<Rightarrow> Some i)"

text \<open>What unwinding drops besides the handle the worker registered.\<close>

definition local_download :: "pc \<Rightarrow> download option" where
  "local_download p = (case p of Opened _ _ d \<Rightarrow> Some d | Registering _ _ d \<Rightarrow> Some d
     | Settling _ _ d _ _ _ \<Rightarrow> d | _ \<Rightarrow> None)"

definition work ::
  "world \<Rightarrow> setup_env \<Rightarrow> disk_env \<Rightarrow> poll_env \<Rightarrow> bool \<times> bool \<Rightarrow> nat \<Rightarrow> queue \<Rightarrow> queue option" where
  "work wd se de pe gone w q = (case q_pcs q ! w of
       Claimed i \<Rightarrow> Some (begin_slot w i q)
     | CheckingCache i r \<Rightarrow> Some (check_cache wd w i r q)
     | Opening i r \<Rightarrow> Some (open_transfer wd se w i r q)
     | Opened i r d \<Rightarrow> Some (recheck_cancel w i r d q)
     | Registering i r d \<Rightarrow> Some (register_download w i r d q)
     | Registered i r \<Rightarrow> Some (carry_flags w i r q)
     | Prepared i r \<Rightarrow> map_option (\<lambda>d. hash_resumed wd de w i r d q) (download_of q w)
     | Streaming i r digest oversize \<Rightarrow>
         map_option (\<lambda>d. stream_turn pe w i r digest oversize d q) (download_of q w)
     | Ended i r digest oversize \<Rightarrow>
         map_option (\<lambda>d. end_transfer wd de gone w i r digest oversize d q) (download_of q w)
     | Settling i digest local st failure evicting \<Rightarrow>
         let q1 = finish wd pe w i digest local st failure q
         in Some (set_pc w Looping (case evicting of
              None \<Rightarrow> q1
            | Some d \<Rightarrow> q1\<lparr>q_fs := evict gone (w_root wd) d (q_fs q1)\<rparr>))
     | Off \<Rightarrow> None
     | Looping \<Rightarrow> None)"

definition exec_event :: "world \<Rightarrow> queue \<Rightarrow> event \<Rightarrow> queue option" where
  "exec_event wd q ev = (case ev of
       Push t req now \<Rightarrow> Some (fst (queue_push t req now q))
     | Cancel i \<Rightarrow> if i < length (q_slots q) then Some (fst (queue_cancel i q)) else None
     | Pause i \<Rightarrow> if i < length (q_slots q) then Some (fst (queue_pause i q)) else None
     | Resume t i \<Rightarrow> if i < length (q_slots q) then Some (fst (queue_resume t i q)) else None
     | Remove i \<Rightarrow> if i < length (q_slots q) then Some (fst (queue_remove i q)) else None
     | DropQueue \<Rightarrow> Some (queue_drop q)
     | Drain w t \<Rightarrow>
         if w < length (q_pcs q) \<and> q_pcs q ! w = Looping then Some (drain_turn t w q) else None
     | HookPanic w \<Rightarrow>
         if w < length (q_pcs q) \<and> q_pcs q ! w = Looping then Some (release_worker w q) else None
     | Work w se de pe gone \<Rightarrow> if w < length (q_pcs q) then work wd se de pe gone w q else None
     | WorkPanic w pe \<Rightarrow>
         (if w < length (q_pcs q) then
            (case holding (q_pcs q ! w) of
               Some i \<Rightarrow> Some (set_pc w Looping
                 (finish wd pe w i None (local_download (q_pcs q ! w)) State.Failed (Some Panicked) q))
             | None \<Rightarrow> None)
          else None))"

end
