(* ===== verification/Queue_Spec.thy ===== *)
theory Queue_Spec
  imports Queue
begin

text \<open>
  The scheduler the transfer queue promises to be: slots with a state and a promised cancel,
  workers that are off, free or hold a slot, and the small steps between them. The invariants are
  proved here; \<open>Queue_Inv\<close> shows that the queue's own steps are sequences of these.
\<close>

section \<open>The abstract scheduler\<close>

record vslot =
  vu :: bool  \<comment> \<open>in use\<close>
  vs :: State
  vf :: bool  \<comment> \<open>a cancel has been promised to the transfer that holds it\<close>

datatype vworker = VOff | VFree | VHold nat

record sched =
  v_slots :: "vslot list"
  v_workers :: "vworker list"
  v_running :: bool

definition put_slot :: "nat \<Rightarrow> vslot \<Rightarrow> sched \<Rightarrow> sched" where
  "put_slot i x s = s\<lparr>v_slots := (v_slots s)[i := x]\<rparr>"

definition put_worker :: "nat \<Rightarrow> vworker \<Rightarrow> sched \<Rightarrow> sched" where
  "put_worker w x s = s\<lparr>v_workers := (v_workers s)[w := x]\<rparr>"

definition held :: "sched \<Rightarrow> nat \<Rightarrow> bool" where
  "held s i \<longleftrightarrow> VHold i \<in> set (v_workers s)"

definition final :: "State \<Rightarrow> bool" where
  "final st \<longleftrightarrow> st \<in> {State.Complete, State.Failed, State.Cancelled, State.Paused}"

definition settle_view :: "State \<Rightarrow> vslot \<Rightarrow> vslot" where
  "settle_view st x =
     (let settled = (if vf x then State.Cancelled else st)
      in if vs x \<noteq> State.Preempted \<or> settled \<noteq> State.Paused then x\<lparr>vs := settled\<rparr> else x)"

definition sweep_view :: "vslot \<Rightarrow> vslot" where
  "sweep_view x = (if vu x \<and> vs x = State.Preempted then x\<lparr>vs := State.Pending\<rparr> else x)"

inductive sstep :: "sched \<Rightarrow> sched \<Rightarrow> bool" where
  fill: "i < length (v_slots s) \<Longrightarrow> \<not> vu (v_slots s ! i) \<Longrightarrow>
    sstep s (put_slot i \<lparr>vu = True, vs = State.Pending, vf = False\<rparr> s)"
| preempt: "i < length (v_slots s) \<Longrightarrow> held s i \<Longrightarrow> vu (v_slots s ! i) \<Longrightarrow> vs (v_slots s ! i) = State.Downloading \<Longrightarrow>
    sstep s (put_slot i ((v_slots s ! i)\<lparr>vs := State.Preempted\<rparr>) s)"
| arm: "w < length (v_workers s) \<Longrightarrow> v_workers s ! w = VOff \<Longrightarrow> v_running s \<Longrightarrow> sstep s (put_worker w VFree s)"
| sweep: "VFree \<in> set (v_workers s) \<Longrightarrow> sstep s (s\<lparr>v_slots := map sweep_view (v_slots s)\<rparr>)"
| claims: "w < length (v_workers s) \<Longrightarrow> v_workers s ! w = VFree \<Longrightarrow> i < length (v_slots s) \<Longrightarrow>
    vu (v_slots s ! i) \<Longrightarrow> vs (v_slots s ! i) = State.Pending \<Longrightarrow>
    sstep s (put_worker w (VHold i) (put_slot i ((v_slots s ! i)\<lparr>vs := State.Downloading\<rparr>) s))"
| retires: "w < length (v_workers s) \<Longrightarrow> v_workers s ! w = VFree \<Longrightarrow> sstep s (put_worker w VOff s)"
| settle: "w < length (v_workers s) \<Longrightarrow> v_workers s ! w = VHold i \<Longrightarrow> i < length (v_slots s) \<Longrightarrow> final st \<Longrightarrow>
    sstep s (put_worker w VFree (put_slot i (settle_view st (v_slots s ! i)) s))"
| cancel_idle: "i < length (v_slots s) \<Longrightarrow> \<not> held s i \<Longrightarrow>
    vs (v_slots s ! i) \<in> {State.Pending, State.Paused, State.Preempted} \<Longrightarrow>
    sstep s (put_slot i ((v_slots s ! i)\<lparr>vs := State.Cancelled\<rparr>) s)"
| cancel_held: "i < length (v_slots s) \<Longrightarrow> held s i \<Longrightarrow>
    vs (v_slots s ! i) \<in> {State.Downloading, State.Pending, State.Paused, State.Preempted} \<Longrightarrow>
    sstep s (put_slot i ((v_slots s ! i)\<lparr>vs := (if vs (v_slots s ! i) \<in> {State.Pending, State.Paused}
      then State.Cancelled else vs (v_slots s ! i)), vf := True\<rparr>) s)"
| resumes: "i < length (v_slots s) \<Longrightarrow> vs (v_slots s ! i) = State.Paused \<Longrightarrow>
    sstep s (put_slot i ((v_slots s ! i)\<lparr>vs := State.Pending\<rparr>) s)"
| removes: "i < length (v_slots s) \<Longrightarrow> \<not> held s i \<Longrightarrow> vs (v_slots s ! i) \<noteq> State.Downloading \<Longrightarrow>
    sstep s (put_slot i ((v_slots s ! i)\<lparr>vu := False\<rparr>) s)"
| stops: "sstep s (s\<lparr>v_running := False\<rparr>)"

section \<open>Invariants of the scheduler\<close>

definition sched_inv :: "sched \<Rightarrow> bool" where
  "sched_inv s \<longleftrightarrow>
     (\<forall>i. held s i \<longrightarrow> i < length (v_slots s) \<and> vu (v_slots s ! i))
     \<and> (\<forall>i < length (v_slots s). vu (v_slots s ! i) \<and> vs (v_slots s ! i) = State.Downloading \<longrightarrow> held s i)"

lemma sched_inv_heldD: "sched_inv s \<Longrightarrow> held s i \<Longrightarrow> i < length (v_slots s) \<and> vu (v_slots s ! i)"
  unfolding sched_inv_def by blast

lemma sched_inv_downD: "sched_inv s \<Longrightarrow> i < length (v_slots s) \<Longrightarrow> vu (v_slots s ! i) \<Longrightarrow>
    vs (v_slots s ! i) = State.Downloading \<Longrightarrow> held s i"
  unfolding sched_inv_def by blast

lemma sched_invI:
  assumes "\<And>i. held s i \<Longrightarrow> i < length (v_slots s) \<and> vu (v_slots s ! i)"
    and "\<And>i. i < length (v_slots s) \<Longrightarrow> vu (v_slots s ! i) \<Longrightarrow> vs (v_slots s ! i) = State.Downloading \<Longrightarrow> held s i"
  shows "sched_inv s"
  unfolding sched_inv_def using assms by blast

lemma held_put_slot [simp]: "held (put_slot i x s) j = held s j"
  by (simp add: held_def put_slot_def)

lemma put_simps [simp]:
  "v_workers (put_slot i x s) = v_workers s" "v_slots (put_worker w y s) = v_slots s"
  "v_slots (put_slot i x s) = (v_slots s)[i := x]" "v_workers (put_worker w y s) = (v_workers s)[w := y]"
  "v_running (put_slot i x s) = v_running s" "v_running (put_worker w y s) = v_running s"
  by (simp_all add: put_slot_def put_worker_def)

lemma held_iff: "held s i \<longleftrightarrow> (\<exists>w < length (v_workers s). v_workers s ! w = VHold i)"
  by (auto simp: held_def in_set_conv_nth)

lemma held_put_worker:
  "w < length (v_workers s) \<Longrightarrow> held (put_worker w y s) i \<longleftrightarrow>
     y = VHold i \<or> (\<exists>w' < length (v_workers s). w' \<noteq> w \<and> v_workers s ! w' = VHold i)"
proof -
  assume w: "w < length (v_workers s)"
  then have "held (put_worker w y s) i
      \<longleftrightarrow> (\<exists>w' < length (v_workers s). (if w = w' then y else v_workers s ! w') = VHold i)"
    by (simp add: held_iff nth_list_update cong: conj_cong)
  with w show ?thesis by auto
qed

lemma held_unfree:
  "w < length (v_workers s) \<Longrightarrow> v_workers s ! w = VFree \<or> v_workers s ! w = VOff \<Longrightarrow>
   held (put_worker w y s) i \<longleftrightarrow> y = VHold i \<or> held s i"
proof -
  assume w: "w < length (v_workers s)" and free: "v_workers s ! w = VFree \<or> v_workers s ! w = VOff"
  have "held s i \<longleftrightarrow> (\<exists>w' < length (v_workers s). w' \<noteq> w \<and> v_workers s ! w' = VHold i)"
    using free by (auto simp: held_iff)
  with w show ?thesis by (simp add: held_put_worker)
qed

lemma held_released:
  assumes "w < length (v_workers s)" "v_workers s ! w = VHold k"
  shows "held (put_worker w VFree s) j \<Longrightarrow> held s j"
    and "held s j \<Longrightarrow> j \<noteq> k \<Longrightarrow> held (put_worker w VFree s) j"
proof -
  show "held (put_worker w VFree s) j \<Longrightarrow> held s j"
    using assms held_put_worker [of w s VFree j] by (auto simp: held_iff)
  show "held s j \<Longrightarrow> j \<noteq> k \<Longrightarrow> held (put_worker w VFree s) j"
    using assms by (auto simp: held_put_worker) (auto simp: held_iff)
qed

lemma settle_view_simps [simp]: "vu (settle_view st x) = vu x" "vf (settle_view st x) = vf x"
  by (simp_all add: settle_view_def Let_def)

lemma settle_view_state: "final st \<Longrightarrow> vs (settle_view st x) \<noteq> State.Downloading"
  by (auto simp: settle_view_def Let_def final_def)

lemma sweep_view_simps [simp]: "vu (sweep_view x) = vu x" "vf (sweep_view x) = vf x"
  "vs (sweep_view x) = State.Downloading \<longleftrightarrow> vs x = State.Downloading"
  by (auto simp: sweep_view_def)

lemma sched_inv_put:
  assumes "sched_inv s" "i < length (v_slots s)" "held s i \<longrightarrow> vu x"
    "vu x \<and> vs x = State.Downloading \<longrightarrow> held s i"
  shows "sched_inv (put_slot i x s)"
proof (rule sched_invI)
  fix j
  assume "held (put_slot i x s) j"
  then have "held s j" by simp
  with sched_inv_heldD [OF assms(1) this] assms(2,3)
  show "j < length (v_slots (put_slot i x s)) \<and> vu (v_slots (put_slot i x s) ! j)"
    by (cases "j = i") simp_all
next
  fix j
  assume "j < length (v_slots (put_slot i x s))" "vu (v_slots (put_slot i x s) ! j)"
    "vs (v_slots (put_slot i x s) ! j) = State.Downloading"
  then show "held (put_slot i x s) j"
    using assms(4) sched_inv_downD [OF assms(1), of j] by (cases "j = i") simp_all
qed

lemma sched_inv_workers:
  assumes "sched_inv s" "v_slots s' = v_slots s" "\<And>i. held s' i = held s i"
  shows "sched_inv s'"
  using assms(1) unfolding sched_inv_def assms(2,3) .

lemma sched_inv_step: "sstep s s' \<Longrightarrow> sched_inv s \<Longrightarrow> sched_inv s'"
proof (induction rule: sstep.induct)
  case (fill i s)
  then show ?case by - (rule sched_inv_put, simp_all)
next
  case (preempt i s)
  then show ?case by - (rule sched_inv_put, simp_all)
next
  case (arm w s)
  then show ?case by - (rule sched_inv_workers [of s], simp_all add: held_unfree)
next
  case (sweep s)
  let ?s' = "s\<lparr>v_slots := map sweep_view (v_slots s)\<rparr>"
  have h: "held ?s' i = held s i" for i by (simp add: held_def)
  show ?case
  proof (rule sched_invI)
    fix i
    assume "held ?s' i"
    then have "held s i" using h by blast
    from sched_inv_heldD [OF sweep.prems this]
    show "i < length (v_slots ?s') \<and> vu (v_slots ?s' ! i)" by simp
  next
    fix i
    assume "i < length (v_slots ?s')" "vu (v_slots ?s' ! i)" "vs (v_slots ?s' ! i) = State.Downloading"
    with sched_inv_downD [OF sweep.prems, of i] h show "held ?s' i" by simp
  qed
next
  case (claims w s i)
  let ?x = "(v_slots s ! i)\<lparr>vs := State.Downloading\<rparr>"
  let ?s' = "put_worker w (VHold i) (put_slot i ?x s)"
  have h: "held ?s' j \<longleftrightarrow> i = j \<or> held s j" for j
    using claims.hyps held_unfree [of w "put_slot i ?x s" "VHold i" j] by simp
  show ?case
  proof (rule sched_invI)
    fix j
    assume "held ?s' j"
    then have "i = j \<or> held s j" using h by blast
    with claims.hyps sched_inv_heldD [OF claims.prems, of j]
    show "j < length (v_slots ?s') \<and> vu (v_slots ?s' ! j)" by (cases "i = j") auto
  next
    fix j
    assume "j < length (v_slots ?s')" "vu (v_slots ?s' ! j)" "vs (v_slots ?s' ! j) = State.Downloading"
    with sched_inv_downD [OF claims.prems, of j] show "held ?s' j"
      unfolding h by (cases "i = j") simp_all
  qed
next
  case (retires w s)
  then show ?case by - (rule sched_inv_workers [of s], simp_all add: held_unfree)
next
  case (settle w s i st)
  let ?x = "settle_view st (v_slots s ! i)"
  let ?s' = "put_worker w VFree (put_slot i ?x s)"
  note rel = held_released [of w "put_slot i ?x s" i, simplified, OF settle.hyps(1,2)]
  show ?case
  proof (rule sched_invI)
    fix j
    assume "held ?s' j"
    from sched_inv_heldD [OF settle.prems rel(1) [OF this]]
    show "j < length (v_slots ?s') \<and> vu (v_slots ?s' ! j)" by (cases "j = i") simp_all
  next
    fix j
    assume j: "j < length (v_slots ?s')" "vu (v_slots ?s' ! j)" "vs (v_slots ?s' ! j) = State.Downloading"
    then have ne: "j \<noteq> i" using settle.hyps settle_view_state [OF settle.hyps(4)] by (cases "j = i") auto
    with j have "held s j" using sched_inv_downD [OF settle.prems, of j] by simp
    from rel(2) [OF this ne] show "held ?s' j" .
  qed
next
  case (cancel_idle i s)
  then show ?case by - (rule sched_inv_put, simp_all)
next
  case (cancel_held i s)
  then show ?case by - (rule sched_inv_put, simp_all add: sched_inv_heldD)
next
  case (resumes i s)
  then show ?case by - (rule sched_inv_put, simp_all add: sched_inv_heldD)
next
  case (removes i s)
  then show ?case by - (rule sched_inv_put, simp_all)
next
  case (stops s)
  then show ?case by - (rule sched_inv_workers [of s], simp_all add: held_def)
qed

text \<open>What a cancel that applied leaves behind, until the slot is removed.\<close>

definition cancelling :: "nat \<Rightarrow> sched \<Rightarrow> bool" where
  "cancelling i s \<longleftrightarrow> i < length (v_slots s) \<and> vu (v_slots s ! i)
     \<and> (if held s i then vf (v_slots s ! i)
          \<and> vs (v_slots s ! i) \<in> {State.Downloading, State.Preempted, State.Pending, State.Cancelled}
        else vs (v_slots s ! i) = State.Cancelled)"

lemma cancelling_step:
  assumes "sstep s s'" "cancelling i s" "vu (v_slots s' ! i)"
  shows "cancelling i s'"
  using assms
proof (induction rule: sstep.induct)
  case (settle w s j st)
  note rel = held_released [where s = "put_slot j x s" for x, simplified, OF settle.hyps(1,2)]
  have sub: "held (put_worker w VFree (put_slot j x s)) i \<Longrightarrow> held s i" for x by (rule rel(1))
  have sup: "held s i \<Longrightarrow> j \<noteq> i \<Longrightarrow> held (put_worker w VFree (put_slot j x s)) i" for x
    using rel(2) [of i] by blast
  have hj: "held s j" using settle.hyps by (auto simp: held_iff)
  show ?case
  proof (cases "j = i")
    case True
    with hj settle.prems settle.hyps show ?thesis
      by (auto simp: cancelling_def settle_view_def Let_def)
  next
    case False
    then have "held (put_worker w VFree (put_slot j x s)) i = held s i" for x
      using sub sup by blast
    with False settle.prems show ?thesis by (auto simp: cancelling_def split: if_splits)
  qed
next
  case (sweep s)
  then show ?case by (auto simp: cancelling_def held_def sweep_view_def)
next
  case (claims w s j)
  then show ?case by (auto simp: cancelling_def held_unfree nth_list_update split: if_splits)
next
  case (stops s)
  have "held (s\<lparr>v_running := False\<rparr>) i = held s i" by (simp add: held_def)
  with stops show ?case by (auto simp: cancelling_def split: if_splits)
qed (auto simp: cancelling_def held_unfree nth_list_update split: if_splits)

end
