(* ===== verification/Queue_Inv.thy ===== *)
theory Queue_Inv
  imports Queue_Spec
begin

text \<open>
  The queue refines the scheduler of \<open>Queue_Spec\<close>: what the slots, the worker records and the
  threads' positions amount to, that the three agree in every reachable state, and that every
  event is a sequence of scheduler steps.
\<close>

section \<open>The view\<close>

definition vslot_of :: "slot \<Rightarrow> vslot" where
  "vslot_of s = \<lparr>vu = s_in_use s, vs = slot_state s, vf = s_cancel_requested s\<rparr>"

definition vworker_of :: "pc \<Rightarrow> vworker" where
  "vworker_of p = (case holding p of Some i \<Rightarrow> VHold i | None \<Rightarrow> if p = Off then VOff else VFree)"

definition view :: "queue \<Rightarrow> sched" where
  "view q = \<lparr>v_slots = map vslot_of (q_slots q), v_workers = map vworker_of (q_pcs q),
     v_running = q_running q\<rparr>"

definition settle_ok :: "pc \<Rightarrow> bool" where
  "settle_ok p = (case p of Settling _ _ _ st _ _ \<Rightarrow> final st | _ \<Rightarrow> True)"

definition consistent :: "queue \<Rightarrow> bool" where
  "consistent q \<longleftrightarrow> map a_slot (q_active q) = map holding (q_pcs q)
     \<and> q_armed q = map (\<lambda>p. p \<noteq> Off) (q_pcs q) \<and> list_all settle_ok (q_pcs q)
     \<and> length (q_pcs q) = q_workers q \<and> 0 < q_workers q"

text \<open>Steps that never take a slot out of use.\<close>

definition nstep :: "sched \<Rightarrow> sched \<Rightarrow> bool" where
  "nstep s s' \<longleftrightarrow> sstep s s'
     \<and> (\<forall>i < length (v_slots s). vu (v_slots s ! i) \<longrightarrow> vu (v_slots s' ! i))"

lemma length_sstep: "sstep s s' \<Longrightarrow> length (v_slots s') = length (v_slots s)"
  by (induction rule: sstep.induct) simp_all

lemma vu_update: "(vu (xs ! i) \<Longrightarrow> vu x) \<Longrightarrow> vu (xs ! j) \<Longrightarrow> vu (xs[i := x] ! j)"
  by (cases "j = i"; cases "i < length xs") (auto simp: not_less list_update_beyond)

lemma nstep_put: "sstep s (put_slot i x s) \<Longrightarrow> (vu (v_slots s ! i) \<Longrightarrow> vu x) \<Longrightarrow> nstep s (put_slot i x s)"
  by (simp add: nstep_def vu_update)

lemma nstep_put_worker:
  "sstep s (put_worker w y (put_slot i x s)) \<Longrightarrow> (vu (v_slots s ! i) \<Longrightarrow> vu x) \<Longrightarrow>
   nstep s (put_worker w y (put_slot i x s))"
  by (simp add: nstep_def vu_update)

lemma nstep_worker: "sstep s (put_worker w y s) \<Longrightarrow> nstep s (put_worker w y s)"
  by (simp add: nstep_def)

lemma nsteps_sstep: "nstep\<^sup>*\<^sup>* s s' \<Longrightarrow> sstep\<^sup>*\<^sup>* s s'"
  by (induction rule: rtranclp_induct) (auto simp: nstep_def intro: rtranclp.rtrancl_into_rtrancl)

lemma sched_inv_steps: "sstep\<^sup>*\<^sup>* s s' \<Longrightarrow> sched_inv s \<Longrightarrow> sched_inv s'"
  by (induction rule: rtranclp_induct) (auto intro: sched_inv_step)

lemma cancelling_nsteps: "nstep\<^sup>*\<^sup>* s s' \<Longrightarrow> cancelling i s \<Longrightarrow> cancelling i s'"
proof (induction rule: rtranclp_induct)
  case (step y z)
  then have c: "cancelling i y" by blast
  then have "i < length (v_slots y)" "vu (v_slots y ! i)" by (simp_all add: cancelling_def)
  with step.hyps have "vu (v_slots z ! i)" by (simp add: nstep_def)
  with cancelling_step [OF _ c this] step.hyps show ?case by (simp add: nstep_def)
qed

section \<open>What each update does to the view\<close>

lemma map_update_same: "f y = f (xs ! i) \<Longrightarrow> map f (xs[i := y]) = map f xs"
  by (metis list_update_beyond list_update_id map_update not_le_imp_less)

lemma put_slot_same: "x = v_slots s ! i \<Longrightarrow> put_slot i x s = s"
  by (simp add: put_slot_def)

lemma put_worker_same: "x = v_workers s ! w \<Longrightarrow> put_worker w x s = s"
  by (simp add: put_worker_def)

lemma view_fields [simp]:
  "v_running (view q) = q_running q" "length (v_slots (view q)) = length (q_slots q)"
  "length (v_workers (view q)) = length (q_pcs q)"
  by (simp_all add: view_def)

lemma view_nth [simp]:
  "i < length (q_slots q) \<Longrightarrow> v_slots (view q) ! i = vslot_of (q_slots q ! i)"
  "w < length (q_pcs q) \<Longrightarrow> v_workers (view q) ! w = vworker_of (q_pcs q ! w)"
  by (simp_all add: view_def)

lemma view_upd_slot: "view (upd_slot i g q) = put_slot i (vslot_of (g (q_slots q ! i))) (view q)"
  by (simp add: view_def upd_slot_def put_slot_def map_update)

lemma view_upd_slot_same:
  "vslot_of (g (q_slots q ! i)) = vslot_of (q_slots q ! i) \<Longrightarrow> view (upd_slot i g q) = view q"
  by (simp add: view_def upd_slot_def map_update_same)

lemma view_set_pc: "view (set_pc w p q) = put_worker w (vworker_of p) (view q)"
  by (simp add: view_def set_pc_def put_worker_def map_update)

lemma view_set_pc_same:
  "vworker_of p = vworker_of (q_pcs q ! w) \<Longrightarrow> view (set_pc w p q) = view q"
  by (simp add: view_def set_pc_def map_update_same)

lemma view_other [simp]:
  "view (q\<lparr>q_active := a\<rparr>) = view q" "view (q\<lparr>q_armed := b\<rparr>) = view q"
  "view (q\<lparr>q_handles := h\<rparr>) = view q" "view (q\<lparr>q_fs := f\<rparr>) = view q"
  by (simp_all add: view_def)

lemma view_downloads [simp]:
  "view (upd_download w h q) = view q" "view (with_download_for i g q) = view q"
  by (simp_all add: upd_download_def with_download_for_def view_def split: option.split)

lemma q_fields [simp]:
  "q_pcs (upd_slot i g q) = q_pcs q" "q_active (upd_slot i g q) = q_active q"
  "q_armed (upd_slot i g q) = q_armed q" "q_workers (upd_slot i g q) = q_workers q"
  "q_running (upd_slot i g q) = q_running q" "length (q_slots (upd_slot i g q)) = length (q_slots q)"
  "q_fs (upd_slot i g q) = q_fs q"
  "q_slots (set_pc w p q) = q_slots q" "q_active (set_pc w p q) = q_active q"
  "q_armed (set_pc w p q) = q_armed q" "q_workers (set_pc w p q) = q_workers q"
  "q_running (set_pc w p q) = q_running q" "q_pcs (set_pc w p q) = (q_pcs q)[w := p]"
  "q_fs (set_pc w p q) = q_fs q"
  "q_slots (upd_download w h q) = q_slots q" "q_pcs (upd_download w h q) = q_pcs q"
  "q_armed (upd_download w h q) = q_armed q" "q_workers (upd_download w h q) = q_workers q"
  "q_running (upd_download w h q) = q_running q"
  by (simp_all add: upd_slot_def set_pc_def upd_download_def)

lemma active_upd_download [simp]: "map a_slot (q_active (upd_download w h q)) = map a_slot (q_active q)"
  by (simp add: upd_download_def map_update_same)

lemma consistent_simps [simp]:
  "consistent (upd_slot i g q) = consistent q" "consistent (upd_download w h q) = consistent q"
  "consistent (q\<lparr>q_fs := f\<rparr>) = consistent q" "consistent (q\<lparr>q_handles := hs\<rparr>) = consistent q"
  "consistent (q\<lparr>q_slots := ss\<rparr>) = consistent q" "consistent (q\<lparr>q_running := b\<rparr>) = consistent q"
  by (simp_all add: consistent_def)

lemma consistent_with_download_for [simp]: "consistent (with_download_for i g q) = consistent q"
  by (simp add: with_download_for_def split: option.split)

lemma consistent_set_pc:
  assumes "consistent q" "holding p = holding (q_pcs q ! w)" "p \<noteq> Off \<longleftrightarrow> q_pcs q ! w \<noteq> Off" "settle_ok p"
  shows "consistent (set_pc w p q)"
proof -
  have "map (\<lambda>p. p \<noteq> Off) ((q_pcs q)[w := p]) = map (\<lambda>p. p \<noteq> Off) (q_pcs q)"
    "map holding ((q_pcs q)[w := p]) = map holding (q_pcs q)"
    using assms(2,3) by (simp_all add: map_update_same)
  moreover have "list_all settle_ok ((q_pcs q)[w := p])"
    using assms(1,4) set_update_subset_insert [of "q_pcs q" w p]
    by (auto simp: consistent_def list_all_iff)
  ultimately show ?thesis using assms(1) by (simp add: consistent_def)
qed

text \<open>One worker's record, its armed flag and its position changing together.\<close>

lemma consistent_worker:
  assumes "consistent q" "q_active q' = (q_active q)[w := a]" "q_armed q' = (q_armed q)[w := (p \<noteq> Off)]"
    "q_pcs q' = (q_pcs q)[w := p]" "q_workers q' = q_workers q" "a_slot a = holding p" "settle_ok p"
  shows "consistent q'"
proof -
  have "list_all settle_ok ((q_pcs q)[w := p])"
    using assms(1,7) set_update_subset_insert [of "q_pcs q" w p]
    by (auto simp: consistent_def list_all_iff)
  with assms show ?thesis by (simp add: consistent_def map_update)
qed

lemma consistent_at:
  assumes "consistent q" "w < length (q_pcs q)"
  shows "a_slot (q_active q ! w) = holding (q_pcs q ! w)" "q_armed q ! w \<longleftrightarrow> q_pcs q ! w \<noteq> Off"
    "settle_ok (q_pcs q ! w)" "w < length (q_active q)" "w < length (q_armed q)"
proof -
  have eq: "map a_slot (q_active q) = map holding (q_pcs q)" using assms by (simp add: consistent_def)
  then have "length (map a_slot (q_active q)) = length (map holding (q_pcs q))" by (rule arg_cong)
  then show wa: "w < length (q_active q)" using assms(2) by simp
  have "map a_slot (q_active q) ! w = map holding (q_pcs q) ! w" using eq by simp
  with wa assms(2) show "a_slot (q_active q ! w) = holding (q_pcs q ! w)" by simp
  show "q_armed q ! w \<longleftrightarrow> q_pcs q ! w \<noteq> Off" "settle_ok (q_pcs q ! w)" "w < length (q_armed q)"
    using assms by (simp_all add: consistent_def list_all_length)
qed

lemma vworker_holding: "holding p = Some i \<Longrightarrow> vworker_of p = VHold i"
  by (simp add: vworker_of_def)

lemma vworker_hold_iff: "vworker_of p = VHold i \<longleftrightarrow> holding p = Some i"
  by (auto simp: vworker_of_def split: option.splits if_splits)

lemma held_view: "held (view q) i \<longleftrightarrow> Some i \<in> set (map holding (q_pcs q))"
proof -
  have "held (view q) i \<longleftrightarrow> (\<exists>p \<in> set (q_pcs q). vworker_of p = VHold i)"
    by (force simp: held_def view_def)
  then show ?thesis by (force simp: vworker_hold_iff)
qed

lemma is_active_held: "consistent q \<Longrightarrow> is_active q i \<longleftrightarrow> held (view q) i"
proof -
  assume "consistent q"
  then have "map holding (q_pcs q) = map a_slot (q_active q)" by (simp add: consistent_def)
  then have "held (view q) i \<longleftrightarrow> Some i \<in> set (map a_slot (q_active q))" by (simp only: held_view)
  then show ?thesis by (force simp: is_active_def list_ex_iff)
qed

section \<open>The caller's operations\<close>

lemma spawn_from_refines:
  "consistent q \<Longrightarrow> \<forall>w \<in> set ws. w < q_workers q \<Longrightarrow> q_running q \<Longrightarrow>
   consistent (spawn_from t ws q) \<and> nstep\<^sup>*\<^sup>* (view q) (view (spawn_from t ws q))
     \<and> q_slots (spawn_from t ws q) = q_slots q \<and> q_running (spawn_from t ws q)"
proof (induction t ws q rule: spawn_from.induct)
  case (2 t w ws q)
  let ?q1 = "set_pc w Looping (q\<lparr>q_handles := q_handles q @ [w], q_armed := (q_armed q)[w := True]\<rparr>)"
  show ?case
  proof (cases "q_armed q ! w \<or> \<not> spawn_ok t w")
    case True
    with 2 show ?thesis by auto
  next
    case False
    have w: "w < length (q_pcs q)" using 2 by (simp add: consistent_def)
    have off: "q_pcs q ! w = Off" using False w "2.prems"(1) by (simp add: consistent_def)
    have "consistent ?q1"
      by (rule consistent_worker [OF "2.prems"(1), where a = "q_active q ! w" and p = Looping])
         (use consistent_at [OF "2.prems"(1) w] off in \<open>simp_all add: settle_ok_def holding_def\<close>)
    moreover have "nstep (view q) (view ?q1)"
    proof -
      have v: "view ?q1 = put_worker w VFree (view q)" by (simp add: view_set_pc vworker_of_def holding_def)
      show ?thesis unfolding v
        by (rule nstep_worker, rule sstep.arm) (use w off 2 in \<open>simp_all add: vworker_of_def holding_def\<close>)
    qed
    ultimately have "consistent (spawn_from t ws ?q1) \<and> nstep\<^sup>*\<^sup>* (view ?q1) (view (spawn_from t ws ?q1))
        \<and> q_slots (spawn_from t ws ?q1) = q_slots ?q1 \<and> q_running (spawn_from t ws ?q1)"
      using "2.IH"(2) False "2.prems" by simp
    with False \<open>nstep (view q) (view ?q1)\<close> show ?thesis
      by (auto intro: converse_rtranclp_into_rtranclp)
  qed
qed simp

lemma arm_workers_refines:
  assumes "consistent q"
  shows "consistent (arm_workers t q) \<and> nstep\<^sup>*\<^sup>* (view q) (view (arm_workers t q))
     \<and> q_slots (arm_workers t q) = q_slots q \<and> q_running (arm_workers t q) = q_running q"
proof (cases "list_all (\<lambda>b. b) (q_armed q) \<or> \<not> q_running q \<or> next_pending (snapshot_all q) = None")
  case True
  then show ?thesis using assms by (auto simp: arm_workers_def)
next
  case False
  have "consistent (reap t q)" "\<forall>w \<in> set [0..<q_workers q]. w < q_workers (reap t q)" "q_running (reap t q)"
    "view (reap t q) = view q" "q_slots (reap t q) = q_slots q"
    using assms False by (simp_all add: reap_def)
  with spawn_from_refines [OF this(1-3), of t] False assms show ?thesis
    by (simp add: arm_workers_def)
qed

lemma snapshot_fields [simp]:
  "in_use (snapshot s) = s_in_use s" "state (snapshot s) = slot_state s"
  by (simp_all add: snapshot_def slot_state_def)

lemma vslot_of_simps [simp]:
  "vu (vslot_of s) = s_in_use s" "vs (vslot_of s) = slot_state s" "vf (vslot_of s) = s_cancel_requested s"
  by (simp_all add: vslot_of_def)

lemma slot_state_updates [simp]:
  "slot_state (set_state st s) = st" "slot_state (apply_entry e s) = state e"
  "s_in_use (set_state st s) = s_in_use s" "s_in_use (apply_entry e s) = in_use e"
  "s_cancel_requested (set_state st s) = s_cancel_requested s"
  "s_cancel_requested (apply_entry e s) = s_cancel_requested s"
  by (simp_all add: slot_state_def set_state_def apply_entry_def)

lemma slot_state_other [simp]:
  "slot_state (s\<lparr>s_pause_requested := b\<rparr>) = slot_state s"
  "slot_state (s\<lparr>s_cancel_requested := b\<rparr>) = slot_state s"
  "slot_state (s\<lparr>s_path := p\<rparr>) = slot_state s" "slot_state (s\<lparr>s_failure := x\<rparr>) = slot_state s"
  "slot_state (s\<lparr>s_bytes_downloaded := n\<rparr>) = slot_state s"
  "slot_state (s\<lparr>s_bytes_total := n\<rparr>) = slot_state s"
  by (simp_all add: slot_state_def)

lemma vslot_of_other [simp]:
  "vslot_of (s\<lparr>s_pause_requested := b\<rparr>) = vslot_of s"
  "vslot_of (store_progress p s) = vslot_of s"
  "vslot_of (s\<lparr>s_bytes_downloaded := n, s_bytes_total := m\<rparr>) = vslot_of s"
  by (simp_all add: vslot_of_def store_progress_def slot_state_def)

lemma request_pause_view [simp]: "view (request_pause_slot i q) = view q"
  "consistent (request_pause_slot i q) = consistent q"
  by (simp_all add: request_pause_slot_def view_upd_slot_same)

lemma claimed_held: "consistent q \<Longrightarrow> i \<in> set (claimed q) \<longleftrightarrow> held (view q) i"
proof -
  assume "consistent q"
  then have "is_active q i \<longleftrightarrow> held (view q) i" by (rule is_active_held)
  moreover have "i \<in> set (claimed q) \<longleftrightarrow> is_active q i"
    by (force simp: claimed_def is_active_def list_ex_iff map_filter_def)
  ultimately show ?thesis by simp
qed

lemma fill_slot_view: "vslot_of (fill_slot req now s) = \<lparr>vu = True, vs = State.Pending, vf = False\<rparr>"
  by (simp add: vslot_of_def fill_slot_def slot_state_def)

lemma queue_push_shape:
  assumes c: "consistent q" and pos: "position (\<lambda>s. \<not> s_in_use s) (q_slots q) = Some i"
  obtains q2 where "fst (queue_push t req now q) = arm_workers t q2" "consistent q2"
    "nstep\<^sup>*\<^sup>* (view q) (view q2)" "i < length (q_slots q2)"
    "v_slots (view q2) ! i = \<lparr>vu = True, vs = State.Pending, vf = False\<rparr>"
proof -
  from position_SomeD [OF pos] have i: "i < length (q_slots q)" "\<not> s_in_use (q_slots q ! i)" by auto
  let ?new = "\<lparr>vu = True, vs = State.Pending, vf = False\<rparr>"
  let ?q1 = "upd_slot i (fill_slot req now) q"
  have c1: "consistent ?q1" using c by simp
  have v1: "view ?q1 = put_slot i ?new (view q)" by (simp only: view_upd_slot fill_slot_view)
  have s1: "nstep (view q) (view ?q1)"
    unfolding v1 by (rule nstep_put, rule sstep.fill) (use i in simp_all)
  have n1: "v_slots (view ?q1) ! i = ?new" unfolding v1 using i by simp
  obtain snap r where pf: "preempt_for_user (snapshot_all ?q1) (claimed ?q1) (qr_priority req) (has_idle_worker ?q1) = (snap, r)"
    by (metis surj_pair)
  show ?thesis
  proof (cases r)
    case None
    have "fst (queue_push t req now q) = arm_workers t ?q1"
      using pos pf None by (simp add: queue_push_def Let_def)
    with c1 s1 n1 i that [of ?q1] show ?thesis by (simp add: r_into_rtranclp)
  next
    case (Some target)
    note p = preempt_for_user_SomeD [OF pf [unfolded Some]]
    let ?q2 = "request_pause_slot target (upd_slot target (apply_entry (snap ! target)) ?q1)"
    have push: "fst (queue_push t req now q) = arm_workers t ?q2"
      using pos pf Some by (simp add: queue_push_def Let_def)
    have tl: "target < length (q_slots ?q1)" using p(4) by (simp add: snapshot_all_def)
    have may: "may_yield (snapshot (q_slots ?q1 ! target))" using p(5) tl by (simp add: snapshot_all_def)
    have snap: "snap ! target = (snapshot (q_slots ?q1 ! target))\<lparr>state := State.Preempted\<rparr>"
      using p(7) tl by (simp add: snapshot_all_def)
    have h: "held (view ?q1) target" using p(3) claimed_held [OF c1] by simp
    have v2: "view ?q2 = put_slot target ((v_slots (view ?q1) ! target)\<lparr>vs := State.Preempted\<rparr>) (view ?q1)"
    proof -
      have "view ?q2 = view (upd_slot target (apply_entry (snap ! target)) ?q1)" by simp
      also have "\<dots> = put_slot target (vslot_of (apply_entry (snap ! target) (q_slots ?q1 ! target))) (view ?q1)"
        by (rule view_upd_slot)
      also have "vslot_of (apply_entry (snap ! target) (q_slots ?q1 ! target))
          = (v_slots (view ?q1) ! target)\<lparr>vs := State.Preempted\<rparr>"
        unfolding snap view_nth(1) [OF tl] by (simp add: vslot_of_def)
      finally show ?thesis .
    qed
    have down: "vs (v_slots (view ?q1) ! target) = State.Downloading" "vu (v_slots (view ?q1) ! target)"
      using may tl by (simp_all add: may_yield_def)
    have s2: "nstep (view ?q1) (view ?q2)"
      unfolding v2 by (rule nstep_put, rule sstep.preempt) (use tl h down in simp_all)
    have "target \<noteq> i" using down n1 by auto
    then have n2: "v_slots (view ?q2) ! i = ?new" unfolding v2 using n1 by simp
    have "length (q_slots ?q2) = length (v_slots (view ?q2))" by (simp only: view_fields)
    also have "\<dots> = length (q_slots q)" unfolding v2 v1 by simp
    finally have "i < length (q_slots ?q2)" using i by simp
    have ss: "nstep\<^sup>*\<^sup>* (view q) (view ?q2)"
      using s1 s2 by (meson converse_rtranclp_into_rtranclp r_into_rtranclp)
    have "consistent ?q2" using c1 by simp
    from that [OF push this ss \<open>i < length (q_slots ?q2)\<close> n2] show ?thesis .
  qed
qed

lemma queue_push_refines:
  assumes c: "consistent q"
  shows "consistent (fst (queue_push t req now q)) \<and> nstep\<^sup>*\<^sup>* (view q) (view (fst (queue_push t req now q)))"
proof (cases "position (\<lambda>s. \<not> s_in_use s) (q_slots q)")
  case None
  with c show ?thesis by (simp add: queue_push_def)
next
  case (Some i)
  from queue_push_shape [OF c Some, of t req now] obtain q2 where
    "fst (queue_push t req now q) = arm_workers t q2" "consistent q2" "nstep\<^sup>*\<^sup>* (view q) (view q2)" by metis
  with arm_workers_refines [of q2 t] show ?thesis by (metis rtranclp_trans)
qed

lemma queue_cancel_refines:
  assumes c: "consistent q" and i: "i < length (q_slots q)"
  shows "consistent (fst (queue_cancel i q)) \<and> nstep\<^sup>*\<^sup>* (view q) (view (fst (queue_cancel i q)))"
    and "snd (queue_cancel i q) \<Longrightarrow> s_in_use (q_slots q ! i) \<Longrightarrow> cancelling i (view (fst (queue_cancel i q)))"
proof -
  let ?s = "q_slots q ! i"
  obtain snap took where k: "cancel (snapshot ?s) (is_active q i) = (snap, took)" by (metis surj_pair)
  have act: "is_active (upd_slot j g q) i = is_active q i" for j g by (simp add: is_active_def)
  have both: "(consistent (fst (queue_cancel i q)) \<and> nstep\<^sup>*\<^sup>* (view q) (view (fst (queue_cancel i q))))
    \<and> (took \<longrightarrow> s_in_use ?s \<longrightarrow> cancelling i (view (fst (queue_cancel i q))))"
  proof (cases took)
    case False
    with c k show ?thesis by (simp add: queue_cancel_def)
  next
    case True
    let ?q1 = "upd_slot i (apply_entry snap) q"
    show ?thesis
    proof (cases "is_active q i")
      case idle: False
      have h: "\<not> held (view q) i" using idle is_active_held [OF c] by simp
      have snap: "in_use snap = s_in_use ?s" "state snap = State.Cancelled"
        and st: "slot_state ?s \<in> {State.Pending, State.Paused, State.Preempted}"
        using k True idle by (auto simp: cancel_def split: State.splits if_splits)
      have q': "fst (queue_cancel i q) = ?q1"
        using k True idle act by (simp add: queue_cancel_def Let_def)
      have v: "view ?q1 = put_slot i ((v_slots (view q) ! i)\<lparr>vs := State.Cancelled\<rparr>) (view q)"
        unfolding view_upd_slot using i snap by (simp add: vslot_of_def)
      have "nstep (view q) (view ?q1)"
        unfolding v by (rule nstep_put, rule sstep.cancel_idle) (use i h st in simp_all)
      moreover have "s_in_use ?s \<longrightarrow> cancelling i (view ?q1)"
        unfolding v using h i by (simp add: cancelling_def)
      ultimately show ?thesis using c by (simp add: q')
    next
      case active: True
      have h: "held (view q) i" using active is_active_held [OF c] by simp
      let ?q2 = "upd_slot i (\<lambda>s. s\<lparr>s_cancel_requested := True\<rparr>) ?q1"
      have snap: "in_use snap = s_in_use ?s"
        "state snap = (if slot_state ?s \<in> {State.Pending, State.Paused} then State.Cancelled else slot_state ?s)"
        and st: "slot_state ?s \<in> {State.Downloading, State.Pending, State.Paused, State.Preempted}"
        using k True active by (auto simp: cancel_def split: State.splits if_splits)
      have q': "view (fst (queue_cancel i q)) = view ?q2" "consistent (fst (queue_cancel i q))"
        using k True active act c by (simp_all add: queue_cancel_def Let_def)
      have v: "view ?q2 = put_slot i ((v_slots (view q) ! i)\<lparr>vs := (if vs (v_slots (view q) ! i) \<in> {State.Pending, State.Paused}
          then State.Cancelled else vs (v_slots (view q) ! i)), vf := True\<rparr>) (view q)"
        unfolding view_upd_slot using i snap
        by (simp add: upd_slot_def vslot_of_def put_slot_def)
      have "nstep (view q) (view ?q2)"
        unfolding v by (rule nstep_put, rule sstep.cancel_held) (use i h st in \<open>simp_all split: if_splits\<close>)
      moreover have "s_in_use ?s \<longrightarrow> cancelling i (view ?q2)"
        unfolding v using h i st by (auto simp: cancelling_def)
      ultimately show ?thesis using q' by (simp add: r_into_rtranclp)
    qed
  qed
  then show "consistent (fst (queue_cancel i q)) \<and> nstep\<^sup>*\<^sup>* (view q) (view (fst (queue_cancel i q)))" by blast
  have "snd (queue_cancel i q) = took" using k by (cases took) (simp_all add: queue_cancel_def Let_def)
  with both show "snd (queue_cancel i q) \<Longrightarrow> s_in_use ?s \<Longrightarrow> cancelling i (view (fst (queue_cancel i q)))" by blast
qed

lemma queue_pause_refines:
  "consistent q \<Longrightarrow> consistent (fst (queue_pause i q)) \<and> view (fst (queue_pause i q)) = view q"
  by (simp add: queue_pause_def)

lemma queue_resume_refines:
  assumes c: "consistent q" and i: "i < length (q_slots q)"
  shows "consistent (fst (queue_resume t i q)) \<and> nstep\<^sup>*\<^sup>* (view q) (view (fst (queue_resume t i q)))"
proof (cases "slot_state (q_slots q ! i) = State.Paused")
  case False
  with c show ?thesis by (simp add: queue_resume_def resume_def)
next
  case True
  let ?q1 = "upd_slot i (apply_entry ((snapshot (q_slots q ! i))\<lparr>state := State.Pending\<rparr>)) q"
  have v: "view ?q1 = put_slot i ((v_slots (view q) ! i)\<lparr>vs := State.Pending\<rparr>) (view q)"
    unfolding view_upd_slot using i by (simp add: vslot_of_def)
  have "nstep (view q) (view ?q1)"
    unfolding v by (rule nstep_put, rule sstep.resumes) (use i True in simp_all)
  with arm_workers_refines [of ?q1 t] c True show ?thesis
    by (auto simp: queue_resume_def resume_def intro: converse_rtranclp_into_rtranclp)
qed

lemma queue_remove_refines:
  assumes c: "consistent q" and i: "i < length (q_slots q)"
  shows "consistent (fst (queue_remove i q)) \<and> sstep\<^sup>*\<^sup>* (view q) (view (fst (queue_remove i q)))"
proof (cases "is_active q i \<or> slot_state (q_slots q ! i) = State.Downloading")
  case True
  with c show ?thesis by (simp add: queue_remove_def remove_def)
next
  case False
  let ?q1 = "upd_slot i (apply_entry ((snapshot (q_slots q ! i))\<lparr>in_use := False\<rparr>)) q"
  have v: "view ?q1 = put_slot i ((v_slots (view q) ! i)\<lparr>vu := False\<rparr>) (view q)"
    unfolding view_upd_slot using i by (simp add: vslot_of_def)
  have "sstep (view q) (view ?q1)"
    unfolding v by (rule sstep.removes) (use i False is_active_held [OF c] in simp_all)
  with c False show ?thesis by (simp add: queue_remove_def remove_def r_into_rtranclp)
qed

lemma queue_drop_refines:
  "consistent q \<Longrightarrow> consistent (queue_drop q) \<and> nstep\<^sup>*\<^sup>* (view q) (view (queue_drop q))"
proof -
  assume c: "consistent q"
  have v: "view (queue_drop q) = (view q)\<lparr>v_running := False\<rparr>" by (simp add: view_def queue_drop_def)
  have "nstep (view q) (view (queue_drop q))"
    unfolding v by (simp add: nstep_def sstep.stops)
  moreover have "consistent (queue_drop q)"
    using c by (simp add: consistent_def queue_drop_def comp_def)
  ultimately show ?thesis by blast
qed

section \<open>The workers' steps\<close>

lemma resume_preempted_slots:
  "i < length (q_slots q) \<Longrightarrow> q_slots (resume_preempted q) ! i =
     apply_entry (auto_resume_preempted (snapshot_all q) ! i) (q_slots q ! i)"
  by (simp add: resume_preempted_def snapshot_all_def)

lemma resume_preempted_fields [simp]:
  "q_pcs (resume_preempted q) = q_pcs q" "q_active (resume_preempted q) = q_active q"
  "q_armed (resume_preempted q) = q_armed q" "q_workers (resume_preempted q) = q_workers q"
  "q_running (resume_preempted q) = q_running q"
  "length (q_slots (resume_preempted q)) = length (q_slots q)"
  "consistent (resume_preempted q) = consistent q"
  by (simp_all add: resume_preempted_def snapshot_all_def consistent_def)

lemma resume_preempted_view:
  "view (resume_preempted q) = (if list_ex is_user_work_outstanding (snapshot_all q) then view q
     else (view q)\<lparr>v_slots := map sweep_view (v_slots (view q))\<rparr>)"
proof -
  have "map vslot_of (q_slots (resume_preempted q)) =
      (if list_ex is_user_work_outstanding (snapshot_all q) then map vslot_of (q_slots q)
       else map sweep_view (map vslot_of (q_slots q)))"
    by (intro nth_equalityI)
       (auto simp: resume_preempted_slots auto_resume_nth snapshot_all_def vslot_of_def sweep_view_def)
  then show ?thesis by (auto simp: view_def)
qed

lemma worker_free:
  "w < length (q_pcs q) \<Longrightarrow> q_pcs q ! w = Looping \<Longrightarrow> v_workers (view q) ! w = VFree \<and> VFree \<in> set (v_workers (view q))"
proof -
  assume w: "w < length (q_pcs q)" "q_pcs q ! w = Looping"
  then have free: "v_workers (view q) ! w = VFree" by (simp add: vworker_of_def holding_def)
  have "w < length (v_workers (view q))" using w by simp
  from nth_mem [OF this] free show ?thesis by simp
qed

lemma list_update_True: "xs ! w \<Longrightarrow> xs[w := True] = xs"
  by (metis (full_types) list_update_id)

lemma resume_preempted_refines:
  assumes "w < length (q_pcs q)" "q_pcs q ! w = Looping"
  shows "nstep\<^sup>*\<^sup>* (view q) (view (resume_preempted q))"
proof -
  have "nstep (view q) ((view q)\<lparr>v_slots := map sweep_view (v_slots (view q))\<rparr>)"
    using worker_free [OF assms] by (simp add: nstep_def sstep.sweep)
  then show ?thesis by (auto simp: resume_preempted_view)
qed

lemma retire_refines:
  assumes c: "consistent q" and w: "w < length (q_pcs q)" "q_pcs q ! w = Looping"
  shows "consistent (retire w q) \<and> nstep (view q) (view (retire w q))"
proof
  show "consistent (retire w q)"
    by (rule consistent_worker [OF c, where a = "q_active q ! w" and p = Off])
       (use consistent_at [OF c w(1)] w in \<open>simp_all add: retire_def settle_ok_def holding_def\<close>)
  have v: "view (retire w q) = put_worker w VOff (view q)"
    by (simp add: retire_def view_set_pc vworker_of_def holding_def)
  show "nstep (view q) (view (retire w q))"
    unfolding v by (rule nstep_worker, rule sstep.retires) (use worker_free [OF w] w in simp_all)
qed

lemma claim_refines:
  assumes c: "consistent q" and w: "w < length (q_pcs q)" "q_pcs q ! w = Looping"
    and n: "next_pending (snapshot_all q) = Some i"
  shows "consistent (claim w i q) \<and> nstep (view q) (view (claim w i q)) \<and> i < length (q_slots q)"
proof -
  from next_pending_SomeD [OF n] have i: "i < length (q_slots q)" "s_in_use (q_slots q ! i)"
    "slot_state (q_slots q ! i) = State.Pending"
    by (auto simp: snapshot_all_def is_pending_def)
  have "consistent (claim w i q)"
    by (rule consistent_worker [OF c, where a = "(q_active q ! w)\<lparr>a_slot := Some i\<rparr>" and p = "Claimed i"])
       (use consistent_at [OF c w(1)] w in \<open>simp_all add: claim_def settle_ok_def holding_def list_update_True\<close>)
  moreover have v: "view (claim w i q) = put_worker w (VHold i)
      (put_slot i ((v_slots (view q) ! i)\<lparr>vs := State.Downloading\<rparr>) (view q))"
    using i by (simp add: claim_def view_set_pc view_upd_slot vworker_of_def holding_def vslot_of_def)
  moreover have "nstep (view q) (view (claim w i q))"
    unfolding v by (rule nstep_put_worker, rule sstep.claims) (use worker_free [OF w] w i in simp_all)
  ultimately show ?thesis using i by blast
qed

lemma drain_turn_refines:
  assumes c: "consistent q" and w: "w < length (q_pcs q)" "q_pcs q ! w = Looping"
  shows "consistent (drain_turn t w q) \<and> nstep\<^sup>*\<^sup>* (view q) (view (drain_turn t w q))"
proof (cases "q_running q")
  case False
  with retire_refines [OF c w] show ?thesis by (simp add: drain_turn_def r_into_rtranclp)
next
  case True
  let ?q1 = "resume_preempted q"
  note r = resume_preempted_refines [OF w]
  have c1: "consistent ?q1" and w1: "w < length (q_pcs ?q1)" "q_pcs ?q1 ! w = Looping" using c w by simp_all
  show ?thesis
  proof (cases "next_pending (snapshot_all ?q1)")
    case None
    with True r retire_refines [OF c1 w1] show ?thesis
      by (auto simp: drain_turn_def Let_def intro: rtranclp.rtrancl_into_rtrancl)
  next
    case (Some i)
    note cl = claim_refines [OF c1 w1 Some]
    note ar = arm_workers_refines [of "claim w i ?q1" t]
    from cl ar r have "nstep\<^sup>*\<^sup>* (view q) (view (arm_workers t (claim w i ?q1)))"
      by (meson rtranclp.rtrancl_into_rtrancl rtranclp_trans)
    with True Some cl ar show ?thesis by (simp add: drain_turn_def Let_def)
  qed
qed

lemma release_worker_refines:
  assumes c: "consistent q" and w: "w < length (q_pcs q)" "q_pcs q ! w = Looping"
  shows "consistent (release_worker w q) \<and> nstep (view q) (view (release_worker w q))"
proof -
  note at = consistent_at [OF c w(1)]
  have none: "a_slot (q_active q ! w) = None" using at w by (simp add: holding_def)
  have "consistent (release_worker w q)"
    by (rule consistent_worker [OF c, where a = active_default and p = Off])
       (use none in \<open>simp_all add: release_worker_def settle_ok_def holding_def active_default_def\<close>)
  moreover have v: "view (release_worker w q) = put_worker w VOff (view q)"
    using none by (simp add: release_worker_def view_set_pc vworker_of_def holding_def)
  moreover have "nstep (view q) (view (release_worker w q))"
    unfolding v by (rule nstep_worker, rule sstep.retires) (use worker_free [OF w] w in simp_all)
  ultimately show ?thesis by blast
qed

lemma settle_slot_view: "vslot_of (settle_slot wd digest st why s) = settle_view st (vslot_of s)"
  by (auto simp: settle_slot_def settle_view_def publish_failure_def vslot_of_def Let_def
      slot_state_def set_state_def split: option.splits)

lemma finish_fields:
  "q_active (finish wd e w i digest local st why q) = (q_active q)[w := active_default]"
  "q_armed (finish wd e w i digest local st why q) = q_armed q"
  "q_pcs (finish wd e w i digest local st why q) = q_pcs q"
  "q_workers (finish wd e w i digest local st why q) = q_workers q"
  "q_running (finish wd e w i digest local st why q) = q_running q"
  "view (finish wd e w i digest local st why q)
     = put_slot i (settle_view st (vslot_of (q_slots q ! i))) (view q)"
  by (simp_all add: finish_def Let_def view_upd_slot settle_slot_view split: option.split)

lemma finish_refines:
  assumes c: "consistent q" and w: "w < length (q_pcs q)" "holding (q_pcs q ! w) = Some i"
    and fin: "final st" and inv: "sched_inv (view q)"
  shows "consistent (set_pc w Looping (finish wd e w i digest local st why q))
    \<and> nstep (view q) (view (set_pc w Looping (finish wd e w i digest local st why q)))"
proof -
  let ?q1 = "finish wd e w i digest local st why q"
  have "q_pcs q ! w \<noteq> Off" using w by (auto simp: holding_def)
  then have armed: "q_armed q ! w" using consistent_at [OF c w(1)] by simp
  have "consistent (set_pc w Looping ?q1)"
    by (rule consistent_worker [OF c, where a = active_default and p = Looping])
       (use armed in \<open>simp_all add: finish_fields settle_ok_def holding_def active_default_def list_update_True\<close>)
  moreover have vw: "v_workers (view q) ! w = VHold i" using w by (simp add: vworker_holding)
  then have "held (view q) i" using w by (auto simp: held_iff)
  then have i: "i < length (q_slots q)" using sched_inv_heldD [OF inv] by simp
  have v: "view (set_pc w Looping ?q1) = put_worker w VFree (put_slot i (settle_view st (v_slots (view q) ! i)) (view q))"
    using i by (simp add: view_set_pc finish_fields vworker_of_def holding_def)
  have "nstep (view q) (view (set_pc w Looping ?q1))"
    unfolding v by (rule nstep_put_worker, rule sstep.settle) (use vw w i fin in simp_all)
  ultimately show ?thesis by blast
qed

text \<open>Every step of \<open>process\<close> and \<open>transfer\<close> before the settle leaves the view alone.\<close>

lemma quiet_pc:
  assumes "consistent q" "w < length (q_pcs q)" "holding p = holding (q_pcs q ! w)" "holding p \<noteq> None" "settle_ok p"
  shows "consistent (set_pc w p q) \<and> view (set_pc w p q) = view q"
proof
  have "p \<noteq> Off" "q_pcs q ! w \<noteq> Off" using assms(3,4) by (auto simp: holding_def)
  with consistent_set_pc [OF assms(1,3) _ assms(5)] show "consistent (set_pc w p q)" by blast
  show "view (set_pc w p q) = view q"
    using assms(3,4) by (intro view_set_pc_same) (auto simp: vworker_of_def)
qed

lemma set_pc_swap:
  "set_pc w p (upd_slot i g q) = upd_slot i g (set_pc w p q)"
  "set_pc w p (upd_download w' h q) = upd_download w' h (set_pc w p q)"
  by (simp_all add: set_pc_def upd_slot_def upd_download_def)

lemma work_refines:
  assumes c: "consistent q" and inv: "sched_inv (view q)" and w: "w < length (q_pcs q)"
    and "work wd se de pe gone w q = Some q'"
  shows "consistent q' \<and> nstep\<^sup>*\<^sup>* (view q) (view q')"
proof -
  have settling: "settle_ok (Settling i dg dl st f ev) \<longleftrightarrow> final st" for i dg dl st f ev
    by (simp add: settle_ok_def)
  have quiet: "consistent (set_pc w p q0) \<and> view (set_pc w p q0) = view q0"
    if "consistent q0" "q_pcs q0 = q_pcs q" "holding p = holding (q_pcs q ! w)" "holding p \<noteq> None" "settle_ok p" for p q0
    using quiet_pc [of q0 w p] that w by simp
  show ?thesis
  proof (cases "q_pcs q ! w")
    case (Claimed i)
    with assms(4) have q': "q' = begin_slot w i q" by (simp add: work_def)
    show ?thesis unfolding q' begin_slot_def
      using quiet [OF c refl] Claimed
      by (auto simp: holding_def settle_ok_def final_def split: option.splits)
  next
    case (CheckingCache i r)
    with assms(4) have q': "q' = check_cache wd w i r q" by (simp add: work_def)
    have hold: "holding (Settling i (Some (sr_digest r)) None State.Complete None None) = holding (q_pcs q ! w)"
      "holding (Opening i r) = holding (q_pcs q ! w)" by (simp_all add: CheckingCache holding_def)
    show ?thesis
      using quiet [of "upd_slot i g q" for g, OF _ _ hold(1)] quiet [OF c refl hold(2)] c
      by (simp add: q' check_cache_def Let_def holding_def settle_ok_def final_def view_upd_slot_same)
  next
    case (Opening i r)
    with assms(4) have q': "q' = open_transfer wd se w i r q" by (simp add: work_def)
    obtain res f where td: "transport_download se (w_agents wd) (w_root wd) (sr_url r) (sr_digest r) True (q_fs q) = (res, f)"
      by (metis surj_pair)
    have "view (q\<lparr>q_fs := f\<rparr>) = view q" "consistent (q\<lparr>q_fs := f\<rparr>)" using c by simp_all
    with quiet [of "q\<lparr>q_fs := f\<rparr>"] Opening td show ?thesis
      by (cases res) (auto simp: q' open_transfer_def holding_def settle_ok_def final_def)
  next
    case (Opened i r d)
    with assms(4) have q': "q' = recheck_cancel w i r d q" by (simp add: work_def)
    show ?thesis unfolding q' recheck_cancel_def
      using quiet [OF c refl] Opened by (auto simp: holding_def settle_ok_def final_def)
  next
    case (Registering i r d)
    with assms(4) have q': "q' = register_download w i r d q" by (simp add: work_def)
    let ?q1 = "q\<lparr>q_active := (q_active q)[w := (q_active q ! w)\<lparr>a_download := Some d\<rparr>]\<rparr>"
    have "consistent ?q1" using c by (simp add: consistent_def map_update_same)
    with quiet [of ?q1 "Registered i r"] Registering show ?thesis
      by (simp add: q' register_download_def holding_def settle_ok_def)
  next
    case (Registered i r)
    with assms(4) have q': "q' = carry_flags w i r q" by (simp add: work_def)
    have hold: "holding (Prepared i r) = holding (q_pcs q ! w)" by (simp add: Registered holding_def)
    show ?thesis
      unfolding q' carry_flags_def Let_def
      using quiet [OF _ _ hold, of q] quiet [OF _ _ hold, of "upd_download w g q" for g]
        quiet [OF _ _ hold, of "upd_download w g (upd_download w h q)" for g h] c
      by (simp add: holding_def settle_ok_def)
  next
    case (Prepared i r)
    with assms(4) obtain d where q': "q' = hash_resumed wd de w i r d q" by (auto simp: work_def)
    show ?thesis unfolding q' hash_resumed_def Let_def
      using quiet [OF c refl] Prepared
      by (auto simp: holding_def settle_ok_def final_def split: prod.splits bool.splits)
  next
    case (Streaming i r digest oversize)
    with assms(4) obtain d where q': "q' = stream_turn pe w i r digest oversize d q" by (auto simp: work_def)
    obtain ch d' f where rc: "read_chunk pe CHUNK_SIZE (d, q_fs q) = (ch, d', f)" by (metis prod_cases3)
    let ?q1 = "upd_slot i (store_progress (progress d')) ((upd_download w (\<lambda>_. d') q)\<lparr>q_fs := f\<rparr>)"
    have q1: "consistent ?q1" "view ?q1 = view q" "q_pcs ?q1 = q_pcs q"
      using c by (simp_all add: view_upd_slot_same)
    show ?thesis
      using quiet [of ?q1] quiet [of "upd_download w request_cancel ?q1"] q1 Streaming
      by (auto simp: q' stream_turn_def rc Let_def holding_def settle_ok_def split: Chunk.splits option.splits)
  next
    case (Ended i r digest oversize)
    with assms(4) obtain d where q': "q' = end_transfer wd de gone w i r digest oversize d q"
      by (auto simp: work_def)
    have ev: "consistent (q\<lparr>q_fs := f\<rparr>)" "view (q\<lparr>q_fs := f\<rparr>) = view q" for f using c by simp_all
    show ?thesis
      using quiet [of q] quiet [of "q\<lparr>q_fs := f\<rparr>" for f] c ev Ended
      by (auto simp: q' end_transfer_def Let_def holding_def settle_ok_def final_def
          split: option.splits Status.splits)
  next
    case (Settling i digest local st failure evicting)
    have fin: "final st" using consistent_at(3) [OF c w] by (simp add: Settling settle_ok_def)
    have hold: "holding (q_pcs q ! w) = Some i" by (simp add: Settling holding_def)
    note f = finish_refines [OF c w hold fin inv, of wd pe digest local failure]
    have fs: "set_pc w Looping (q0\<lparr>q_fs := x\<rparr>) = (set_pc w Looping q0)\<lparr>q_fs := x\<rparr>" for q0 x
      by (simp add: set_pc_def)
    from assms(4) Settling f show ?thesis
      by (auto simp: work_def Let_def fs split: option.splits)
  qed (use assms(4) in \<open>simp_all add: work_def\<close>)
qed

end
