(* ===== verification/Download_Props.thy ===== *)
theory Download_Props
  imports Download
begin

text \<open>
  What a transfer keeps: its counters against the bytes on disk, the finality of its end states,
  the exactness of a resume and of a completion. The transfer is run as a machine whose
  operations are polls and the two requests.
\<close>

section \<open>The machine and its invariant\<close>

datatype dl_op = Poll poll_env nat | RequestPause | RequestCancel

definition dl_exec :: "download \<times> fs \<Rightarrow> dl_op \<Rightarrow> download \<times> fs" where
  "dl_exec s op = (case op of
       Poll e n \<Rightarrow> snd (read_chunk e n s)
     | RequestPause \<Rightarrow> (request_pause (fst s), snd s)
     | RequestCancel \<Rightarrow> (request_cancel (fst s), snd s))"

definition running :: "Status \<Rightarrow> bool" where
  "running st \<longleftrightarrow> st = Pending \<or> st = Downloading"

definition holds_bytes :: "fs \<Rightarrow> string \<Rightarrow> u64 \<Rightarrow> bool" where
  "holds_bytes f path n = (case f path of None \<Rightarrow> False | Some c \<Rightarrow> of_nat (length c) = n)"

definition streaming_ok :: "download \<Rightarrow> fs \<Rightarrow> bool" where
  "streaming_ok d f = (let x = d_xfer d; st = status_of d in
     (x_file x \<longleftrightarrow> running st \<or> st = Paused)
     \<and> (x_file x \<longrightarrow> holds_bytes f (x_path x) (x_resume_offset x + x_bytes_written x))
     \<and> (st = Pending \<longrightarrow> \<not> x_started x \<and> x_bytes_written x = 0)
     \<and> (st = Downloading \<longrightarrow> x_started x \<and> x_reader x)
     \<and> d_progress_bytes d = x_resume_offset x + x_bytes_written x
     \<and> (failure_from_repr (d_failure d) \<noteq> None \<longleftrightarrow> st = Failed))"

definition dl_inv :: "download \<times> fs \<Rightarrow> bool" where
  "dl_inv s = (case s of (d, f) \<Rightarrow>
     if x_is_cached (d_xfer d) then status_of d = Complete \<and> failure_from_repr (d_failure d) = None
     else streaming_ok d f)"

lemma status_of_simps [simp]:
  "status_of (set_status st d) = st"
  "status_of (d\<lparr>d_xfer := x\<rparr>) = status_of d"
  "status_of (d\<lparr>d_progress_bytes := v\<rparr>) = status_of d"
  "status_of (d\<lparr>d_progress_total := v\<rparr>) = status_of d"
  "status_of (d\<lparr>d_failure := w\<rparr>) = status_of d"
  "status_of (d\<lparr>d_no_retry := b\<rparr>) = status_of d"
  "status_of (d\<lparr>d_pause := b\<rparr>) = status_of d"
  "status_of (d\<lparr>d_cancel := b\<rparr>) = status_of d"
  by (simp_all add: status_of_def set_status_def)

lemma set_status_fields [simp]:
  "d_xfer (set_status st d) = d_xfer d" "d_progress_bytes (set_status st d) = d_progress_bytes d"
  "d_progress_total (set_status st d) = d_progress_total d"
  "d_failure (set_status st d) = d_failure d" "d_cancel (set_status st d) = d_cancel d"
  "d_pause (set_status st d) = d_pause d" "d_agent (set_status st d) = d_agent d"
  by (simp_all add: set_status_def)

lemma fail_fields [simp]:
  "status_of (fail why b d) = Failed" "d_xfer (fail why b d) = d_xfer d"
  "d_progress_bytes (fail why b d) = d_progress_bytes d"
  "failure_from_repr (d_failure (fail why b d)) = Some why"
  using failure_codec.decode_encode [of why] by (simp_all add: fail_def)

lemma close_file_fields [simp]:
  "d_xfer (close_file d) = (d_xfer d)\<lparr>x_file := False\<rparr>" "status_of (close_file d) = status_of d"
  "d_progress_bytes (close_file d) = d_progress_bytes d" "d_failure (close_file d) = d_failure d"
  by (simp_all add: close_file_def)

lemma save_meta_file [simp]: "save_meta w x f (x_path x) = f (x_path x)"
  by (simp add: save_meta_def meta_write_def write_file_def split: option.splits landing.splits)

lemma meta_write_file [simp]: "meta_write w path m f path = f path"
  by (simp add: meta_write_def write_file_def split: landing.splits)

lemma fst_discard: "fst (discard e (d, f)) = close_file d"
  by (simp add: discard_def)

lemma holds_bytes_cong: "f path = g path \<Longrightarrow> holds_bytes f path n = holds_bytes g path n"
  by (simp add: holds_bytes_def)

lemma holds_bytes_save_meta [simp]:
  "holds_bytes (save_meta w x f) (x_path x) n = holds_bytes f (x_path x) n"
  by (rule holds_bytes_cong) simp

lemma holds_bytes_append:
  "holds_bytes f path n \<Longrightarrow> holds_bytes (append_file Landed path new f) path (n + of_nat (length new))"
  by (auto simp: holds_bytes_def append_file_def split: option.splits)

text \<open>The three ways one read of the body ends.\<close>

definition received :: "bytes \<Rightarrow> download \<Rightarrow> download" where
  "received new d = (let x = (d_xfer d)\<lparr>x_bytes_written := x_bytes_written (d_xfer d) + of_nat (length new)\<rparr>
     in d\<lparr>d_xfer := x, d_progress_bytes := x_resume_offset x + x_bytes_written x\<rparr>)"

lemma received_fields [simp]:
  "d_xfer (received new d) = (d_xfer d)\<lparr>x_bytes_written := x_bytes_written (d_xfer d) + of_nat (length new)\<rparr>"
  "status_of (received new d) = status_of d" "d_failure (received new d) = d_failure d"
  "d_progress_bytes (received new d)
     = x_resume_offset (d_xfer d) + (x_bytes_written (d_xfer d) + of_nat (length new))"
  "d_cancel (received new d) = d_cancel d" "d_pause (received new d) = d_pause d"
  by (simp_all add: received_def Let_def)

lemma read_body_cases:
  assumes "read_body e n (d, f) = (c, s')" "x_reader (d_xfer d)" "x_file (d_xfer d)"
  obtains (ended) "c = Idle" "s' = finalize_complete e (d, f)"
  | (got) new where "new \<noteq> []" "c = Read new" "e_read e \<noteq> None"
      "s' = (received new d, append_file Landed (x_path (d_xfer d)) new f)"
  | (broken) f' where "c = ChunkFailed" "s' = (fail Transfer False (close_file d), f')"
proof (cases "e_read e")
  case None
  with assms have "c = ChunkFailed" "s' = (fail Transfer False (close_file d), f)"
    by (simp_all add: read_body_def)
  then show ?thesis by (rule broken)
next
  case (Some z)
  show ?thesis
  proof (cases "take n z")
    case Nil
    with Some assms have "c = Idle" "s' = finalize_complete e (d, f)" by (auto simp: read_body_def)
    then show ?thesis by (rule ended)
  next
    case (Cons b bs)
    show ?thesis
    proof (cases "e_write e = Landed")
      case True
      with Some Cons assms have "c = Read (b # bs)"
        "s' = (received (b # bs) d, append_file Landed (x_path (d_xfer d)) (b # bs) f)"
        by (auto simp: read_body_def received_def Let_def)
      with Some show ?thesis by (intro got) simp_all
    next
      case False
      with Some Cons assms have "c = ChunkFailed"
        "s' = (fail Transfer False (close_file d), append_file (e_write e) (x_path (d_xfer d)) (b # bs) f)"
        by (auto simp: read_body_def Let_def)
      then show ?thesis by (rule broken)
    qed
  qed
qed

lemma read_body_inv:
  assumes "streaming_ok d f" "\<not> x_is_cached (d_xfer d)" "status_of d = Downloading"
  shows "dl_inv (snd (read_body e n (d, f)))"
proof -
  obtain c s' where r: "read_body e n (d, f) = (c, s')" by (metis surj_pair)
  have "x_reader (d_xfer d)" "x_file (d_xfer d)" using assms by (auto simp: streaming_ok_def Let_def running_def)
  with r show ?thesis
  proof (cases rule: read_body_cases)
    case ended
    with assms show ?thesis unfolding r
      by (auto simp: finalize_complete_def dl_inv_def streaming_ok_def Let_def running_def)
  next
    case (got new)
    with assms holds_bytes_append [of f "x_path (d_xfer d)" "x_resume_offset (d_xfer d) + x_bytes_written (d_xfer d)" new]
    show ?thesis unfolding r by (simp add: dl_inv_def streaming_ok_def Let_def running_def add.assoc)
  next
    case (broken f')
    with assms show ?thesis unfolding r by (simp add: dl_inv_def streaming_ok_def Let_def running_def)
  qed
qed

definition with_etag :: "string \<Rightarrow> download \<Rightarrow> download" where
  "with_etag t d = d\<lparr>d_xfer := (d_xfer d)\<lparr>x_etag := t\<rparr>\<rparr>"

lemma with_etag_same: "with_etag (x_etag (d_xfer d)) d = d"
  by (simp add: with_etag_def)

lemma with_etag_fields [simp]:
  "status_of (with_etag t d) = status_of d" "d_progress_bytes (with_etag t d) = d_progress_bytes d"
  "d_failure (with_etag t d) = d_failure d" "d_agent (with_etag t d) = d_agent d"
  "d_xfer (with_etag t d) = (d_xfer d)\<lparr>x_etag := t\<rparr>"
  by (simp_all add: with_etag_def)

lemma start_transfer_cases:
  assumes "start_transfer e (d, f) = (started, d', f')"
  obtains (failed) t why b where "\<not> started" "d' = fail why b (close_file (with_etag t d))"
  | (opened) t r where "started" "f' = f" "e_net e (d_agent d) (transfer_request (d_xfer d)) = Some r"
      "resume_response_is_valid (x_resume_offset (d_xfer d)) (resp_status r)"
      "t = (if or_default (header r ''etag'') \<noteq> [] then or_default (header r ''etag'') else x_etag (d_xfer d))"
      "d' = set_status Downloading ((with_etag t d)\<lparr>d_xfer := (d_xfer d)\<lparr>x_etag := t, x_reader := True, x_started := True\<rparr>\<rparr>)"
proof (cases "e_net e (d_agent d) (transfer_request (d_xfer d))")
  case None
  with assms have "\<not> started" "d' = fail Transfer False (close_file (with_etag (x_etag (d_xfer d)) d))"
    by (auto simp: start_transfer_def with_etag_same)
  then show ?thesis by (rule failed)
next
  case (Some r)
  let ?t = "if or_default (header r ''etag'') \<noteq> [] then or_default (header r ''etag'') else x_etag (d_xfer d)"
  have d1: "(if or_default (header r ''etag'') \<noteq> []
      then d\<lparr>d_xfer := (d_xfer d)\<lparr>x_etag := or_default (header r ''etag'')\<rparr>\<rparr> else d) = with_etag ?t d"
    by (simp add: with_etag_def)
  show ?thesis
  proof (cases "400 \<le> resp_status r")
    case True
    with Some assms have "\<not> started"
      "d' = fail Server (400 \<le> resp_status r \<and> resp_status r < 500) (close_file (with_etag ?t d))"
      by (simp_all add: start_transfer_def Let_def d1 discard_def)
    then show ?thesis by (rule failed)
  next
    case lt: False
    show ?thesis
    proof (cases "resume_response_is_valid (x_resume_offset (d_xfer d)) (resp_status r)")
      case False
      with Some assms lt have "\<not> started" "d' = fail ResumeRestart False (close_file (with_etag ?t d))"
        by (simp_all add: start_transfer_def Let_def d1 discard_def)
      then show ?thesis by (rule failed)
    next
      case valid: True
      show ?thesis
      proof (cases "is_content_type_mismatch (or_default (header r ''content-type'')) (x_url (d_xfer d))")
        case True
        with Some assms lt valid have "\<not> started" "d' = fail HtmlPage True (close_file (with_etag ?t d))"
          by (simp_all add: start_transfer_def Let_def d1 discard_def)
        then show ?thesis by (rule failed)
      next
        case False
        with Some assms lt valid have "started" "f' = f"
          "d' = set_status Downloading ((with_etag ?t d)\<lparr>d_xfer := (d_xfer d)\<lparr>x_etag := ?t, x_reader := True, x_started := True\<rparr>\<rparr>)"
          by (simp_all add: start_transfer_def Let_def d1)
        with Some valid show ?thesis by (intro opened [of r ?t]) simp_all
      qed
    qed
  qed
qed

lemma start_transfer_inv:
  assumes "streaming_ok d f" "\<not> x_is_cached (d_xfer d)" "running (status_of d)"
    and "start_transfer e (d, f) = (started, d', f')"
  shows "\<not> x_is_cached (d_xfer d') \<and> streaming_ok d' f'
     \<and> (if started then status_of d' = Downloading else status_of d' = Failed)"
  using assms(4)
proof (cases rule: start_transfer_cases)
  case (failed t why b)
  with assms show ?thesis by (simp add: streaming_ok_def Let_def running_def)
next
  case (opened t r)
  then show ?thesis using assms(1-3) unfolding opened(1,2) opened(6)
    by (auto simp: streaming_ok_def Let_def running_def)
qed

lemma read_chunk_inv: "dl_inv s \<Longrightarrow> dl_inv (snd (read_chunk e n s))"
proof -
  assume inv: "dl_inv s"
  obtain d f where s: "s = (d, f)" by (cases s)
  show ?thesis
  proof (cases "n = 0 \<or> x_is_cached (d_xfer d) \<or> \<not> running (status_of d)")
    case True
    with inv s show ?thesis
      by (cases "status_of d")
         (auto simp: read_chunk_def read_cached_def dl_inv_def running_def Let_def split: option.splits)
  next
    case False
    then have ok: "streaming_ok d f" and nc: "\<not> x_is_cached (d_xfer d)" and run: "running (status_of d)"
      using inv s by (auto simp: dl_inv_def)
    from run have notend: "status_of d \<noteq> Failed" "status_of d \<noteq> Cancelled" "status_of d \<noteq> Complete"
        "status_of d \<noteq> Paused"
      by (auto simp: running_def)
    consider (cancel) "d_cancel d" | (pause) "\<not> d_cancel d" "d_pause d"
      | (go) "\<not> d_cancel d" "\<not> d_pause d" by blast
    then show ?thesis
    proof cases
      case cancel
      with False s ok nc notend show ?thesis
        by (simp add: read_chunk_def discard_def dl_inv_def streaming_ok_def Let_def running_def)
    next
      case pause
      with False s ok nc notend run show ?thesis
        by (auto simp: read_chunk_def dl_inv_def streaming_ok_def Let_def running_def)
    next
      case go
      show ?thesis
      proof (cases "x_started (d_xfer d)")
        case True
        with ok run have "status_of d = Downloading" by (auto simp: streaming_ok_def running_def Let_def)
        from read_body_inv [OF ok nc this] True go False s notend show ?thesis
          by (simp add: read_chunk_def)
      next
        case unstarted: False
        obtain started d' f' where st: "start_transfer e (d, f) = (started, d', f')"
          by (metis prod_cases3)
        from start_transfer_inv [OF ok nc run st] read_body_inv [of d' f'] st unstarted go False s notend
        show ?thesis by (auto simp: read_chunk_def dl_inv_def split: if_splits)
      qed
    qed
  qed
qed

lemma dl_exec_inv: "dl_inv s \<Longrightarrow> dl_inv (dl_exec s op)"
proof (cases op)
  case (Poll e n)
  assume "dl_inv s"
  from read_chunk_inv [OF this, of e n] Poll show ?thesis by (simp add: dl_exec_def)
next
  case RequestPause
  assume "dl_inv s"
  with RequestPause show ?thesis
    by (cases s) (auto simp: dl_exec_def dl_inv_def streaming_ok_def request_pause_def Let_def split: if_splits)
next
  case RequestCancel
  assume "dl_inv s"
  with RequestCancel show ?thesis
    by (cases s) (auto simp: dl_exec_def dl_inv_def streaming_ok_def request_cancel_def Let_def split: if_splits)
qed

interpretation transfer: operation_machine dl_exec "\<lambda>_ _. True" dl_inv
  by unfold_locales (rule dl_exec_inv)

section \<open>Driving a transfer\<close>

text \<open>A run of polls and requests, with every byte the polls handed to the caller.\<close>

fun chunk_bytes :: "Chunk \<Rightarrow> bytes" where
  "chunk_bytes (Read new) = new"
| "chunk_bytes Idle = []"
| "chunk_bytes ChunkFailed = []"

fun drive :: "dl_op list \<Rightarrow> download \<times> fs \<Rightarrow> bytes \<times> download \<times> fs" where
  "drive [] s = ([], s)"
| "drive (Poll e n # ops) s =
     (case read_chunk e n s of (c, s') \<Rightarrow>
        (case drive ops s' of (got, s'') \<Rightarrow> (chunk_bytes c @ got, s'')))"
| "drive (RequestPause # ops) s = drive ops (dl_exec s RequestPause)"
| "drive (RequestCancel # ops) s = drive ops (dl_exec s RequestCancel)"

text \<open>What stays the same while the destination is open.\<close>

definition same_transfer :: "download \<Rightarrow> download \<Rightarrow> bool" where
  "same_transfer d d' \<longleftrightarrow> x_path (d_xfer d') = x_path (d_xfer d) \<and> x_url (d_xfer d') = x_url (d_xfer d)
     \<and> x_resume_offset (d_xfer d') = x_resume_offset (d_xfer d)
     \<and> x_file_size (d_xfer d') = x_file_size (d_xfer d)
     \<and> x_is_cached (d_xfer d') = x_is_cached (d_xfer d)"

lemma same_transfer_refl [simp]: "same_transfer d d"
  by (simp add: same_transfer_def)

lemma same_transfer_trans: "same_transfer a b \<Longrightarrow> same_transfer b c \<Longrightarrow> same_transfer a c"
  by (simp add: same_transfer_def)

lemma start_transfer_same:
  "start_transfer e (d, f) = (started, d', f') \<Longrightarrow>
   same_transfer d d' \<and> x_bytes_written (d_xfer d') = x_bytes_written (d_xfer d) \<and> d_cancel d' = d_cancel d
     \<and> d_pause d' = d_pause d
     \<and> (started \<longrightarrow> f' = f \<and> x_file (d_xfer d') = x_file (d_xfer d) \<and> x_reader (d_xfer d'))
     \<and> (\<not> started \<longrightarrow> \<not> x_file (d_xfer d'))"
  by (erule start_transfer_cases)
     (simp_all add: same_transfer_def fail_def with_etag_def close_file_def)

lemma append_file_path:
  "f path = Some c \<Longrightarrow> append_file Landed path new f path = Some (c @ new)"
  by (simp add: append_file_def)

lemma read_body_open:
  assumes "read_body e n (d, f) = (c, d', f')" "x_reader (d_xfer d)" "x_file (d_xfer d)"
    "x_file (d_xfer d')" "f (x_path (d_xfer d)) = Some old"
  shows "same_transfer d d' \<and> f' (x_path (d_xfer d)) = Some (old @ chunk_bytes c)
     \<and> x_bytes_written (d_xfer d') = x_bytes_written (d_xfer d) + of_nat (length (chunk_bytes c))"
  using assms(1-3)
proof (cases rule: read_body_cases)
  case ended
  with assms show ?thesis by (simp add: finalize_complete_def Let_def)
next
  case (got new)
  with assms show ?thesis by (simp add: same_transfer_def append_file_path)
next
  case (broken f'')
  with assms show ?thesis by simp
qed

lemma streaming_open:
  "streaming_ok d f \<Longrightarrow> x_file (d_xfer d) \<Longrightarrow> \<exists>c. f (x_path (d_xfer d)) = Some c
     \<and> of_nat (length c) = x_resume_offset (d_xfer d) + x_bytes_written (d_xfer d)"
  by (auto simp: streaming_ok_def holds_bytes_def Let_def split: option.splits)

text \<open>One poll that leaves the destination open appends exactly what it read.\<close>

lemma read_chunk_open:
  assumes ok: "streaming_ok d f" and nc: "\<not> x_is_cached (d_xfer d)"
    and r: "read_chunk e n (d, f) = (c, d', f')" and fo: "x_file (d_xfer d')"
  shows "x_file (d_xfer d) \<and> same_transfer d d'
     \<and> f' (x_path (d_xfer d)) = map_option (\<lambda>old. old @ chunk_bytes c) (f (x_path (d_xfer d)))
     \<and> x_bytes_written (d_xfer d') = x_bytes_written (d_xfer d) + of_nat (length (chunk_bytes c))"
proof (cases "n = 0 \<or> \<not> running (status_of d)")
  case True
  with r nc fo show ?thesis
    by (cases "status_of d") (auto simp: read_chunk_def running_def option.map_ident split: if_splits)
next
  case False
  then have open0: "x_file (d_xfer d)" and run: "running (status_of d)" using ok by (auto simp: streaming_ok_def Let_def)
  from streaming_open [OF ok open0] obtain old where old: "f (x_path (d_xfer d)) = Some old" by blast
  from run have notend: "status_of d \<noteq> Failed" "status_of d \<noteq> Cancelled" "status_of d \<noteq> Complete"
      "status_of d \<noteq> Paused"
    by (auto simp: running_def)
  consider (cancel) "d_cancel d" | (pause) "\<not> d_cancel d" "d_pause d"
    | (go) "\<not> d_cancel d" "\<not> d_pause d" by blast
  then show ?thesis
  proof cases
    case cancel
    with False r nc notend fo show ?thesis by (auto simp: read_chunk_def discard_def)
  next
    case pause
    with False r nc notend open0 old show ?thesis by (auto simp: read_chunk_def same_transfer_def)
  next
    case go
    show ?thesis
    proof (cases "x_started (d_xfer d)")
      case True
      with ok run have "x_reader (d_xfer d)" by (auto simp: streaming_ok_def running_def Let_def)
      moreover have "read_body e n (d, f) = (c, d', f')"
        using True go False r nc notend by (simp add: read_chunk_def)
      ultimately show ?thesis using read_body_open [of e n d f c d' f' old] open0 fo old by simp
    next
      case unstarted: False
      obtain started d1 f1 where st: "start_transfer e (d, f) = (started, d1, f1)"
        by (metis prod_cases3)
      note same = start_transfer_same [OF st]
      have rc: "(if started then read_body e n (d1, f1) else (ChunkFailed, d1, f1)) = (c, d', f')"
        using unstarted go False r nc notend st by (simp add: read_chunk_def)
      show ?thesis
      proof (cases started)
        case True
        with rc same have rb: "read_body e n (d1, f) = (c, d', f')" by simp
        have "f (x_path (d_xfer d1)) = Some old" using same old by (simp add: same_transfer_def)
        from read_body_open [OF rb _ _ fo this] True same open0 old
        show ?thesis by (auto simp: same_transfer_def)
      next
        case False
        with rc same fo show ?thesis by auto
      qed
    qed
  qed
qed

lemma read_chunk_closed:
  assumes "streaming_ok d f" "\<not> x_is_cached (d_xfer d)" "\<not> x_file (d_xfer d)"
    and "read_chunk e n (d, f) = (c, d', f')"
  shows "d' = d \<and> f' = f \<and> chunk_bytes c = []"
  using assms by (cases "status_of d") (auto simp: read_chunk_def streaming_ok_def running_def Let_def split: if_splits)

lemma dl_inv_streaming: "dl_inv (d, f) \<Longrightarrow> \<not> x_is_cached (d_xfer d) \<Longrightarrow> streaming_ok d f"
  by (simp add: dl_inv_def)

lemma read_body_cached_flag:
  "read_body e n (d, f) = (c, d', f') \<Longrightarrow> x_is_cached (d_xfer d') = x_is_cached (d_xfer d)"
  by (auto simp: read_body_def finalize_complete_def fail_def Let_def
      split: option.splits list.splits if_splits)

lemma read_chunk_cached_flag:
  assumes "read_chunk e n (d, f) = (c, d', f')"
  shows "x_is_cached (d_xfer d') = x_is_cached (d_xfer d)"
proof -
  obtain started d1 f1 where st: "start_transfer e (d, f) = (started, d1, f1)"
    by (metis prod_cases3)
  note same = start_transfer_same [OF st]
  show ?thesis
  proof (cases "x_is_cached (d_xfer d)")
    case True
    with assms show ?thesis
      by (auto simp: read_chunk_def read_cached_def Let_def split: if_splits option.splits)
  next
    case False
    with assms same read_body_cached_flag [of e n d f c d' f'] read_body_cached_flag [of e n d1 f1 c d' f']
    show ?thesis
      by (auto simp: read_chunk_def discard_def st same_transfer_def split: if_splits)
  qed
qed

lemma drive_inv: "dl_inv s \<Longrightarrow> drive ops s = (got, s') \<Longrightarrow> dl_inv s'"
proof (induction ops s arbitrary: got rule: drive.induct)
  case (2 e n ops s)
  then show ?case using read_chunk_inv [of s e n] by (auto split: prod.splits)
qed (auto intro: dl_exec_inv)

lemma drive_open:
  assumes "dl_inv (d, f)" "\<not> x_is_cached (d_xfer d)" "drive ops (d, f) = (got, d', f')" "x_file (d_xfer d')"
  shows "x_file (d_xfer d) \<and> same_transfer d d'
     \<and> f' (x_path (d_xfer d)) = map_option (\<lambda>old. old @ got) (f (x_path (d_xfer d)))
     \<and> x_bytes_written (d_xfer d') = x_bytes_written (d_xfer d) + of_nat (length got)"
  using assms
proof (induction ops "(d, f)" arbitrary: d f got rule: drive.induct)
  case 1
  then show ?case by (simp add: option.map_ident)
next
  case (2 e n ops)
  obtain c d1 f1 where rc: "read_chunk e n (d, f) = (c, d1, f1)" by (metis prod_cases3)
  obtain got1 where dr: "drive ops (d1, f1) = (got1, d', f')" and got: "got = chunk_bytes c @ got1"
    using "2.prems"(3) rc by (auto split: prod.splits)
  have inv1: "dl_inv (d1, f1)" using read_chunk_inv [OF "2.prems"(1), of e n] rc by simp
  have ok: "streaming_ok d f" using "2.prems" by (simp add: dl_inv_streaming)
  show ?case
  proof (cases "x_file (d_xfer d1)")
    case True
    note step = read_chunk_open [OF ok "2.prems"(2) rc True]
    then have nc1: "\<not> x_is_cached (d_xfer d1)" using "2.prems"(2) by (simp add: same_transfer_def)
    from "2.hyps" [OF rc [symmetric] inv1 nc1 dr "2.prems"(4)] step
    show ?thesis unfolding got
      by (auto simp: same_transfer_def option.map_comp comp_def algebra_simps)
  next
    case False
    have nc1: "\<not> x_is_cached (d_xfer d1)"
      using read_chunk_cached_flag [OF rc] "2.prems"(2) by simp
    from "2.hyps" [OF rc [symmetric] inv1 nc1 dr "2.prems"(4)] False show ?thesis by simp
  qed
next
  case (3 ops)
  obtain d1 where x: "dl_exec (d, f) RequestPause = (d1, f)" "d_xfer d1 = d_xfer d"
    by (simp add: dl_exec_def request_pause_def)
  have "dl_inv (d1, f)" using dl_exec_inv [OF "3.prems"(1), of RequestPause] x by simp
  from "3.hyps" [OF x(1) this] "3.prems" x show ?case by (auto simp: same_transfer_def)
next
  case (4 ops)
  obtain d1 where x: "dl_exec (d, f) RequestCancel = (d1, f)" "d_xfer d1 = d_xfer d"
    by (simp add: dl_exec_def request_cancel_def)
  have "dl_inv (d1, f)" using dl_exec_inv [OF "4.prems"(1), of RequestCancel] x by simp
  from "4.hyps" [OF x(1) this] "4.prems" x show ?case by (auto simp: same_transfer_def)
qed

section \<open>What a start begins with\<close>

lemma start_download_cases:
  assumes "start_download e a path url allow f = (Inr d, f0)"
  obtains (cached) content where "f0 = f" "f path = Some content" "is_complete_at f path"
      "d = from_setup (streaming_for a url) path url (Cached content (of_nat (length content)))"
  | (resumed) r where "f0 = f" "plan_resume path f = Some r" "allow"
      "d = from_setup (streaming_for a url) path url (Resume r)"
  | (fresh) fsz where "f0 path = Some []" "d = from_setup (streaming_for a url) path url (Fresh fsz)"
proof -
  obtain st where p: "prepare e a path url allow f = (Inr st, f0)"
    and d: "d = from_setup (streaming_for a url) path url st"
    using assms by (auto simp: start_download_def split: if_splits prod.splits sum.splits)
  show ?thesis
  proof (cases "open_cached e path f")
    case (Some c)
    with p d show ?thesis
      by (auto simp: prepare_def open_cached_def split: if_splits intro: cached)
  next
    case None
    note no_cached = None
    show ?thesis
    proof (cases "allow \<and> open_resume e path f \<noteq> None")
      case True
      with no_cached p d show ?thesis
        by (auto simp: prepare_def open_resume_def split: if_splits option.splits intro: resumed)
    next
      case False
      with no_cached p d show ?thesis
        by (auto simp: prepare_def start_fresh_def Let_def split: if_splits option.splits intro: fresh)
    qed
  qed
qed

lemma plan_resume_SomeD:
  "plan_resume path f = Some r \<Longrightarrow> \<exists>m content. meta_read f path = Some m \<and> f path = Some content
     \<and> int (length content) = uint (bytes_written m) \<and> 0 < bytes_written m \<and> bytes_written m < file_size m
     \<and> r = \<lparr>r_offset = bytes_written m, r_file_size = file_size m, r_etag = unpack_etag (meta_etag m)\<rparr>"
  by (auto simp: plan_resume_def word_neq_0_conv split: option.splits if_splits)

lemma of_nat_length_word: "int (length xs) = uint w \<Longrightarrow> of_nat (length xs) = w" for w :: "'a::len word"
  by (metis of_int_of_nat_eq word_of_int_uint)

lemma from_setup_fields [simp]:
  "x_path (d_xfer (from_setup ag path url st)) = path" "x_url (d_xfer (from_setup ag path url st)) = url"
  "d_agent (from_setup ag path url st) = ag" "d_cancel (from_setup ag path url st) = False"
  "d_pause (from_setup ag path url st) = False"
  "x_is_cached (d_xfer (from_setup ag path url st)) = (case st of Cached _ _ \<Rightarrow> True | _ \<Rightarrow> False)"
  by (simp_all add: from_setup_def new_xfer_def Let_def split: Setup.split)

lemma start_download_inv:
  assumes "start_download e a path url allow f = (Inr d, f0)"
  shows "dl_inv (d, f0)"
  using assms
proof (cases rule: start_download_cases)
  case (cached content)
  then show ?thesis
    by (simp add: dl_inv_def from_setup_def new_xfer_def Let_def status_of_def failure_from_repr_def)
next
  case (resumed r)
  from plan_resume_SomeD [OF resumed(2)] obtain content where
    "f path = Some content" "of_nat (length content) = r_offset r"
    using of_nat_length_word by fastforce
  with resumed show ?thesis
    by (simp add: dl_inv_def streaming_ok_def holds_bytes_def from_setup_def new_xfer_def Let_def
        status_of_def running_def failure_from_repr_def)
next
  case (fresh fsz)
  then show ?thesis
    by (simp add: dl_inv_def streaming_ok_def holds_bytes_def from_setup_def new_xfer_def Let_def
        status_of_def running_def failure_from_repr_def)
qed

lemma start_uncached:
  assumes "start_download e a path url allow f = (Inr d, f0)" "\<not> x_is_cached (d_xfer d)"
  shows "x_file (d_xfer d) \<and> x_path (d_xfer d) = path \<and> x_url (d_xfer d) = url
    \<and> d_agent d = streaming_for a url \<and> x_bytes_written (d_xfer d) = 0
    \<and> of_nat (length (content_at f0 path)) = x_resume_offset (d_xfer d) \<and> f0 path \<noteq> None"
  using assms(1)
proof (cases rule: start_download_cases)
  case (cached content)
  with assms(2) show ?thesis by simp
next
  case (resumed r)
  from plan_resume_SomeD [OF resumed(2)] obtain content where
    "f path = Some content" "of_nat (length content) = r_offset r"
    using of_nat_length_word by fastforce
  with resumed show ?thesis
    by (simp add: from_setup_def new_xfer_def Let_def content_at_def)
next
  case (fresh fsz)
  then show ?thesis by (simp add: from_setup_def new_xfer_def Let_def content_at_def)
qed

section \<open>Polls in the running states\<close>

lemma read_chunk_stopped:
  "\<not> x_is_cached (d_xfer d) \<Longrightarrow> \<not> running (status_of d) \<Longrightarrow>
   \<exists>c. read_chunk e n (d, f) = (c, d, f) \<and> chunk_bytes c = []"
  by (cases "status_of d") (auto simp: read_chunk_def running_def)

lemma drive_stopped:
  "\<not> x_is_cached (d_xfer d) \<Longrightarrow> \<not> running (status_of d) \<Longrightarrow> fst (drive ops (d, f)) = []"
proof (induction ops "(d, f)" arbitrary: d f rule: drive.induct)
  case (2 e n ops)
  from read_chunk_stopped [OF "2.prems", of e n f] obtain c where
    rc: "read_chunk e n (d, f) = (c, d, f)" "chunk_bytes c = []" by blast
  from "2.hyps" [OF rc(1) [symmetric] "2.prems"] rc show ?case by (auto split: prod.splits)
next
  case (3 ops)
  have "dl_exec (d, f) RequestPause = (request_pause d, f)" by (simp add: dl_exec_def)
  from "3.hyps" [OF this] "3.prems" this show ?case by (simp add: request_pause_def)
next
  case (4 ops)
  have "dl_exec (d, f) RequestCancel = (request_cancel d, f)" by (simp add: dl_exec_def)
  from "4.hyps" [OF this] "4.prems" this show ?case by (simp add: request_cancel_def)
qed simp

lemma read_chunk_go:
  assumes "running (status_of d)" "\<not> x_is_cached (d_xfer d)" "0 < n" "\<not> d_cancel d" "\<not> d_pause d"
  shows "read_chunk e n (d, f) = (if x_started (d_xfer d) then read_body e n (d, f)
     else (case start_transfer e (d, f) of
        (started, s') \<Rightarrow> if started then read_body e n s' else (ChunkFailed, s')))"
  using assms by (auto simp: read_chunk_def running_def)

text \<open>The first bytes of a transfer come after a response its offset admits.\<close>

definition admitted_response :: "poll_env \<Rightarrow> download \<Rightarrow> bool" where
  "admitted_response e d = (case e_net e (d_agent d) (transfer_request (d_xfer d)) of
       None \<Rightarrow> False | Some r \<Rightarrow> resume_response_is_valid (x_resume_offset (d_xfer d)) (resp_status r))"

lemma admitted_response_requests [simp]:
  "admitted_response e (request_pause d) = admitted_response e d"
  "admitted_response e (request_cancel d) = admitted_response e d"
  by (simp_all add: admitted_response_def request_pause_def request_cancel_def cong: option.case_cong)

lemma request_fields [simp]:
  "d_xfer (request_pause d) = d_xfer d" "d_xfer (request_cancel d) = d_xfer d"
  "status_of (request_pause d) = status_of d" "status_of (request_cancel d) = status_of d"
  "d_cancel (request_pause d) = d_cancel d" "d_pause (request_pause d) = True"
  by (simp_all add: request_pause_def request_cancel_def)

lemma read_chunk_unstarted:
  assumes "streaming_ok d f" "\<not> x_is_cached (d_xfer d)" "\<not> x_started (d_xfer d)"
    "read_chunk e n (d, f) = (c, d', f')"
  shows "admitted_response e d \<or> chunk_bytes c = [] \<and> (d' = d \<and> f' = f \<or> \<not> running (status_of d'))"
proof (cases "n = 0 \<or> \<not> running (status_of d) \<or> d_cancel d \<or> d_pause d")
  case True
  with assms show ?thesis
    by (cases "status_of d") (auto simp: read_chunk_def running_def Let_def split: prod.splits if_splits)
next
  case False
  obtain started d1 f1 where st: "start_transfer e (d, f) = (started, d1, f1)"
    by (metis prod_cases3)
  have rc: "(if started then read_body e n (d1, f1) else (ChunkFailed, d1, f1)) = (c, d', f')"
    using read_chunk_go [of d n e f] False assms st by simp
  from st show ?thesis
  proof (cases rule: start_transfer_cases)
    case (failed t why b)
    with rc show ?thesis by (auto simp: running_def)
  next
    case (opened t r)
    then show ?thesis by (simp add: admitted_response_def)
  qed
qed

lemma drive_admitted:
  assumes "dl_inv (d, f)" "\<not> x_is_cached (d_xfer d)" "\<not> x_started (d_xfer d)"
    "drive ops (d, f) = (got, s')" "got \<noteq> []"
  shows "\<exists>e n. Poll e n \<in> set ops \<and> admitted_response e d"
  using assms
proof (induction ops "(d, f)" arbitrary: d f got rule: drive.induct)
  case (2 e n ops)
  obtain c d1 f1 where rc: "read_chunk e n (d, f) = (c, d1, f1)" by (metis prod_cases3)
  obtain got1 where dr: "drive ops (d1, f1) = (got1, s')" and got: "got = chunk_bytes c @ got1"
    using "2.prems"(4) rc by (auto split: prod.splits)
  have ok: "streaming_ok d f" using "2.prems" by (simp add: dl_inv_streaming)
  have nc1: "\<not> x_is_cached (d_xfer d1)" using read_chunk_cached_flag [OF rc] "2.prems"(2) by simp
  from read_chunk_unstarted [OF ok "2.prems"(2,3) rc] consider "admitted_response e d"
    | "chunk_bytes c = []" "d1 = d" "f1 = f" | "chunk_bytes c = []" "\<not> running (status_of d1)" by blast
  then show ?case
  proof cases
    case 1
    then show ?thesis by auto
  next
    case 2
    from "2.hyps" [OF rc [symmetric] _ nc1 _ dr] "2.prems" 2 got show ?thesis by auto
  next
    case 3
    with drive_stopped [OF nc1 3(2), of ops f1] dr got "2.prems" show ?thesis by simp
  qed
next
  case (3 ops)
  have x: "dl_exec (d, f) RequestPause = (request_pause d, f)" by (simp add: dl_exec_def)
  have "dl_inv (request_pause d, f)" using dl_exec_inv [OF "3.prems"(1), of RequestPause] x by simp
  from "3.hyps" [OF x this] "3.prems" x show ?case by auto
next
  case (4 ops)
  have x: "dl_exec (d, f) RequestCancel = (request_cancel d, f)" by (simp add: dl_exec_def)
  have "dl_inv (request_cancel d, f)" using dl_exec_inv [OF "4.prems"(1), of RequestCancel] x by simp
  from "4.hyps" [OF x this] "4.prems" x show ?case by auto
qed simp

lemma start_resumes:
  assumes "url \<noteq> []" "s_open_append e" "meta_read f path = Some m" "f path = Some content"
    "int (length content) = uint (bytes_written m)" "bytes_written m \<noteq> 0" "bytes_written m < file_size m"
  shows "start_download e a path url True f = (Inr (from_setup (streaming_for a url) path url
    (Resume \<lparr>r_offset = bytes_written m, r_file_size = file_size m, r_etag = unpack_etag (meta_etag m)\<rparr>)), f)"
proof -
  have "open_cached e path f = None" using assms by (auto simp: open_cached_def is_complete_at_def)
  moreover have "plan_resume path f = Some \<lparr>r_offset = bytes_written m, r_file_size = file_size m,
      r_etag = unpack_etag (meta_etag m)\<rparr>"
    using assms by (simp add: plan_resume_def check_disk_space_def available_disk_space_def not_le)
  ultimately show ?thesis using assms(1,2)
    by (simp add: start_download_def prepare_def open_resume_def)
qed

lemma resume_setup_request:
  "status_of (from_setup ag path url (Resume r)) = Pending"
  "r_offset r \<noteq> 0 \<Longrightarrow> req_headers (transfer_request (d_xfer (from_setup ag path url (Resume r))))
     = (''range'', ''bytes='' @ show_u64 (r_offset r) @ ''-'')
       # (if r_etag r \<noteq> [] then [(''if-range'', r_etag r)] else [])"
  by (simp_all add: from_setup_def new_xfer_def Let_def status_of_def transfer_request_def word_neq_0_conv)

lemma running_uncached_open:
  assumes "dl_inv (d, f)" "running (status_of d)"
  shows "x_file (d_xfer d) \<and> \<not> x_is_cached (d_xfer d)"
  using assms by (auto simp: dl_inv_def streaming_ok_def running_def Let_def split: if_splits)

lemma read_chunk_end:
  assumes "dl_inv (d, f)" "running (status_of d)" "\<not> d_cancel d" "\<not> d_pause d" "0 < n"
    and "read_chunk e n (d, f) = (Idle, s')"
  obtains d1 where "s' = finalize_complete e (d1, f)" "same_transfer d d1"
    "x_bytes_written (d_xfer d1) = x_bytes_written (d_xfer d)"
proof -
  have xf: "x_file (d_xfer d)" and nc: "\<not> x_is_cached (d_xfer d)"
    using running_uncached_open [OF assms(1,2)] by auto
  have ok: "streaming_ok d f" by (rule dl_inv_streaming [OF assms(1) nc])
  note go = read_chunk_go [OF assms(2) nc assms(5,3,4), of e f]
  show ?thesis
  proof (cases "x_started (d_xfer d)")
    case True
    with ok assms(2) have xr: "x_reader (d_xfer d)" by (auto simp: streaming_ok_def running_def Let_def)
    have "read_body e n (d, f) = (Idle, s')" using go True assms(6) by simp
    from this xr xf show ?thesis
      by (cases rule: read_body_cases) (auto intro: that)
  next
    case False
    obtain started d1 f1 where st: "start_transfer e (d, f) = (started, d1, f1)"
      by (metis prod_cases3)
    note same = start_transfer_same [OF st]
    have rc: "(if started then read_body e n (d1, f1) else (ChunkFailed, d1, f1)) = (Idle, s')"
      using go False assms(6) st by simp
    then have "started" and rb: "read_body e n (d1, f) = (Idle, s')"
      using same by (auto split: if_splits)
    then have "x_reader (d_xfer d1)" "x_file (d_xfer d1)" using same xf by auto
    with rb show ?thesis
      by (cases rule: read_body_cases) (use same in \<open>auto intro: that\<close>)
  qed
qed

lemma start_cached:
  "url \<noteq> [] \<Longrightarrow> s_open_cached e \<Longrightarrow> is_complete_at f path \<Longrightarrow> f path = Some content \<Longrightarrow>
   start_download e a path url allow f
     = (Inr (from_setup (streaming_for a url) path url (Cached content (of_nat (length content)))), f)"
  by (simp add: start_download_def prepare_def open_cached_def)

section \<open>Properties\<close>

text \<open>
  C7: whatever a started transfer goes through - polls with any answers, pause and cancel
  requests - while its destination is open the file holds what was there when it started followed
  by exactly the bytes the polls handed out, and the published progress is its length.
\<close>

theorem file_holds_what_was_read:
  assumes "start_download e a path url allow f = (Inr d, f0)" "\<not> x_is_cached (d_xfer d)"
    and "drive ops (d, f0) = (got, d', f')" "x_file (d_xfer d')"
  shows "f' path = Some (content_at f0 path @ got)
    \<and> snap_downloaded (progress d') = of_nat (length (content_at f0 path @ got))"
proof -
  note inv = start_download_inv [OF assms(1)]
  note st = start_uncached [OF assms(1,2)]
  note dr = drive_open [OF inv assms(2,3,4)]
  have "dl_inv (d', f')" using drive_inv [OF inv assms(3)] .
  moreover have "\<not> x_is_cached (d_xfer d')" using dr assms(2) by (simp add: same_transfer_def)
  ultimately have "d_progress_bytes d' = x_resume_offset (d_xfer d') + x_bytes_written (d_xfer d')"
    by (simp add: dl_inv_def streaming_ok_def Let_def)
  with st dr show ?thesis
    by (auto simp: content_at_def same_transfer_def progress_def)
qed

text \<open>
  A transfer that starts from a partial file hands out bytes only after the server answered
  its ranged request with 206; no other response is ever spliced onto the file.
\<close>

theorem resume_needs_partial_content:
  assumes "start_download e a path url allow f = (Inr d, f0)" "\<not> x_is_cached (d_xfer d)"
    and "0 < x_resume_offset (d_xfer d)" "drive ops (d, f0) = (got, s')" "got \<noteq> []"
  shows "\<exists>p n r. Poll p n \<in> set ops \<and> resp_status r = PARTIAL_CONTENT
    \<and> e_net p (streaming_for a url) (transfer_request (d_xfer d)) = Some r"
proof -
  have "\<not> x_started (d_xfer d)"
    using assms(1,2) by (auto elim!: start_download_cases simp: from_setup_def new_xfer_def Let_def)
  from drive_admitted [OF start_download_inv [OF assms(1)] assms(2) this assms(4,5)]
  obtain p n where "Poll p n \<in> set ops" "admitted_response p d" by blast
  moreover have "d_agent d = streaming_for a url" using start_uncached [OF assms(1,2)] by simp
  ultimately show ?thesis using assms(3)
    by (auto simp: admitted_response_def resume_response_is_valid_def split: option.splits)
qed

text \<open>
  C8: pausing a transfer of known length is lossless: once the sidecar has landed, the next start
  on the same path keeps the file byte for byte and asks the server for exactly the bytes after
  it, under the same ETag.
\<close>

theorem pause_then_resume:
  assumes st: "start_download e a path url allow f = (Inr d, f0)" "\<not> x_is_cached (d_xfer d)"
    and dr: "drive ops (d, f0) = (got, d1, f1)" "running (status_of d1)" "\<not> d_cancel d1" "got \<noteq> []"
    and size_known: "x_file_size (d_xfer d1) = Some n" "uint n < 2 ^ 63"
      "int (length (content_at f0 path @ got)) < uint n"
    and tag: "length (x_etag (d_xfer d1)) < ETAG_LEN" "CHR 0x00 \<notin> set (x_etag (d_xfer d1))"
    and poll: "read_chunk p k (request_pause d1, f1) = (c, d2, f2)" "0 < k" "e_meta p = Landed"
    and opens: "s_open_append e2"
  shows "c = Idle \<and> status_of d2 = Paused \<and> drop_download p2 (d2, f2) = f2
    \<and> f2 path = Some (content_at f0 path @ got)
    \<and> (case start_download e2 a path url True f2 of
         (Inl _, _) \<Rightarrow> False
       | (Inr d3, f3) \<Rightarrow> f3 = f2 \<and> status_of d3 = Pending
           \<and> req_headers (transfer_request (d_xfer d3))
             = (''range'', ''bytes='' @ show_u64 (of_nat (length (content_at f0 path @ got))) @ ''-'')
               # (if x_etag (d_xfer d1) \<noteq> [] then [(''if-range'', x_etag (d_xfer d1))] else []))"
proof -
  let ?all = "content_at f0 path @ got" and ?x = "d_xfer d1"
  note inv = start_download_inv [OF st(1)] and s0 = start_uncached [OF st]
  have "dl_inv (d1, f1)" using drive_inv [OF inv dr(1)] .
  have "x_file ?x" using running_uncached_open [OF \<open>dl_inv (d1, f1)\<close> dr(2)] by simp
  note op = drive_open [OF inv st(2) dr(1) this]
  have path: "x_path ?x = path" "x_url ?x = url" and nc: "\<not> x_is_cached ?x"
    using op s0 st(2) by (auto simp: same_transfer_def)
  have len: "x_resume_offset ?x + x_bytes_written ?x = of_nat (length ?all)"
    and bw: "x_bytes_written ?x = of_nat (length got)"
    using op s0 by (auto simp: same_transfer_def)
  have f1: "f1 path = Some ?all"
    using op s0 by (auto simp: content_at_def)
  have big: "length ?all < 2 ^ LENGTH(64)" "length got < 2 ^ LENGTH(64)"
    using size_known by simp_all
  have ulen: "uint (of_nat (length ?all) :: u64) = int (length ?all)"
    by (rule uint_of_nat_small [OF big(1)])
  have pos: "x_bytes_written ?x \<noteq> 0" "(of_nat (length ?all) :: u64) \<noteq> 0"
    using of_nat_word_0_small [OF big(2)] of_nat_word_0_small [OF big(1)] dr(4) bw by auto
  define m where "m = \<lparr>file_size = n, bytes_written = of_nat (length ?all), meta_etag = pack_etag (x_etag ?x)\<rparr>"
  have f2: "f2 = meta_write Landed path m f1" "c = Idle" "d2 = set_status Paused (request_pause d1)"
    using poll dr nc size_known(1) pos len path
    by (auto simp: read_chunk_def running_def save_meta_def m_def)
  have "meta_valid m" using size_known ulen by (simp add: meta_valid_def m_def)
  then have mr: "meta_read f2 path = Some m" unfolding f2 by (rule meta_read_write)
  have c2: "f2 path = Some ?all" using f1 f2 by simp
  have "url \<noteq> []" using st(1) by (auto simp: start_download_def split: if_splits)
  from start_resumes [OF this opens mr c2] ulen pos size_known unpack_pack_etag [OF tag]
  have "start_download e2 a path url True f2 = (Inr (from_setup (streaming_for a url) path url
      (Resume \<lparr>r_offset = of_nat (length ?all), r_file_size = n, r_etag = x_etag ?x\<rparr>)), f2)"
    by (simp add: m_def word_less_def)
  with f2 c2 pos nc show ?thesis
    by (simp add: resume_setup_request drop_download_def)
qed

text \<open>
  When the body of a running transfer ends and its sidecar lands, the file is left exactly as
  read, the cache entry counts as complete, the published total is its length, and every later
  start on that path is served from disk.
\<close>

theorem completion_is_cached:
  assumes st: "start_download e a path url allow f = (Inr d, f0)" "\<not> x_is_cached (d_xfer d)"
    and dr: "drive ops (d, f0) = (got, d1, f1)" "running (status_of d1)" "\<not> d_cancel d1" "\<not> d_pause d1"
    and content: "content_at f0 path @ got \<noteq> []" "int (length (content_at f0 path @ got)) < 2 ^ 63"
    and poll: "read_chunk p k (d1, f1) = (Idle, d2, f2)" "0 < k" "e_meta p = Landed"
    and later: "url' \<noteq> []" "s_open_cached e2"
  shows "status_of d2 = Complete \<and> f2 path = Some (content_at f0 path @ got) \<and> is_complete_at f2 path
    \<and> snap_total (progress d2) = Some (of_nat (length (content_at f0 path @ got)))
    \<and> start_download e2 a path url' allow' f2 = (Inr (from_setup (streaming_for a url') path url'
          (Cached (content_at f0 path @ got) (of_nat (length (content_at f0 path @ got))))), f2)"
proof -
  let ?all = "content_at f0 path @ got"
  note inv = start_download_inv [OF st(1)] and s0 = start_uncached [OF st]
  have inv1: "dl_inv (d1, f1)" using drive_inv [OF inv dr(1)] .
  have xf: "x_file (d_xfer d1)" using running_uncached_open [OF inv1 dr(2)] by simp
  note op = drive_open [OF inv st(2) dr(1) xf]
  from read_chunk_end [OF inv1 dr(2,3,4) poll(2,1)] obtain d' where
    fin: "(d2, f2) = finalize_complete p (d', f1)" "same_transfer d1 d'"
      "x_bytes_written (d_xfer d') = x_bytes_written (d_xfer d1)" by blast
  have path: "x_path (d_xfer d') = path" using fin(2) op s0 by (simp add: same_transfer_def)
  have len: "x_resume_offset (d_xfer d') + x_bytes_written (d_xfer d') = of_nat (length ?all)"
    using fin(2,3) op s0 by (auto simp: same_transfer_def)
  have f1: "f1 path = Some ?all" using op s0 by (auto simp: content_at_def)
  have big: "length ?all < 2 ^ LENGTH(64)" using content(2) by simp
  have ulen: "uint (of_nat (length ?all) :: u64) = int (length ?all)" by (rule uint_of_nat_small [OF big])
  define m where "m = \<lparr>file_size = of_nat (length ?all), bytes_written = of_nat (length ?all),
    meta_etag = pack_etag (x_etag (d_xfer d'))\<rparr>"
  have f2: "f2 = meta_write Landed path m f1" and d2: "status_of d2 = Complete"
      "d_progress_total d2 = of_nat (length ?all)"
    using fin(1) path len poll(3) by (auto simp: finalize_complete_def Let_def m_def set_status_def status_of_def)
  have "meta_valid m" using ulen content(2) by (simp add: meta_valid_def m_def)
  then have "meta_read f2 path = Some m" unfolding f2 by (rule meta_read_write)
  moreover have c2: "f2 path = Some ?all" using f1 f2 by simp
  ultimately have complete: "is_complete_at f2 path" using content(1) by (simp add: is_complete_at_iff m_def)
  have "(of_nat (length ?all) :: u64) \<noteq> UNKNOWN_LENGTH"
  proof
    assume "(of_nat (length ?all) :: u64) = UNKNOWN_LENGTH"
    then have "int (length ?all) = uint (- 1 :: u64)" using ulen by (simp only: UNKNOWN_LENGTH_def)
    moreover have "uint (- 1 :: u64) = 2 ^ 64 - 1"
      by (simp add: unsigned_minus_1_eq_mask mask_eq_exp_minus_1)
    ultimately have "int (length ?all) = 2 ^ 64 - 1" by (rule trans)
    with content(2) show False by simp
  qed
  with complete c2 d2 start_cached [OF later complete c2] show ?thesis by (simp add: progress_def)
qed

text \<open>
  C12: a resumable partial file does not survive one resume attempt whose request fails to
  connect: dropping the failed transfer deletes the file and its sidecar, so the next attempt
  starts from zero.
\<close>

theorem failed_resume_discards:
  assumes "plan_resume path f = Some r" "start_download e a path url True f = (Inr d, f)"
    and "0 < k" "e_net p (streaming_for a url) (transfer_request (d_xfer d)) = None"
    and "read_chunk p k (d, f) = (c, d1, f1)" "e_remove p2 = (True, True)"
  shows "c = ChunkFailed \<and> f1 = f \<and> drop_download p2 (d1, f1) path = None
    \<and> plan_resume path (drop_download p2 (d1, f1)) = None"
proof -
  from plan_resume_SomeD [OF assms(1)] obtain m content where m: "meta_read f path = Some m"
    "f path = Some content" "int (length content) = uint (bytes_written m)"
    "0 < bytes_written m" "bytes_written m < file_size m" by blast
  have nc: "\<not> is_complete_at f path" using m by (auto simp: is_complete_at_iff)
  have ne: "f path \<noteq> Some []" using m by (auto simp: word_less_def)
  have d: "d = from_setup (streaming_for a url) path url (Resume r)"
    using assms(2)
  proof (cases rule: start_download_cases)
    case (cached content)
    with nc show ?thesis by simp
  next
    case (resumed r')
    with assms(1) show ?thesis by simp
  next
    case (fresh fsz)
    with ne show ?thesis by simp
  qed
  have st: "start_transfer p (d, f) = (False, fail Transfer False (close_file d), f)"
    using assms(4) by (simp add: start_transfer_def d)
  have "\<not> x_started (d_xfer d)" "x_bytes_written (d_xfer d) = 0" "status_of d = Pending"
    by (simp_all add: d from_setup_def new_xfer_def Let_def status_of_def)
  then have "c = ChunkFailed" "d1 = fail Transfer False (close_file d)" "f1 = f"
    using assms(3,5) st by (simp_all add: read_chunk_def d)
  with assms(6) \<open>x_bytes_written (d_xfer d) = 0\<close> show ?thesis
    by (simp add: drop_download_def d meta_delete_def remove_file_def plan_resume_def meta_read_def)
qed

section \<open>A concrete transfer\<close>

text \<open>A server with a six-byte artifact that honours ranges.\<close>

definition sample_net :: http where
  "sample_net ag req = Some \<lparr>resp_status = (if req_headers req \<noteq> [] then 206 else 200),
     resp_headers = [(''content-length'', ''6''), (''etag'', ''v1'')], resp_body = ([], False)\<rparr>"

definition sample_setup :: setup_env where
  "sample_setup = \<lparr>s_net = sample_net, s_open_cached = True, s_open_append = True, s_remove_meta = True,
     s_remove_file = True, s_create_dirs = True, s_create_file = True\<rparr>"

definition sample_poll :: "bytes \<Rightarrow> poll_env" where
  "sample_poll new = \<lparr>e_net = sample_net, e_read = Some new, e_cached_read = Some 1, e_write = Landed,
     e_meta = Landed, e_remove = (True, True)\<rparr>"

definition sample_url :: string where "sample_url = ''http://h/a.bin''"

definition sample_fs :: fs where "sample_fs = (\<lambda>p. if p = ''c'' then Some [] else None)"

definition sample_fresh :: download where
  "sample_fresh = from_setup (streaming agents_new) ''c'' sample_url (Fresh (Some 6))"

lemma sample_start:
  "start_download sample_setup agents_new ''c'' sample_url False (\<lambda>_. None) = (Inr sample_fresh, sample_fs)"
proof -
  have size6: "url_size sample_net ag sample_url = Some 6" for ag
  proof -
    have "parse_u64 ''6'' = Some 6" by code_simp
    then show ?thesis
      by (simp add: url_size_def sample_net_def is_success_def header_def)
  qed
  have "\<not> is_tls sample_url" "sample_url \<noteq> []" by code_simp+
  moreover have "(\<lambda>_. None)(''c'' \<mapsto> []) = sample_fs" by (auto simp: sample_fs_def)
  ultimately show ?thesis
    by (simp add: start_download_def prepare_def open_cached_def is_complete_at_def start_fresh_def
        sample_setup_def size6 check_disk_space_def available_disk_space_def streaming_for_def
        sample_fresh_def)
qed

definition sample_run :: "bytes \<times> download \<times> fs" where
  "sample_run = drive [Poll (sample_poll [1, 2, 3]) 8] (sample_fresh, sample_fs)"

definition run_dl :: download where "run_dl = fst (snd sample_run)"
definition run_fs :: fs where "run_fs = snd (snd sample_run)"

lemma sample_uncached: "\<not> x_is_cached (d_xfer sample_fresh)"
  by (simp add: sample_fresh_def)

lemma sample_run_facts:
  "fst sample_run = [1, 2, 3]" "x_file (d_xfer run_dl)" "running (status_of run_dl)" "\<not> d_cancel run_dl"
  "\<not> d_pause run_dl" "x_file_size (d_xfer run_dl) = Some 6" "x_etag (d_xfer run_dl) = ''v1''"
  "content_at sample_fs ''c'' = []"
  by code_simp+

lemma sample_run_drive:
  "drive [Poll (sample_poll [1, 2, 3]) 8] (sample_fresh, sample_fs) = ([1, 2, 3], run_dl, run_fs)"
proof -
  have "sample_run = (fst sample_run, run_dl, run_fs)" by (simp add: run_dl_def run_fs_def)
  then show ?thesis using sample_run_facts(1) by (simp add: sample_run_def)
qed

theorem file_holds_what_was_read_witness: "run_fs ''c'' = Some [1, 2, 3]"
  using file_holds_what_was_read [OF sample_start sample_uncached sample_run_drive sample_run_facts(2)]
  by (simp add: sample_run_facts)

definition paused_run :: "Chunk \<times> download \<times> fs" where
  "paused_run = read_chunk (sample_poll []) 8 (request_pause run_dl, run_fs)"

theorem pause_then_resume_witness:
  "snd (snd paused_run) ''c'' = Some [1, 2, 3]
   \<and> (case start_download sample_setup agents_new ''c'' sample_url True (snd (snd paused_run)) of
        (Inl _, _) \<Rightarrow> False
      | (Inr d3, f3) \<Rightarrow> req_headers (transfer_request (d_xfer d3))
          = [(''range'', ''bytes=3-''), (''if-range'', ''v1'')])"
proof -
  have p: "read_chunk (sample_poll []) 8 (request_pause run_dl, run_fs)
      = (fst paused_run, fst (snd paused_run), snd (snd paused_run))"
    by (simp add: paused_run_def)
  have range: "''bytes='' @ show_u64 (of_nat (length ([] @ [1, 2, 3 :: u8]))) @ ''-'' = ''bytes=3-''"
    by code_simp
  have "e_meta (sample_poll []) = Landed" "s_open_append sample_setup" "length ''v1'' < ETAG_LEN"
    "CHR 0x00 \<notin> set ''v1''" "uint (6 :: u64) < 2 ^ 63" "(0::nat) < 8" "[1, 2, 3 :: u8] \<noteq> []"
    by (simp_all add: sample_poll_def sample_setup_def ETAG_LEN_def)
  note facts = this
  show ?thesis
    using pause_then_resume [OF sample_start sample_uncached sample_run_drive sample_run_facts(3,4)
        facts(7) sample_run_facts(6) facts(5) _ _ _ p facts(6,1,2), of "sample_poll []"] facts(3,4) range
    by (auto simp: sample_run_facts split: prod.splits sum.splits)
qed

definition finished_run :: "Chunk \<times> download \<times> fs" where
  "finished_run = read_chunk (sample_poll []) 8 (run_dl, run_fs)"

theorem completion_is_cached_witness:
  "is_complete_at (snd (snd finished_run)) ''c'' \<and> snap_total (progress (fst (snd finished_run))) = Some 3"
proof -
  have "fst finished_run = Idle" by code_simp
  then have p: "read_chunk (sample_poll []) 8 (run_dl, run_fs)
      = (Idle, fst (snd finished_run), snd (snd finished_run))"
    by (simp add: finished_run_def prod_eq_iff)
  have facts: "e_meta (sample_poll []) = Landed" "s_open_cached sample_setup" "sample_url \<noteq> []" "(0::nat) < 8"
    by (simp_all add: sample_poll_def sample_setup_def sample_url_def)
  show ?thesis
    using completion_is_cached [OF sample_start sample_uncached sample_run_drive sample_run_facts(3,4,5)
        _ _ p facts(4,1,3,2)] by (simp add: sample_run_facts)
qed

text \<open>The same file interrupted after three bytes.\<close>

definition sample_meta :: meta where
  "sample_meta = \<lparr>file_size = 6, bytes_written = 3, meta_etag = pack_etag ''v1''\<rparr>"

definition partial_fs :: fs where
  "partial_fs = meta_write Landed ''c'' sample_meta (\<lambda>p. if p = ''c'' then Some [1, 2, 3] else None)"

definition partial_resume :: resume where
  "partial_resume = \<lparr>r_offset = 3, r_file_size = 6, r_etag = unpack_etag (pack_etag ''v1'')\<rparr>"

definition sample_resumed :: download where
  "sample_resumed = from_setup (streaming_for agents_new sample_url) ''c'' sample_url (Resume partial_resume)"

lemma partial_meta: "meta_read partial_fs ''c'' = Some sample_meta" "partial_fs ''c'' = Some [1, 2, 3]"
proof -
  have "meta_valid sample_meta" by (simp add: meta_valid_def sample_meta_def)
  then show "meta_read partial_fs ''c'' = Some sample_meta"
    unfolding partial_fs_def by (rule meta_read_write)
  show "partial_fs ''c'' = Some [1, 2, 3]" by (simp add: partial_fs_def)
qed

lemma partial_start:
  "start_download sample_setup agents_new ''c'' sample_url True partial_fs = (Inr sample_resumed, partial_fs)"
  "plan_resume ''c'' partial_fs = Some partial_resume" "\<not> x_is_cached (d_xfer sample_resumed)"
proof -
  show "start_download sample_setup agents_new ''c'' sample_url True partial_fs = (Inr sample_resumed, partial_fs)"
    using start_resumes [OF _ _ partial_meta, of sample_url sample_setup agents_new]
    by (simp add: sample_url_def sample_setup_def sample_meta_def sample_resumed_def partial_resume_def)
  show "plan_resume ''c'' partial_fs = Some partial_resume"
    by (simp add: plan_resume_def partial_meta check_disk_space_def available_disk_space_def
        partial_resume_def) (simp add: sample_meta_def)
  show "\<not> x_is_cached (d_xfer sample_resumed)" by (simp add: sample_resumed_def)
qed

theorem resume_needs_partial_content_witness:
  "\<exists>p n r. Poll p n \<in> set [Poll (sample_poll [4, 5]) 8] \<and> resp_status r = PARTIAL_CONTENT
    \<and> e_net p (streaming_for agents_new sample_url) (transfer_request (d_xfer sample_resumed)) = Some r"
proof -
  let ?r = "drive [Poll (sample_poll [4, 5]) 8] (sample_resumed, partial_fs)"
  have "fst ?r \<noteq> []" "0 < x_resume_offset (d_xfer sample_resumed)" by code_simp+
  with resume_needs_partial_content [OF partial_start(1,3) _ prod.collapse [symmetric], of "[Poll (sample_poll [4, 5]) 8]"]
  show ?thesis by blast
qed

text \<open>A connection that is refused.\<close>

definition offline_poll :: poll_env where
  "offline_poll = (sample_poll [])\<lparr>e_net := \<lambda>_ _. None\<rparr>"

theorem failed_resume_discards_witness:
  "plan_resume ''c'' partial_fs = Some partial_resume \<and> plan_resume ''c'' (drop_download offline_poll
     (snd (read_chunk offline_poll 8 (sample_resumed, partial_fs)))) = None"
proof -
  let ?r = "read_chunk offline_poll 8 (sample_resumed, partial_fs)"
  have "?r = (fst ?r, fst (snd ?r), snd (snd ?r))" by simp
  from failed_resume_discards [OF partial_start(2,1) _ _ this, of offline_poll] partial_start(2)
  show ?thesis by (simp add: offline_poll_def sample_poll_def)
qed

end
