(* ===== verification/Queue_Props.thy ===== *)
theory Queue_Props
  imports Queue_Inv Download_Props
begin

text \<open>
  What the transfer queue keeps over every sequence of calls and worker steps: it refines the
  scheduler, a cancel that applied sticks, work is never stranded, completion is proven, and where
  two workers can come to hold one slot.
\<close>

section \<open>Runs\<close>

fun run_events :: "world \<Rightarrow> event list \<Rightarrow> queue \<Rightarrow> queue option" where
  "run_events wd [] q = Some q"
| "run_events wd (ev # evs) q = (case exec_event wd q ev of None \<Rightarrow> None | Some q' \<Rightarrow> run_events wd evs q')"

definition queue_ok :: "queue \<Rightarrow> bool" where
  "queue_ok q \<longleftrightarrow> consistent q \<and> sched_inv (view q)"

lemma exec_refines:
  assumes "queue_ok q" "exec_event wd q ev = Some q'"
  shows "consistent q' \<and> sstep\<^sup>*\<^sup>* (view q) (view q')
    \<and> ((\<forall>i. ev \<noteq> Remove i) \<longrightarrow> nstep\<^sup>*\<^sup>* (view q) (view q'))"
proof -
  have c: "consistent q" and inv: "sched_inv (view q)" using assms(1) by (simp_all add: queue_ok_def)
  have both: "consistent x \<and> nstep\<^sup>*\<^sup>* (view q) (view x) \<Longrightarrow> consistent x \<and> sstep\<^sup>*\<^sup>* (view q) (view x)
      \<and> nstep\<^sup>*\<^sup>* (view q) (view x)" for x
    using nsteps_sstep by blast
  show ?thesis
  proof (cases ev)
    case (Push t req now)
    with both [OF queue_push_refines [OF c]] assms(2) show ?thesis by (auto simp: exec_event_def)
  next
    case (Cancel i)
    with both [OF queue_cancel_refines(1) [OF c]] assms(2) show ?thesis
      by (auto simp: exec_event_def split: if_splits)
  next
    case (Pause i)
    with queue_pause_refines [OF c, of i] assms(2) show ?thesis
      by (auto simp: exec_event_def split: if_splits)
  next
    case (Resume t i)
    with both [OF queue_resume_refines [OF c]] assms(2) show ?thesis
      by (auto simp: exec_event_def split: if_splits)
  next
    case (Remove i)
    with queue_remove_refines [OF c] assms(2) show ?thesis
      by (auto simp: exec_event_def split: if_splits)
  next
    case DropQueue
    with both [OF queue_drop_refines [OF c]] assms(2) show ?thesis by (auto simp: exec_event_def)
  next
    case (Drain w t)
    with both [OF drain_turn_refines [OF c]] assms(2) show ?thesis
      by (auto simp: exec_event_def split: if_splits)
  next
    case (HookPanic w)
    with release_worker_refines [OF c] both assms(2) show ?thesis
      by (auto simp: exec_event_def split: if_splits)
  next
    case (Work w se de pe gone)
    with both [OF work_refines [OF c inv]] assms(2) show ?thesis
      by (auto simp: exec_event_def split: if_splits)
  next
    case (WorkPanic w pe)
    then obtain i where w: "w < length (q_pcs q)" "holding (q_pcs q ! w) = Some i"
      and q': "q' = set_pc w Looping (finish wd pe w i None (local_download (q_pcs q ! w)) State.Failed (Some Panicked) q)"
      using assms(2) by (auto simp: exec_event_def split: if_splits option.splits)
    have "final State.Failed" by (simp add: final_def)
    with finish_refines [OF c w this inv] both q' show ?thesis by blast
  qed
qed

lemma exec_ok: "queue_ok q \<Longrightarrow> exec_event wd q ev = Some q' \<Longrightarrow> queue_ok q'"
  using exec_refines [of q wd ev q'] sched_inv_steps by (auto simp: queue_ok_def)

lemma with_config_ok: "queue_ok (with_config n f)"
proof -
  have "consistent (with_config n f)"
    by (auto simp: consistent_def with_config_def Let_def active_default_def holding_def settle_ok_def
        list_all_iff MAX_WORKERS_def QUEUE_MAX_def)
  moreover have "sched_inv (view (with_config n f))"
    by (rule sched_invI)
       (auto simp: held_def view_def with_config_def Let_def vworker_of_def holding_def vslot_of_def
         slot_default_def)
  ultimately show ?thesis by (simp add: queue_ok_def)
qed

text \<open>The reachable states, as a system that keeps an invariant.\<close>

definition queue_init :: "queue \<Rightarrow> bool" where
  "queue_init q \<longleftrightarrow> (\<exists>n f. q = with_config n f)"

definition queue_step :: "world \<Rightarrow> queue \<Rightarrow> queue \<Rightarrow> bool" where
  "queue_step wd q q' \<longleftrightarrow> (\<exists>ev. exec_event wd q ev = Some q')"

interpretation queue_system: invariant_system queue_init "queue_step wd" queue_ok for wd
  by unfold_locales (auto simp: queue_init_def queue_step_def with_config_ok intro: exec_ok)

lemma run_events_reachable:
  "reachable queue_init (queue_step wd) q \<Longrightarrow> run_events wd evs q = Some q' \<Longrightarrow>
   reachable queue_init (queue_step wd) q'"
proof (induction evs arbitrary: q)
  case (Cons ev evs)
  then obtain q1 where q1: "exec_event wd q ev = Some q1" "run_events wd evs q1 = Some q'"
    by (auto split: option.splits)
  have "queue_step wd q q1" using q1(1) unfolding queue_step_def by blast
  from Cons.IH [OF reachable_step [OF Cons.prems(1) this] q1(2)] show ?case .
qed simp

lemma run_events_ok: "run_events wd evs (with_config n f) = Some q \<Longrightarrow> queue_ok q"
  using run_events_reachable [OF reachable_init [of queue_init "with_config n f" "queue_step wd"], of evs q]
    queue_system.reachable_invar [of wd q]
  by (auto simp: queue_init_def)

lemma run_events_ok_from: "queue_ok q \<Longrightarrow> run_events wd evs q = Some q' \<Longrightarrow> queue_ok q'"
  by (induction evs arbitrary: q) (auto split: option.splits intro: exec_ok)

section \<open>A cancel that applied\<close>

lemma cancelling_put_other: "j \<noteq> i \<Longrightarrow> cancelling i s \<Longrightarrow> cancelling i (put_slot j x s)"
  by (auto simp: cancelling_def split: if_splits)

lemma cancelling_exec:
  assumes "queue_ok q" "exec_event wd q ev = Some q'" "ev \<noteq> Remove i" "cancelling i (view q)"
  shows "cancelling i (view q')"
proof (cases "\<exists>j. ev = Remove j")
  case False
  with exec_refines [OF assms(1,2)] assms(4) show ?thesis by (blast intro: cancelling_nsteps)
next
  case True
  then obtain j where j: "ev = Remove j" by blast
  with assms have "j \<noteq> i" "j < length (q_slots q)" and q': "q' = fst (queue_remove j q)"
    by (auto simp: exec_event_def split: if_splits)
  then have "view q' = view q \<or> (\<exists>x. view q' = put_slot j x (view q))"
    by (auto simp: queue_remove_def remove_def view_upd_slot)
  with assms(4) cancelling_put_other [OF \<open>j \<noteq> i\<close>] show ?thesis by metis
qed

lemma cancelling_run:
  "queue_ok q \<Longrightarrow> run_events wd evs q = Some q' \<Longrightarrow> Remove i \<notin> set evs \<Longrightarrow> cancelling i (view q) \<Longrightarrow>
   cancelling i (view q')"
proof (induction evs arbitrary: q)
  case (Cons ev evs)
  then obtain q1 where q1: "exec_event wd q ev = Some q1" "run_events wd evs q1 = Some q'"
    by (auto split: option.splits)
  have ok1: "queue_ok q1" using exec_ok [OF Cons.prems(1) q1(1)] .
  have ne: "ev \<noteq> Remove i" "Remove i \<notin> set evs" using Cons.prems(3) by auto
  show ?case
    by (rule Cons.IH [OF ok1 q1(2) ne(2) cancelling_exec [OF Cons.prems(1) q1(1) ne(1) Cons.prems(4)]])
qed simp

section \<open>Work is never stranded\<close>

definition waiting :: "vslot \<Rightarrow> bool" where
  "waiting x \<longleftrightarrow> vu x \<and> (vs x = State.Pending \<or> vs x = State.Preempted)"

definition awake :: "sched \<Rightarrow> bool" where
  "awake s \<longleftrightarrow> (v_running s \<and> list_ex waiting (v_slots s) \<longrightarrow> list_ex (\<lambda>y. y \<noteq> VOff) (v_workers s))"

lemma awake_worker: "w < length (v_workers s) \<Longrightarrow> v_workers s ! w \<noteq> VOff \<Longrightarrow> awake s"
  by (auto simp: awake_def list_ex_length)

lemma awake_put_slot: "awake s \<Longrightarrow> \<not> waiting x \<or> i < length (v_slots s) \<and> waiting (v_slots s ! i) \<Longrightarrow> awake (put_slot i x s)"
  using set_update_subset_insert [of "v_slots s" i x]
  by (auto simp: awake_def list_ex_iff)

lemma next_pending_waiting:
  "i < length (q_slots q) \<Longrightarrow> s_in_use (q_slots q ! i) \<Longrightarrow> slot_state (q_slots q ! i) = State.Pending \<Longrightarrow>
   next_pending (snapshot_all q) \<noteq> None"
  using nth_mem [of i "q_slots q"] by (auto simp: next_pending_None snapshot_all_def is_pending_def)

lemma spawn_from_arms:
  "\<forall>w \<in> set ws. spawn_ok t w \<and> w < length (q_armed q) \<Longrightarrow>
   length (q_armed (spawn_from t ws q)) = length (q_armed q)
     \<and> (\<forall>w. q_armed q ! w \<or> w \<in> set ws \<longrightarrow> q_armed (spawn_from t ws q) ! w)"
proof (induction t ws q rule: spawn_from.induct)
  case (2 t w ws q)
  show ?case
  proof (cases "q_armed q ! w")
    case True
    with 2 show ?thesis by auto
  next
    case False
    let ?q1 = "set_pc w Looping (q\<lparr>q_handles := q_handles q @ [w], q_armed := (q_armed q)[w := True]\<rparr>)"
    have "length (q_armed (spawn_from t ws ?q1)) = length (q_armed ?q1)
      \<and> (\<forall>v. q_armed ?q1 ! v \<or> v \<in> set ws \<longrightarrow> q_armed (spawn_from t ws ?q1) ! v)"
      using 2 False by simp
    moreover have "q_armed ?q1 ! w" "\<forall>v. q_armed q ! v \<longrightarrow> q_armed ?q1 ! v"
      using "2.prems" by (auto simp: nth_list_update)
    ultimately show ?thesis using False "2.prems" by auto
  qed
qed simp

lemma armed_awake: "consistent q \<Longrightarrow> w < length (q_pcs q) \<Longrightarrow> q_armed q ! w \<Longrightarrow> awake (view q)"
proof -
  assume a: "consistent q" "w < length (q_pcs q)" "q_armed q ! w"
  then have "q_pcs q ! w \<noteq> Off" using consistent_at(2) by blast
  with a(2) have "v_workers (view q) ! w \<noteq> VOff" by (simp add: vworker_of_def split: option.split)
  with a(2) show ?thesis by (intro awake_worker [of w]) simp_all
qed

lemma arm_workers_awake:
  assumes c: "consistent q" and t: "\<forall>w. spawn_ok t w"
    and p: "q_running q \<Longrightarrow> next_pending (snapshot_all q) \<noteq> None"
  shows "awake (view (arm_workers t q))"
proof (cases "q_running q")
  case False
  then have "arm_workers t q = q" by (simp add: arm_workers_def)
  with False show ?thesis by (simp add: awake_def)
next
  case True
  have c1: "consistent (arm_workers t q)" using arm_workers_refines [OF c] by blast
  have len: "length (q_armed q) = q_workers q" "0 < q_workers q" "length (q_pcs q) = q_workers q"
    using c by (simp_all add: consistent_def)
  have "q_armed (arm_workers t q) ! 0 \<and> 0 < length (q_armed (arm_workers t q))"
  proof (cases "list_all (\<lambda>b. b) (q_armed q)")
    case all: True
    then have "arm_workers t q = q" by (simp add: arm_workers_def)
    with all len show ?thesis by (simp add: list_all_length)
  next
    case False
    have "q_armed (reap t q) = q_armed q" by (simp add: reap_def)
    with spawn_from_arms [of "[0..<q_workers q]" t "reap t q"] t len False True p [OF True] show ?thesis
      by (auto simp: arm_workers_def)
  qed
  moreover have "length (q_armed (arm_workers t q)) = length (q_pcs (arm_workers t q))"
    using c1 by (simp add: consistent_def)
  ultimately show ?thesis using armed_awake [OF c1, of 0] by simp
qed

lemma arm_workers_keeps:
  assumes w: "w < length (q_pcs q)" "q_pcs q ! w \<noteq> Off" and c: "consistent q" and t: "\<forall>w. spawn_ok t w"
  shows "awake (view (arm_workers t q))"
proof -
  note at = consistent_at [OF c w(1)]
  have c1: "consistent (arm_workers t q)" using arm_workers_refines [OF c] by blast
  have len: "length (q_armed q) = q_workers q" "length (q_pcs q) = q_workers q"
    using c by (simp_all add: consistent_def)
  have "q_armed (reap t q) = q_armed q" by (simp add: reap_def)
  with spawn_from_arms [of "[0..<q_workers q]" t "reap t q"] t len at w
  have "q_armed (arm_workers t q) ! w \<and> length (q_armed (arm_workers t q)) = length (q_armed q)"
    by (auto simp: arm_workers_def)
  moreover have "length (q_armed (arm_workers t q)) = length (q_pcs (arm_workers t q))"
    using c1 by (simp add: consistent_def)
  ultimately show ?thesis using armed_awake [OF c1, of w] w len by simp
qed

definition smooth :: "event \<Rightarrow> bool" where
  "smooth ev = (case ev of
       Push t _ _ \<Rightarrow> (\<forall>w. spawn_ok t w) | Resume t _ \<Rightarrow> (\<forall>w. spawn_ok t w)
     | Drain _ t \<Rightarrow> (\<forall>w. spawn_ok t w) | HookPanic _ \<Rightarrow> False | _ \<Rightarrow> True)"

lemma retire_awake:
  assumes ok: "queue_ok q" and w: "w < length (q_pcs q)" "q_pcs q ! w = Looping"
    and none: "next_pending (snapshot_all (resume_preempted q)) = None"
  shows "awake (view (retire w (resume_preempted q)))"
proof (cases "list_ex is_user_work_outstanding (snapshot_all q)")
  case True
  let ?q1 = "resume_preempted q"
  have v: "view ?q1 = view q" using True by (simp add: resume_preempted_view)
  from True obtain i where i: "i < length (q_slots q)" "s_in_use (q_slots q ! i)"
    "slot_state (q_slots q ! i) = State.Pending \<or> slot_state (q_slots q ! i) = State.Downloading"
    by (auto simp: list_ex_length snapshot_all_def is_user_work_outstanding_def)
  have "slot_state (q_slots q ! i) \<noteq> State.Pending"
  proof
    assume pend: "slot_state (q_slots q ! i) = State.Pending"
    have "vslot_of (q_slots ?q1 ! i) = vslot_of (q_slots q ! i)"
      using v i(1) by (metis resume_preempted_fields(6) view_nth(1))
    then have "s_in_use (q_slots ?q1 ! i)" "slot_state (q_slots ?q1 ! i) = State.Pending"
      using i pend by (metis vslot_of_simps)+
    with next_pending_waiting [of i ?q1] i none show False by simp
  qed
  with i sched_inv_downD [of "view q" i] ok have "held (view q) i" by (simp add: queue_ok_def)
  then obtain w' where w': "w' < length (q_pcs q)" "v_workers (view q) ! w' = VHold i"
    by (auto simp: held_iff)
  with worker_free [OF w] have "w' \<noteq> w" by auto
  with w' v show ?thesis
    by (intro awake_worker [of w']) (simp_all add: retire_def view_set_pc)
next
  case False
  let ?q1 = "resume_preempted q"
  have "\<not> waiting x" if "x \<in> set (v_slots (view ?q1))" for x
  proof
    assume wt: "waiting x"
    from that False obtain y where "x = sweep_view y" by (auto simp: resume_preempted_view)
    with wt have p: "vu x" "vs x = State.Pending" by (auto simp: waiting_def sweep_view_def split: if_splits)
    from that obtain i where "i < length (q_slots ?q1)" "x = vslot_of (q_slots ?q1 ! i)"
      by (auto simp: view_def in_set_conv_nth)
    with p next_pending_waiting [of i ?q1] none show False by simp
  qed
  then show ?thesis by (auto simp: awake_def list_ex_iff retire_def view_set_pc)
qed

definition moves :: "nat \<Rightarrow> queue \<Rightarrow> queue \<Rightarrow> bool" where
  "moves w q q' \<longleftrightarrow> (\<exists>p. p \<noteq> Off \<and> q_pcs q' = (q_pcs q)[w := p])"

lemma moves_set_pc: "p \<noteq> Off \<Longrightarrow> q_pcs q0 = q_pcs q \<Longrightarrow> moves w q (set_pc w p q0)"
  by (auto simp: moves_def)

lemma moves_hash_resumed: "moves w q (hash_resumed wd e w i r d q)"
  unfolding hash_resumed_def Let_def
  by (rule moves_set_pc) (simp_all split: prod.split bool.split)

lemma moves_stream_turn: "moves w q (stream_turn e w i r digest oversize d q)"
  unfolding stream_turn_def Let_def
  by (auto split: prod.split Chunk.split option.split intro!: moves_set_pc)

lemma moves_end_transfer: "moves w q (end_transfer wd e gone w i r digest oversize d q)"
  unfolding end_transfer_def Let_def
  by (auto split: option.split Status.split intro!: moves_set_pc)

lemma work_moves: "work wd se de pe gone w q = Some q' \<Longrightarrow> moves w q q'"
proof (cases "q_pcs q ! w")
  case (Claimed i)
  assume "work wd se de pe gone w q = Some q'"
  with Claimed have "q' = begin_slot w i q" by (simp add: work_def)
  then show ?thesis unfolding begin_slot_def by (auto intro!: moves_set_pc split: option.split)
next
  case (CheckingCache i r)
  assume "work wd se de pe gone w q = Some q'"
  with CheckingCache have "q' = check_cache wd w i r q" by (simp add: work_def)
  then show ?thesis unfolding check_cache_def Let_def by (auto intro!: moves_set_pc)
next
  case (Opening i r)
  assume "work wd se de pe gone w q = Some q'"
  with Opening have "q' = open_transfer wd se w i r q" by (simp add: work_def)
  then show ?thesis unfolding open_transfer_def by (auto intro!: moves_set_pc split: prod.split sum.split)
next
  case (Opened i r d)
  assume "work wd se de pe gone w q = Some q'"
  with Opened have "q' = recheck_cancel w i r d q" by (simp add: work_def)
  then show ?thesis unfolding recheck_cancel_def by (auto intro!: moves_set_pc)
next
  case (Registering i r d)
  assume "work wd se de pe gone w q = Some q'"
  with Registering have "q' = register_download w i r d q" by (simp add: work_def)
  then show ?thesis unfolding register_download_def by (auto intro!: moves_set_pc)
next
  case (Registered i r)
  assume "work wd se de pe gone w q = Some q'"
  with Registered have "q' = carry_flags w i r q" by (simp add: work_def)
  then show ?thesis unfolding carry_flags_def Let_def by (auto intro!: moves_set_pc)
next
  case (Prepared i r)
  assume "work wd se de pe gone w q = Some q'"
  with Prepared show ?thesis by (auto simp: work_def moves_hash_resumed)
next
  case (Streaming i r digest oversize)
  assume "work wd se de pe gone w q = Some q'"
  with Streaming show ?thesis by (auto simp: work_def moves_stream_turn)
next
  case (Ended i r digest oversize)
  assume "work wd se de pe gone w q = Some q'"
  with Ended show ?thesis by (auto simp: work_def moves_end_transfer)
next
  case (Settling i digest local st failure evicting)
  assume "work wd se de pe gone w q = Some q'"
  with Settling show ?thesis
    by (auto simp: work_def Let_def finish_fields intro!: moves_set_pc split: option.splits)
qed (simp_all add: work_def)

lemma work_pc:
  "w < length (q_pcs q) \<Longrightarrow> work wd se de pe gone w q = Some q' \<Longrightarrow> w < length (q_pcs q') \<and> q_pcs q' ! w \<noteq> Off"
  by (drule work_moves) (auto simp: moves_def)

lemma awake_exec:
  assumes ok: "queue_ok q" and ex: "exec_event wd q ev = Some q'" and sm: "smooth ev" and aw: "awake (view q)"
  shows "awake (view q')"
proof -
  have c: "consistent q" using ok by (simp add: queue_ok_def)
  have c': "consistent q'" using exec_refines [OF ok ex] by blast
  have still: "awake (view x)" if "consistent x" "w < length (q_pcs x)" "q_pcs x ! w \<noteq> Off" for x w
    using armed_awake [OF that(1,2)] consistent_at(2) [OF that(1,2)] that(3) by blast
  show ?thesis
  proof (cases ev)
    case (Push t req now)
    with ex have q': "q' = fst (queue_push t req now q)" by (simp add: exec_event_def)
    show ?thesis
    proof (cases "position (\<lambda>s. \<not> s_in_use s) (q_slots q)")
      case None
      with q' aw show ?thesis by (simp add: queue_push_def)
    next
      case (Some i)
      from queue_push_shape [OF c Some, of t req now] obtain q2 where
        q2: "q' = arm_workers t q2" "consistent q2" "i < length (q_slots q2)"
          "v_slots (view q2) ! i = \<lparr>vu = True, vs = State.Pending, vf = False\<rparr>"
        unfolding q' by metis
      then have "s_in_use (q_slots q2 ! i)" "slot_state (q_slots q2 ! i) = State.Pending"
        by (simp_all add: vslot_of_def)
      with next_pending_waiting [OF q2(3)] arm_workers_awake [OF q2(2), of t] sm Push q2(1)
      show ?thesis by (simp add: smooth_def)
    qed
  next
    case (Cancel i)
    with ex have i: "i < length (q_slots q)" and q': "q' = fst (queue_cancel i q)"
      by (auto simp: exec_event_def split: if_splits)
    show ?thesis
    proof (cases "is_active q i")
      case True
      then obtain w where w: "w < length (q_pcs q)" "v_workers (view q) ! w = VHold i"
        using is_active_held [OF c] by (auto simp: held_iff)
      then have "q_pcs q ! w \<noteq> Off" by (auto simp: vworker_of_def holding_def)
      moreover have "q_pcs q' = q_pcs q"
        by (simp add: q' queue_cancel_def Let_def with_download_for_def split: prod.split bool.split option.split)
      ultimately show ?thesis using still [OF c', of w] w by simp
    next
      case False
      have "view q' = view q \<or> view q' = put_slot i ((v_slots (view q) ! i)\<lparr>vs := State.Cancelled\<rparr>) (view q)"
        using i False by (auto simp: q' queue_cancel_def Let_def cancel_def is_active_def view_upd_slot vslot_of_def
            split: State.splits)
      then show ?thesis using aw by (auto intro!: awake_put_slot simp: waiting_def)
    qed
  next
    case (Pause i)
    with queue_pause_refines [OF c, of i] ex aw show ?thesis
      by (auto simp: exec_event_def split: if_splits)
  next
    case (Resume t i)
    with ex have i: "i < length (q_slots q)" and q': "q' = fst (queue_resume t i q)"
      by (auto simp: exec_event_def split: if_splits)
    show ?thesis
    proof (cases "slot_state (q_slots q ! i) = State.Paused")
      case False
      with aw show ?thesis by (simp add: q' queue_resume_def resume_def)
    next
      case True
      let ?q1 = "upd_slot i (apply_entry ((snapshot (q_slots q ! i))\<lparr>state := State.Pending\<rparr>)) q"
      have q1: "q' = arm_workers t ?q1" "consistent ?q1" using True c by (simp_all add: q' queue_resume_def resume_def)
      have at: "s_in_use (q_slots ?q1 ! i) = s_in_use (q_slots q ! i)" "slot_state (q_slots ?q1 ! i) = State.Pending"
        using i by (simp_all add: upd_slot_def)
      show ?thesis
      proof (cases "next_pending (snapshot_all ?q1)")
        case None
        with next_pending_waiting [of i ?q1] i at have "\<not> s_in_use (q_slots q ! i)" by auto
        with i have "awake (view ?q1)"
          unfolding view_upd_slot using aw by (intro awake_put_slot) (simp_all add: waiting_def)
        with None q1(1) show ?thesis by (simp add: arm_workers_def)
      next
        case (Some j)
        with arm_workers_awake [OF q1(2), of t] sm Resume q1(1) show ?thesis by (simp add: smooth_def)
      qed
    qed
  next
    case (Remove i)
    with ex have i: "i < length (q_slots q)" and q': "q' = fst (queue_remove i q)"
      by (auto simp: exec_event_def split: if_splits)
    have "view q' = view q \<or> view q' = put_slot i ((v_slots (view q) ! i)\<lparr>vu := False\<rparr>) (view q)"
      using i by (auto simp: q' queue_remove_def remove_def view_upd_slot vslot_of_def)
    then show ?thesis using aw by (auto intro!: awake_put_slot simp: waiting_def)
  next
    case DropQueue
    with ex show ?thesis by (auto simp: exec_event_def awake_def queue_drop_def view_def)
  next
    case (Drain w t)
    with ex have w: "w < length (q_pcs q)" "q_pcs q ! w = Looping" and q': "q' = drain_turn t w q"
      by (auto simp: exec_event_def split: if_splits)
    show ?thesis
    proof (cases "q_running q")
      case False
      then have "v_running (view q') = False" by (simp add: q' drain_turn_def retire_def)
      then show ?thesis by (simp add: awake_def)
    next
      case True
      show ?thesis
      proof (cases "next_pending (snapshot_all (resume_preempted q))")
        case None
        with True q' retire_awake [OF ok w None] show ?thesis by (simp add: drain_turn_def Let_def)
      next
        case (Some i)
        have "consistent (resume_preempted q)" "w < length (q_pcs (resume_preempted q))"
          "q_pcs (resume_preempted q) ! w = Looping" using c w by simp_all
        note cl = claim_refines [OF this Some]
        have "q_pcs (claim w i (resume_preempted q)) ! w \<noteq> Off" "w < length (q_pcs (claim w i (resume_preempted q)))"
          using w by (simp_all add: claim_def)
        with arm_workers_keeps [OF _ _ _] cl sm Drain True Some q' show ?thesis
          by (simp add: drain_turn_def Let_def smooth_def)
      qed
    qed
  next
    case (HookPanic w)
    with sm show ?thesis by (simp add: smooth_def)
  next
    case (Work w se de pe gone)
    with ex have w: "w < length (q_pcs q)" and q': "work wd se de pe gone w q = Some q'"
      by (auto simp: exec_event_def split: if_splits)
    from work_pc [OF w q'] show ?thesis using still [OF c', of w] by blast
  next
    case (WorkPanic w pe)
    with ex obtain i where w: "w < length (q_pcs q)"
      and q': "q' = set_pc w Looping (finish wd pe w i None (local_download (q_pcs q ! w)) State.Failed (Some Panicked) q)"
      by (auto simp: exec_event_def split: if_splits option.splits)
    show ?thesis by (rule still [OF c', of w]) (use w in \<open>simp_all add: q' finish_fields\<close>)
  qed
qed

lemma awake_run:
  "queue_ok q \<Longrightarrow> awake (view q) \<Longrightarrow> list_all smooth evs \<Longrightarrow> run_events wd evs q = Some q' \<Longrightarrow> awake (view q')"
proof (induction evs arbitrary: q)
  case (Cons ev evs)
  then obtain q1 where q1: "exec_event wd q ev = Some q1" "run_events wd evs q1 = Some q'"
    by (auto split: option.splits)
  have sm: "smooth ev" "list_all smooth evs" using Cons.prems by simp_all
  show ?case
    by (rule Cons.IH [OF exec_ok [OF Cons.prems(1) q1(1)] awake_exec [OF Cons.prems(1) q1(1) sm(1) Cons.prems(2)] sm(2) q1(2)])
qed simp

lemma with_config_awake: "awake (view (with_config n f))"
  by (auto simp: awake_def view_def with_config_def Let_def list_ex_iff waiting_def vslot_of_def slot_default_def)

section \<open>One worker\<close>

definition solo :: "sched \<Rightarrow> bool" where
  "solo s \<longleftrightarrow> (\<exists>y. v_workers s = [y] \<and> (\<forall>i. y = VHold i \<longrightarrow> i < length (v_slots s)
     \<and> vs (v_slots s ! i) \<in> {State.Downloading, State.Preempted}))"

lemma solo_put:
  assumes "solo s" "held s i \<longrightarrow> vs x \<in> {State.Downloading, State.Preempted}"
  shows "solo (put_slot i x s)"
proof -
  obtain y where y: "v_workers s = [y]" "\<And>j. y = VHold j \<Longrightarrow> j < length (v_slots s)
      \<and> vs (v_slots s ! j) \<in> {State.Downloading, State.Preempted}"
    using assms(1) unfolding solo_def by blast
  have "j < length (v_slots s) \<and> vs ((v_slots s)[i := x] ! j) \<in> {State.Downloading, State.Preempted}"
    if "y = VHold j" for j
    using y(2) [OF that] assms(2) that y(1) by (cases "i = j") (auto simp: held_def)
  with y(1) show ?thesis unfolding solo_def by auto
qed

lemma solo_step: "sstep s s' \<Longrightarrow> sched_inv s \<Longrightarrow> solo s \<Longrightarrow> solo s'"
proof (induction rule: sstep.induct)
  case (fill i s)
  then have "\<not> held s i" using sched_inv_heldD [of s i] by blast
  with fill show ?case by - (rule solo_put, simp_all)
next
  case (preempt i s)
  then show ?case by - (rule solo_put, simp_all)
next
  case (arm w s)
  then show ?case by (auto simp: solo_def)
next
  case (sweep s)
  then show ?case by (auto simp: solo_def)
next
  case (claims w s i)
  then show ?case by (auto simp: solo_def)
next
  case (retires w s)
  then show ?case by (auto simp: solo_def)
next
  case (settle w s i st)
  then show ?case by (auto simp: solo_def)
next
  case (cancel_idle i s)
  then show ?case by - (rule solo_put, simp_all)
next
  case (cancel_held i s)
  then show ?case by - (rule solo_put, auto simp: solo_def held_def)
next
  case (resumes i s)
  then show ?case by - (rule solo_put, auto simp: solo_def held_def)
next
  case (removes i s)
  then show ?case by - (rule solo_put, simp_all)
next
  case (stops s)
  then show ?case by (simp add: solo_def)
qed

lemma solo_steps: "sstep\<^sup>*\<^sup>* s s' \<Longrightarrow> sched_inv s \<Longrightarrow> solo s \<Longrightarrow> solo s'"
  by (induction rule: rtranclp_induct) (auto intro: solo_step dest: sched_inv_steps)

lemma solo_run: "queue_ok q \<Longrightarrow> solo (view q) \<Longrightarrow> run_events wd evs q = Some q' \<Longrightarrow> solo (view q')"
proof (induction evs arbitrary: q)
  case (Cons ev evs)
  then obtain q1 where q1: "exec_event wd q ev = Some q1" "run_events wd evs q1 = Some q'"
    by (auto split: option.splits)
  have "solo (view q1)"
    using exec_refines [OF Cons.prems(1) q1(1)] solo_steps Cons.prems(1,2) by (auto simp: queue_ok_def)
  from Cons.IH [OF exec_ok [OF Cons.prems(1) q1(1)] this q1(2)] show ?case .
qed simp

lemma with_config_solo: "solo (view (with_config 1 f))"
  by (simp add: solo_def view_def with_config_def MAX_WORKERS_def QUEUE_MAX_def vworker_of_def holding_def)

lemma hash_resumed_fails:
  assumes "w < length (q_pcs q)" "q_pcs (hash_resumed wd e w i r d q) ! w = Settling j dg local st why ev"
  shows "st = State.Failed"
proof -
  obtain ok bs where h: "hash_prefix e (path_for (w_root wd) (sr_digest r)) (snap_downloaded (progress d)) [] (q_fs q) = (ok, bs)"
    by (metis surj_pair)
  show ?thesis
  proof (cases "0 < snap_downloaded (progress d)")
    case True
    with h assms show ?thesis by (cases ok) (simp_all add: hash_resumed_def Let_def)
  next
    case False
    with assms show ?thesis by (simp add: hash_resumed_def Let_def)
  qed
qed

lemma stream_turn_pc:
  "w < length (q_pcs q) \<Longrightarrow> q_pcs (stream_turn e w i r digest oversize d q) ! w \<noteq> Settling j dg local st why ev"
  unfolding stream_turn_def Let_def by (auto split: prod.split Chunk.split option.split)

section \<open>Properties\<close>

text \<open>
  C4: whatever calls and worker steps happened before, the next one is a sequence of scheduler
  steps: the queue's detailed state, seen as slots and workers, does nothing the abstract
  scheduler does not allow.
\<close>

theorem queue_refines_scheduler:
  assumes "run_events wd evs (with_config n f) = Some q" "exec_event wd q ev = Some q'"
  shows "sstep\<^sup>*\<^sup>* (view q) (view q')"
  using exec_refines [OF run_events_ok [OF assms(1)] assms(2)] by blast

text \<open>
  C3: a cancel that applied sticks. Whatever happens afterwards - preemption, a resume sweep,
  another worker, a completing or panicking transfer - short of removing the slot, the entry never
  reads Complete, Failed or Paused again, and once no worker holds it, it reads Cancelled.
\<close>

theorem cancel_sticks:
  assumes "run_events wd evs (with_config n f) = Some q" "i < length (q_slots q)" "s_in_use (q_slots q ! i)"
    and "queue_cancel i q = (q1, True)" "run_events wd later q1 = Some q2" "Remove i \<notin> set later"
  shows "queue_state q2 i \<notin> {State.Complete, State.Failed, State.Paused}
    \<and> (\<not> is_active q2 i \<longrightarrow> queue_state q2 i = State.Cancelled)"
proof -
  have ok: "queue_ok q" by (rule run_events_ok [OF assms(1)])
  have "exec_event wd q (Cancel i) = Some q1" using assms(2,4) by (simp add: exec_event_def)
  then have ok1: "queue_ok q1" by (rule exec_ok [OF ok])
  have "cancelling i (view q1)"
    using queue_cancel_refines(2) [of q i] ok assms(2,3,4) by (simp add: queue_ok_def)
  from cancelling_run [OF ok1 assms(5,6) this] have c: "cancelling i (view q2)" .
  have "consistent q2" using run_events_ok_from [OF ok1 assms(5)] by (simp add: queue_ok_def)
  with c is_active_held [of q2 i] show ?thesis
    by (auto simp: cancelling_def queue_state_def split: if_splits)
qed

text \<open>
  C5: work is never stranded. As long as spawning succeeds and the start hook does not panic, a
  running queue that holds a pending or preempted entry has a worker armed to take it.
\<close>

theorem nothing_stranded:
  assumes "run_events wd evs (with_config n f) = Some q" "list_all smooth evs" "q_running q"
    and "i < length (q_slots q)" "s_in_use (q_slots q ! i)"
    and "queue_state q i = State.Pending \<or> queue_state q i = State.Preempted"
  shows "list_ex (\<lambda>b. b) (q_armed q)"
proof -
  have ok: "queue_ok q" by (rule run_events_ok [OF assms(1)])
  have aw: "awake (view q)" by (rule awake_run [OF with_config_ok with_config_awake assms(2,1)])
  have "vslot_of (q_slots q ! i) \<in> set (v_slots (view q))" using assms(4) by (simp add: view_def)
  moreover have "waiting (vslot_of (q_slots q ! i))" using assms(5,6) by (simp add: waiting_def queue_state_def)
  ultimately have "list_ex (\<lambda>y. y \<noteq> VOff) (v_workers (view q))"
    using aw assms(3) by (auto simp: awake_def list_ex_iff)
  then obtain w where w: "w < length (q_pcs q)" "vworker_of (q_pcs q ! w) \<noteq> VOff"
    by (auto simp: list_ex_length)
  then have "q_pcs q ! w \<noteq> Off" by (auto simp: vworker_of_def holding_def)
  with consistent_at [of q w] ok w show ?thesis by (auto simp: queue_ok_def list_ex_length)
qed

text \<open>
  With one worker, the slot it holds is in use and reads Downloading or Preempted in every
  reachable state, so it is neither claimed again nor handed to another request.
\<close>

theorem single_worker_exclusive:
  assumes "run_events wd evs (with_config 1 f) = Some q" "is_active q i"
  shows "i < length (q_slots q) \<and> s_in_use (q_slots q ! i)
    \<and> (queue_state q i = State.Downloading \<or> queue_state q i = State.Preempted)
    \<and> next_pending (snapshot_all q) \<noteq> Some i"
proof -
  have ok: "queue_ok q" by (rule run_events_ok [OF assms(1)])
  have so: "solo (view q)" by (rule solo_run [OF with_config_ok with_config_solo assms(1)])
  have h: "held (view q) i" using is_active_held [of q i] ok assms(2) by (simp add: queue_ok_def)
  have il: "i < length (v_slots (view q)) \<and> vu (v_slots (view q) ! i)"
    by (rule sched_inv_heldD [OF _ h]) (use ok in \<open>simp add: queue_ok_def\<close>)
  have i1: "i < length (q_slots q)" using il by simp
  with il have i: "i < length (q_slots q)" "s_in_use (q_slots q ! i)" by simp_all
  from so h have st: "slot_state (q_slots q ! i) = State.Downloading \<or> slot_state (q_slots q ! i) = State.Preempted"
    using i by (auto simp: solo_def held_def)
  have "next_pending (snapshot_all q) \<noteq> Some i"
  proof
    assume "next_pending (snapshot_all q) = Some i"
    from next_pending_SomeD [OF this] st i show False by (auto simp: snapshot_all_def is_pending_def)
  qed
  with i st show ?thesis by (simp add: queue_state_def)
qed

text \<open>
  C6: a worker settles an entry as Complete in two cases only: the cache already held a complete
  entry for the digest, or the transfer's own bytes passed every gate - they hash to the digest, the
  length is the one the request named, and the file on disk is not empty and hashes to it too.
\<close>

theorem completed_is_proven:
  assumes "work wd se de pe gone w q = Some q'" "w < length (q_pcs q)"
    and "q_pcs q' ! w = Settling i digest local State.Complete why evicting"
  shows "(\<exists>r. q_pcs q ! w = CheckingCache i r \<and> is_complete (w_root wd) (q_fs q) (sr_digest r))
    \<or> (\<exists>r bs d. q_pcs q ! w = Ended i r bs None \<and> download_of q w = Some d
         \<and> sha256 (w_lib wd) bs = as_bytes (sr_digest r)
         \<and> (sr_expected_size r = None \<or> sr_expected_size r = Some (snap_downloaded (progress d)))
         \<and> (\<exists>content. q_fs q (path_for (w_root wd) (sr_digest r)) = Some content \<and> content \<noteq> []
              \<and> sha256 (w_lib wd) content = as_bytes (sr_digest r)))"
proof (cases "q_pcs q ! w")
  case (CheckingCache j r)
  with assms show ?thesis
    by (auto simp: work_def check_cache_def Let_def split: if_splits)
next
  case (Ended j r bs oversize)
  then obtain d where d: "download_of q w = Some d"
    and q': "q' = end_transfer wd de gone w j r bs oversize d q"
    using assms(1) by (auto simp: work_def)
  have o: "oversize = None" "j = i"
    and v: "validate (w_lib wd) de (path_for (w_root wd) (sr_digest r)) (sr_digest r) (sr_expected_size r) bs
        (snap_downloaded (progress d)) (q_fs q) = None"
    using assms(2,3) by (auto simp: q' end_transfer_def Let_def split: option.splits Status.splits)
  from validate_passes [OF v] Ended d o show ?thesis by auto
next
  case (Prepared j r)
  then obtain d where "q' = hash_resumed wd de w j r d q" using assms(1) by (auto simp: work_def)
  with hash_resumed_fails [OF assms(2)] assms(3) have "State.Complete = State.Failed" by blast
  then show ?thesis by simp
next
  case (Streaming j r bs oversize)
  then obtain d where "q' = stream_turn pe w j r bs oversize d q" using assms(1) by (auto simp: work_def)
  with stream_turn_pc [OF assms(2)] assms(3) show ?thesis by metis
qed (use assms in \<open>auto simp: work_def begin_slot_def open_transfer_def recheck_cancel_def register_download_def
    carry_flags_def finish_fields Let_def split: option.splits prod.splits sum.splits if_splits\<close>)

text \<open>
  Bytes a completed or oversized transfer was refused for do not stay: with removals that
  succeed, the cache entry and its sidecar are gone when the worker settles, so nothing resumes
  onto them or serves them again.
\<close>

theorem refused_bytes_evicted:
  assumes "w < length (q_pcs q)"
    and "q_pcs (end_transfer wd de (True, True) w i r bs oversize d q) ! w
      = Settling i digest local State.Failed (Some why) None"
    and "\<forall>f. why \<noteq> TransferFailure f"
  shows "let f = q_fs (end_transfer wd de (True, True) w i r bs oversize d q)
    in f (path_for (w_root wd) (sr_digest r)) = None \<and> \<not> has_partial (w_root wd) f (sr_digest r)
      \<and> \<not> is_complete (w_root wd) f (sr_digest r)"
proof -
  have "q_fs (end_transfer wd de (True, True) w i r bs oversize d q)
      = evict (True, True) (w_root wd) (sr_digest r) (q_fs q)"
    using assms by (auto simp: end_transfer_def Let_def split: option.splits Status.splits)
  with evict_gone [of "w_root wd" "sr_digest r" "q_fs q"] show ?thesis
    by (simp add: has_partial_def is_complete_def is_complete_at_def)
qed

section \<open>Concrete runs\<close>

definition sample_world :: world where
  "sample_world = \<lparr>w_lib = sample_lib, w_root = ''c'', w_agents = agents_new\<rparr>"

definition spawns :: threads where "spawns = \<lparr>spawn_ok = \<lambda>_. True, finished = \<lambda>_. False\<rparr>"

definition artifact :: "u8 \<Rightarrow> Priority \<Rightarrow> queue_request" where
  "artifact b p = \<lparr>qr_url = sample_url, qr_digest = ArtifactDigest (replicate 32 b),
     qr_expected_size = None, qr_priority = p\<rparr>"

definition readable :: disk_env where "readable = \<lparr>opens = True, reads = \<lambda>_. Some 1\<rparr>"

definition step_of :: "nat \<Rightarrow> event" where
  "step_of w = Work w sample_setup readable (sample_poll []) (True, True)"

text \<open>
  Two workers, each on a background entry; a user request preempts the second entry and is
  cancelled; the first worker settles and sweeps while the second still holds the preempted entry.
\<close>

definition two_claims :: "event list" where
  "two_claims = [Push spawns (artifact 1 Background) 1, Drain 0 spawns,
     Push spawns (artifact 2 Background) 2, Drain 1 spawns, Push spawns (artifact 3 User) 3,
     Cancel 2, Cancel 0, step_of 0, step_of 0, Drain 0 spawns]
     @ replicate 5 (step_of 1) @ replicate 5 (step_of 0)"


definition one_push :: "event list" where
  "one_push = [Push spawns (artifact 1 Background) 1, Drain 0 spawns]"

definition after :: "event list \<Rightarrow> queue" where
  "after evs = the (run_events sample_world evs (with_config 1 (\<lambda>_. None)))"

lemma one_push_run: "run_events sample_world one_push (with_config 1 (\<lambda>_. None)) = Some (after one_push)"
proof -
  have "\<not> Option.is_none (run_events sample_world one_push (with_config 1 (\<lambda>_. None)))" by code_simp
  then show ?thesis by (auto simp: after_def Option.is_none_def)
qed

lemma one_push_facts:
  "length (q_slots (after one_push)) = 32" "s_in_use (q_slots (after one_push) ! 0)"
  "snd (queue_cancel 0 (after one_push))" "is_active (after one_push) 0" "q_running (after one_push)"
  by code_simp+

theorem queue_refines_scheduler_witness:
  "sstep\<^sup>*\<^sup>* (view (after one_push)) (view (queue_drop (after one_push)))"
  by (rule queue_refines_scheduler [OF one_push_run, of DropQueue]) (simp add: exec_event_def)

definition cancelled_run :: "queue option" where
  "cancelled_run = run_events sample_world [step_of 0, step_of 0, Drain 0 spawns]
     (fst (queue_cancel 0 (after one_push)))"

theorem cancel_sticks_witness: "queue_state (the cancelled_run) 0 = State.Cancelled"
proof -
  have "\<not> Option.is_none cancelled_run" by code_simp
  then have run: "run_events sample_world [step_of 0, step_of 0, Drain 0 spawns]
      (fst (queue_cancel 0 (after one_push))) = Some (the cancelled_run)"
    by (auto simp: cancelled_run_def Option.is_none_def)
  have c: "queue_cancel 0 (after one_push) = (fst (queue_cancel 0 (after one_push)), True)"
    using one_push_facts(3) by (simp add: prod_eq_iff)
  have "\<not> is_active (the cancelled_run) 0" by code_simp
  with cancel_sticks [OF one_push_run _ one_push_facts(2) c run] one_push_facts(1)
  show ?thesis by (simp add: step_of_def)
qed

theorem nothing_stranded_witness: "list_ex (\<lambda>b. b) (q_armed (after [Push spawns (artifact 1 Background) 1]))"
proof -
  let ?evs = "[Push spawns (artifact 1 Background) 1]"
  have "\<not> Option.is_none (run_events sample_world ?evs (with_config 1 (\<lambda>_. None)))" by code_simp
  then have run: "run_events sample_world ?evs (with_config 1 (\<lambda>_. None)) = Some (after ?evs)"
    by (auto simp: after_def Option.is_none_def)
  have "list_all smooth ?evs" by (simp add: smooth_def spawns_def)
  moreover have "q_running (after ?evs)" "0 < length (q_slots (after ?evs))"
    "s_in_use (q_slots (after ?evs) ! 0)" "queue_state (after ?evs) 0 = State.Pending" by code_simp+
  ultimately show ?thesis using nothing_stranded [OF run, of 0] by blast
qed

theorem single_worker_exclusive_witness: "next_pending (snapshot_all (after one_push)) \<noteq> Some 0"
  using single_worker_exclusive [OF one_push_run one_push_facts(4)] by blast

text \<open>A worker about to settle the sample artifact, which its server delivered in full.\<close>

definition sample_slot_request :: slot_request where
  "sample_slot_request = \<lparr>sr_url = sample_url, sr_digest = ArtifactDigest ([1, 2, 3] @ replicate 29 0),
     sr_expected_size = Some 3\<rparr>"

definition finished_dl :: download where
  "finished_dl = set_status Status.Complete (run_dl\<lparr>d_progress_total := 3\<rparr>)"

definition at_end :: "bytes \<Rightarrow> queue" where
  "at_end bs = (with_config 1 (\<lambda>p. Some bs))
     \<lparr>q_pcs := [Ended 0 sample_slot_request [1, 2, 3] None],
      q_active := [\<lparr>a_slot = Some 0, a_download = Some finished_dl\<rparr>]\<rparr>"

lemma finished_progress: "snap_downloaded (progress finished_dl) = 3" "snap_status (progress finished_dl) = Status.Complete"
  by code_simp+

lemma sample_hashes: "sha256 sample_lib [1, 2, 3] = as_bytes (sr_digest sample_slot_request)"
  "sha256 sample_lib [9] \<noteq> as_bytes (sr_digest sample_slot_request)"
  by code_simp+

lemma at_end_validates:
  "validate sample_lib readable path (sr_digest sample_slot_request) (Some 3) [1, 2, 3] 3 (\<lambda>p. Some [1, 2, 3]) = None"
  "validate sample_lib readable path (sr_digest sample_slot_request) (Some 3) [1, 2, 3] 3 (\<lambda>p. Some [9])
     = Some (DiskDigest (hex_encode sample_lib (sha256 sample_lib [9])))"
  using hash_file_reads [of readable "\<lambda>p. Some [1, 2, 3]" path "[1, 2, 3]" sample_lib]
    hash_file_reads [of readable "\<lambda>p. Some [9]" path "[9]" sample_lib] sample_hashes
  by (simp_all add: validate_def verify_on_disk_def Let_def readable_def)

theorem completed_is_proven_witness:
  "\<exists>content. q_fs (at_end [1, 2, 3]) (path_for ''c'' (sr_digest sample_slot_request)) = Some content
     \<and> sha256 sample_lib content = as_bytes (sr_digest sample_slot_request)"
proof -
  let ?q = "at_end [1, 2, 3]"
  let ?q' = "end_transfer sample_world readable (True, True) 0 0 sample_slot_request [1, 2, 3] None finished_dl ?q"
  have w: "work sample_world sample_setup readable (sample_poll []) (True, True) 0 ?q = Some ?q'"
    by (simp add: work_def at_end_def download_of_def)
  have l: "0 < length (q_pcs ?q)" by (simp add: at_end_def)
  have p: "q_pcs ?q' ! 0 = Settling 0 (Some (sr_digest sample_slot_request)) None State.Complete None None"
    using at_end_validates(1) l
    by (simp add: end_transfer_def Let_def finished_progress sample_world_def)
       (simp add: at_end_def sample_slot_request_def with_config_def Let_def)
  from completed_is_proven [OF w l p] show ?thesis by (auto simp: at_end_def sample_world_def)
qed

theorem refused_bytes_evicted_witness:
  "q_fs (end_transfer sample_world readable (True, True) 0 0 sample_slot_request [1, 2, 3] None finished_dl
     (at_end [9])) (path_for ''c'' (sr_digest sample_slot_request)) = None"
proof -
  let ?q = "at_end [9]"
  let ?q' = "end_transfer sample_world readable (True, True) 0 0 sample_slot_request [1, 2, 3] None finished_dl ?q"
  let ?why = "DiskDigest (hex_encode sample_lib (sha256 sample_lib [9]))"
  have l: "0 < length (q_pcs ?q)" by (simp add: at_end_def)
  have p: "q_pcs ?q' ! 0 = Settling 0 (Some (sr_digest sample_slot_request)) None State.Failed (Some ?why) None"
    using at_end_validates(2) l
    by (simp add: end_transfer_def Let_def finished_progress sample_world_def)
       (simp add: at_end_def sample_slot_request_def with_config_def Let_def)
  from refused_bytes_evicted [OF l p] show ?thesis by (simp add: Let_def sample_world_def)
qed

end
