(* ===== verification/Queue_Frame.thy ===== *)
theory Queue_Frame
  imports Queue_Props
begin

text \<open>
  What the workers of the transfer queue may write: the cache entries and their sidecars, and nothing
  else. Every transfer a worker holds has its destination among the cache entries, whatever the
  sequence of calls and worker steps.
\<close>

section \<open>Files of the cache\<close>

definition cache_file :: "string \<Rightarrow> string \<Rightarrow> bool" where
  "cache_file root p \<longleftrightarrow> (\<exists>d. p = path_for root d \<or> p = sidecar_path (path_for root d))"

definition same_outside :: "string \<Rightarrow> fs \<Rightarrow> fs \<Rightarrow> bool" where
  "same_outside root f f' \<longleftrightarrow> (\<forall>p. \<not> cache_file root p \<longrightarrow> f' p = f p)"

definition in_cache :: "string \<Rightarrow> download \<Rightarrow> bool" where
  "in_cache root d \<longleftrightarrow> (\<exists>dg. x_path (d_xfer d) = path_for root dg)"

lemma same_outside_refl [simp]: "same_outside root f f"
  by (simp add: same_outside_def)

lemma same_outside_trans: "same_outside root f g \<Longrightarrow> same_outside root g h \<Longrightarrow> same_outside root f h"
  by (simp add: same_outside_def)

text \<open>A transfer only ever touches its own file and that file's sidecar.\<close>

definition touches :: "string \<Rightarrow> fs \<Rightarrow> fs \<Rightarrow> bool" where
  "touches path f f' \<longleftrightarrow> (\<forall>p. p \<noteq> path \<and> p \<noteq> sidecar_path path \<longrightarrow> f' p = f p)"

lemma touches_refl [simp]: "touches path f f"
  by (simp add: touches_def)

lemma touches_trans: "touches path f g \<Longrightarrow> touches path g h \<Longrightarrow> touches path f h"
  by (simp add: touches_def)

lemma touches_writes [simp]:
  "touches path f (remove_file ok path f)" "touches path f (meta_delete ok path f)"
  "touches path f (meta_write w path m f)" "touches path f (append_file a path new f)"
  "touches path f (f(path := c))"
  by (auto simp: touches_def remove_file_def meta_delete_def meta_write_def write_file_def append_file_def
      split: landing.split option.split)

lemma touches_removals [simp]:
  "touches path f (meta_delete ok path (remove_file ok' path f))"
  "touches path f (remove_file ok' path (meta_delete ok path f))"
  by (rule touches_trans, rule touches_writes, rule touches_writes)+

lemma touches_save_meta [simp]: "touches (x_path x) f (save_meta w x f)"
  by (simp add: save_meta_def split: option.split)

lemma touches_outside: "touches (path_for root dg) f f' \<Longrightarrow> same_outside root f f'"
  by (auto simp: touches_def same_outside_def cache_file_def)

lemma evict_outside: "same_outside root f (evict gone root dg f)"
  unfolding evict_def by (rule touches_outside [of _ dg]) simp

lemma touches_start_fresh: "start_fresh e a path url f = (r, f') \<Longrightarrow> touches path f f'"
  by (auto simp: start_fresh_def Let_def split: if_splits)

lemma touches_start:
  "start_download e a path url res f = (r, f') \<Longrightarrow> touches path f f'"
proof -
  assume s: "start_download e a path url res f = (r, f')"
  let ?g = "remove_file (s_remove_file e) path (meta_delete (s_remove_meta e) path f)"
  have "touches path f (snd (start_fresh e a path url g))" if "touches path f g" for g
    using touches_trans [OF that touches_start_fresh [of e a path url g]] by (metis prod.collapse)
  from this [of f] this [of ?g] have "touches path f (snd (prepare e a path url res f))"
    by (simp add: prepare_def split: option.split)
  with s show ?thesis by (auto simp: start_download_def split: if_splits prod.splits sum.splits)
qed

text \<open>One poll keeps the path and touches only that.\<close>

definition poll_frame :: "download \<times> fs \<Rightarrow> download \<times> fs \<Rightarrow> bool" where
  "poll_frame s s' \<longleftrightarrow> x_path (d_xfer (fst s')) = x_path (d_xfer (fst s))
     \<and> touches (x_path (d_xfer (fst s))) (snd s) (snd s')"

lemma poll_frame_trans: "poll_frame s t \<Longrightarrow> poll_frame t u \<Longrightarrow> poll_frame s u"
  by (auto simp: poll_frame_def intro: touches_trans)

lemma path_simps [simp]:
  "x_path (d_xfer (close_file d)) = x_path (d_xfer d)" "x_path (d_xfer (fail w n d)) = x_path (d_xfer d)"
  "x_path (d_xfer (set_status s d)) = x_path (d_xfer d)" "x_path (d_xfer (request_pause d)) = x_path (d_xfer d)"
  "x_path (d_xfer (request_cancel d)) = x_path (d_xfer d)"
  by (simp_all add: close_file_def fail_def set_status_def request_pause_def request_cancel_def)

lemma discard_frame: "poll_frame s (discard e s)"
  by (cases s) (simp add: discard_def poll_frame_def)

lemma start_transfer_frame: "poll_frame s (snd (start_transfer e s))"
  by (cases s) (auto simp: start_transfer_def poll_frame_def discard_def Let_def split: option.split)

lemma finalize_frame: "poll_frame s (finalize_complete e s)"
  by (cases s) (simp add: finalize_complete_def poll_frame_def Let_def)

lemma read_body_frame: "poll_frame s (snd (read_body e n s))"
  using finalize_frame [of s e]
  by (cases s) (auto simp: read_body_def poll_frame_def Let_def split: option.split list.split)

lemma read_cached_path: "read_cached e n d = (c, d') \<Longrightarrow> x_path (d_xfer d') = x_path (d_xfer d)"
  by (auto simp: read_cached_def Let_def split: option.splits if_splits)

lemma read_chunk_frame: "poll_frame s (snd (read_chunk e n s))"
proof (cases s)
  case (Pair d f)
  obtain ok t where st: "start_transfer e s = (ok, t)" by (cases "start_transfer e s")
  have "poll_frame s t" using start_transfer_frame [of s e] st by simp
  moreover from this have "poll_frame s (snd (read_body e n t))"
    by (rule poll_frame_trans [OF _ read_body_frame])
  ultimately show ?thesis
    using st Pair read_body_frame [of s e n] discard_frame [of s e] read_cached_path [of e n d]
    by (auto simp: read_chunk_def Let_def poll_frame_def split: prod.splits)
qed

lemma drop_touches: "touches (x_path (d_xfer d)) f (drop_download e (d, f))"
  by (simp add: drop_download_def)

section \<open>Every held transfer is in the cache\<close>

definition pcs_in :: "string \<Rightarrow> pc list \<Rightarrow> bool" where
  "pcs_in root ps \<longleftrightarrow> list_all (\<lambda>p. pred_option (in_cache root) (local_download p)) ps"

definition active_in :: "string \<Rightarrow> active list \<Rightarrow> bool" where
  "active_in root as \<longleftrightarrow> list_all (\<lambda>a. pred_option (in_cache root) (a_download a)) as"

definition held_in_cache :: "string \<Rightarrow> queue \<Rightarrow> bool" where
  "held_in_cache root q \<longleftrightarrow> pcs_in root (q_pcs q) \<and> active_in root (q_active q)"

lemma list_all_update: "list_all P xs \<Longrightarrow> P x \<Longrightarrow> list_all P (xs[i := x])"
  by (auto simp: list_all_iff dest: set_update_subset_insert [THEN subsetD])

lemma pcs_in_update [intro]:
  "pcs_in root ps \<Longrightarrow> pred_option (in_cache root) (local_download p) \<Longrightarrow> pcs_in root (ps[w := p])"
  unfolding pcs_in_def by (rule list_all_update)

lemma active_in_update [intro]:
  "active_in root as \<Longrightarrow> pred_option (in_cache root) (a_download a) \<Longrightarrow> active_in root (as[w := a])"
  unfolding active_in_def by (rule list_all_update)

lemma active_in_nth: "active_in root as \<Longrightarrow> w < length as \<Longrightarrow> pred_option (in_cache root) (a_download (as ! w))"
  by (simp add: active_in_def list_all_length)

lemma pcs_in_nth: "pcs_in root ps \<Longrightarrow> w < length ps \<Longrightarrow> pred_option (in_cache root) (local_download (ps ! w))"
  by (simp add: pcs_in_def list_all_length)

lemma in_cache_flags [simp]:
  "in_cache root (request_pause d) = in_cache root d" "in_cache root (request_cancel d) = in_cache root d"
  by (simp_all add: in_cache_def)

text \<open>Updates of an active worker's record that keep its transfer in the cache, out of range included.\<close>

lemma active_in_change:
  assumes "active_in root as" "\<And>a. pred_option (in_cache root) (a_download a) \<Longrightarrow> pred_option (in_cache root) (a_download (g a))"
  shows "active_in root (as[w := g (as ! w)])"
proof (cases "w < length as")
  case True
  with assms active_in_nth show ?thesis by blast
next
  case False
  with assms(1) show ?thesis by (simp add: not_less list_update_beyond)
qed

lemma pred_option_map: "pred_option P x \<Longrightarrow> (\<And>d. P d \<Longrightarrow> P (g d)) \<Longrightarrow> pred_option P (map_option g x)"
  by (cases x) simp_all

lemma held_upd_slot [simp]: "held_in_cache root (upd_slot i g q) = held_in_cache root q"
  by (simp add: held_in_cache_def upd_slot_def)

lemma held_set_pc: "held_in_cache root q \<Longrightarrow> pred_option (in_cache root) (local_download p) \<Longrightarrow> held_in_cache root (set_pc w p q)"
  by (auto simp: held_in_cache_def set_pc_def)

lemma held_upd_download:
  "held_in_cache root q \<Longrightarrow> (\<And>d. in_cache root d \<Longrightarrow> in_cache root (g d)) \<Longrightarrow> held_in_cache root (upd_download w g q)"
  by (auto simp: held_in_cache_def upd_download_def intro!: active_in_change pred_option_map)

lemma held_with_download_for:
  "held_in_cache root q \<Longrightarrow> (\<And>d. in_cache root d \<Longrightarrow> in_cache root (g d)) \<Longrightarrow> held_in_cache root (with_download_for i g q)"
  by (auto simp: with_download_for_def intro: held_upd_download split: option.split)

lemma held_request_pause: "held_in_cache root q \<Longrightarrow> held_in_cache root (request_pause_slot i q)"
  unfolding request_pause_slot_def by (rule held_with_download_for) simp_all

lemma held_other [simp]:
  "held_in_cache root (q\<lparr>q_fs := f\<rparr>) = held_in_cache root q"
  "held_in_cache root (q\<lparr>q_slots := ss\<rparr>) = held_in_cache root q"
  "held_in_cache root (q\<lparr>q_armed := as\<rparr>) = held_in_cache root q"
  "held_in_cache root (q\<lparr>q_handles := hs\<rparr>) = held_in_cache root q"
  by (simp_all add: held_in_cache_def)

lemma fs_other [simp]:
  "q_fs (upd_slot i g q) = q_fs q" "q_fs (set_pc w p q) = q_fs q" "q_fs (upd_download w h q) = q_fs q"
  "q_fs (with_download_for i h q) = q_fs q" "q_fs (request_pause_slot i q) = q_fs q"
  by (simp_all add: upd_slot_def set_pc_def upd_download_def with_download_for_def request_pause_slot_def split: option.split)

lemma held_spawn: "held_in_cache root q \<Longrightarrow> held_in_cache root (spawn_from t ws q) \<and> q_fs (spawn_from t ws q) = q_fs q"
proof (induction ws arbitrary: q)
  case (Cons w ws)
  have "held_in_cache root (set_pc w Looping (q\<lparr>q_handles := q_handles q @ [w], q_armed := (q_armed q)[w := True]\<rparr>))"
    by (rule held_set_pc) (use Cons.prems in \<open>simp_all add: held_in_cache_def local_download_def\<close>)
  with Cons show ?case by simp
qed simp

lemma held_arm: "held_in_cache root q \<Longrightarrow> held_in_cache root (arm_workers t q) \<and> q_fs (arm_workers t q) = q_fs q"
  using held_spawn [of root "reap t q" t "[0..<q_workers q]"]
  by (auto simp: arm_workers_def reap_def)

section \<open>Every step\<close>

definition frame_step :: "string \<Rightarrow> queue \<Rightarrow> queue \<Rightarrow> bool" where
  "frame_step root q q' \<longleftrightarrow> held_in_cache root q' \<and> same_outside root (q_fs q) (q_fs q')"

lemma frame_pure: "held_in_cache root q' \<Longrightarrow> q_fs q' = q_fs q \<Longrightarrow> frame_step root q q'"
  by (simp add: frame_step_def)

lemma frame_push: "held_in_cache root q \<Longrightarrow> frame_step root q (fst (queue_push t req now q))"
proof (cases "position (\<lambda>s. \<not> s_in_use s) (q_slots q)")
  case (Some i)
  assume h: "held_in_cache root q"
  let ?q1 = "upd_slot i (fill_slot req now) q"
  have "held_in_cache root ?q1" using h by simp
  moreover have "held_in_cache root (request_pause_slot v (upd_slot v g ?q1))"
    "q_fs (request_pause_slot v (upd_slot v g ?q1)) = q_fs q" for v g
    using h by (auto intro!: held_request_pause)
  ultimately show ?thesis
    using Some held_arm [of root _ t]
    by (intro frame_pure) (auto simp: queue_push_def Let_def split: option.split prod.split)
qed (simp add: queue_push_def frame_step_def)

lemma frame_cancel: "held_in_cache root q \<Longrightarrow> frame_step root q (fst (queue_cancel i q))"
  by (intro frame_pure)
     (auto simp: queue_cancel_def Let_def intro!: held_with_download_for split: prod.split bool.split)

lemma frame_pause: "held_in_cache root q \<Longrightarrow> frame_step root q (fst (queue_pause i q))"
  by (intro frame_pure) (auto simp: queue_pause_def intro: held_request_pause)

lemma frame_resume: "held_in_cache root q \<Longrightarrow> frame_step root q (fst (queue_resume t i q))"
  using held_arm [of root _ t]
  by (intro frame_pure) (auto simp: queue_resume_def split: prod.split bool.split)

lemma frame_remove: "held_in_cache root q \<Longrightarrow> frame_step root q (fst (queue_remove i q))"
  by (intro frame_pure) (auto simp: queue_remove_def split: prod.split bool.split)

lemma frame_drop: "held_in_cache root q \<Longrightarrow> frame_step root q (queue_drop q)"
  by (intro frame_pure)
     (auto simp: queue_drop_def held_in_cache_def active_in_def list_all_iff intro!: pred_option_map)

lemma held_retire: "held_in_cache root q \<Longrightarrow> held_in_cache root (retire w q) \<and> q_fs (retire w q) = q_fs q"
  by (auto simp: retire_def local_download_def intro!: held_set_pc)

lemma held_claim: "held_in_cache root q \<Longrightarrow> held_in_cache root (claim w i q) \<and> q_fs (claim w i q) = q_fs q"
  by (auto simp: claim_def local_download_def intro!: held_set_pc)
     (auto simp: held_in_cache_def upd_slot_def intro!: active_in_change)

lemma held_resume_preempted:
  "held_in_cache root (resume_preempted q) = held_in_cache root q" "q_fs (resume_preempted q) = q_fs q"
  by (simp_all add: resume_preempted_def)

lemma frame_drain: "held_in_cache root q \<Longrightarrow> frame_step root q (drain_turn t w q)"
  using held_retire [of root q w] held_retire [of root "resume_preempted q" w]
    held_claim [of root "resume_preempted q" w] held_arm [of root _ t]
  by (intro frame_pure) (auto simp: drain_turn_def Let_def held_resume_preempted split: option.split)

lemma active_default_in: "active_in root as \<Longrightarrow> active_in root (as[w := active_default])"
  by (rule active_in_update) (simp_all add: active_default_def)

lemma frame_release: "held_in_cache root q \<Longrightarrow> frame_step root q (release_worker w q)"
  by (intro frame_pure)
     (auto simp: release_worker_def Let_def local_download_def held_in_cache_def active_default_in
        intro!: held_set_pc split: option.split)

lemma frame_finish:
  assumes "held_in_cache root q" "w < length (q_active q)" "pred_option (in_cache root) local"
  shows "frame_step root q (finish wd e w i digest local st why q)"
proof -
  have a: "pred_option (in_cache root) (a_download (q_active q ! w))"
    using assms(1,2) active_in_nth by (simp add: held_in_cache_def)
  have "held_in_cache root (upd_slot i (settle_slot wd digest st why) (q\<lparr>q_active := (q_active q)[w := active_default]\<rparr>))"
    using assms(1) by (simp add: held_in_cache_def active_default_in)
  moreover have "same_outside root (q_fs q) (drop_download e (d, q_fs q))" if "in_cache root d" for d
    using that drop_touches [of d "q_fs q" e] by (metis in_cache_def touches_outside)
  ultimately show ?thesis
    using a assms(3) by (cases "local"; cases "a_download (q_active q ! w)")
      (auto simp: finish_def Let_def frame_step_def)
qed

lemma read_chunk_in:
  assumes "in_cache root d" "read_chunk e n (d, f) = (c, d', f')"
  shows "in_cache root d' \<and> same_outside root f f'"
  using assms read_chunk_frame [of "(d, f)" e n]
  by (auto simp: poll_frame_def in_cache_def intro: touches_outside)

lemma frame_stream:
  assumes "held_in_cache root q" "in_cache root d"
  shows "frame_step root q (stream_turn e w i r digest oversize d q)"
proof -
  obtain c d' f where c: "read_chunk e CHUNK_SIZE (d, q_fs q) = (c, d', f)" by (metis prod.collapse)
  note rc = read_chunk_in [OF assms(2) c]
  let ?q1 = "upd_slot i (store_progress (progress d')) ((upd_download w (\<lambda>_. d') q)\<lparr>q_fs := f\<rparr>)"
  have "held_in_cache root ?q1" using assms(1) rc by (auto intro: held_upd_download)
  then have "held_in_cache root (set_pc w (Streaming i r g o') ?q1)" "held_in_cache root (set_pc w (Ended i r g o') ?q1)"
    "held_in_cache root (set_pc w (Streaming i r g o') (upd_download w request_cancel ?q1))" for g o'
    by (auto intro!: held_set_pc held_upd_download simp: local_download_def)
  with c rc show ?thesis
    by (auto simp: stream_turn_def frame_step_def Let_def split: Chunk.split option.split)
qed

lemma frame_end:
  assumes "held_in_cache root q" "root = w_root wd"
  shows "frame_step root q (end_transfer wd e gone w i r digest oversize d q)"
proof -
  have "held_in_cache root (set_pc w (Settling i dg None st why None) (q\<lparr>q_fs := f\<rparr>))"
    "held_in_cache root (set_pc w (Settling i dg None st why None) q)" for dg st why f
    using assms(1) by (auto intro!: held_set_pc simp: local_download_def)
  then show ?thesis
    by (auto simp: end_transfer_def frame_step_def Let_def assms(2) evict_outside
        split: option.split Status.split)
qed

lemma frame_open:
  assumes "held_in_cache root q" "root = w_root wd"
  shows "frame_step root q (open_transfer wd e w i r q)"
proof -
  obtain res f where o: "transport_download e (w_agents wd) root (sr_url r) (sr_digest r) True (q_fs q) = (res, f)"
    by fastforce
  have "touches (path_for root (sr_digest r)) (q_fs q) f"
    using o touches_start unfolding transport_download_def by blast
  moreover have "in_cache root d" if "res = Inr d" for d
    using o that unfolding transport_download_def start_download_def
    by (auto simp: in_cache_def from_setup_def new_xfer_def Let_def
        split: if_splits prod.splits sum.splits Setup.splits)
  ultimately show ?thesis
    using assms o
    by (auto simp: open_transfer_def frame_step_def local_download_def touches_outside
        intro!: held_set_pc split: sum.split)
qed

lemma consistent_lengths: "consistent q \<Longrightarrow> length (q_active q) = length (q_pcs q)"
  unfolding consistent_def by (metis length_map)

lemma frame_work:
  assumes h: "held_in_cache (w_root wd) q" and c: "consistent q" and w: "w < length (q_pcs q)"
    and s: "work wd se de pe gone w q = Some q'"
  shows "frame_step (w_root wd) q q'"
proof -
  have wa: "w < length (q_active q)" using c w by (simp add: consistent_lengths)
  have dl: "in_cache (w_root wd) d" if "download_of q w = Some d" for d
    using active_in_nth [of "w_root wd" "q_active q" w] h wa that by (auto simp: held_in_cache_def download_of_def)
  have loc: "pred_option (in_cache (w_root wd)) (local_download (q_pcs q ! w))"
    using h w pcs_in_nth by (simp add: held_in_cache_def)
  have keep: "frame_step (w_root wd) q (set_pc w p q)" if "pred_option (in_cache (w_root wd)) (local_download p)" for p
    using held_set_pc [OF h that] by (simp add: frame_pure)
  show ?thesis
  proof (cases "q_pcs q ! w")
    case (Claimed i)
    with s keep show ?thesis by (auto simp: work_def begin_slot_def local_download_def split: option.split)
  next
    case (CheckingCache i r)
    with s h show ?thesis
      by (auto simp: work_def check_cache_def Let_def local_download_def frame_step_def intro!: held_set_pc)
  next
    case (Opening i r)
    with s frame_open [OF h refl] show ?thesis by (auto simp: work_def)
  next
    case (Opened i r d)
    with s keep loc show ?thesis by (auto simp: work_def recheck_cancel_def local_download_def)
  next
    case (Registering i r d)
    have "held_in_cache (w_root wd) (q\<lparr>q_active := (q_active q)[w := (q_active q ! w)\<lparr>a_download := Some d\<rparr>]\<rparr>)"
      using h loc Registering by (auto simp: held_in_cache_def local_download_def)
    with s Registering show ?thesis
      by (auto simp: work_def register_download_def local_download_def frame_step_def intro!: held_set_pc)
  next
    case (Registered i r)
    have "held_in_cache (w_root wd) (upd_download w request_cancel q)"
      "held_in_cache (w_root wd) (upd_download w request_pause q)"
      "held_in_cache (w_root wd) (upd_download w request_pause (upd_download w request_cancel q))"
      using h by (auto intro!: held_upd_download)
    with s h Registered show ?thesis
      by (auto simp: work_def carry_flags_def Let_def local_download_def frame_step_def intro!: held_set_pc)
  next
    case (Prepared i r)
    with s keep dl show ?thesis
      by (auto simp: work_def hash_resumed_def Let_def local_download_def split: prod.split bool.split)
  next
    case (Streaming i r g v)
    with s frame_stream [OF h dl] show ?thesis by (auto simp: work_def)
  next
    case (Ended i r g v)
    then obtain d where "q' = end_transfer wd de gone w i r g v d q" using s by (auto simp: work_def)
    with frame_end [OF h refl] show ?thesis by (simp only:)
  next
    case (Settling i dg loc' st why evicting)
    have "pred_option (in_cache (w_root wd)) loc'" using loc Settling by (simp add: local_download_def)
    from frame_finish [OF h wa this, of wd pe i dg st why]
    have fin: "frame_step (w_root wd) q (finish wd pe w i dg loc' st why q)" .
    with s Settling show ?thesis
      by (auto simp: work_def Let_def local_download_def frame_step_def intro!: held_set_pc
          intro: same_outside_trans [OF _ evict_outside] split: option.split)
  qed (use s in \<open>simp_all add: work_def\<close>)
qed

lemma frame_exec:
  assumes h: "held_in_cache (w_root wd) q" and c: "consistent q" and s: "exec_event wd q ev = Some q'"
  shows "frame_step (w_root wd) q q'"
proof (cases ev)
  case (Push t req now)
  with s frame_push [OF h] show ?thesis by (auto simp: exec_event_def)
next
  case (WorkPanic w pe)
  then obtain i where w: "w < length (q_pcs q)" and q': "q' = set_pc w Looping
      (finish wd pe w i None (local_download (q_pcs q ! w)) State.Failed (Some Panicked) q)"
    using s by (auto simp: exec_event_def split: if_splits option.splits)
  have "w < length (q_active q)" using c w by (simp add: consistent_lengths)
  moreover have "pred_option (in_cache (w_root wd)) (local_download (q_pcs q ! w))"
    using h w pcs_in_nth by (simp add: held_in_cache_def)
  ultimately have "frame_step (w_root wd) q
      (finish wd pe w i None (local_download (q_pcs q ! w)) State.Failed (Some Panicked) q)"
    by (rule frame_finish [OF h])
  then show ?thesis unfolding q' frame_step_def by (auto simp: local_download_def intro!: held_set_pc)
qed (use s frame_cancel [OF h] frame_pause [OF h] frame_resume [OF h] frame_remove [OF h] frame_drop [OF h]
    frame_drain [OF h] frame_release [OF h] frame_work [OF h c] in \<open>auto simp: exec_event_def split: if_splits\<close>)

text \<open>The reachable states again, now with what they may have written.\<close>

lemma held_init: "held_in_cache root (with_config n f)"
  by (auto simp: held_in_cache_def pcs_in_def active_in_def with_config_def Let_def list_all_iff
      local_download_def active_default_def)

lemma run_events_frame:
  "queue_ok q \<Longrightarrow> held_in_cache (w_root wd) q \<Longrightarrow> run_events wd evs q = Some q' \<Longrightarrow> frame_step (w_root wd) q q'"
proof (induction evs arbitrary: q)
  case Nil
  then show ?case by (simp add: frame_step_def)
next
  case (Cons ev evs)
  then obtain q1 where q1: "exec_event wd q ev = Some q1" "run_events wd evs q1 = Some q'"
    by (auto split: option.splits)
  have f1: "frame_step (w_root wd) q q1"
    using Cons.prems(1,2) q1(1) frame_exec by (simp add: queue_ok_def)
  from Cons.IH [OF exec_ok [OF Cons.prems(1) q1(1)] _ q1(2)] f1 show ?case
    by (auto simp: frame_step_def intro: same_outside_trans)
qed

section \<open>Apart from the cache\<close>

lemma digest_string_clean: "CHR ''/'' \<notin> set (digest_to_string d)"
proof
  assume "CHR ''/'' \<in> set (digest_to_string d)"
  then have "CHR ''/'' \<in> set (to_hex (as_bytes d))" by (simp add: digest_to_string_hex)
  then have "is_lower_hex (CHR ''/'')" using to_hex_lower by blast
  then show False by (simp add: is_lower_hex_def hex_digits_def)
qed

lemma cache_file_beneath: "cache_file root p \<Longrightarrow> starts_with (path_join root []) p"
proof -
  assume "cache_file root p"
  then obtain d where "p = path_for root d \<or> p = sidecar_path (path_for root d)" unfolding cache_file_def by blast
  moreover have "\<exists>x. path_for root d = path_join root [] @ x"
    using digest_string_clean [of d] by (cases "digest_to_string d") (auto simp: path_for_def path_join_def)
  ultimately show ?thesis by (auto simp: starts_with_def sidecar_path_def)
qed

text \<open>
  Transfers stay in the download cache: over every sequence of calls and worker steps, panics
  included, a file that does not lie beneath the cache directory is exactly as it was.
\<close>

theorem transfers_stay_in_cache:
  assumes "run_events wd evs (with_config n f) = Some q" "\<not> starts_with (path_join (w_root wd) []) p"
  shows "q_fs q p = f p"
proof -
  have "q_fs (with_config n f) = f" by (simp add: with_config_def Let_def)
  with run_events_frame [OF with_config_ok held_init assms(1)] assms(2) cache_file_beneath
  show ?thesis unfolding frame_step_def same_outside_def by metis
qed

theorem transfers_stay_in_cache_witness:
  "q_fs (the (run_events sample_world (one_push @ [step_of 0, step_of 0, step_of 0])
     (with_config 1 [''i/a.generation.json'' \<mapsto> [7]]))) ''i/a.generation.json'' = Some [7]"
proof -
  let ?r = "run_events sample_world (one_push @ [step_of 0, step_of 0, step_of 0])
     (with_config 1 [''i/a.generation.json'' \<mapsto> [7]])"
  have "\<not> Option.is_none ?r" by code_simp
  then have "?r = Some (the ?r)" by (cases ?r) simp_all
  from transfers_stay_in_cache [OF this, of "''i/a.generation.json''"] show ?thesis
    by (simp add: sample_world_def path_join_def starts_with_def)
qed

end
