(* ===== verification/Apply.thy ===== *)
theory Apply
  imports Install Queue_Frame
begin

text \<open>
  Turning a plan into an installed generation, \<open>crates/updater/src/apply/mod.rs\<close>, over the queue of
  \<open>Queue\<close> and the install root of \<open>Install\<close>. The applier is one thread among the queue's: before each
  of its calls on the queue the other threads take any steps they can, which a \<open>call\<close> lists together
  with what the disk answers. A loop that polls takes one \<open>call\<close> after another and is \<open>None\<close> when
  they run out.
\<close>

section \<open>State\<close>

definition VERSION_SLOT :: string where "VERSION_SLOT = ''{version}''"

record applier =
  ap_world :: world
  ap_install :: string
  ap_lib :: install_lib
  ap_base :: string

definition applier_new :: "world \<Rightarrow> install_lib \<Rightarrow> string \<Rightarrow> string \<Rightarrow> applier" where
  "applier_new wd il install artifact_base_url =
     \<lparr>ap_world = wd, ap_install = install, ap_lib = il, ap_base = base_of artifact_base_url\<rparr>"

text \<open>How the steps of one \<open>place\<close> end, and where the temporary file lands.\<close>

record place_env =
  pe_mkdir :: bool
  pe_open :: bool
  pe_temp :: string
  pe_copied :: bool
  pe_dropped :: bool
  pe_disk :: disk_env
  pe_persist :: bool
  pe_gone :: "bool \<times> bool"

record call =
  cl_others :: "event list"
  cl_threads :: threads
  cl_now :: int
  cl_place :: place_env

definition others :: "world \<Rightarrow> call \<Rightarrow> queue \<Rightarrow> queue option" where
  "others wd c q = run_events wd (cl_others c) q"

section \<open>Refusals\<close>

definition digest_of :: "lib \<Rightarrow> artifact \<Rightarrow> apply_error + ArtifactDigest" where
  "digest_of l a = (case digest_from_hex l (art_sha256 a) of
       Inl _ \<Rightarrow> Inl (DigestError (art_name a) (art_sha256 a)) | Inr d \<Rightarrow> Inr d)"

definition refuse_unsafe_path :: "artifact \<Rightarrow> apply_error option" where
  "refuse_unsafe_path a =
     (if \<not> is_clean_relative_path (art_path a) then Some (UnsafePath (art_name a) (art_path a)) else None)"

fun first_refusal :: "('a \<Rightarrow> apply_error option) \<Rightarrow> 'a list \<Rightarrow> apply_error option" where
  "first_refusal g [] = None"
| "first_refusal g (a # as) = (case g a of Some e \<Rightarrow> Some e | None \<Rightarrow> first_refusal g as)"

definition refuse_unsafe_names :: "plan \<Rightarrow> apply_error option" where
  "refuse_unsafe_names p =
     (if \<not> is_hex_sha256 (plan_generation_id p) then Some (GenerationIdError (plan_generation_id p))
      else first_refusal refuse_unsafe_path (plan_artifacts p))"

text \<open>\<open>taken\<close> maps a path to the artifact that last claimed it.\<close>

fun refuse_from :: "(string \<Rightarrow> string option) \<Rightarrow> artifact list \<Rightarrow> apply_error option" where
  "refuse_from taken [] = None"
| "refuse_from taken (a # as) = (case taken (art_path a) of
       Some first \<Rightarrow> Some (Collision first (art_name a) (art_path a))
     | None \<Rightarrow> refuse_from (taken(art_path a \<mapsto> art_name a)) as)"

definition refuse_collisions :: "artifact list \<Rightarrow> apply_error option" where
  "refuse_collisions as = refuse_from Map.empty as"

section \<open>Requests\<close>

text \<open>\<open>str::replace\<close> of the version slot.\<close>

function replace_slot :: "string \<Rightarrow> string \<Rightarrow> string" where
  "replace_slot w s =
     (if s = [] then []
      else if starts_with VERSION_SLOT s then w @ replace_slot w (drop (length VERSION_SLOT) s)
      else hd s # replace_slot w (tl s))"
  by pat_completeness auto
termination
  by (relation "measure (\<lambda>(w, s). length s)") (auto simp: VERSION_SLOT_def)

declare replace_slot.simps [simp del]

definition request_for :: "applier \<Rightarrow> artifact \<Rightarrow> u64 \<Rightarrow> Priority \<Rightarrow> apply_error + queue_request" where
  "request_for A a release_version prio = (case digest_of (w_lib (ap_world A)) a of
       Inl e \<Rightarrow> Inl e
     | Inr d \<Rightarrow> Inr \<lparr>qr_url = replace_slot (show_u64 release_version) (ap_base A) @ art_path a,
         qr_digest = d, qr_expected_size = Some (art_size a), qr_priority = prio\<rparr>)"

section \<open>Placing one artifact\<close>

definition parent_of :: "string \<Rightarrow> string \<Rightarrow> string" where
  "parent_of dir dest = (case rsplit_slash dest of Some (parent, _) \<Rightarrow> parent | None \<Rightarrow> dir)"

text \<open>The temporary file is created exclusively; when the copy fails it is dropped.\<close>

definition copy_durably :: "place_env \<Rightarrow> string \<Rightarrow> string \<Rightarrow> fs \<Rightarrow> fs \<times> string option" where
  "copy_durably pe source parent f =
     (let temp = path_join parent (pe_temp pe)
      in case f source of
           None \<Rightarrow> (f, None)
         | Some content \<Rightarrow>
             if \<not> pe_open pe \<or> f temp \<noteq> None then (f, None)
             else if \<not> pe_copied pe then (remove_file (pe_dropped pe) temp (f(temp \<mapsto> [])), None)
             else (f(temp \<mapsto> content), Some temp))"

definition installed_of :: "ArtifactDigest \<Rightarrow> artifact \<Rightarrow> installed" where
  "installed_of d a = \<lparr>inst_name = art_name a, inst_target = art_target a, inst_version = art_version a,
     inst_revision = art_revision a, inst_sha256 = digest_to_string d, inst_size = art_size a,
     inst_path = art_path a\<rparr>"

definition place ::
  "applier \<Rightarrow> place_env \<Rightarrow> string \<Rightarrow> artifact \<Rightarrow> string option \<Rightarrow> fs \<Rightarrow> fs \<times> (apply_error + installed)" where
  "place A pe dir a cached f =
     (let l = w_lib (ap_world A); dest = path_join dir (art_path a); parent = parent_of dir dest
      in case digest_of l a of
           Inl e \<Rightarrow> (f, Inl e)
         | Inr d \<Rightarrow>
             let quarantine = evict (pe_gone pe) (w_root (ap_world A)) d
             in if \<not> pe_mkdir pe then (f, Inl (InstallError parent))
                else (case cached of
                    None \<Rightarrow> (quarantine f, Inl (ArtifactError (art_name a) Unreadable))
                  | Some source \<Rightarrow>
                      (case copy_durably pe source parent f of
                         (f1, None) \<Rightarrow> (f1, Inl (InstallError dest))
                       | (f1, Some temp) \<Rightarrow>
                           (case verify_on_disk l (pe_disk pe) temp d f1 of
                              Some refused \<Rightarrow> (remove_file (pe_dropped pe) temp (quarantine f1),
                                Inl (ArtifactError (art_name a) refused))
                            | None \<Rightarrow>
                                if \<not> pe_persist pe then (remove_file (pe_dropped pe) temp f1, Inl (InstallError dest))
                                else ((f1(temp := None))(dest := f1 temp), Inr (installed_of d a))))))"

section \<open>Settling one transfer\<close>

text \<open>A call on the queue: the others' steps first.\<close>

definition settle ::
  "applier \<Rightarrow> string \<Rightarrow> artifact \<Rightarrow> nat \<Rightarrow> call list \<Rightarrow> queue
     \<Rightarrow> ((apply_error + installed option) \<times> call list \<times> queue) option" where
  "settle A dir a i cs q =
     (case cs of
        c1 # c2 # c3 # rest \<Rightarrow>
          Option.bind (others (ap_world A) c1 q) (\<lambda>q1.
          case queue_state q1 i of
            State.Complete \<Rightarrow>
              Option.bind (others (ap_world A) c2 q1) (\<lambda>q2.
              let cached = queue_path q2 i
              in Option.bind (others (ap_world A) c3 q2) (\<lambda>q3.
                 let placing = place A (cl_place c3) dir a cached (q_fs q3)
                 in Some (map_sum (\<lambda>e. e) Some (snd placing), rest, q3\<lparr>q_fs := fst placing\<rparr>)))
          | State.Failed \<Rightarrow>
              Option.bind (others (ap_world A) c2 q1) (\<lambda>q2.
              Some (Inl (ArtifactError (art_name a)
                (case queue_failure_of q2 i of Some why \<Rightarrow> why | None \<Rightarrow> Panicked)), c3 # rest, q2))
          | State.Cancelled \<Rightarrow> Some (Inl (CancelledError (art_name a)), c2 # c3 # rest, q1)
          | _ \<Rightarrow> Some (Inr None, c2 # c3 # rest, q1))
      | _ \<Rightarrow> None)"

section \<open>Acquiring a plan\<close>

record acquisition =
  aq_next :: nat
  aq_active :: "(nat \<times> nat) list"
  aq_placed :: "installed option list"

text \<open>Queue what there is room for; \<open>progressed\<close> tells whether anything was.\<close>

fun fill ::
  "applier \<Rightarrow> plan \<Rightarrow> Priority \<Rightarrow> acquisition \<Rightarrow> bool \<Rightarrow> call list \<Rightarrow> queue
     \<Rightarrow> ((apply_error + unit) \<times> acquisition \<times> bool \<times> call list \<times> queue) option" where
  "fill A p prio acq progressed [] q =
     (if length (plan_artifacts p) \<le> aq_next acq then Some (Inr (), acq, progressed, [], q)
      else (case request_for A (plan_artifacts p ! aq_next acq) (plan_release_version p) prio of
          Inl e \<Rightarrow> Some (Inl e, acq, progressed, [], q) | Inr _ \<Rightarrow> None))"
| "fill A p prio acq progressed (c # cs) q =
     (if length (plan_artifacts p) \<le> aq_next acq then Some (Inr (), acq, progressed, c # cs, q)
      else (case request_for A (plan_artifacts p ! aq_next acq) (plan_release_version p) prio of
          Inl e \<Rightarrow> Some (Inl e, acq, progressed, c # cs, q)
        | Inr req \<Rightarrow> Option.bind (others (ap_world A) c q) (\<lambda>q1.
            case queue_push (cl_threads c) req (cl_now c) q1 of
              (q2, None) \<Rightarrow> Some (Inr (), acq, progressed, cs, q2)
            | (q2, Some i) \<Rightarrow> fill A p prio
                (acq\<lparr>aq_active := aq_active acq @ [(i, aq_next acq)], aq_next := Suc (aq_next acq)\<rparr>) True cs q2)))"

text \<open>The sweep, in place: an entry leaves the list once its artifact is placed.\<close>

function sweep ::
  "applier \<Rightarrow> string \<Rightarrow> plan \<Rightarrow> nat \<Rightarrow> acquisition \<Rightarrow> bool \<Rightarrow> call list \<Rightarrow> queue
     \<Rightarrow> ((apply_error + unit) \<times> acquisition \<times> bool \<times> call list \<times> queue) option" where
  "sweep A dir p cursor acq progressed cs q =
     (if length (aq_active acq) \<le> cursor then Some (Inr (), acq, progressed, cs, q)
      else let (i, index) = aq_active acq ! cursor
        in (case settle A dir (plan_artifacts p ! index) i cs q of
              None \<Rightarrow> None
            | Some (Inl e, cs1, q1) \<Rightarrow> Some (Inl e, acq, progressed, cs1, q1)
            | Some (Inr None, cs1, q1) \<Rightarrow> sweep A dir p (Suc cursor) acq progressed cs1 q1
            | Some (Inr (Some inst), [], q1) \<Rightarrow> None
            | Some (Inr (Some inst), c # cs1, q1) \<Rightarrow>
                Option.bind (others (ap_world A) c q1) (\<lambda>q2.
                sweep A dir p cursor
                  (acq\<lparr>aq_placed := (aq_placed acq)[index := Some inst],
                       aq_active := swap_remove cursor (aq_active acq)\<rparr>)
                  True cs1 (fst (queue_remove i q2)))))"
  by pat_completeness auto
termination
  by (relation "measure (\<lambda>(A, dir, p, cursor, acq, progressed, cs, q). length (aq_active acq) - cursor)")
     (auto simp: length_swap_remove)

declare sweep.simps [simp del]

text \<open>The loops, as rules: what one call keeps, the whole loop keeps.\<close>

lemma fill_keeps:
  assumes run: "fill A p prio acq progressed cs q = Some (r, acq', progressed', cs', q')" and init: "P acq cs q"
    and full: "\<And>acq c cs q req q1 q2. P acq (c # cs) q \<Longrightarrow> aq_next acq < length (plan_artifacts p) \<Longrightarrow>
      others (ap_world A) c q = Some q1 \<Longrightarrow> queue_push (cl_threads c) req (cl_now c) q1 = (q2, None) \<Longrightarrow> P acq cs q2"
    and queued: "\<And>acq c cs q req q1 q2 i. P acq (c # cs) q \<Longrightarrow> aq_next acq < length (plan_artifacts p) \<Longrightarrow>
      others (ap_world A) c q = Some q1 \<Longrightarrow> queue_push (cl_threads c) req (cl_now c) q1 = (q2, Some i) \<Longrightarrow>
      P (acq\<lparr>aq_active := aq_active acq @ [(i, aq_next acq)], aq_next := Suc (aq_next acq)\<rparr>) cs q2"
  shows "P acq' cs' q'"
  using run init
proof (induction cs arbitrary: acq progressed q)
  case Nil
  then show ?case by (auto split: if_splits sum.splits)
next
  case (Cons c cs)
  show ?case
  proof (cases "length (plan_artifacts p) \<le> aq_next acq
      \<or> (\<exists>e. request_for A (plan_artifacts p ! aq_next acq) (plan_release_version p) prio = Inl e)")
    case True
    with Cons.prems(1,2) show ?thesis by (auto split: if_splits)
  next
    case False
    then obtain req where req: "request_for A (plan_artifacts p ! aq_next acq) (plan_release_version p) prio = Inr req"
      by (metis old.sum.exhaust)
    obtain q1 where q1: "others (ap_world A) c q = Some q1"
      using Cons.prems(1) False req by (auto simp: bind_eq_Some_conv)
    obtain q2 got where p: "queue_push (cl_threads c) req (cl_now c) q1 = (q2, got)" by fastforce
    show ?thesis
    proof (cases got)
      case None
      with Cons.prems(1) False req q1 p have "acq' = acq" "cs' = cs" "q' = q2" by auto
      with full [OF Cons.prems(2) _ q1] p None False show ?thesis by (simp add: not_le)
    next
      case (Some i)
      let ?acq = "acq\<lparr>aq_active := aq_active acq @ [(i, aq_next acq)], aq_next := Suc (aq_next acq)\<rparr>"
      have "fill A p prio ?acq True cs q2 = Some (r, acq', progressed', cs', q')"
        using Cons.prems(1) False req q1 p Some by auto
      moreover have "P ?acq cs q2"
        using queued [OF Cons.prems(2) _ q1] p Some False by (simp add: not_le)
      ultimately show ?thesis by (rule Cons.IH)
    qed
  qed
qed

definition placed_at :: "nat \<Rightarrow> installed \<Rightarrow> nat \<Rightarrow> acquisition \<Rightarrow> acquisition" where
  "placed_at cursor inst index acq = acq\<lparr>aq_placed := (aq_placed acq)[index := Some inst],
     aq_active := swap_remove cursor (aq_active acq)\<rparr>"

lemma sweep_keeps:
  assumes run: "sweep A dir p cursor acq progressed cs q = Some (r, acq', progressed', cs', q')" and init: "P acq cs q"
    and err: "\<And>acq cursor i index cs q e cs1 q1. P acq cs q \<Longrightarrow> cursor < length (aq_active acq) \<Longrightarrow>
      aq_active acq ! cursor = (i, index) \<Longrightarrow>
      settle A dir (plan_artifacts p ! index) i cs q = Some (Inl e, cs1, q1) \<Longrightarrow> P acq cs1 q1"
    and waiting: "\<And>acq cursor i index cs q cs1 q1. P acq cs q \<Longrightarrow> cursor < length (aq_active acq) \<Longrightarrow>
      aq_active acq ! cursor = (i, index) \<Longrightarrow>
      settle A dir (plan_artifacts p ! index) i cs q = Some (Inr None, cs1, q1) \<Longrightarrow> P acq cs1 q1"
    and landed: "\<And>acq cursor i index cs q inst c cs1 q1 q2. P acq cs q \<Longrightarrow> cursor < length (aq_active acq) \<Longrightarrow>
      aq_active acq ! cursor = (i, index) \<Longrightarrow>
      settle A dir (plan_artifacts p ! index) i cs q = Some (Inr (Some inst), c # cs1, q1) \<Longrightarrow>
      others (ap_world A) c q1 = Some q2 \<Longrightarrow> P (placed_at cursor inst index acq) cs1 (fst (queue_remove i q2))"
  shows "P acq' cs' q'"
  using run init
proof (induction "length (aq_active acq) - cursor" arbitrary: cursor acq progressed cs q rule: less_induct)
  case less
  show ?case
  proof (cases "length (aq_active acq) \<le> cursor")
    case True
    with less.prems(1,2) show ?thesis by (simp add: sweep.simps)
  next
    case False
    then have cur: "cursor < length (aq_active acq)" by simp
    obtain i index where ii: "aq_active acq ! cursor = (i, index)" by fastforce
    obtain r1 cs1 q1 where s: "settle A dir (plan_artifacts p ! index) i cs q = Some (r1, cs1, q1)"
      using less.prems(1) False ii by (subst (asm) sweep.simps) (auto split: option.splits)
    consider e where "r1 = Inl e" | "r1 = Inr None" | inst where "r1 = Inr (Some inst)"
      by (metis not_None_eq sumE)
    then show ?thesis
    proof cases
      case (1 e)
      with less.prems(1) False ii s have "acq' = acq" "cs' = cs1" "q' = q1"
        by (subst (asm) sweep.simps; auto)+
      with err [OF less.prems(2) cur ii] s 1 show ?thesis by simp
    next
      case 2
      then have "sweep A dir p (Suc cursor) acq progressed cs1 q1 = Some (r, acq', progressed', cs', q')"
        using less.prems(1) False ii s by (subst (asm) sweep.simps) auto
      moreover have "length (aq_active acq) - Suc cursor < length (aq_active acq) - cursor" using cur by simp
      moreover have "P acq cs1 q1" using waiting [OF less.prems(2) cur ii] s 2 by simp
      ultimately show ?thesis using less.hyps by blast
    next
      case (3 inst)
      then obtain c cs2 q2 where c: "cs1 = c # cs2" "others (ap_world A) c q1 = Some q2"
        and rest: "sweep A dir p cursor (placed_at cursor inst index acq) True cs2 (fst (queue_remove i q2))
           = Some (r, acq', progressed', cs', q')"
        using less.prems(1) False ii s
        by (subst (asm) sweep.simps) (auto simp: bind_eq_Some_conv placed_at_def split: list.splits)
      have "length (aq_active (placed_at cursor inst index acq)) - cursor < length (aq_active acq) - cursor"
        using cur by (simp add: placed_at_def length_swap_remove)
      moreover have "P (placed_at cursor inst index acq) cs2 (fst (queue_remove i q2))"
        using landed [OF less.prems(2) cur ii] s 3 c by simp
      ultimately show ?thesis using less.hyps [OF _ rest] by blast
    qed
  qed
qed

text \<open>Every round takes calls.\<close>

lemma settle_calls: "settle A dir a i cs q = Some (r, cs', q') \<Longrightarrow> length cs' < length cs"
proof -
  assume s: "settle A dir a i cs q = Some (r, cs', q')"
  then obtain c1 c2 c3 rest where cs: "cs = c1 # c2 # c3 # rest"
    by (auto simp: settle_def split: list.splits)
  with s obtain q1 where "others (ap_world A) c1 q = Some q1" by (auto simp: settle_def bind_eq_Some_conv)
  with s cs show ?thesis
    by (cases "queue_state q1 i")
       (auto simp: settle_def bind_eq_Some_conv Let_def)
qed

lemma fill_calls:
  assumes "fill A p prio acq progressed cs q = Some (r, acq', progressed', cs', q')"
  shows "length cs' \<le> length cs"
    and "r = Inr () \<Longrightarrow> aq_next acq < length (plan_artifacts p) \<Longrightarrow> length cs' < length cs"
    and "length (plan_artifacts p) \<le> aq_next acq \<Longrightarrow> acq' = acq"
proof -
  show le: "length cs' \<le> length cs"
    by (rule fill_keeps [OF assms, of "\<lambda>_ c _. length c \<le> length cs"]) auto
  show "acq' = acq" if "length (plan_artifacts p) \<le> aq_next acq"
    using assms that by (cases cs) auto
  show "length cs' < length cs" if more: "r = Inr ()" "aq_next acq < length (plan_artifacts p)"
  proof (cases cs)
    case Nil
    with assms more show ?thesis by (auto split: sum.splits)
  next
    case (Cons c rest)
    show ?thesis
    proof (rule ccontr)
      assume n: "\<not> ?thesis"
      obtain req q1 where 1: "request_for A (plan_artifacts p ! aq_next acq) (plan_release_version p) prio = Inr req"
        "others (ap_world A) c q = Some q1"
        using assms more Cons by (auto simp: bind_eq_Some_conv split: sum.splits if_splits)
      obtain q2 got where 2: "queue_push (cl_threads c) req (cl_now c) q1 = (q2, got)" by fastforce
      show False
      proof (cases got)
        case None
        with assms more Cons 1 2 n show False by auto
      next
        case (Some i)
        let ?acq = "acq\<lparr>aq_active := aq_active acq @ [(i, aq_next acq)], aq_next := Suc (aq_next acq)\<rparr>"
        have f: "fill A p prio ?acq True rest q2 = Some (r, acq', progressed', cs', q')"
          using assms more Cons 1 2 Some by auto
        have "length cs' \<le> length rest"
          by (rule fill_keeps [OF f, of "\<lambda>_ c _. length c \<le> length rest"]) auto
        with n Cons show False by simp
      qed
    qed
  qed
qed

lemma sweep_calls:
  assumes "sweep A dir p cursor acq progressed cs q = Some (r, acq', progressed', cs', q')"
  shows "length cs' \<le> length cs" and "cursor < length (aq_active acq) \<Longrightarrow> length cs' < length cs"
proof -
  have le: "length c' \<le> length c0"
    if "sweep A dir p cursor acq progressed c0 q0 = Some (r, acq', progressed', c', q')" for cursor acq progressed c0 q0 c'
    by (rule sweep_keeps [OF that, of "\<lambda>_ c _. length c \<le> length c0"]) (use settle_calls in fastforce)+
  from le [OF assms] show "length cs' \<le> length cs" .
  assume cur: "cursor < length (aq_active acq)"
  obtain i index where ii: "aq_active acq ! cursor = (i, index)" by fastforce
  obtain r1 cs1 q1 where s: "settle A dir (plan_artifacts p ! index) i cs q = Some (r1, cs1, q1)"
    using assms cur ii by (subst (asm) sweep.simps) (auto split: option.splits)
  have "length cs' \<le> length cs1"
    using assms cur ii s le
    by (subst (asm) sweep.simps)
       (fastforce simp: bind_eq_Some_conv split: sum.splits option.splits list.splits)
  with settle_calls [OF s] show "length cs' < length cs" by simp
qed

section \<open>The whole acquisition\<close>

function acquire_loop ::
  "applier \<Rightarrow> string \<Rightarrow> plan \<Rightarrow> Priority \<Rightarrow> acquisition \<Rightarrow> call list \<Rightarrow> queue
     \<Rightarrow> ((apply_error + installed list) \<times> acquisition \<times> call list \<times> queue) option" where
  "acquire_loop A dir p prio acq cs q =
     (if length (plan_artifacts p) \<le> aq_next acq \<and> aq_active acq = []
      then Some (Inr (List.map_filter (\<lambda>x. x) (aq_placed acq)), acq, cs, q)
      else (case fill A p prio acq False cs q of
          None \<Rightarrow> None
        | Some (Inl e, acq1, _, cs1, q1) \<Rightarrow> Some (Inl e, acq1, cs1, q1)
        | Some (Inr _, acq1, progressed, cs1, q1) \<Rightarrow>
            (case sweep A dir p 0 acq1 progressed cs1 q1 of
               None \<Rightarrow> None
             | Some (Inl e, acq2, _, cs2, q2) \<Rightarrow> Some (Inl e, acq2, cs2, q2)
             | Some (Inr _, acq2, _, cs2, q2) \<Rightarrow> acquire_loop A dir p prio acq2 cs2 q2)))"
  by pat_completeness auto

lemma round_calls:
  assumes "\<not> (length (plan_artifacts p) \<le> aq_next acq \<and> aq_active acq = [])"
    and "fill A p prio acq False cs q = Some (Inr u, acq1, progressed, cs1, q1)"
    and "sweep A dir p 0 acq1 progressed cs1 q1 = Some (r, acq2, progressed2, cs2, q2)"
  shows "length cs2 < length cs"
proof (cases "aq_next acq < length (plan_artifacts p)")
  case True
  with fill_calls(2) [OF assms(2)] sweep_calls(1) [OF assms(3)] show ?thesis by simp
next
  case False
  then have "acq1 = acq" using fill_calls(3) [OF assms(2)] by simp
  with assms(1) False have "0 < length (aq_active acq1)" by auto
  with sweep_calls(2) [OF assms(3)] fill_calls(1) [OF assms(2)] show ?thesis by simp
qed

termination acquire_loop
  by (relation "measure (\<lambda>(A, dir, p, prio, acq, cs, q). length cs)") (simp, auto intro: round_calls)

declare acquire_loop.simps [simp del]

text \<open>\<open>Drop for Acquisition\<close>: cancel what is tracked, then wait until every slot can be freed.\<close>

fun cancel_tracked :: "world \<Rightarrow> (nat \<times> nat) list \<Rightarrow> call list \<Rightarrow> queue \<Rightarrow> (call list \<times> queue) option" where
  "cancel_tracked wd [] cs q = Some (cs, q)"
| "cancel_tracked wd (t # ts) [] q = None"
| "cancel_tracked wd (t # ts) (c # cs) q =
     Option.bind (others wd c q) (\<lambda>q1. cancel_tracked wd ts cs (fst (queue_cancel (fst t) q1)))"

fun remove_tracked :: "world \<Rightarrow> (nat \<times> nat) list \<Rightarrow> call list \<Rightarrow> queue \<Rightarrow> (call list \<times> queue) option" where
  "remove_tracked wd [] cs q = Some (cs, q)"
| "remove_tracked wd (t # ts) [] q = None"
| "remove_tracked wd (t # ts) (c # cs) q =
     Option.bind (others wd c q) (\<lambda>q1. case queue_remove (fst t) q1 of
        (q2, freed) \<Rightarrow> remove_tracked wd (if freed then ts else t # ts) cs q2)"

definition drop_acquisition :: "world \<Rightarrow> (nat \<times> nat) list \<Rightarrow> call list \<Rightarrow> queue \<Rightarrow> (call list \<times> queue) option" where
  "drop_acquisition wd tracked cs q =
     Option.bind (cancel_tracked wd tracked cs q) (\<lambda>(cs1, q1). remove_tracked wd tracked cs1 q1)"

definition acquire ::
  "applier \<Rightarrow> string \<Rightarrow> plan \<Rightarrow> Priority \<Rightarrow> call list \<Rightarrow> queue
     \<Rightarrow> ((apply_error + installed list) \<times> call list \<times> queue) option" where
  "acquire A dir p prio cs q =
     (let start = \<lparr>aq_next = 0, aq_active = [], aq_placed = replicate (length (plan_artifacts p)) None\<rparr>
      in Option.bind (acquire_loop A dir p prio start cs q) (\<lambda>(r, acq, cs1, q1).
         Option.bind (drop_acquisition (ap_world A) (aq_active acq) cs1 q1) (\<lambda>(cs2, q2).
         Some (r, cs2, q2))))"

section \<open>Publishing and applying\<close>

record apply_state =
  as_queue :: queue
  as_claims :: claims
  as_seen :: "string list"
  as_pending :: "generation list"

text \<open>Whether the record can be read, the directory made, and which way the store goes.\<close>

record apply_env =
  av_readable :: bool
  av_mkdir :: bool
  av_store :: nat

definition publish ::
  "applier \<Rightarrow> plan \<Rightarrow> Priority \<Rightarrow> apply_env \<Rightarrow> call list \<Rightarrow> apply_state
     \<Rightarrow> ((apply_error + generation) \<times> call list \<times> apply_state) option" where
  "publish A p prio e cs S =
     (let ident = plan_generation_id p; dir = dir_of (ap_install A) ident;
          S1 = S\<lparr>as_claims := claim_publish ident (as_claims S)\<rparr>;
          release = (\<lambda>T. T\<lparr>as_claims := drop_publishing ident (as_claims T)\<rparr>)
      in case refuse_collisions (plan_artifacts p) of
           Some err \<Rightarrow> Some (Inl err, cs, release S1)
         | None \<Rightarrow>
             if \<not> av_mkdir e then Some (Inl (InstallError dir), cs, release S1)
             else (case acquire A dir p prio cs (as_queue S1) of
                 None \<Rightarrow> None
               | Some (Inl err, cs1, q1) \<Rightarrow> Some (Inl err, cs1, release (S1\<lparr>as_queue := q1\<rparr>))
               | Some (Inr installed, [], q1) \<Rightarrow> None
               | Some (Inr installed, c # cs1, q1) \<Rightarrow>
                   Option.bind (others (ap_world A) c q1) (\<lambda>q2.
                   let rg = record_generation (ap_lib A) (ap_install A) (av_store e) ident installed (q_fs q2)
                   in Some (snd rg, cs1, release (S1\<lparr>as_queue := q2\<lparr>q_fs := fst rg\<rparr>\<rparr>)))))"

definition record_completion :: "generation \<Rightarrow> apply_state \<Rightarrow> apply_state" where
  "record_completion g S =
     (if gen_id g \<in> set (as_seen S) then S
      else S\<lparr>as_seen := gen_id g # as_seen S, as_pending := as_pending S @ [g]\<rparr>)"

definition next_completed :: "apply_state \<Rightarrow> generation option \<times> apply_state" where
  "next_completed S = (case as_pending S of [] \<Rightarrow> (None, S) | g # gs \<Rightarrow> (Some g, S\<lparr>as_pending := gs\<rparr>))"

definition apply_plan ::
  "applier \<Rightarrow> plan \<Rightarrow> Priority \<Rightarrow> apply_env \<Rightarrow> call list \<Rightarrow> apply_state
     \<Rightarrow> ((apply_error + generation) \<times> call list \<times> apply_state) option" where
  "apply_plan A p prio e cs S =
     (case refuse_unsafe_names p of
        Some err \<Rightarrow> Some (Inl err, cs, S)
      | None \<Rightarrow>
          (case resolve_generation (ap_lib A) (ap_install A) (av_readable e) (plan_generation_id p) (q_fs (as_queue S)) of
             Some g \<Rightarrow> Some (Inr g, cs, record_completion g S)
           | None \<Rightarrow> (case publish A p prio e cs S of
                 None \<Rightarrow> None
               | Some (Inl err, cs1, S1) \<Rightarrow> Some (Inl err, cs1, S1)
               | Some (Inr g, cs1, S1) \<Rightarrow> Some (Inr g, cs1, record_completion g S1))))"

section \<open>Fetching one artifact\<close>

text \<open>The two polling loops of \<open>fetch\<close>: until the queue takes the request, and until it settles.\<close>

fun queue_until :: "world \<Rightarrow> queue_request \<Rightarrow> call list \<Rightarrow> queue \<Rightarrow> (nat \<times> call list \<times> queue) option" where
  "queue_until wd req [] q = None"
| "queue_until wd req (c # cs) q = Option.bind (others wd c q) (\<lambda>q1.
     case queue_push (cl_threads c) req (cl_now c) q1 of
       (q2, Some i) \<Rightarrow> Some (i, cs, q2) | (q2, None) \<Rightarrow> queue_until wd req cs q2)"

fun await_settled ::
  "world \<Rightarrow> artifact \<Rightarrow> nat \<Rightarrow> call list \<Rightarrow> queue
     \<Rightarrow> ((apply_error + string option \<times> place_env) \<times> call list \<times> queue) option" where
  "await_settled wd a i [] q = None"
| "await_settled wd a i (c # cs) q = Option.bind (others wd c q) (\<lambda>q1.
     if queue_state q1 i = State.Complete then
       (case cs of [] \<Rightarrow> None
        | c2 # cs2 \<Rightarrow> Option.bind (others wd c2 q1) (\<lambda>q2. Some (Inr (queue_path q2 i, cl_place c2), cs2, q2)))
     else if queue_state q1 i = State.Failed then
       (case cs of [] \<Rightarrow> None
        | c2 # cs2 \<Rightarrow> Option.bind (others wd c2 q1) (\<lambda>q2.
            Some (Inl (ArtifactError (art_name a)
              (case queue_failure_of q2 i of Some why \<Rightarrow> why | None \<Rightarrow> Panicked)), cs2, q2)))
     else if queue_state q1 i = State.Cancelled then Some (Inl (CancelledError (art_name a)), cs, q1)
     else await_settled wd a i cs q1)"

text \<open>The bytes a fetch hands out are read back first, and evicted when they are not the artifact's.\<close>

definition verify_fetched ::
  "world \<Rightarrow> artifact \<Rightarrow> ArtifactDigest \<Rightarrow> string option \<Rightarrow> place_env \<Rightarrow> queue \<Rightarrow> (apply_error + string) \<times> queue" where
  "verify_fetched wd a d cached pe q =
     (case (case cached of None \<Rightarrow> Inl Unreadable
         | Some path \<Rightarrow> (case verify_on_disk (w_lib wd) (pe_disk pe) path d (q_fs q) of
               Some refused \<Rightarrow> Inl refused | None \<Rightarrow> Inr path)) of
        Inr path \<Rightarrow> (Inr path, q)
      | Inl why \<Rightarrow> (Inl (ArtifactError (art_name a) why),
          q\<lparr>q_fs := evict (pe_gone pe) (w_root wd) d (q_fs q)\<rparr>))"

definition fetch ::
  "applier \<Rightarrow> artifact \<Rightarrow> u64 \<Rightarrow> Priority \<Rightarrow> call list \<Rightarrow> queue
     \<Rightarrow> ((apply_error + string) \<times> call list \<times> queue) option" where
  "fetch A a release_version prio cs q =
     (let wd = ap_world A in
      case refuse_unsafe_path a of
        Some err \<Rightarrow> Some (Inl err, cs, q)
      | None \<Rightarrow> (case digest_of (w_lib wd) a of
          Inl err \<Rightarrow> Some (Inl err, cs, q)
        | Inr d \<Rightarrow> (case request_for A a release_version prio of
            Inl err \<Rightarrow> Some (Inl err, cs, q)
          | Inr req \<Rightarrow>
              Option.bind (queue_until wd req cs q) (\<lambda>(i, cs1, q1).
              Option.bind (await_settled wd a i cs1 q1) (\<lambda>(r, cs2, q2).
              let (r', q3) = (case r of Inl err \<Rightarrow> (Inl err, q2)
                  | Inr (cached, pe) \<Rightarrow> verify_fetched wd a d cached pe q2)
              in Option.bind (drop_acquisition wd [(i, 0)] cs2 q3) (\<lambda>(cs3, q4). Some (r', cs3, q4)))))))"

end
