(* ===== verification/Apply_Props.thy ===== *)
theory Apply_Props
  imports Apply
begin

text \<open>
  What an apply keeps and what it publishes: every file it placed is the one the manifest named when
  the generation is recorded, whatever the workers of the queue do meanwhile, and where a collection
  of the install root can still destroy it.
\<close>

section \<open>The queue under an applier\<close>

text \<open>What the applier needs of the queue between its calls, and the file system apart from the cache.\<close>

definition queue_ready :: "world \<Rightarrow> queue \<Rightarrow> bool" where
  "queue_ready wd q \<longleftrightarrow> queue_ok q \<and> held_in_cache (w_root wd) q"

lemma with_config_ready: "queue_ready wd (with_config n f)"
  by (simp add: queue_ready_def with_config_ok held_init)

lemma ready_exec: "queue_ready wd q \<Longrightarrow> exec_event wd q ev = Some q' \<Longrightarrow>
    queue_ready wd q' \<and> same_outside (w_root wd) (q_fs q) (q_fs q')"
  using frame_exec [of wd q ev q'] exec_ok [of q wd ev q'] by (simp add: queue_ready_def queue_ok_def frame_step_def)

lemma ready_others: "queue_ready wd q \<Longrightarrow> others wd c q = Some q' \<Longrightarrow>
    queue_ready wd q' \<and> same_outside (w_root wd) (q_fs q) (q_fs q')"
  using run_events_frame [of q wd "cl_others c" q'] run_events_ok_from [of q wd "cl_others c" q']
  by (simp add: queue_ready_def others_def frame_step_def)

lemma upd_slot_beyond: "length (q_slots q) \<le> i \<Longrightarrow> upd_slot i g q = q"
  by (simp add: upd_slot_def list_update_beyond)

lemma ready_push: "queue_ready wd q \<Longrightarrow> queue_push t req now q = (q', r) \<Longrightarrow>
    queue_ready wd q' \<and> same_outside (w_root wd) (q_fs q) (q_fs q')"
  using ready_exec [of wd q "Push t req now" q'] by (simp add: exec_event_def)

lemma ready_remove: "queue_ready wd q \<Longrightarrow> queue_ready wd (fst (queue_remove i q))
    \<and> same_outside (w_root wd) (q_fs q) (q_fs (fst (queue_remove i q)))"
proof (cases "i < length (q_slots q)")
  case True
  then show "queue_ready wd q \<Longrightarrow> ?thesis"
    using ready_exec [of wd q "Remove i"] by (simp add: exec_event_def)
next
  case False
  then have "fst (queue_remove i q) = q"
    by (simp add: queue_remove_def upd_slot_beyond split: prod.split bool.split)
  then show "queue_ready wd q \<Longrightarrow> ?thesis" by simp
qed

lemma ready_fs: "queue_ready wd q \<Longrightarrow> queue_ready wd (q\<lparr>q_fs := f\<rparr>)"
  by (simp add: queue_ready_def queue_ok_def)

section \<open>Placing\<close>

text \<open>The file of an artifact beneath \<open>dir\<close> holds the bytes its digest names.\<close>

definition holds_artifact :: "lib \<Rightarrow> string \<Rightarrow> fs \<Rightarrow> artifact \<Rightarrow> installed \<Rightarrow> bool" where
  "holds_artifact l dir f a inst \<longleftrightarrow> (\<exists>d c. digest_of l a = Inr d \<and> inst = installed_of d a
     \<and> f (path_join dir (art_path a)) = Some c \<and> sha256 l c = as_bytes d)"

lemma verify_None: "verify_on_disk l e path d f = None \<Longrightarrow> \<exists>c. f path = Some c \<and> sha256 l c = as_bytes d"
  using hash_file_Some [of l e path f] by (auto simp: verify_on_disk_def split: option.splits if_splits)

lemma copy_durably_Some:
  "copy_durably pe source parent f = (f1, Some temp) \<Longrightarrow> f temp = None \<and> (\<exists>c. f1 = f(temp \<mapsto> c))"
  by (auto simp: copy_durably_def Let_def split: option.splits if_splits)

lemma copy_durably_kept:
  "copy_durably pe source parent f = (f1, r) \<Longrightarrow> f x \<noteq> None \<Longrightarrow> f1 x = f x"
  by (auto simp: copy_durably_def Let_def remove_file_def split: option.splits if_splits)

lemma evict_kept: "\<not> cache_file root x \<Longrightarrow> evict gone root d f x = f x"
  using evict_outside [of root f gone d] by (simp add: same_outside_def)

lemma place_Inr:
  "place A pe dir a cached f = (f', Inr inst) \<Longrightarrow> holds_artifact (w_lib (ap_world A)) dir f' a inst"
  by (auto simp: place_def Let_def holds_artifact_def dest!: verify_None
      split: sum.splits if_splits option.splits prod.splits)

lemma place_kept:
  assumes "place A pe dir a cached f = (f', r)" "\<not> cache_file (w_root (ap_world A)) x" "f x \<noteq> None"
    "x \<noteq> path_join dir (art_path a) \<or> (\<exists>e. r = Inl e)"
  shows "f' x = f x"
proof (cases "digest_of (w_lib (ap_world A)) a")
  case (Inl e)
  with assms(1) show ?thesis by (simp add: place_def Let_def)
next
  case (Inr d)
  show ?thesis
  proof (cases "pe_mkdir pe \<and> cached \<noteq> None")
    case False
    with assms Inr show ?thesis by (auto simp: place_def Let_def evict_kept split: if_splits)
  next
    case True
    then obtain source where src: "cached = Some source" "pe_mkdir pe" by auto
    let ?parent = "parent_of dir (path_join dir (art_path a))"
    obtain f1 temp where c: "copy_durably pe source ?parent f = (f1, temp)" by fastforce
    note k1 = copy_durably_kept [OF c assms(3)]
    show ?thesis
    proof (cases temp)
      case None
      with assms(1) Inr src c k1 show ?thesis by (simp add: place_def Let_def)
    next
      case (Some t)
      then have "t \<noteq> x" using copy_durably_Some [of pe source ?parent f f1 t] c assms(3) by auto
      then have "remove_file ok t g x = g x" for ok g by (simp add: remove_file_def)
      with assms Inr src c k1 Some \<open>t \<noteq> x\<close> show ?thesis
        by (auto simp: place_def Let_def evict_kept split: option.splits if_splits)
    qed
  qed
qed

section \<open>Settling\<close>

text \<open>The applier's generation directory lies apart from the cache.\<close>

definition apart :: "world \<Rightarrow> string \<Rightarrow> bool" where
  "apart wd dir \<longleftrightarrow> (\<forall>x. beneath dir x \<longrightarrow> \<not> starts_with (path_join (w_root wd) []) x)"

lemma apart_cache: "apart wd dir \<Longrightarrow> beneath dir x \<Longrightarrow> \<not> cache_file (w_root wd) x"
  using cache_file_beneath by (auto simp: apart_def)

lemma apart_outside: "apart wd dir \<Longrightarrow> beneath dir x \<Longrightarrow> same_outside (w_root wd) f g \<Longrightarrow> g x = f x"
  using apart_cache by (simp add: same_outside_def)

lemma clean_path_beneath: "is_clean_relative_path s \<Longrightarrow> path_join dir s = path_join dir [] @ s \<and> beneath dir (path_join dir s)"
proof -
  assume c: "is_clean_relative_path s"
  then obtain x xs where s: "s = x # xs" by (cases s) (auto simp: is_clean_relative_path_def)
  with c have "x \<noteq> CHR ''/''" by (auto simp: is_clean_relative_path_def)
  with s have "path_join dir s = path_join dir [] @ s" by (intro path_join_base) simp_all
  then show ?thesis by (simp add: beneath_def starts_with_def)
qed

lemma settle_cases:
  assumes "settle A dir a i cs q = Some (r, cs', q')" "queue_ready (ap_world A) q"
  shows "\<exists>q1. queue_ready (ap_world A) q1 \<and> same_outside (w_root (ap_world A)) (q_fs q) (q_fs q1)
    \<and> ((q' = q1 \<and> (r = Inr None \<or> (\<exists>e. r = Inl e)))
       \<or> (\<exists>pe cached. q' = q1\<lparr>q_fs := fst (place A pe dir a cached (q_fs q1))\<rparr>
            \<and> r = map_sum (\<lambda>e. e) Some (snd (place A pe dir a cached (q_fs q1)))))"
proof -
  obtain c1 c2 c3 rest where cs: "cs = c1 # c2 # c3 # rest"
    using assms(1) by (auto simp: settle_def split: list.splits)
  with assms(1) obtain q1 where q1: "others (ap_world A) c1 q = Some q1"
    by (auto simp: settle_def bind_eq_Some_conv)
  note r1 = ready_others [OF assms(2) q1]
  have two: "queue_ready (ap_world A) q2 \<and> same_outside (w_root (ap_world A)) (q_fs q) (q_fs q2)"
    if "others (ap_world A) c2 q1 = Some q2" for q2
    using r1 ready_others [OF _ that] same_outside_trans by blast
  have three: "queue_ready (ap_world A) q3 \<and> same_outside (w_root (ap_world A)) (q_fs q) (q_fs q3)"
    if "others (ap_world A) c2 q1 = Some q2" "others (ap_world A) c3 q2 = Some q3" for q2 q3
    using two [OF that(1)] ready_others [OF _ that(2)] same_outside_trans by blast
  show ?thesis
  proof (cases "queue_state q1 i")
    case Complete
    with assms(1) cs q1 obtain q2 q3 where q: "others (ap_world A) c2 q1 = Some q2" "others (ap_world A) c3 q2 = Some q3"
      and "r = map_sum (\<lambda>e. e) Some (snd (place A (cl_place c3) dir a (queue_path q2 i) (q_fs q3)))"
        "q' = q3\<lparr>q_fs := fst (place A (cl_place c3) dir a (queue_path q2 i) (q_fs q3))\<rparr>"
      by (auto simp: settle_def bind_eq_Some_conv Let_def)
    with three [OF q] show ?thesis by blast
  next
    case Failed
    with assms(1) cs q1 two show ?thesis by (auto simp: settle_def bind_eq_Some_conv)
  qed (use assms(1) cs q1 r1 in \<open>auto simp: settle_def\<close>)
qed

section \<open>Acquiring\<close>

text \<open>
  Where an acquisition stands: every index below \<open>next\<close> is placed or tracked, and what is placed is
  on disk as the manifest named it.
\<close>

definition acquiring :: "applier \<Rightarrow> string \<Rightarrow> plan \<Rightarrow> acquisition \<Rightarrow> queue \<Rightarrow> bool" where
  "acquiring A dir p acq q \<longleftrightarrow> queue_ready (ap_world A) q
     \<and> length (aq_placed acq) = length (plan_artifacts p) \<and> aq_next acq \<le> length (plan_artifacts p)
     \<and> (\<forall>t \<in> set (aq_active acq). snd t < aq_next acq)
     \<and> (\<forall>k < aq_next acq. aq_placed acq ! k \<noteq> None \<or> k \<in> snd ` set (aq_active acq))
     \<and> (\<forall>k < length (plan_artifacts p). \<forall>inst. aq_placed acq ! k = Some inst \<longrightarrow>
          holds_artifact (w_lib (ap_world A)) dir (q_fs q) (plan_artifacts p ! k) inst)"

definition placeable :: "applier \<Rightarrow> string \<Rightarrow> plan \<Rightarrow> bool" where
  "placeable A dir p \<longleftrightarrow> apart (ap_world A) dir \<and> list_all (\<lambda>a. is_clean_relative_path (art_path a)) (plan_artifacts p)
     \<and> distinct (map art_path (plan_artifacts p))"

lemma artifact_beneath: "placeable A dir p \<Longrightarrow> k < length (plan_artifacts p) \<Longrightarrow>
    beneath dir (path_join dir (art_path (plan_artifacts p ! k)))"
proof -
  assume "placeable A dir p" "k < length (plan_artifacts p)"
  then have "is_clean_relative_path (art_path (plan_artifacts p ! k))" by (simp add: placeable_def list_all_length)
  then show ?thesis using clean_path_beneath by blast
qed

lemma artifact_paths: "placeable A dir p \<Longrightarrow> k < length (plan_artifacts p) \<Longrightarrow> j < length (plan_artifacts p) \<Longrightarrow>
    path_join dir (art_path (plan_artifacts p ! k)) = path_join dir (art_path (plan_artifacts p ! j)) \<longleftrightarrow> k = j"
  using clean_path_beneath [of "art_path (plan_artifacts p ! k)" dir] clean_path_beneath [of "art_path (plan_artifacts p ! j)" dir]
    nth_eq_iff_index_eq [of "map art_path (plan_artifacts p)" k j]
  by (auto simp: placeable_def list_all_length)

lemma holds_frame: "holds_artifact l dir f a inst \<Longrightarrow> f' (path_join dir (art_path a)) = f (path_join dir (art_path a)) \<Longrightarrow>
    holds_artifact l dir f' a inst"
  by (simp add: holds_artifact_def)

lemma acquiring_frame:
  assumes "acquiring A dir p acq q" "placeable A dir p" "queue_ready (ap_world A) q'"
    "same_outside (w_root (ap_world A)) (q_fs q) (q_fs q')"
  shows "acquiring A dir p acq q'"
proof -
  have "q_fs q' (path_join dir (art_path (plan_artifacts p ! k))) = q_fs q (path_join dir (art_path (plan_artifacts p ! k)))"
    if "k < length (plan_artifacts p)" for k
    using apart_outside [OF _ artifact_beneath [OF assms(2) that] assms(4)] assms(2) by (simp add: placeable_def)
  with assms(1,3) holds_frame show ?thesis by (simp add: acquiring_def) metis
qed

lemma set_swap_remove: "i < length xs \<Longrightarrow> set xs \<subseteq> insert (xs ! i) (set (swap_remove i xs))
    \<and> set (swap_remove i xs) \<subseteq> set xs"
proof -
  assume i: "i < length xs"
  then have ne: "xs \<noteq> []" by auto
  show ?thesis
  proof (cases "Suc i = length xs")
    case True
    then have "xs = butlast xs @ [xs ! i]"
      using ne by (metis append_butlast_last_id diff_Suc_1 last_conv_nth)
    then have "set xs = insert (xs ! i) (set (butlast xs))"
      by (metis Un_insert_right append.right_neutral list.simps(15) set_append sup_bot_right)
    with True show ?thesis by (auto simp: swap_remove_def)
  next
    case False
    then have sr: "swap_remove i xs = butlast (xs[i := last xs])" by (simp add: swap_remove_def)
    have nth: "swap_remove i xs ! k = (if k = i then last xs else xs ! k)" if "k < length xs - 1" for k
      using that i by (simp add: sr nth_butlast)
    have len: "length (swap_remove i xs) = length xs - 1" by (simp add: sr)
    have "x \<in> insert (xs ! i) (set (swap_remove i xs))" if "x \<in> set xs" for x
    proof -
      from that obtain k where k: "k < length xs" "x = xs ! k" by (auto simp: in_set_conv_nth)
      consider "k = i" | "k = length xs - 1" | "k \<noteq> i" "k < length xs - 1" using k by linarith
      then show ?thesis
      proof cases
        case 2
        then have "x = swap_remove i xs ! i" "i < length (swap_remove i xs)"
          using nth [of i] False i k ne len by (auto simp: last_conv_nth)
        then show ?thesis by simp
      next
        case 3
        then have "x = swap_remove i xs ! k" "k < length (swap_remove i xs)" using nth [of k] k len by auto
        then show ?thesis by simp
      qed (use k in simp)
    qed
    moreover have "set (swap_remove i xs) \<subseteq> set xs"
      using set_update_subset_insert [of xs i "last xs"] last_in_set [OF ne] in_set_butlastD [of _ "xs[i := last xs]"]
      by (auto simp: sr)
    ultimately show ?thesis by blast
  qed
qed

lemma acquiring_settled:
  assumes acq: "acquiring A dir p acq q" and pl: "placeable A dir p" and cur: "cursor < length (aq_active acq)"
    and ii: "aq_active acq ! cursor = (i, index)"
    and s: "settle A dir (plan_artifacts p ! index) i cs q = Some (r, cs1, q')"
  shows "case r of Inr (Some inst) \<Rightarrow> acquiring A dir p (placed_at cursor inst index acq) q'
    | _ \<Rightarrow> acquiring A dir p acq q'"
proof -
  have "(i, index) \<in> set (aq_active acq)" using cur ii nth_mem by metis
  then have index: "index < aq_next acq" "index < length (plan_artifacts p)"
    using acq by (force simp: acquiring_def)+
  obtain q1 where q1: "queue_ready (ap_world A) q1" "same_outside (w_root (ap_world A)) (q_fs q) (q_fs q1)"
    and alt: "(q' = q1 \<and> (r = Inr None \<or> (\<exists>e. r = Inl e)))
       \<or> (\<exists>pe cached. q' = q1\<lparr>q_fs := fst (place A pe dir (plan_artifacts p ! index) cached (q_fs q1))\<rparr>
            \<and> r = map_sum (\<lambda>e. e) Some (snd (place A pe dir (plan_artifacts p ! index) cached (q_fs q1))))"
    using settle_cases [OF s] acq by (auto simp: acquiring_def)
  have a1: "acquiring A dir p acq q1" by (rule acquiring_frame [OF acq pl q1])
  from alt show ?thesis
  proof
    assume "q' = q1 \<and> (r = Inr None \<or> (\<exists>e. r = Inl e))"
    with a1 show ?thesis by auto
  next
    assume "\<exists>pe cached. q' = q1\<lparr>q_fs := fst (place A pe dir (plan_artifacts p ! index) cached (q_fs q1))\<rparr>
            \<and> r = map_sum (\<lambda>e. e) Some (snd (place A pe dir (plan_artifacts p ! index) cached (q_fs q1)))"
    then obtain pe cached f r' where f: "place A pe dir (plan_artifacts p ! index) cached (q_fs q1) = (f, r')"
      and q': "q' = q1\<lparr>q_fs := f\<rparr>" and r: "r = map_sum (\<lambda>e. e) Some r'"
      by (metis prod.collapse)
    have ready: "queue_ready (ap_world A) q'" unfolding q' by (rule ready_fs [OF q1(1)])
    have other: "holds_artifact (w_lib (ap_world A)) dir f (plan_artifacts p ! k) inst"
      if "k < length (plan_artifacts p)" "k \<noteq> index \<or> (\<exists>e. r' = Inl e)" "aq_placed acq ! k = Some inst" for k inst
    proof -
      have h: "holds_artifact (w_lib (ap_world A)) dir (q_fs q1) (plan_artifacts p ! k) inst"
        using a1 that by (simp add: acquiring_def)
      let ?x = "path_join dir (art_path (plan_artifacts p ! k))"
      have "\<not> cache_file (w_root (ap_world A)) ?x"
        using apart_cache artifact_beneath [OF pl that(1)] pl by (auto simp: placeable_def)
      moreover have "q_fs q1 ?x \<noteq> None" using h by (auto simp: holds_artifact_def)
      moreover have "?x \<noteq> path_join dir (art_path (plan_artifacts p ! index)) \<or> (\<exists>e. r' = Inl e)"
        using artifact_paths [OF pl that(1) index(2)] that(2) by simp
      ultimately have "f ?x = q_fs q1 ?x" by (rule place_kept [OF f])
      with h show ?thesis by (rule holds_frame)
    qed
    show ?thesis
    proof (cases r')
      case (Inr inst)
      have here: "holds_artifact (w_lib (ap_world A)) dir f (plan_artifacts p ! index) inst"
        using place_Inr f Inr by blast
      have sw: "set (aq_active acq) \<subseteq> insert (i, index) (set (swap_remove cursor (aq_active acq)))"
        "set (swap_remove cursor (aq_active acq)) \<subseteq> set (aq_active acq)"
        using set_swap_remove [OF cur] ii by auto
      have "acquiring A dir p (placed_at cursor inst index acq) q'"
        unfolding acquiring_def
      proof (intro conjI allI ballI impI)
        fix k inst'
        assume "k < length (plan_artifacts p)" "aq_placed (placed_at cursor inst index acq) ! k = Some inst'"
        then show "holds_artifact (w_lib (ap_world A)) dir (q_fs q') (plan_artifacts p ! k) inst'"
          using other here a1 index by (cases "k = index") (auto simp: placed_at_def acquiring_def q')
      next
        fix k
        assume "k < aq_next (placed_at cursor inst index acq)"
        then have k: "k < aq_next acq" by (simp add: placed_at_def)
        then have "aq_placed acq ! k \<noteq> None \<or> k \<in> snd ` set (aq_active acq)" using a1 by (simp add: acquiring_def)
        then show "aq_placed (placed_at cursor inst index acq) ! k \<noteq> None
            \<or> k \<in> snd ` set (aq_active (placed_at cursor inst index acq))"
          using sw(1) index a1 by (cases "k = index") (auto simp: placed_at_def acquiring_def)
      qed (use a1 ready sw(2) in \<open>auto simp: placed_at_def acquiring_def\<close>)
      with r Inr show ?thesis by simp
    next
      case (Inl e)
      then have "acquiring A dir p acq q'" using a1 ready other by (auto simp: acquiring_def q')
      with r Inl show ?thesis by simp
    qed
  qed
qed

lemma acquiring_fill:
  assumes "fill A p prio acq progressed cs q = Some (r, acq', progressed', cs', q')"
    "acquiring A dir p acq q" "placeable A dir p"
  shows "acquiring A dir p acq' q'"
proof (rule fill_keeps [OF assms(1), of "\<lambda>acq cs q. acquiring A dir p acq q"])
  have step: "acquiring A dir p acq q2"
    if "acquiring A dir p acq q" "others (ap_world A) c q = Some q1"
      "queue_push (cl_threads c) req (cl_now c) q1 = (q2, got)" for acq c q req q1 q2 got
  proof -
    have r: "queue_ready (ap_world A) q" using that(1) by (simp add: acquiring_def)
    note o = ready_others [OF r that(2)]
    note p = ready_push [OF conjunct1 [OF o] that(3)]
    show ?thesis
      using acquiring_frame [OF that(1) assms(3) conjunct1 [OF p]] o p same_outside_trans by blast
  qed
  fix acq c cs q req q1 q2
  assume a: "acquiring A dir p acq q" "aq_next acq < length (plan_artifacts p)" "others (ap_world A) c q = Some q1"
  show "queue_push (cl_threads c) req (cl_now c) q1 = (q2, None) \<Longrightarrow> acquiring A dir p acq q2"
    by (rule step [OF a(1,3)])
  fix i
  assume "queue_push (cl_threads c) req (cl_now c) q1 = (q2, Some i)"
  from step [OF a(1,3) this] a(2)
  show "acquiring A dir p (acq\<lparr>aq_active := aq_active acq @ [(i, aq_next acq)], aq_next := Suc (aq_next acq)\<rparr>) q2"
    by (auto simp: acquiring_def less_Suc_eq)
qed (rule assms(2))

lemma acquiring_sweep:
  assumes "sweep A dir p cursor acq progressed cs q = Some (r, acq', progressed', cs', q')"
    "acquiring A dir p acq q" "placeable A dir p"
  shows "acquiring A dir p acq' q'"
proof (rule sweep_keeps [OF assms(1), of "\<lambda>acq cs q. acquiring A dir p acq q"])
  fix acq cursor i index cs q cs1 q1
  assume a: "acquiring A dir p acq q" "cursor < length (aq_active acq)" "aq_active acq ! cursor = (i, index)"
  note settled = acquiring_settled [OF a(1) assms(3) a(2,3)]
  show "settle A dir (plan_artifacts p ! index) i cs q = Some (Inr None, cs1, q1) \<Longrightarrow> acquiring A dir p acq q1"
    using settled by fastforce
  show "settle A dir (plan_artifacts p ! index) i cs q = Some (Inl e, cs1, q1) \<Longrightarrow> acquiring A dir p acq q1" for e
    using settled by fastforce
  fix inst c q2
  assume "settle A dir (plan_artifacts p ! index) i cs q = Some (Inr (Some inst), c # cs1, q1)"
    and o: "others (ap_world A) c q1 = Some q2"
  with settled have acq1: "acquiring A dir p (placed_at cursor inst index acq) q1" by fastforce
  then have "queue_ready (ap_world A) q1" by (simp add: acquiring_def)
  note o' = ready_others [OF this o]
  note rm = ready_remove [OF conjunct1 [OF o'], of i]
  show "acquiring A dir p (placed_at cursor inst index acq) (fst (queue_remove i q2))"
    using acquiring_frame [OF acq1 assms(3) conjunct1 [OF rm]] o' rm same_outside_trans by blast
qed (rule assms(2))

lemma acquiring_loop:
  "acquire_loop A dir p prio acq cs q = Some (r, acq', cs', q') \<Longrightarrow> acquiring A dir p acq q \<Longrightarrow> placeable A dir p \<Longrightarrow>
   acquiring A dir p acq' q' \<and> (\<forall>is. r = Inr is \<longrightarrow> length (plan_artifacts p) \<le> aq_next acq' \<and> aq_active acq' = []
      \<and> is = List.map_filter (\<lambda>x. x) (aq_placed acq'))"
proof (induction "length cs" arbitrary: acq cs q rule: less_induct)
  case less
  show ?case
  proof (cases "length (plan_artifacts p) \<le> aq_next acq \<and> aq_active acq = []")
    case True
    with less.prems show ?thesis by (subst (asm) acquire_loop.simps) auto
  next
    case False
    obtain r1 acq1 pr1 cs1 q1 where f: "fill A p prio acq False cs q = Some (r1, acq1, pr1, cs1, q1)"
      using less.prems(1) False by (subst (asm) acquire_loop.simps) (auto split: option.splits)
    note a1 = acquiring_fill [OF f less.prems(2,3)]
    show ?thesis
    proof (cases r1)
      case (Inl e)
      with less.prems(1) False f a1 show ?thesis by (subst (asm) acquire_loop.simps) auto
    next
      case (Inr u)
      obtain r2 acq2 pr2 cs2 q2 where s: "sweep A dir p 0 acq1 pr1 cs1 q1 = Some (r2, acq2, pr2, cs2, q2)"
        using less.prems(1) False f Inr by (subst (asm) acquire_loop.simps) (auto split: option.splits)
      note a2 = acquiring_sweep [OF s a1 less.prems(3)]
      show ?thesis
      proof (cases r2)
        case (Inl e)
        with less.prems(1) False f s \<open>r1 = Inr u\<close> a2 show ?thesis by (subst (asm) acquire_loop.simps) auto
      next
        case (Inr v)
        have "acquire_loop A dir p prio acq2 cs2 q2 = Some (r, acq', cs', q')"
          using less.prems(1) False f s \<open>r1 = Inr u\<close> Inr by (subst (asm) acquire_loop.simps) auto
        from less.hyps [OF round_calls [OF False f [unfolded \<open>r1 = Inr u\<close>] s] this a2 less.prems(3)]
        show ?thesis .
      qed
    qed
  qed
qed

lemma filter_all_placed:
  "length xs = length ys \<Longrightarrow> (\<And>k. k < length xs \<Longrightarrow> \<exists>z. xs ! k = Some z \<and> R (ys ! k) z) \<Longrightarrow>
   list_all2 R ys (List.map_filter (\<lambda>x. x) xs)"
proof (induction xs ys rule: list_induct2)
  case (Cons x xs y ys)
  from Cons.prems [of 0] obtain z where "x = Some z" "R y z" by auto
  moreover have "list_all2 R ys (List.map_filter (\<lambda>x. x) xs)"
    using Cons.prems [of "Suc k" for k] by (intro Cons.IH) auto
  ultimately show ?case by (simp add: List.map_filter_simps)
qed (simp add: List.map_filter_simps)

definition all_hold :: "applier \<Rightarrow> string \<Rightarrow> plan \<Rightarrow> fs \<Rightarrow> installed list \<Rightarrow> bool" where
  "all_hold A dir p f is \<longleftrightarrow> list_all2 (holds_artifact (w_lib (ap_world A)) dir f) (plan_artifacts p) is"

lemma acquire_holds:
  assumes a: "acquire A dir p prio cs q = Some (Inr is, cs', q')" and pl: "placeable A dir p"
    and ready: "queue_ready (ap_world A) q"
  shows "queue_ready (ap_world A) q' \<and> all_hold A dir p (q_fs q') is"
proof -
  let ?start = "\<lparr>aq_next = 0, aq_active = [], aq_placed = replicate (length (plan_artifacts p)) None\<rparr>"
  obtain acq cs1 q1 where l: "acquire_loop A dir p prio ?start cs q = Some (Inr is, acq, cs1, q1)"
    and d: "drop_acquisition (ap_world A) (aq_active acq) cs1 q1 = Some (cs', q')"
    using a by (auto simp: acquire_def Let_def bind_eq_Some_conv)
  have "acquiring A dir p ?start q" using ready by (simp add: acquiring_def)
  note k = acquiring_loop [OF l this pl]
  then have acq: "acquiring A dir p acq q1" and fin: "length (plan_artifacts p) \<le> aq_next acq" "aq_active acq = []"
    and iss: "is = List.map_filter (\<lambda>x. x) (aq_placed acq)" by auto
  have "q' = q1" using d fin(2) by (simp add: drop_acquisition_def)
  moreover have "\<exists>z. aq_placed acq ! k = Some z \<and> holds_artifact (w_lib (ap_world A)) dir (q_fs q1) (plan_artifacts p ! k) z"
    if "k < length (aq_placed acq)" for k
    using acq fin that by (force simp: acquiring_def)
  then have "all_hold A dir p (q_fs q1) is"
    unfolding all_hold_def iss using acq by (intro filter_all_placed) (auto simp: acquiring_def)
  ultimately show ?thesis using acq by (simp add: acquiring_def)
qed

section \<open>Publishing\<close>

text \<open>
  The documented behaviour of the record's JSON and its store: what was written reads back, a store
  that succeeds lands its file, and no store writes below the directory it keeps its files in.
\<close>

definition install_lib_ok :: "install_lib \<Rightarrow> bool" where
  "install_lib_ok il \<longleftrightarrow> (\<forall>r b. il_ser il r = Some b \<longrightarrow> il_de il b = Some r)
   \<and> (\<forall>e dir nm b f f'. il_store il e dir nm b f = (f', True) \<longrightarrow> f' (path_join dir nm) = Some b)
   \<and> (\<forall>e dir nm b f i x. plain_name nm \<and> plain_name i \<and> beneath (dir_of dir i) x
        \<longrightarrow> fst (il_store il e dir nm b f) x = f x)"

lemma refuse_from_None:
  "refuse_from taken as = None \<longleftrightarrow> distinct (map art_path as) \<and> (\<forall>a \<in> set as. taken (art_path a) = None)"
proof (induction as arbitrary: taken)
  case (Cons a as)
  then show ?case by (cases "taken (art_path a)") (auto simp: image_iff split: if_splits)
qed simp

lemma first_refusal_None: "first_refusal g as = None \<longleftrightarrow> list_all (\<lambda>a. g a = None) as"
  by (induction as) (auto split: option.split)

lemma refuse_unsafe_names_None:
  "refuse_unsafe_names p = None \<longleftrightarrow> is_hex_sha256 (plan_generation_id p)
     \<and> list_all (\<lambda>a. is_clean_relative_path (art_path a)) (plan_artifacts p)"
  by (auto simp: refuse_unsafe_names_def first_refusal_None refuse_unsafe_path_def list_all_iff split: if_splits)

lemma hex_plain: "is_hex_sha256 s \<Longrightarrow> plain_name s"
proof -
  assume h: "is_hex_sha256 s"
  then have "length s = 64" "list_all is_lower_hex s" by (simp_all add: is_hex_sha256_def)
  moreover have "\<not> is_lower_hex (CHR ''/'')" by (simp add: is_lower_hex_def hex_digits_def)
  ultimately show ?thesis by (auto simp: plain_name_def list_all_iff)
qed

lemma apart_dir: "apart wd root \<Longrightarrow> plain_name i \<Longrightarrow> apart wd (dir_of root i)"
proof -
  assume a: "apart wd root" and i: "plain_name i"
  have "beneath root x" if "beneath (dir_of root i) x" for x
    using that i by (auto simp: beneath_iff) (simp add: beneath_def starts_with_def)
  with a show ?thesis by (simp add: apart_def)
qed

lemma record_plain: "plain_name i \<Longrightarrow> plain_name (record_name i)"
  by (auto simp: plain_name_def record_name_def RECORD_SUFFIX_def append_eq_Cons_conv)

lemma record_generation_Inr:
  assumes "install_lib_ok il" "record_generation il root e ident is f = (f', Inr g)" "plain_name ident"
  shows "g = \<lparr>gen_id = ident, gen_dir = dir_of root ident, gen_artifacts = is\<rparr>
    \<and> resolve_generation il root True ident f' = Some g
    \<and> (\<forall>i x. plain_name i \<and> beneath (dir_of root i) x \<longrightarrow> f' x = f x)"
proof -
  let ?r = "\<lparr>ir_schema = RECORD_SCHEMA, ir_generation = ident, ir_artifacts = is\<rparr>"
  obtain b where b: "il_ser il ?r = Some b" "il_store il e root (record_name ident) b f = (f', True)"
    and g: "g = \<lparr>gen_id = ident, gen_dir = dir_of root ident, gen_artifacts = is\<rparr>"
    using assms(2) by (auto simp: record_generation_def Let_def split: option.splits prod.splits if_splits)
  have "il_de il b = Some ?r" "f' (generation_record root ident) = Some b"
    using assms(1) b by (auto simp: install_lib_ok_def generation_record_def)
  moreover have "\<forall>i x. plain_name i \<and> beneath (dir_of root i) x \<longrightarrow> f' x = f x"
    using assms(1) b(2) record_plain [OF assms(3)] unfolding install_lib_ok_def by (metis fst_conv)
  ultimately show ?thesis by (simp add: resolve_generation_def g)
qed

text \<open>What a published generation promises about every artifact of the plan.\<close>

definition artifact_installed :: "lib \<Rightarrow> fs \<Rightarrow> generation \<Rightarrow> artifact \<Rightarrow> installed \<Rightarrow> bool" where
  "artifact_installed l f g a inst \<longleftrightarrow> inst_name inst = art_name a \<and> inst_target inst = art_target a
     \<and> inst_path inst = art_path a \<and> (\<exists>d c. digest_from_hex l (art_sha256 a) = Inr d
         \<and> inst_sha256 inst = digest_to_string d \<and> f (path_of g inst) = Some c \<and> sha256 l c = as_bytes d)"

lemma holds_installed:
  "holds_artifact l (gen_dir g) f a inst \<Longrightarrow> artifact_installed l f g a inst"
  by (auto simp: holds_artifact_def artifact_installed_def installed_of_def path_of_def digest_of_def split: sum.splits)

lemma publish_Inr:
  assumes il: "install_lib_ok (ap_lib A)" and ready: "queue_ready (ap_world A) (as_queue S)"
    and apart: "apart (ap_world A) (ap_install A)" and safe: "refuse_unsafe_names p = None"
    and pub: "publish A p prio e cs S = Some (Inr g, cs', S')"
  shows "resolve_generation (ap_lib A) (ap_install A) True (plan_generation_id p) (q_fs (as_queue S')) = Some g
    \<and> gen_id g = plan_generation_id p
    \<and> list_all2 (artifact_installed (w_lib (ap_world A)) (q_fs (as_queue S')) g) (plan_artifacts p) (gen_artifacts g)
    \<and> queue_ready (ap_world A) (as_queue S')"
proof -
  let ?i = "plan_generation_id p" and ?dir = "dir_of (ap_install A) (plan_generation_id p)"
  have plain: "plain_name ?i" and clean: "list_all (\<lambda>a. is_clean_relative_path (art_path a)) (plan_artifacts p)"
    using safe hex_plain by (simp_all add: refuse_unsafe_names_None)
  have coll: "refuse_collisions (plan_artifacts p) = None"
    using pub by (auto simp: publish_def Let_def split: option.splits)
  then have "distinct (map art_path (plan_artifacts p))" by (simp add: refuse_collisions_def refuse_from_None)
  with clean have pl: "placeable A ?dir p" using apart_dir [OF apart plain] by (simp add: placeable_def)
  obtain iss c cs1 q1 q2 f where acq: "acquire A ?dir p prio cs (as_queue S) = Some (Inr iss, c # cs1, q1)"
    and o: "others (ap_world A) c q1 = Some q2"
    and rg: "record_generation (ap_lib A) (ap_install A) (av_store e) ?i iss (q_fs q2) = (f, Inr g)"
    and S': "as_queue S' = q2\<lparr>q_fs := f\<rparr>"
    using pub coll
    by (auto simp: publish_def Let_def bind_eq_Some_conv split: if_splits option.splits sum.splits list.splits)
      (metis prod.collapse)
  note h = acquire_holds [OF acq pl ready]
  note r2 = ready_others [OF conjunct1 [OF h] o]
  note r = record_generation_Inr [OF il rg plain]
  have "list_all2 (artifact_installed (w_lib (ap_world A)) f g) (plan_artifacts p) iss"
  proof (rule list_all2_all_nthI)
    show "length (plan_artifacts p) = length iss" using h by (auto simp: all_hold_def list_all2_lengthD)
    fix k
    assume k: "k < length (plan_artifacts p)"
    have hk: "holds_artifact (w_lib (ap_world A)) ?dir (q_fs q1) (plan_artifacts p ! k) (iss ! k)"
      using h k by (auto simp: all_hold_def list_all2_conv_all_nth)
    let ?x = "path_join ?dir (art_path (plan_artifacts p ! k))"
    have b: "beneath ?dir ?x" by (rule artifact_beneath [OF pl k])
    have "f ?x = q_fs q2 ?x" using r plain b by blast
    also have "\<dots> = q_fs q1 ?x" using apart_outside [OF _ b] pl r2 by (auto simp: placeable_def)
    finally have "holds_artifact (w_lib (ap_world A)) (gen_dir g) f (plan_artifacts p ! k) (iss ! k)"
      using holds_frame [OF hk] r by simp
    then show "artifact_installed (w_lib (ap_world A)) f g (plan_artifacts p ! k) (iss ! k)" by (rule holds_installed)
  qed
  with r r2 S' show ?thesis by (simp add: ready_fs)
qed

end
