(* ===== verification/Apply_Runs.thy ===== *)
theory Apply_Runs
  imports Apply_Props
begin

text \<open>
  What applying a plan promises, end to end, on concrete runs too; and the window in which a sweep of
  old generations deletes one that is being put in place.
\<close>

section \<open>What a published generation holds\<close>


section \<open>A run\<close>

text \<open>One artifact of one byte, whose complete cache entry is already on disk.\<close>

definition tiny_digest :: ArtifactDigest where "tiny_digest = ArtifactDigest (1 # replicate 31 0)"

definition tiny :: artifact where
  "tiny = \<lparr>art_name = ''uade'', art_target = None, art_path = ''p/u.so'', art_sha256 = digest_to_string tiny_digest,
     art_size = 1, art_revision = ''abc'', art_version = None\<rparr>"

definition tiny_id :: string where "tiny_id = replicate 64 CHR ''a''"

definition tiny_plan :: plan where
  "tiny_plan = \<lparr>plan_generation_id = tiny_id, plan_release_version = 1, plan_artifacts = [tiny],
     plan_total_bytes = 1, plan_cached_bytes = 1\<rparr>"

definition tiny_record :: install_record where
  "tiny_record = \<lparr>ir_schema = RECORD_SCHEMA, ir_generation = tiny_id, ir_artifacts = [installed_of tiny_digest tiny]\<rparr>"

text \<open>A record's JSON that one byte stands for, and a store that lands every plain name.\<close>

definition tiny_install_lib :: install_lib where
  "tiny_install_lib = \<lparr>il_ser = (\<lambda>r. if r = tiny_record then Some [7] else None),
     il_de = (\<lambda>b. if b = [7] then Some tiny_record else None),
     il_store = (\<lambda>_ dir nm b f. if plain_name nm then (f(path_join dir nm \<mapsto> b), True) else (f, False))\<rparr>"

lemma plain_not_beneath: "plain_name i \<Longrightarrow> plain_name nm \<Longrightarrow> \<not> beneath (dir_of root i) (path_join root nm)"
proof
  assume i: "plain_name i" and n: "plain_name nm" and b: "beneath (dir_of root i) (path_join root nm)"
  have "path_join root nm = path_join root [] @ nm" using n plain_dir_of [of nm root] by (simp add: dir_of_def)
  with i b obtain x where "nm = i @ CHR ''/'' # x" by (auto simp: beneath_iff)
  with n show False by (simp add: plain_name_def)
qed

lemma tiny_install_ok: "install_lib_ok tiny_install_lib"
  using plain_not_beneath by (auto simp: install_lib_ok_def tiny_install_lib_def split: if_splits)

definition tiny_applier :: applier where
  "tiny_applier = applier_new sample_world tiny_install_lib ''r'' ''https://h/{version}/''"

definition tiny_fs :: fs where
  "tiny_fs = meta_write Landed (path_for ''c'' tiny_digest)
     \<lparr>file_size = 1, bytes_written = 1, meta_etag = pack_etag ''v1''\<rparr> [path_for ''c'' tiny_digest \<mapsto> [1]]"

definition tiny_start :: apply_state where
  "tiny_start = \<lparr>as_queue = with_config 1 tiny_fs, as_claims = Map.empty, as_seen = [], as_pending = []\<rparr>"

definition good_place :: place_env where
  "good_place = \<lparr>pe_mkdir = True, pe_open = True, pe_temp = ''.tmp'', pe_copied = True, pe_dropped = True,
     pe_disk = readable, pe_persist = True, pe_gone = (True, True)\<rparr>"

definition call_after :: "event list \<Rightarrow> call" where
  "call_after evs = \<lparr>cl_others = evs, cl_threads = spawns, cl_now = 1, cl_place = good_place\<rparr>"

definition tiny_calls :: "call list" where
  "tiny_calls = [call_after [], call_after [Drain 0 spawns, step_of 0, step_of 0, step_of 0],
     call_after [], call_after [], call_after [], call_after []]"

definition tiny_env :: apply_env where "tiny_env = \<lparr>av_readable = True, av_mkdir = True, av_store = 0\<rparr>"

definition tiny_generation :: generation where
  "tiny_generation = \<lparr>gen_id = tiny_id, gen_dir = dir_of ''r'' tiny_id, gen_artifacts = [installed_of tiny_digest tiny]\<rparr>"

definition tiny_request :: queue_request where
  "tiny_request = \<lparr>qr_url = ''https://h/1/p/u.so'', qr_digest = tiny_digest, qr_expected_size = Some 1,
     qr_priority = Background\<rparr>"

definition tiny_queued :: queue where
  "tiny_queued = fst (queue_push spawns tiny_request 1 (with_config 1 tiny_fs))"

definition tiny_ready :: queue where
  "tiny_ready = the (others sample_world (tiny_calls ! 1) tiny_queued)"

definition tiny_placed :: "fs \<times> (apply_error + installed)" where
  "tiny_placed = place tiny_applier good_place (dir_of ''r'' tiny_id) tiny (Some (path_for ''c'' tiny_digest)) (q_fs tiny_ready)"

lemma tiny_steps:
  "request_for tiny_applier tiny 1 Background = Inr tiny_request"
  "snd (queue_push spawns tiny_request 1 (with_config 1 tiny_fs)) = Some 0"
  "\<not> Option.is_none (others sample_world (tiny_calls ! 1) tiny_queued)"
  "queue_state tiny_ready 0 = State.Complete"
  "queue_path tiny_ready 0 = Some (path_for ''c'' tiny_digest)"
  "refuse_unsafe_names tiny_plan = None"
  "resolve_generation tiny_install_lib ''r'' True tiny_id tiny_fs = None"
  by code_simp+

lemma tiny_files:
  "q_fs tiny_ready (path_for ''c'' tiny_digest) = Some [1]"
  "q_fs tiny_ready (path_join (parent_of (dir_of ''r'' tiny_id) (path_join (dir_of ''r'' tiny_id) ''p/u.so'')) ''.tmp'') = None"
  "digest_from_hex sample_lib (digest_to_string tiny_digest) = Inr tiny_digest"
  "sha256 sample_lib [1] = as_bytes tiny_digest"
  by code_simp+

lemma tiny_placing: "snd tiny_placed = Inr (installed_of tiny_digest tiny)"
  using hash_file_reads [of readable _ _ "[1]" sample_lib] tiny_files
  by (simp add: tiny_placed_def place_def Let_def digest_of_def tiny_def tiny_applier_def applier_new_def
      sample_world_def good_place_def copy_durably_def verify_on_disk_def readable_def)

lemma tiny_calls_split: "tiny_calls = [tiny_calls ! 0, tiny_calls ! 1, tiny_calls ! 2, tiny_calls ! 3, tiny_calls ! 4, tiny_calls ! 5]"
  by (simp add: tiny_calls_def)

lemma call_after_nothing: "others wd (call_after []) q = Some q"
  by (simp add: others_def call_after_def)

definition tiny_landed :: queue where
  "tiny_landed = fst (queue_remove 0 (tiny_ready\<lparr>q_fs := fst tiny_placed\<rparr>))"

lemma tiny_fill:
  "fill tiny_applier tiny_plan Background \<lparr>aq_next = 0, aq_active = [], aq_placed = [None]\<rparr> False tiny_calls (with_config 1 tiny_fs)
     = Some (Inr (), \<lparr>aq_next = 1, aq_active = [(0, 0)], aq_placed = [None]\<rparr>, True, tl tiny_calls, tiny_queued)"
proof -
  have "queue_push spawns tiny_request 1 (with_config 1 tiny_fs) = (tiny_queued, Some 0)"
    using tiny_steps(2) by (simp add: tiny_queued_def prod_eq_iff)
  moreover have "cl_threads (call_after e) = spawns" "cl_now (call_after e) = 1" for e by (simp_all add: call_after_def)
  ultimately show ?thesis
    using tiny_steps(1) by (simp add: tiny_calls_def tiny_plan_def call_after_nothing)
qed

lemma tiny_settle:
  "settle tiny_applier (dir_of ''r'' tiny_id) tiny 0 (tl tiny_calls) tiny_queued
     = Some (Inr (Some (installed_of tiny_digest tiny)), [call_after [], call_after []], tiny_ready\<lparr>q_fs := fst tiny_placed\<rparr>)"
proof -
  have "others sample_world (tiny_calls ! 1) tiny_queued = Some tiny_ready"
    using tiny_steps(3) by (auto simp: tiny_ready_def Option.is_none_def)
  moreover have "cl_place (call_after e) = good_place" for e by (simp add: call_after_def)
  moreover have "ap_world tiny_applier = sample_world" by (simp add: tiny_applier_def applier_new_def)
  ultimately show ?thesis
    using tiny_steps(4,5) tiny_placing
    by (simp add: settle_def tiny_calls_def call_after_nothing Let_def tiny_placed_def)
qed

lemma tiny_acquire:
  "acquire tiny_applier (dir_of ''r'' tiny_id) tiny_plan Background tiny_calls (with_config 1 tiny_fs)
     = Some (Inr [installed_of tiny_digest tiny], [call_after []], tiny_landed)"
proof -
  have w: "ap_world tiny_applier = sample_world" by (simp add: tiny_applier_def applier_new_def)
  have one: "plan_artifacts tiny_plan = [tiny]" by (simp add: tiny_plan_def)
  have "sweep tiny_applier (dir_of ''r'' tiny_id) tiny_plan 0 \<lparr>aq_next = 1, aq_active = [(0, 0)], aq_placed = [None]\<rparr> True
      (tl tiny_calls) tiny_queued
    = Some (Inr (), \<lparr>aq_next = 1, aq_active = [], aq_placed = [Some (installed_of tiny_digest tiny)]\<rparr>, True,
        [call_after []], tiny_landed)"
    by (simp add: sweep.simps tiny_settle one w call_after_nothing tiny_landed_def swap_remove_def)
  then show ?thesis
    by (simp add: acquire_def acquire_loop.simps tiny_fill [simplified] one drop_acquisition_def List.map_filter_simps)
qed

definition tiny_recorded :: "fs \<times> (apply_error + generation)" where
  "tiny_recorded = record_generation tiny_install_lib ''r'' 0 tiny_id [installed_of tiny_digest tiny] (q_fs tiny_landed)"

lemma tiny_records: "snd tiny_recorded = Inr tiny_generation"
proof -
  have "plain_name (record_name tiny_id)"
    by (simp add: plain_name_def record_name_def RECORD_SUFFIX_def tiny_id_def)
  then show ?thesis
    by (simp add: tiny_recorded_def record_generation_def tiny_install_lib_def tiny_record_def Let_def tiny_generation_def)
qed

definition tiny_end :: apply_state where
  "tiny_end = record_completion tiny_generation
     (tiny_start\<lparr>as_queue := tiny_landed\<lparr>q_fs := fst tiny_recorded\<rparr>,
        as_claims := drop_publishing tiny_id (claim_publish tiny_id Map.empty)\<rparr>)"

lemma tiny_applies:
  "apply_plan tiny_applier tiny_plan Background tiny_env tiny_calls tiny_start = Some (Inr tiny_generation, [], tiny_end)"
proof -
  have A: "ap_install tiny_applier = ''r''" "ap_lib tiny_applier = tiny_install_lib" "ap_world tiny_applier = sample_world"
    by (simp_all add: tiny_applier_def applier_new_def)
  have p: "plan_generation_id tiny_plan = tiny_id" "refuse_collisions (plan_artifacts tiny_plan) = None"
    by (simp_all add: tiny_plan_def refuse_collisions_def)
  have q: "as_queue tiny_start = with_config 1 tiny_fs" "as_claims tiny_start = Map.empty"
    "q_fs (with_config 1 tiny_fs) = tiny_fs"
    by (simp_all add: tiny_start_def with_config_def Let_def)
  show ?thesis
    using tiny_steps(6,7) tiny_records tiny_acquire
    by (simp add: apply_plan_def A p q publish_def tiny_env_def Let_def call_after_nothing tiny_recorded_def tiny_end_def
        del: One_nat_def)
qed


section \<open>The sweep's window\<close>

definition tiny_file :: string where "tiny_file = path_of tiny_generation (installed_of tiny_digest tiny)"

lemma tiny_file_placed: "q_fs tiny_landed tiny_file = Some [1]"
proof -
  have d: "tiny_file = path_join (dir_of ''r'' tiny_id) ''p/u.so''"
    by (simp add: tiny_file_def path_of_def tiny_generation_def installed_of_def tiny_def)
  have "fst tiny_placed tiny_file = Some [1]"
    using hash_file_reads [of readable _ _ "[1]" sample_lib] tiny_files unfolding d
    by (simp add: tiny_placed_def place_def Let_def digest_of_def tiny_def tiny_applier_def applier_new_def
        sample_world_def good_place_def copy_durably_def verify_on_disk_def readable_def)
  then show ?thesis by (auto simp: tiny_landed_def queue_remove_def Let_def upd_slot_def split: prod.splits bool.splits)
qed

lemma tiny_file_beneath: "beneath (dir_of ''r'' tiny_id) tiny_file" "tiny_file \<noteq> generation_record ''r'' tiny_id"
  by code_simp+


end
