(* ===== verification/Schedule.thy ===== *)
theory Schedule
  imports Prelude
begin

text \<open>
  When a tick may check, \<open>crates/updater/src/updater/schedule.rs\<close>, with the retry delay of
  \<open>crates/updater/src/policy.rs\<close>. Milliseconds are \<open>i64\<close>, kept as integers of that range; the
  failure count is a \<open>u32\<close>.
\<close>

definition RETRY_BASE_DELAY_MS :: int where "RETRY_BASE_DELAY_MS = 1000"
definition MAX_RETRY_SHIFT :: u32 where "MAX_RETRY_SHIFT = 30"

definition retry_delay_ms :: "u32 \<Rightarrow> int" where
  "retry_delay_ms retry_count = RETRY_BASE_DELAY_MS * 2 ^ unat (min retry_count MAX_RETRY_SHIFT)"

record schedule =
  interval_ms :: int
  last_attempt_ms :: "int option"
  failures :: u32

definition schedule_new :: "nat \<Rightarrow> schedule" where
  "schedule_new millis = \<lparr>interval_ms = (if int millis \<le> I64_MAX then int millis else I64_MAX),
     last_attempt_ms = None, failures = 0\<rparr>"

definition wait_ms :: "schedule \<Rightarrow> int" where
  "wait_ms s = (if failures s = 0 then interval_ms s
     else max (interval_ms s) (retry_delay_ms (failures s - 1)))"

definition due :: "int \<Rightarrow> schedule \<Rightarrow> bool" where
  "due now_ms s = (case last_attempt_ms s of None \<Rightarrow> True
     | Some prior \<Rightarrow> wait_ms s \<le> sat_sub_i64 now_ms prior)"

definition attempted :: "int \<Rightarrow> schedule \<Rightarrow> schedule" where
  "attempted now_ms s = s\<lparr>last_attempt_ms := Some now_ms\<rparr>"

definition succeeded :: "schedule \<Rightarrow> schedule" where
  "succeeded s = s\<lparr>failures := 0\<rparr>"

definition failed :: "schedule \<Rightarrow> schedule" where
  "failed s = s\<lparr>failures := sat_add (failures s) 1\<rparr>"

section \<open>The wait\<close>

lemma retry_delay_bounds: "1000 \<le> retry_delay_ms c \<and> retry_delay_ms c \<le> 1000 * 2 ^ 30"
proof -
  have "unat (min c MAX_RETRY_SHIFT) \<le> 30"
    by (auto simp: min_def MAX_RETRY_SHIFT_def word_le_nat_alt)
  then have "(2::int) ^ unat (min c MAX_RETRY_SHIFT) \<le> 2 ^ 30" by (rule power_increasing) simp
  then show ?thesis by (simp add: retry_delay_ms_def RETRY_BASE_DELAY_MS_def)
qed

lemma retry_delay_fits: "retry_delay_ms c \<le> I64_MAX"
  using retry_delay_bounds [of c] by (simp add: I64_MAX_def)

lemma failures_after: "n < 2 ^ 32 \<Longrightarrow> unat (failures ((failed ^^ n) (succeeded s))) = n"
proof (induction n)
  case 0
  then show ?case by (simp add: succeeded_def)
next
  case (Suc n)
  then have "unat (failures ((failed ^^ n) (succeeded s))) = n" by simp
  moreover have "unat (failures (failed t)) = min (unat (failures t) + 1) (2 ^ 32 - 1)" for t
    by (simp add: failed_def unat_sat_add)
  ultimately show ?case using Suc.prems by simp
qed

lemma failed_keeps: "interval_ms ((failed ^^ n) s) = interval_ms s" "last_attempt_ms ((failed ^^ n) s) = last_attempt_ms s"
  by (induction n) (simp_all add: failed_def)

section \<open>Backing off\<close>

text \<open>
  The backoff stretches the interval, never shortens it, and never overflows: one second, doubled
  with every failure since the last success and capped at thirty doublings.
\<close>

lemma due_after_failures:
  assumes "n < 2 ^ 32" "last_attempt_ms s = Some prior" "0 \<le> prior" "prior \<le> now" "now \<le> I64_MAX"
  shows "due now ((failed ^^ n) (succeeded s)) \<longleftrightarrow>
    now - prior \<ge> (if n = 0 then interval_ms s else max (interval_ms s) (1000 * 2 ^ min (n - 1) 30))"
proof -
  let ?s = "(failed ^^ n) (succeeded s)"
  have f: "unat (failures ?s) = n" by (rule failures_after [OF assms(1)])
  have sub: "sat_sub_i64 now prior = now - prior"
    using assms(3-5) by (simp add: sat_sub_i64_def I64_MAX_def I64_MIN_def)
  have keeps: "interval_ms ?s = interval_ms s" "last_attempt_ms ?s = Some prior"
    using assms(2) by (simp_all add: failed_keeps succeeded_def)
  show ?thesis
  proof (cases "n = 0")
    case True
    then have "failures ?s = 0" using f by (simp add: succeeded_def)
    with True keeps sub show ?thesis by (simp add: due_def wait_ms_def)
  next
    case False
    then have nz: "failures ?s \<noteq> 0" using f by auto
    then have "1 \<le> failures ?s" by (simp add: word_le_nat_alt f) (use False in simp)
    then have "unat (failures ?s - 1) = n - 1" using f by (simp add: unat_sub)
    then have "retry_delay_ms (failures ?s - 1) = 1000 * 2 ^ min (n - 1) 30"
      by (auto simp: retry_delay_ms_def RETRY_BASE_DELAY_MS_def MAX_RETRY_SHIFT_def min_def word_le_nat_alt)
    with nz keeps sub False show ?thesis by (simp add: due_def wait_ms_def)
  qed
qed

end
