(* ===== verification/Updater.thy ===== *)
theory Updater
  imports Apply_Runs Schedule Paths
begin

text \<open>
  The facade a consumer holds, \<open>crates/updater/src/updater/mod.rs\<close> with its \<open>config.rs\<close>,
  \<open>status.rs\<close> and \<open>error.rs\<close>: the checker, the applier, the schedule and the status they share,
  the caller's operations, and the one job thread as a sequence of steps that each end where the code
  lets go of a lock. The caller is one thread; the job, the queue's workers and the caller interleave
  freely.
\<close>

section \<open>Configuration\<close>

definition GENERATIONS :: string where "GENERATIONS = ''generations''"

record updater_config =
  uc_install_root :: string
  uc_cache_dir :: string
  uc_trust_state_dir :: string
  uc_metadata_base_url :: string
  uc_artifact_base_url :: string
  uc_embedded_root :: bytes
  uc_target :: "string option"
  uc_check_interval :: nat
  uc_auto_apply :: bool
  uc_workers :: nat

datatype updater_error = ChannelFailed channel_error | CheckFailed check_error | ApplyFailed apply_error
  | InsecureBase string | TrustStateInCache string string

section \<open>State\<close>

datatype phase = Idle | Checking | Applying

datatype job = CheckJob Priority | ApplyJob plan Priority

fun job_phase :: "job \<Rightarrow> phase" where
  "job_phase (CheckJob prio) = Checking"
| "job_phase (ApplyJob p prio) = Applying"

text \<open>Where the job thread stands; a check that ended carries its outcome to the status and on to the schedule.\<close>

datatype job_pc = Resting
  | Started job
  | Checked Priority "check_error + check_outcome" "check_record option"
  | Noted Priority "check_error + check_outcome"
  | Acquiring plan Priority
  | Applied plan "apply_error + generation"
  | Ended bool

record status =
  st_phase :: phase
  st_applying :: "plan option"
  st_available :: "plan option"
  st_last_check :: "check_record option"
  st_last_error :: "string option"
  st_installed :: "string option"

definition status_default :: status where
  "status_default = \<lparr>st_phase = Idle, st_applying = None, st_available = None, st_last_check = None,
     st_last_error = None, st_installed = None\<rparr>"

record 'e updater =
  up_checker :: "'e checker"
  up_applier :: applier
  up_cache :: string
  up_auto :: bool
  up_schedule :: schedule
  up_status :: status
  up_apply :: apply_state
  up_handle :: bool
  up_pc :: job_pc

definition up_fs :: "'e updater \<Rightarrow> fs" where
  "up_fs u = q_fs (as_queue (up_apply u))"

definition set_fs :: "fs \<Rightarrow> 'e updater \<Rightarrow> 'e updater" where
  "set_fs f u = u\<lparr>up_apply := (up_apply u)\<lparr>as_queue := (as_queue (up_apply u))\<lparr>q_fs := f\<rparr>\<rparr>\<rparr>"

definition set_queue :: "queue \<Rightarrow> 'e updater \<Rightarrow> 'e updater" where
  "set_queue q u = u\<lparr>up_apply := (up_apply u)\<lparr>as_queue := q\<rparr>\<rparr>"

definition upd_status :: "(status \<Rightarrow> status) \<Rightarrow> 'e updater \<Rightarrow> 'e updater" where
  "upd_status g u = u\<lparr>up_status := g (up_status u)\<rparr>"

text \<open>The third-party parts, and how their errors print.\<close>

record ('e, 'u) up_lib =
  ul_check :: "('e, 'u) check_lib"
  ul_manifest :: manifest_lib
  ul_show_apply :: "apply_error \<Rightarrow> string"
  ul_show_spawn :: string

section \<open>Construction\<close>

definition updater_over ::
  "('e, 'u) up_lib \<Rightarrow> lib \<Rightarrow> install_lib \<Rightarrow> updater_config \<Rightarrow> 'e channel \<Rightarrow> 'e \<Rightarrow> fs \<Rightarrow> 'e updater" where
  "updater_over L l il c ch e f =
     (let wd = \<lparr>w_lib = l, w_root = uc_cache_dir c, w_agents = agents_new\<rparr>;
          checker = \<lparr>ckr_channel = ch, ckr_target = uc_target c, ckr_cache = uc_cache_dir c,
            ckr_log = uc_trust_state_dir c\<rparr>;
          last = (case last_record (ul_check L) (ckr_log checker) e f of Inl _ \<Rightarrow> None | Inr r \<Rightarrow> r)
      in \<lparr>up_checker = checker,
          up_applier = applier_new wd il (path_join (uc_install_root c) GENERATIONS) (uc_artifact_base_url c),
          up_cache = uc_cache_dir c, up_auto = uc_auto_apply c,
          up_schedule = schedule_new (uc_check_interval c),
          up_status = status_default\<lparr>st_last_check := last\<rparr>,
          up_apply = \<lparr>as_queue = with_config (uc_workers c) f, as_claims = Map.empty, as_seen = [], as_pending = []\<rparr>,
          up_handle = False, up_pc = Resting\<rparr>)"

definition updater_new ::
  "('e, 'u) up_lib \<Rightarrow> lib \<Rightarrow> install_lib \<Rightarrow> ('e \<Rightarrow> http) \<Rightarrow> ('e \<Rightarrow> int) \<Rightarrow> updater_config \<Rightarrow> 'e \<Rightarrow> fs
     \<Rightarrow> updater_error + 'e updater" where
  "updater_new L l il net now c e f =
     (if \<not> starts_with ''https://'' (uc_artifact_base_url c) then Inl (InsecureBase (uc_artifact_base_url c))
      else if path_starts_with (uc_trust_state_dir c) (uc_cache_dir c)
        then Inl (TrustStateInCache (uc_trust_state_dir c) (uc_cache_dir c))
      else (case channel_https (ck_channel (ul_check L)) net now (uc_metadata_base_url c)
                  (uc_embedded_root c) (uc_trust_state_dir c) of
          Inl err \<Rightarrow> Inl (ChannelFailed err)
        | Inr ch \<Rightarrow> Inr (updater_over L l il c ch e f)))"

section \<open>Starting a job\<close>

text \<open>\<open>spawned\<close>: whether the thread could be created.\<close>

definition start_job :: "('e, 'u) up_lib \<Rightarrow> job \<Rightarrow> bool \<Rightarrow> 'e updater \<Rightarrow> 'e updater \<times> bool" where
  "start_job L j spawned u =
     (if st_phase (up_status u) \<noteq> Idle then (u, False)
      else let u1 = (upd_status (\<lambda>s. s\<lparr>st_phase := job_phase j\<rparr>) u)\<lparr>up_handle := False\<rparr>
        in if spawned then (u1\<lparr>up_handle := True, up_pc := Started j\<rparr>, True)
           else (upd_status (\<lambda>s. s\<lparr>st_phase := Idle, st_last_error := Some (ul_show_spawn L)\<rparr>) u1, False))"

definition begin_check :: "('e, 'u) up_lib \<Rightarrow> int \<Rightarrow> Priority \<Rightarrow> bool \<Rightarrow> 'e updater \<Rightarrow> 'e updater \<times> bool" where
  "begin_check L now prio spawned u =
     (case start_job L (CheckJob prio) spawned u of
        (u1, False) \<Rightarrow> (u1, False)
      | (u1, True) \<Rightarrow> (u1\<lparr>up_schedule := attempted now (up_schedule u1)\<rparr>, True))"

definition tick :: "('e, 'u) up_lib \<Rightarrow> int \<Rightarrow> bool \<Rightarrow> 'e updater \<Rightarrow> 'e updater \<times> bool" where
  "tick L now spawned u =
     (if \<not> due now (up_schedule u) then (u, False) else begin_check L now Background spawned u)"

definition check_now :: "('e, 'u) up_lib \<Rightarrow> int \<Rightarrow> Priority \<Rightarrow> bool \<Rightarrow> 'e updater \<Rightarrow> 'e updater \<times> bool" where
  "check_now L now prio spawned u = begin_check L now prio spawned u"

definition start_apply :: "('e, 'u) up_lib \<Rightarrow> plan \<Rightarrow> Priority \<Rightarrow> bool \<Rightarrow> 'e updater \<Rightarrow> 'e updater \<times> bool" where
  "start_apply L p prio spawned u = start_job L (ApplyJob p prio) spawned u"

section \<open>The job thread\<close>

text \<open>The first block of \<open>run_apply\<close>, and what it writes when the applier returns.\<close>

definition begin_apply :: "plan \<Rightarrow> status \<Rightarrow> status" where
  "begin_apply p s = s\<lparr>st_phase := Applying, st_applying := Some p\<rparr>"

definition note_applied :: "('e, 'u) up_lib \<Rightarrow> plan \<Rightarrow> apply_error + generation \<Rightarrow> status \<Rightarrow> status" where
  "note_applied L p r s =
     (let s1 = s\<lparr>st_applying := None\<rparr>
      in case r of
           Inr g \<Rightarrow>
             s1\<lparr>st_available := (case st_available s of
                    Some offered \<Rightarrow> if plan_generation_id offered = plan_generation_id p then None else Some offered
                  | None \<Rightarrow> None),
                st_installed := Some (gen_id g), st_last_error := None\<rparr>
         | Inl err \<Rightarrow> s1\<lparr>st_last_error := Some (ul_show_apply L err)\<rparr>)"

text \<open>What \<open>run_check\<close> writes to the status, and to the schedule.\<close>

definition note_outcome ::
  "('e, 'u) up_lib \<Rightarrow> check_error + check_outcome \<Rightarrow> check_record option \<Rightarrow> status \<Rightarrow> status" where
  "note_outcome L outcome last_check s =
     (let s1 = s\<lparr>st_last_check := last_check\<rparr>
      in case outcome of
           Inr (UpdateAvailable p) \<Rightarrow> s1\<lparr>st_available := Some p, st_last_error := None\<rparr>
         | Inr (UpToDate ident) \<Rightarrow> s1\<lparr>st_available := None, st_last_error := None, st_installed := Some ident\<rparr>
         | Inr Skipped_outcome \<Rightarrow> s1
         | Inl err \<Rightarrow> s1\<lparr>st_last_error := Some (ck_show (ul_check L) err)\<rparr>)"

definition note_schedule :: "check_error + check_outcome \<Rightarrow> schedule \<Rightarrow> schedule" where
  "note_schedule outcome s = (case outcome of
       Inr (UpToDate _) \<Rightarrow> succeeded s | Inr (UpdateAvailable _) \<Rightarrow> succeeded s | _ \<Rightarrow> failed s)"

text \<open>The end of \<open>run\<close>, with its panic guard.\<close>

definition settle_job :: "bool \<Rightarrow> status \<Rightarrow> status" where
  "settle_job panicked s =
     (if panicked then s\<lparr>st_applying := None, st_last_error := Some ''the check or apply panicked''\<rparr> else s)
        \<lparr>st_phase := Idle\<rparr>"

text \<open>
  What one step of the job finds: the channel's environment, the one the log is read back in, the
  clock, and how the apply goes.
\<close>

record 'e job_env =
  je_env :: 'e
  je_log :: 'e
  je_now :: int
  je_apply :: apply_env
  je_calls :: "call list"

definition run_check :: "('e, 'u) up_lib \<Rightarrow> 'e job_env \<Rightarrow> Priority \<Rightarrow> 'e updater \<Rightarrow> 'e updater" where
  "run_check L env prio u =
     (case check (ul_check L) (ul_manifest L) (w_lib (ap_world (up_applier u))) (up_checker u)
             (st_installed (up_status u)) (je_now env) (je_env env) (up_fs u) of
        (f, outcome) \<Rightarrow>
          (set_fs f u)\<lparr>up_pc := Checked prio outcome
             (case last_record (ul_check L) (ckr_log (up_checker u)) (je_log env) f of Inl _ \<Rightarrow> None | Inr r \<Rightarrow> r)\<rparr>)"

definition next_after_check :: "bool \<Rightarrow> Priority \<Rightarrow> check_error + check_outcome \<Rightarrow> job_pc" where
  "next_after_check auto prio outcome = (case outcome of
       Inr (UpdateAvailable p) \<Rightarrow> if auto then Started (ApplyJob p prio) else Ended False
     | _ \<Rightarrow> Ended False)"

definition job_step :: "('e, 'u) up_lib \<Rightarrow> 'e job_env \<Rightarrow> 'e updater \<Rightarrow> 'e updater option" where
  "job_step L env u = (case up_pc u of
       Resting \<Rightarrow> None
     | Started (CheckJob prio) \<Rightarrow> Some (run_check L env prio u)
     | Checked prio outcome last_check \<Rightarrow>
         Some ((upd_status (note_outcome L outcome last_check) u)\<lparr>up_pc := Noted prio outcome\<rparr>)
     | Noted prio outcome \<Rightarrow>
         Some (u\<lparr>up_schedule := note_schedule outcome (up_schedule u),
                 up_pc := next_after_check (up_auto u) prio outcome\<rparr>)
     | Started (ApplyJob p prio) \<Rightarrow> Some ((upd_status (begin_apply p) u)\<lparr>up_pc := Acquiring p prio\<rparr>)
     | Acquiring p prio \<Rightarrow>
         Option.bind (apply_plan (up_applier u) p prio (je_apply env) (je_calls env) (up_apply u)) (\<lambda>(r, _, S).
         Some (u\<lparr>up_apply := S, up_pc := Applied p r\<rparr>))
     | Applied p r \<Rightarrow> Some ((upd_status (note_applied L p r) u)\<lparr>up_pc := Ended False\<rparr>)
     | Ended panicked \<Rightarrow> Some ((upd_status (settle_job panicked) u)\<lparr>up_pc := Resting\<rparr>))"

text \<open>
  A panic unwinds to \<open>run\<close>. A check that panics has written what its authentication wrote, or
  nothing; an apply that panics has run queue operations, which its \<open>Acquisition\<close> undoes with more of
  them, and has left files beneath the generation's directory, whose name has been proven safe by
  then. Its publish claim is released.
\<close>

definition job_panic ::
  "('e, 'u) up_lib \<Rightarrow> bool \<Rightarrow> 'e \<Rightarrow> event list \<Rightarrow> (string \<times> bytes option) list \<Rightarrow> 'e updater \<Rightarrow> 'e updater option" where
  "job_panic L authenticated e evs files u = (case up_pc u of
       Started (CheckJob prio) \<Rightarrow>
         Some ((if authenticated
             then set_fs (fst (resolve_check (ul_check L) (ul_manifest L) (w_lib (ap_world (up_applier u)))
               (up_checker u) (st_installed (up_status u)) e (up_fs u))) u
             else u)\<lparr>up_pc := Ended True\<rparr>)
     | Acquiring p prio \<Rightarrow>
         if refuse_unsafe_names p \<noteq> None then None
         else Option.bind (run_events (ap_world (up_applier u)) evs (as_queue (up_apply u))) (\<lambda>q.
           let dir = dir_of (ap_install (up_applier u)) (plan_generation_id p)
           in Some ((set_fs (fold (\<lambda>(name, c) f. f(path_join dir name := c)) files (q_fs q)) (set_queue q u))
                \<lparr>up_pc := Ended True\<rparr>))
     | _ \<Rightarrow> None)"

section \<open>The caller\<close>

definition up_pause :: "'e updater \<Rightarrow> 'e updater" where
  "up_pause u = set_queue (fst (pause_all (as_queue (up_apply u)))) u"

definition up_resume :: "threads \<Rightarrow> 'e updater \<Rightarrow> 'e updater" where
  "up_resume t u = set_queue (fst (resume_all t (as_queue (up_apply u)))) u"

definition up_cancel :: "'e updater \<Rightarrow> 'e updater" where
  "up_cancel u = set_queue (fst (cancel_all (as_queue (up_apply u)))) u"

definition up_next_completed :: "'e updater \<Rightarrow> generation option \<times> 'e updater" where
  "up_next_completed u = (case next_completed (up_apply u) of (g, S) \<Rightarrow> (g, u\<lparr>up_apply := S\<rparr>))"

definition up_fetch ::
  "artifact \<Rightarrow> u64 \<Rightarrow> Priority \<Rightarrow> call list \<Rightarrow> 'e updater \<Rightarrow> ((apply_error + string) \<times> 'e updater) option" where
  "up_fetch a v prio cs u =
     Option.bind (fetch (up_applier u) a v prio cs (as_queue (up_apply u))) (\<lambda>(r, _, q). Some (r, set_queue q u))"

definition up_generations ::
  "(string \<Rightarrow> bool) \<Rightarrow> listing \<Rightarrow> 'e updater \<Rightarrow> updater_error + generation list" where
  "up_generations ok ls u =
     (case generations (ap_lib (up_applier u)) (ap_install (up_applier u)) ok ls (up_fs u) of
        Inl err \<Rightarrow> Inl (ApplyFailed err) | Inr gs \<Rightarrow> Inr gs)"

definition up_retain ::
  "listing \<Rightarrow> (string list \<Rightarrow> string list) \<Rightarrow> string list \<Rightarrow> (nat \<Rightarrow> removal) \<Rightarrow> 'e updater
     \<Rightarrow> (updater_error + string list) \<times> 'e updater" where
  "up_retain ls order live rms u =
     (case retain (ap_install (up_applier u)) ls order live (\<lambda>_. as_claims (up_apply u)) rms (up_fs u) of
        (f, r) \<Rightarrow> (case r of Inl err \<Rightarrow> Inl (ApplyFailed err) | Inr gone \<Rightarrow> Inr gone, set_fs f u))"

definition evict_cached :: "bool \<times> bool \<Rightarrow> string \<Rightarrow> 'e updater \<Rightarrow> bool \<times> 'e updater" where
  "evict_cached ok sha u =
     (case digest_from_hex (w_lib (ap_world (up_applier u))) sha of
        Inl _ \<Rightarrow> (False, u)
      | Inr d \<Rightarrow>
          if \<not> is_complete (up_cache u) (up_fs u) d then (False, u)
          else (True, set_fs (evict ok (up_cache u) d (up_fs u)) u))"

text \<open>\<open>Drop for Updater\<close>: cancel, then wait for the job thread, which the job's own steps end.\<close>

definition drop_updater :: "'e updater \<Rightarrow> 'e updater" where
  "drop_updater u = (up_cancel u)\<lparr>up_handle := False\<rparr>"

section \<open>Progress\<close>

definition acquired_bytes :: "lib \<Rightarrow> string \<Rightarrow> fs \<Rightarrow> string \<Rightarrow> u64 \<Rightarrow> u64" where
  "acquired_bytes l cache f sha size' = (case digest_from_hex l sha of
       Inl _ \<Rightarrow> 0
     | Inr d \<Rightarrow> if is_complete cache f d then size'
         else (case f (path_for cache d) of None \<Rightarrow> 0 | Some c \<Rightarrow> min (of_nat (length c)) size'))"

definition acquired_of :: "lib \<Rightarrow> string \<Rightarrow> fs \<Rightarrow> plan \<Rightarrow> u64" where
  "acquired_of l cache f p =
     foldl (\<lambda>acquired a. sat_add acquired (acquired_bytes l cache f (art_sha256 a) (art_size a))) 0 (plan_artifacts p)"

text \<open>The two counts \<open>policy::progress\<close> divides, when a plan is being applied.\<close>

definition up_progress :: "'e updater \<Rightarrow> (int \<times> int) option" where
  "up_progress u = (case st_applying (up_status u) of
       None \<Rightarrow> None
     | Some p \<Rightarrow> Some (as_i64 (acquired_of (w_lib (ap_world (up_applier u))) (up_cache u) (up_fs u) p),
         as_i64 (plan_total_bytes p)))"

record status_snapshot =
  ss_phase :: phase
  ss_progress :: "(int \<times> int) option"
  ss_last_check :: "check_record option"
  ss_available :: "plan option"
  ss_last_error :: "string option"

definition poll_status :: "'e updater \<Rightarrow> status_snapshot" where
  "poll_status u = (let s = up_status u in
     \<lparr>ss_phase = st_phase s, ss_progress = up_progress u, ss_last_check = st_last_check s,
      ss_available = st_available s, ss_last_error = st_last_error s\<rparr>)"

section \<open>Steps\<close>

datatype 'e up_event =
    Tick int bool | CheckNow int Priority bool | ApplyNow plan Priority bool
  | PauseAll | ResumeAll threads | CancelAll | NextCompleted
  | FetchOne artifact u64 Priority "call list"
  | RetainOnly listing "string list \<Rightarrow> string list" "string list" "nat \<Rightarrow> removal"
  | EvictCached "bool \<times> bool" string
  | QueueStep event
  | JobStep "'e job_env"
  | JobPanic bool 'e "event list" "(string \<times> bytes option) list"

definition exec_up :: "('e, 'u) up_lib \<Rightarrow> 'e up_event \<Rightarrow> 'e updater \<Rightarrow> 'e updater option" where
  "exec_up L ev u = (case ev of
       Tick now spawned \<Rightarrow> Some (fst (tick L now spawned u))
     | CheckNow now prio spawned \<Rightarrow> Some (fst (check_now L now prio spawned u))
     | ApplyNow p prio spawned \<Rightarrow> Some (fst (start_apply L p prio spawned u))
     | PauseAll \<Rightarrow> Some (up_pause u)
     | ResumeAll t \<Rightarrow> Some (up_resume t u)
     | CancelAll \<Rightarrow> Some (up_cancel u)
     | NextCompleted \<Rightarrow> Some (snd (up_next_completed u))
     | FetchOne a v prio cs \<Rightarrow> map_option snd (up_fetch a v prio cs u)
     | RetainOnly ls order live rms \<Rightarrow> Some (snd (up_retain ls order live rms u))
     | EvictCached ok sha \<Rightarrow> Some (snd (evict_cached ok sha u))
     | QueueStep qe \<Rightarrow> map_option (\<lambda>q. set_queue q u) (exec_event (ap_world (up_applier u)) (as_queue (up_apply u)) qe)
     | JobStep env \<Rightarrow> job_step L env u
     | JobPanic authenticated e evs files \<Rightarrow> job_panic L authenticated e evs files u)"

definition up_init :: "('e, 'u) up_lib \<Rightarrow> 'e updater \<Rightarrow> bool" where
  "up_init L u \<longleftrightarrow> (\<exists>l il c ch e f. u = updater_over L l il c ch e f)"

definition up_step :: "('e, 'u) up_lib \<Rightarrow> 'e updater \<Rightarrow> 'e updater \<Rightarrow> bool" where
  "up_step L u u' \<longleftrightarrow> (\<exists>ev. exec_up L ev u = Some u')"

end
