(* ===== verification/Catalog.thy ===== *)
theory Catalog
  imports Payload Player Updater
begin

text \<open>
  The plugin catalog, \<open>crates/catalog/src/lib.rs\<close>: one updater driven from the audio worker's loop, the
  payload trees and the activation record, and the decoder set of the backend it feeds. The
  updater's job and its queue run on threads of their own, between any two calls of the catalog.
\<close>

section \<open>Configuration\<close>

record catalog_config =
  cc_root :: string
  cc_cache_dir :: string
  cc_trust_state_dir :: string
  cc_metadata_base_url :: string
  cc_artifact_base_url :: string
  cc_embedded_root :: bytes
  cc_target :: string
  cc_check_interval :: nat
  cc_auto_apply :: bool
  cc_workers :: nat

definition config_beneath :: "string \<Rightarrow> string \<times> string \<Rightarrow> bytes \<Rightarrow> string \<Rightarrow> catalog_config" where
  "config_beneath root urls embedded target =
     \<lparr>cc_root = root, cc_cache_dir = path_join root ''cache'', cc_trust_state_dir = path_join root ''trust-state'',
      cc_metadata_base_url = fst urls, cc_artifact_base_url = snd urls, cc_embedded_root = embedded,
      cc_target = target, cc_check_interval = 60 * 60 * 1000, cc_auto_apply = True, cc_workers = 1\<rparr>"

definition native_target :: "string \<Rightarrow> string \<Rightarrow> string option" where
  "native_target os arch =
     (if os = ''linux'' \<and> arch = ''x86_64'' then Some ''linux-x86_64''
      else if os = ''linux'' \<and> arch = ''aarch64'' then Some ''linux-arm64''
      else if os = ''windows'' \<and> arch = ''x86_64'' then Some ''windows-x86_64'' else None)"

section \<open>State\<close>

record 'e catalog =
  cat_updater :: "'e updater"
  cat_payloads :: string
  cat_trees :: trees
  cat_log :: activation_log
  cat_pending :: "generation option"
  cat_boot :: "generation list"
  cat_loaded :: "string option"
  cat_booted :: bool

text \<open>The libraries the catalog is built on.\<close>

record ('w, 'p, 's, 'd, 'e, 'u) catalog_lib =
  ca_host :: "('w, 'p, 's, 'd) host"
  ca_updater :: "('e, 'u) up_lib"
  ca_payload :: payload_lib
  ca_log :: log_lib

text \<open>
  What one call finds: what the other threads do to the updater before its \<open>k\<close>th use, the clock and
  whether a thread starts, the two listings of the install root, modification times, the two
  extractions and the three loads a call can come to, the writes of the record, and how the
  removals of a collection go.
\<close>

record ('w, 'e) catalog_env =
  ce_threads :: "nat \<Rightarrow> 'e updater \<Rightarrow> 'e updater"
  ce_now :: int
  ce_spawned :: bool
  ce_boot :: "(string \<Rightarrow> bool) \<times> listing"
  ce_find :: "(string \<Rightarrow> bool) \<times> listing"
  ce_mtime :: "string \<Rightarrow> int"
  ce_extract :: "nat \<Rightarrow> extract_env"
  ce_load :: "nat \<Rightarrow> string list \<Rightarrow> 'w load_report"
  ce_log :: "nat \<Rightarrow> log_env"
  ce_retain :: "listing \<times> (string list \<Rightarrow> string list) \<times> (nat \<Rightarrow> removal)"
  ce_payload :: "((string \<Rightarrow> bool) \<times> (string \<Rightarrow> (string \<Rightarrow> bool) option)) option"
  ce_evict :: "nat \<Rightarrow> bool \<times> bool"

definition catalog_new ::
  "('w, 'p, 's, 'd, 'e, 'u) catalog_lib \<Rightarrow> lib \<Rightarrow> install_lib \<Rightarrow> ('e \<Rightarrow> http) \<Rightarrow> ('e \<Rightarrow> int) \<Rightarrow> bool \<Rightarrow> catalog_config
     \<Rightarrow> 'e \<Rightarrow> fs \<Rightarrow> trees \<Rightarrow> updater_error + 'e catalog" where
  "catalog_new CA l il net now rd c e f ts =
     (case updater_new (ca_updater CA) l il net now
        \<lparr>uc_install_root = cc_root c, uc_cache_dir = cc_cache_dir c, uc_trust_state_dir = cc_trust_state_dir c,
         uc_metadata_base_url = cc_metadata_base_url c, uc_artifact_base_url = cc_artifact_base_url c,
         uc_embedded_root = cc_embedded_root c, uc_target = Some (cc_target c),
         uc_check_interval = cc_check_interval c, uc_auto_apply = cc_auto_apply c, uc_workers = cc_workers c\<rparr> e f of
        Inl err \<Rightarrow> Inl err
      | Inr u \<Rightarrow> Inr \<lparr>cat_updater = u, cat_payloads = path_join (cc_root c) ''payloads'', cat_trees = ts,
          cat_log = log_load (ca_log CA) (path_join (cc_root c) ''activation.json'') rd f,
          cat_pending = None, cat_boot = [], cat_loaded = None, cat_booted = False\<rparr>)"

section \<open>Small pieces\<close>

definition accepted :: "swap_report \<Rightarrow> nat \<Rightarrow> bool" where
  "accepted r expected \<longleftrightarrow> sw_errors r = [] \<and> sw_loaded r = expected"

fun join_texts :: "string \<Rightarrow> string list \<Rightarrow> string" where
  "join_texts sep [] = []"
| "join_texts sep [s] = s"
| "join_texts sep (s # ss) = s @ sep @ join_texts sep ss"

definition describe_report :: "swap_report \<Rightarrow> nat \<Rightarrow> string" where
  "describe_report r expected =
     (let counts = show_u64 (of_nat (sw_loaded r)) @ '' of '' @ show_u64 (of_nat expected) @ '' plugins loaded''
      in if sw_errors r = [] then counts else counts @ '': '' @ join_texts ''; '' (sw_errors r))"

definition on_log :: "(activation_log \<times> fs \<Rightarrow> activation_log \<times> fs) \<Rightarrow> 'e catalog \<Rightarrow> 'e catalog" where
  "on_log g c = (case g (cat_log c, up_fs (cat_updater c)) of
     (l, f) \<Rightarrow> c\<lparr>cat_log := l, cat_updater := set_fs f (cat_updater c)\<rparr>)"

definition let_threads :: "('w, 'e) catalog_env \<Rightarrow> nat \<Rightarrow> 'e catalog \<Rightarrow> 'e catalog" where
  "let_threads E k c = c\<lparr>cat_updater := ce_threads E k (cat_updater c)\<rparr>"

text \<open>\<open>Vec::pop\<close> of the boot queue into \<open>pending\<close>.\<close>

definition pop_boot :: "'e catalog \<Rightarrow> 'e catalog" where
  "pop_boot c = (if cat_boot c = [] then c\<lparr>cat_pending := None\<rparr>
     else c\<lparr>cat_pending := Some (last (cat_boot c)), cat_boot := butlast (cat_boot c)\<rparr>)"

text \<open>\<open>PayloadStore::ensure\<close> over the catalog's trees and the updater's files.\<close>

definition ensure_payload ::
  "('w, 'p, 's, 'd, 'e, 'u) catalog_lib \<Rightarrow> extract_env \<Rightarrow> generation \<Rightarrow> 'e catalog
     \<Rightarrow> 'e catalog \<times> (payload_error + string list)" where
  "ensure_payload CA x g c =
     (case ensure (ca_payload CA) x (cat_payloads c) (up_fs (cat_updater c)) g (cat_trees c) of
        (ts, r) \<Rightarrow> (c\<lparr>cat_trees := ts\<rparr>, r))"

section \<open>Booting\<close>

definition move_to_end :: "string \<Rightarrow> generation list \<Rightarrow> generation list" where
  "move_to_end ident gs = (case position (\<lambda>g. gen_id g = ident) gs of
       None \<Rightarrow> gs
     | Some k \<Rightarrow> remove_at k gs @ [gs ! k])"

definition boot_once :: "('w, 'e) catalog_env \<Rightarrow> 'e catalog \<Rightarrow> 'e catalog" where
  "boot_once E c0 =
     (if cat_booted c0 then c0
      else let c = (let_threads E 0 c0)\<lparr>cat_booted := True\<rparr>;
               found = (case up_generations (fst (ce_boot E)) (snd (ce_boot E)) (cat_updater c) of
                          Inl _ \<Rightarrow> [] | Inr gs \<Rightarrow> gs);
               sorted = sort_key (\<lambda>g. ce_mtime E (gen_dir g)) found;
               ordered = (case log_active (cat_log c) of None \<Rightarrow> sorted | Some ident \<Rightarrow> move_to_end ident sorted)
        in pop_boot (c\<lparr>cat_boot := ordered\<rparr>))"

section \<open>Activation\<close>

definition find_generation :: "('w, 'e) catalog_env \<Rightarrow> string \<Rightarrow> 'e catalog \<Rightarrow> generation option" where
  "find_generation E ident c = (case up_generations (fst (ce_find E)) (snd (ce_find E)) (cat_updater c) of
       Inl _ \<Rightarrow> None
     | Inr gs \<Rightarrow> List.find (\<lambda>g. gen_id g = ident) gs)"

text \<open>The reload in \<open>recover\<close>: whether the previous generation is in place again.\<close>

definition reload ::
  "('w, 'p, 's, 'd, 'e, 'u) catalog_lib \<Rightarrow> ('w, 'e) catalog_env \<Rightarrow> string \<Rightarrow> 'e catalog \<times> ('w, 's, 'd) backend
     \<Rightarrow> ('e catalog \<times> ('w, 's, 'd) backend) \<times> bool" where
  "reload CA E ident s = (case s of (c, be) \<Rightarrow>
     (case find_generation E ident c of
        None \<Rightarrow> ((c, be), False)
      | Some g \<Rightarrow> (case ensure_payload CA (ce_extract E 1) g c of
            (c1, Inl _) \<Rightarrow> ((c1, be), False)
          | (c1, Inr libs) \<Rightarrow> (case swap_plugins (ca_host CA) (ce_load E 1) libs be of
                (be1, r) \<Rightarrow> ((c1, be1), accepted r (length (gen_artifacts g)))))))"

definition recover ::
  "('w, 'p, 's, 'd, 'e, 'u) catalog_lib \<Rightarrow> ('w, 'e) catalog_env \<Rightarrow> string \<Rightarrow> 'e catalog \<times> ('w, 's, 'd) backend
     \<Rightarrow> 'e catalog \<times> ('w, 's, 'd) backend" where
  "recover CA E refused s = (case s of (c, be) \<Rightarrow>
     (case cat_loaded c of
        None \<Rightarrow> (pop_boot c, fst (swap_plugins (ca_host CA) (ce_load E 1) [] be))
      | Some prior \<Rightarrow> (case reload CA E prior (let_threads E 4 c, be) of
            ((c1, be1), True) \<Rightarrow>
              (on_log (log_fell_back (ca_log CA) (ce_log E 1) refused prior ''the previous set was reloaded'') c1, be1)
          | ((c1, be1), False) \<Rightarrow>
              ((on_log (log_probe_failed (ca_log CA) (ce_log E 1) prior ''the previous generation would not reload'') c1)
                  \<lparr>cat_loaded := None\<rparr>,
               fst (swap_plugins (ca_host CA) (ce_load E 2) [] be1)))))"

text \<open>The loop that drops the cached downloads of an activated generation.\<close>

fun evict_artifacts :: "('w, 'e) catalog_env \<Rightarrow> nat \<Rightarrow> installed list \<Rightarrow> 'e catalog \<Rightarrow> 'e catalog" where
  "evict_artifacts E k [] c = c"
| "evict_artifacts E k (a # as) c =
     evict_artifacts E (Suc k) as
       (let c1 = let_threads E (6 + k) c
        in c1\<lparr>cat_updater := snd (evict_cached (ce_evict E k) (inst_sha256 a) (cat_updater c1))\<rparr>)"

definition live_ids :: "generation \<Rightarrow> 'e catalog \<Rightarrow> string list" where
  "live_ids g c = gen_id g # (case log_previous (cat_log c) of Some prior \<Rightarrow> [prior] | None \<Rightarrow> [])"

definition clean_up :: "('w, 'e) catalog_env \<Rightarrow> generation \<Rightarrow> 'e catalog \<Rightarrow> 'e catalog" where
  "clean_up E g c0 =
     (let c = let_threads E 5 c0; live = live_ids g c
      in case ce_retain E of (ls, order, rms) \<Rightarrow>
         evict_artifacts E 0 (gen_artifacts g)
           (c\<lparr>cat_updater := snd (up_retain ls order live rms (cat_updater c)),
              cat_trees := payload_retain (ce_payload E) live (cat_trees c)\<rparr>))"

definition activate ::
  "('w, 'p, 's, 'd, 'e, 'u) catalog_lib \<Rightarrow> ('w, 'e) catalog_env \<Rightarrow> 'e catalog \<times> ('w, 's, 'd) backend
     \<Rightarrow> 'e catalog \<times> ('w, 's, 'd) backend" where
  "activate CA E s = (case s of (c0, be) \<Rightarrow>
     (case cat_pending c0 of
        None \<Rightarrow> (c0, be)
      | Some g \<Rightarrow>
          let c = (let_threads E 3 c0)\<lparr>cat_pending := None\<rparr>
          in if cat_loaded c = Some (gen_id g) then (c\<lparr>cat_boot := []\<rparr>, be)
             else (case ensure_payload CA (ce_extract E 0) g c of
                 (c1, Inl err) \<Rightarrow>
                   recover CA E (gen_id g)
                     (on_log (log_extract_failed (ca_log CA) (ce_log E 0) (gen_id g) (pl_text (ca_payload CA) err)) c1, be)
               | (c1, Inr libs) \<Rightarrow> (case swap_plugins (ca_host CA) (ce_load E 0) libs be of
                     (be1, r) \<Rightarrow>
                       if accepted r (length (gen_artifacts g)) then
                         (clean_up E g ((on_log (log_activated (ca_log CA) (ce_log E 0) (gen_id g))
                            (c1\<lparr>cat_loaded := Some (gen_id g)\<rparr>))\<lparr>cat_boot := []\<rparr>), be1)
                       else
                         recover CA E (gen_id g)
                           (on_log (log_probe_failed (ca_log CA) (ce_log E 0) (gen_id g)
                              (describe_report r (length (gen_artifacts g)))) c1, be1)))))"

section \<open>The worker's calls\<close>

text \<open>The updater's own tick, with the threads around it, then what \<open>tick\<close> takes from it.\<close>

definition drive_updater ::
  "('w, 'p, 's, 'd, 'e, 'u) catalog_lib \<Rightarrow> ('w, 'e) catalog_env \<Rightarrow> 'e catalog \<Rightarrow> 'e catalog" where
  "drive_updater CA E c0 =
     (let c = let_threads E 1 c0
      in let_threads E 2 (c\<lparr>cat_updater := fst (tick (ca_updater CA) (ce_now E) (ce_spawned E) (cat_updater c))\<rparr>))"

definition take_completed ::
  "('w, 'p, 's, 'd, 'e, 'u) catalog_lib \<Rightarrow> ('w, 'e) catalog_env \<Rightarrow> 'e catalog \<Rightarrow> 'e catalog" where
  "take_completed CA E c0 =
     (let c = drive_updater CA E (boot_once E c0)
      in case up_next_completed (cat_updater c) of
           (None, u) \<Rightarrow> c\<lparr>cat_updater := u\<rparr>
         | (Some g, u) \<Rightarrow> c\<lparr>cat_updater := u, cat_pending := Some g\<rparr>)"

definition catalog_tick ::
  "('w, 'p, 's, 'd, 'e, 'u) catalog_lib \<Rightarrow> ('w, 'e) catalog_env \<Rightarrow> 'e catalog \<times> ('w, 's, 'd) backend
     \<Rightarrow> 'e catalog \<times> ('w, 's, 'd) backend" where
  "catalog_tick CA E s = (case s of (c0, be) \<Rightarrow>
     (let c = take_completed CA E c0
      in if cat_pending c \<noteq> None \<and> \<not> is_live be then activate CA E (c, be) else (c, be)))"

definition catalog_mount ::
  "('w, 'p, 's, 'd, 'e, 'u) catalog_lib \<Rightarrow> ('w, 'e) catalog_env \<Rightarrow> media_env \<Rightarrow> string \<Rightarrow> u16
     \<Rightarrow> 'e catalog \<times> ('w, 's, 'd) backend \<Rightarrow> ('e catalog \<times> ('w, 's, 'd) backend) \<times> (backend_error + unit)" where
  "catalog_mount CA E m path subsong s = (case s of (c0, be0) \<Rightarrow>
     (let c = boot_once E c0
      in case (if cat_pending c \<noteq> None then activate CA E (c, close be0) else (c, be0)) of
           (c1, be1) \<Rightarrow> (case mount (ca_host CA) m (up_fs (cat_updater c1)) path subsong be1 of
               (be2, r) \<Rightarrow> ((c1, be2), r))))"

definition catalog_check_now ::
  "('w, 'p, 's, 'd, 'e, 'u) catalog_lib \<Rightarrow> ('w, 'e) catalog_env \<Rightarrow> 'e catalog \<Rightarrow> 'e catalog" where
  "catalog_check_now CA E c0 =
     (let c = let_threads E 0 c0
      in c\<lparr>cat_updater := fst (check_now (ca_updater CA) (ce_now E) User (ce_spawned E) (cat_updater c))\<rparr>)"

definition active_generation :: "'e catalog \<Rightarrow> string option" where "active_generation c = cat_loaded c"
definition pending_generation :: "'e catalog \<Rightarrow> string option" where
  "pending_generation c = map_option gen_id (cat_pending c)"
definition history :: "'e catalog \<Rightarrow> catalog_event list" where "history c = log_history (cat_log c)"

definition updater_status :: "'e catalog \<Rightarrow> status_snapshot" where "updater_status c = poll_status (cat_updater c)"

section \<open>The worker's loop\<close>

text \<open>A catalog and its backend are driven through these; the other events are the backend's own.\<close>

datatype ('w, 'd, 'e) worker_event = CatalogTick "('w, 'e) catalog_env"
  | CatalogMount "('w, 'e) catalog_env" media_env string u16 | CatalogCheck "('w, 'e) catalog_env"
  | Backend "('w, 'd) player_event"

definition exec_worker ::
  "('w, 'p, 's, 'd, 'e, 'u) catalog_lib \<Rightarrow> 'e catalog \<times> ('w, 's, 'd) backend \<Rightarrow> ('w, 'd, 'e) worker_event
     \<Rightarrow> 'e catalog \<times> ('w, 's, 'd) backend" where
  "exec_worker CA s ev = (case ev of
       CatalogTick E \<Rightarrow> catalog_tick CA E s
     | CatalogMount E m path subsong \<Rightarrow> fst (catalog_mount CA E m path subsong s)
     | CatalogCheck E \<Rightarrow> (catalog_check_now CA E (fst s), snd s)
     | Backend pe \<Rightarrow> (fst s, exec_player (ca_host CA) (snd s) pe))"

end
