(* ===== verification/Updater_Props.thy ===== *)
theory Updater_Props
  imports Updater
begin

text \<open>
  What the updater keeps, whatever its caller, its job thread and the queue's workers do: the phase
  tells whether a job runs, a job always ends, an installed generation is not offered, waiting grows
  with failures, progress stays within the whole, and the trust floor never goes down.
\<close>

section \<open>The status and the job\<close>

text \<open>What only the job thread and the start of a job change.\<close>

definition job_view :: "'e updater \<Rightarrow> status \<times> schedule \<times> job_pc \<times> bool" where
  "job_view u = (up_status u, up_schedule u, up_pc u, up_auto u)"

lemma job_view_writes [simp]:
  "job_view (set_fs f u) = job_view u" "job_view (set_queue q u) = job_view u"
  "job_view (u\<lparr>up_apply := S\<rparr>) = job_view u"
  by (simp_all add: job_view_def set_fs_def set_queue_def)

lemma caller_keeps_view:
  "job_view (up_pause u) = job_view u" "job_view (up_resume t u) = job_view u" "job_view (up_cancel u) = job_view u"
  "job_view (snd (up_next_completed u)) = job_view u" "up_fetch a v prio cs u = Some (r, u') \<Longrightarrow> job_view u' = job_view u"
  "job_view (snd (up_retain ls order live rms u)) = job_view u" "job_view (snd (evict_cached ok sha u)) = job_view u"
  by (auto simp: up_pause_def up_resume_def up_cancel_def up_next_completed_def up_fetch_def up_retain_def
      evict_cached_def bind_eq_Some_conv split: prod.split sum.split)

lemmas view_eqs = job_view_def prod.inject

text \<open>The plan a job is acquiring, and whether the outcome a job carries may still be offered.\<close>

definition acquiring_plan :: "job_pc \<Rightarrow> plan option" where
  "acquiring_plan pc = (case pc of Acquiring p _ \<Rightarrow> Some p | Applied p _ \<Rightarrow> Some p | _ \<Rightarrow> None)"

definition carried_ok :: "job_pc \<Rightarrow> string option \<Rightarrow> bool" where
  "carried_ok pc installed = (case pc of
       Checked _ (Inr (UpdateAvailable p)) _ \<Rightarrow> installed \<noteq> Some (plan_generation_id p)
     | Applied p (Inr g) \<Rightarrow> gen_id g = plan_generation_id p
     | _ \<Rightarrow> True)"

definition status_ok :: "status \<Rightarrow> job_pc \<Rightarrow> bool" where
  "status_ok s pc \<longleftrightarrow> (st_phase s = Idle \<longleftrightarrow> pc = Resting)
     \<and> (acquiring_plan pc \<noteq> None \<longrightarrow> st_phase s = Applying)
     \<and> (case pc of Ended panicked \<Rightarrow> panicked \<or> st_applying s = None | _ \<Rightarrow> st_applying s = acquiring_plan pc)
     \<and> (\<forall>p. st_available s = Some p \<longrightarrow> st_installed s \<noteq> Some (plan_generation_id p))
     \<and> carried_ok pc (st_installed s)"

definition updater_inv :: "'e updater \<Rightarrow> bool" where
  "updater_inv u \<longleftrightarrow> status_ok (up_status u) (up_pc u)"

lemma updater_inv_view: "job_view u' = job_view u \<Longrightarrow> updater_inv u \<Longrightarrow> updater_inv u'"
  by (simp add: updater_inv_def job_view_def)

lemma set_fs_sel [simp]:
  "up_status (set_fs f u) = up_status u" "up_pc (set_fs f u) = up_pc u" "up_schedule (set_fs f u) = up_schedule u"
  "up_auto (set_fs f u) = up_auto u" "up_checker (set_fs f u) = up_checker u" "up_applier (set_fs f u) = up_applier u"
  "up_cache (set_fs f u) = up_cache u" "up_fs (set_fs f u) = f"
  by (simp_all add: set_fs_def up_fs_def)

lemma set_queue_sel [simp]:
  "up_status (set_queue q u) = up_status u" "up_pc (set_queue q u) = up_pc u" "up_schedule (set_queue q u) = up_schedule u"
  "up_auto (set_queue q u) = up_auto u" "up_checker (set_queue q u) = up_checker u"
  "up_applier (set_queue q u) = up_applier u" "up_cache (set_queue q u) = up_cache u" "up_fs (set_queue q u) = q_fs q"
  "as_queue (up_apply (set_queue q u)) = q"
  by (simp_all add: set_queue_def up_fs_def)

lemma upd_status_sel [simp]:
  "up_status (upd_status g u) = g (up_status u)" "up_pc (upd_status g u) = up_pc u"
  "up_schedule (upd_status g u) = up_schedule u" "up_auto (upd_status g u) = up_auto u"
  "up_checker (upd_status g u) = up_checker u" "up_applier (upd_status g u) = up_applier u"
  "up_cache (upd_status g u) = up_cache u" "up_apply (upd_status g u) = up_apply u" "up_fs (upd_status g u) = up_fs u"
  by (simp_all add: upd_status_def up_fs_def)

lemma start_job_inv: "updater_inv u \<Longrightarrow> updater_inv (fst (start_job L j spawned u))"
proof (cases "st_phase (up_status u) = Idle")
  case True
  assume i: "updater_inv u"
  with True have "up_pc u = Resting" by (simp add: updater_inv_def status_ok_def)
  with i True show ?thesis
    by (cases j) (auto simp: start_job_def updater_inv_def status_ok_def carried_ok_def acquiring_plan_def Let_def)
qed (simp add: start_job_def)

lemma begin_check_fst: "fst (begin_check L now prio spawned u)
    = (if snd (start_job L (CheckJob prio) spawned u)
       then (fst (start_job L (CheckJob prio) spawned u))\<lparr>up_schedule := attempted now (up_schedule (fst (start_job L (CheckJob prio) spawned u)))\<rparr>
       else fst (start_job L (CheckJob prio) spawned u))"
  by (simp add: begin_check_def split: prod.split bool.split)

lemma begin_check_inv: "updater_inv u \<Longrightarrow> updater_inv (fst (begin_check L now prio spawned u))"
  using start_job_inv [of u L "CheckJob prio" spawned] by (simp add: begin_check_fst updater_inv_def)

lemma resolve_gen_id: "resolve_generation il root r ident f = Some g \<Longrightarrow> gen_id g = ident"
  by (auto simp: resolve_generation_def split: option.splits if_splits)

lemma record_gen_id: "snd (record_generation il root e ident is f) = Inr g \<Longrightarrow> gen_id g = ident"
  by (auto simp: record_generation_def Let_def split: option.splits if_splits prod.splits)

lemma publish_gen_id: "publish A p prio e cs S = Some (Inr g, cs', S') \<Longrightarrow> gen_id g = plan_generation_id p"
  by (auto simp: publish_def Let_def bind_eq_Some_conv dest: record_gen_id
      split: option.splits sum.splits list.splits if_splits)

lemma apply_plan_gen_id:
  "apply_plan A p prio e cs S = Some (Inr g, cs', S') \<Longrightarrow> gen_id g = plan_generation_id p"
  by (auto simp: apply_plan_def dest: resolve_gen_id publish_gen_id split: option.splits sum.splits)

lemma check_offers_another:
  assumes "check K ml l c installed now e f = (f', Inr (UpdateAvailable p))"
  shows "installed \<noteq> Some (plan_generation_id p)"
  using assms
  by (auto simp: check_def resolve_check_def select_def Let_def split: prod.splits sum.splits attempt.splits if_splits)

lemma job_step_inv: "updater_inv u \<Longrightarrow> job_step L env u = Some u' \<Longrightarrow> updater_inv u'"
proof (cases "up_pc u")
  case (Started j)
  assume "updater_inv u" "job_step L env u = Some u'"
  then show ?thesis
    using Started check_offers_another
    by (cases j) (fastforce simp: job_step_def run_check_def updater_inv_def status_ok_def carried_ok_def acquiring_plan_def
        begin_apply_def split: prod.splits sum.splits check_outcome.splits)+
next
  case (Checked prio outcome last_check)
  assume "updater_inv u" "job_step L env u = Some u'"
  with Checked show ?thesis
    by (cases outcome) (auto simp: job_step_def updater_inv_def status_ok_def carried_ok_def acquiring_plan_def
        note_outcome_def Let_def split: check_outcome.splits)
next
  case (Noted prio outcome)
  assume "updater_inv u" "job_step L env u = Some u'"
  with Noted show ?thesis
    by (auto simp: job_step_def updater_inv_def status_ok_def carried_ok_def acquiring_plan_def
        next_after_check_def split: check_outcome.splits sum.splits if_splits)
next
  case (Acquiring p prio)
  assume "updater_inv u" "job_step L env u = Some u'"
  with Acquiring show ?thesis
    using apply_plan_gen_id
    by (fastforce simp: job_step_def updater_inv_def status_ok_def carried_ok_def acquiring_plan_def
        bind_eq_Some_conv split: sum.splits)
next
  case (Applied p r)
  assume "updater_inv u" "job_step L env u = Some u'"
  with Applied show ?thesis
    by (cases r) (auto simp: job_step_def updater_inv_def status_ok_def carried_ok_def acquiring_plan_def
        note_applied_def Let_def split: option.splits if_splits)
next
  case (Ended panicked)
  assume "updater_inv u" "job_step L env u = Some u'"
  with Ended show ?thesis
    by (cases panicked) (auto simp: job_step_def updater_inv_def status_ok_def carried_ok_def acquiring_plan_def
        settle_job_def)
qed (simp add: job_step_def)

lemma job_panic_inv: "updater_inv u \<Longrightarrow> job_panic L a e evs files u = Some u' \<Longrightarrow> updater_inv u'"
  by (auto simp: job_panic_def updater_inv_def status_ok_def carried_ok_def acquiring_plan_def bind_eq_Some_conv Let_def
      split: job_pc.splits job.splits if_splits)

lemma exec_up_inv: "updater_inv u \<Longrightarrow> exec_up L ev u = Some u' \<Longrightarrow> updater_inv u'"
proof -
  assume i: "updater_inv u" and s: "exec_up L ev u = Some u'"
  have tick: "updater_inv (fst (tick L now spawned u))" for now spawned
    using i begin_check_inv [OF i, of L] by (simp add: tick_def)
  show ?thesis
  proof (cases ev)
    case (FetchOne a v prio cs)
    with s i show ?thesis
      using caller_keeps_view(5) updater_inv_view by (fastforce simp: exec_up_def)
  next
    case (QueueStep qe)
    with s i show ?thesis by (auto simp: exec_up_def intro: updater_inv_view [OF job_view_writes(2)])
  qed (use s i tick begin_check_inv start_job_inv job_step_inv job_panic_inv updater_inv_view [OF caller_keeps_view(1)]
      updater_inv_view [OF caller_keeps_view(2)] updater_inv_view [OF caller_keeps_view(3)]
      updater_inv_view [OF caller_keeps_view(4)] updater_inv_view [OF caller_keeps_view(6)]
      updater_inv_view [OF caller_keeps_view(7)] in \<open>auto simp: exec_up_def check_now_def start_apply_def\<close>)
qed

interpretation updater_system: invariant_system "up_init L" "up_step L" updater_inv for L :: "('e, 'u) up_lib"
proof
  show "updater_inv u" if "up_init L u" for L :: "('e, 'u) up_lib" and u
    using that by (auto simp: up_init_def updater_over_def Let_def updater_inv_def status_ok_def status_default_def
        carried_ok_def acquiring_plan_def)
  show "updater_inv t" if "updater_inv s" "up_step L s t" for L :: "('e, 'u) up_lib" and s t
    using that exec_up_inv unfolding up_step_def by blast
qed


section \<open>A job ends\<close>

fun job_rank :: "job_pc \<Rightarrow> nat" where
  "job_rank Resting = 0"
| "job_rank (Ended b) = 1"
| "job_rank (Applied p r) = 2"
| "job_rank (Acquiring p prio) = 3"
| "job_rank (Started (ApplyJob p prio)) = 4"
| "job_rank (Noted prio outcome) = 5"
| "job_rank (Checked prio outcome last_check) = 6"
| "job_rank (Started (CheckJob prio)) = 7"

text \<open>The job thread run to its end; \<open>None\<close> when an apply's calls run out.\<close>

function run_job :: "('e, 'u) up_lib \<Rightarrow> (job_pc \<Rightarrow> 'e job_env) \<Rightarrow> 'e updater \<Rightarrow> 'e updater option" where
  "run_job L envs u =
     (if up_pc u = Resting then Some u
      else (case job_step L (envs (up_pc u)) u of None \<Rightarrow> None | Some u' \<Rightarrow> run_job L envs u'))"
  by pat_completeness auto

lemma job_step_rank: "job_step L env u = Some u' \<Longrightarrow> job_rank (up_pc u') < job_rank (up_pc u)"
  by (auto simp: job_step_def run_check_def next_after_check_def bind_eq_Some_conv
      split: job_pc.splits job.splits prod.splits sum.splits check_outcome.splits)

termination run_job
  by (relation "measure (\<lambda>(L, envs, u). job_rank (up_pc u))") (auto intro: job_step_rank)

declare run_job.simps [simp del]

lemma job_panic_rank: "job_panic L a e evs files u = Some u' \<Longrightarrow> job_rank (up_pc u') < job_rank (up_pc u)"
  by (auto simp: job_panic_def bind_eq_Some_conv Let_def split: job_pc.splits job.splits if_splits)

text \<open>A job only ever stops short where an apply waits for calls that do not come.\<close>

definition waiting :: "'e job_env \<Rightarrow> 'e updater \<Rightarrow> bool" where
  "waiting env u \<longleftrightarrow> (\<exists>p prio. up_pc u = Acquiring p prio
     \<and> apply_plan (up_applier u) p prio (je_apply env) (je_calls env) (up_apply u) = None)"

lemma job_step_None:
  assumes "job_step L env u = None" "up_pc u \<noteq> Resting"
  shows "waiting env u"
proof (cases "up_pc u")
  case (Acquiring p prio)
  with assms show ?thesis
    by (cases "apply_plan (up_applier u) p prio (je_apply env) (je_calls env) (up_apply u)")
       (auto simp: job_step_def waiting_def)
qed (use assms in \<open>auto simp: job_step_def split: job.splits\<close>)

lemma run_job_step: "job_step L (envs (up_pc u)) u = Some u1 \<Longrightarrow> run_job L envs u = run_job L envs u1"
  by (subst run_job.simps) (auto simp: job_step_def)

lemma run_job_resting: "up_pc u = Resting \<Longrightarrow> run_job L envs u = Some u"
  by (simp add: run_job.simps)

abbreviation up_reachable :: "('e, 'u) up_lib \<Rightarrow> 'e updater \<Rightarrow> bool" where
  "up_reachable L \<equiv> reachable (up_init L) (up_step L)"

lemma job_step_reachable: "up_reachable L u \<Longrightarrow> job_step L env u = Some u' \<Longrightarrow> up_reachable L u'"
  by (rule reachable_step) (auto simp: up_step_def exec_up_def intro!: exI [of _ "JobStep env"])

lemma run_job_ends:
  "up_reachable L u \<Longrightarrow>
   (\<exists>u'. run_job L envs u = Some u' \<and> up_reachable L u' \<and> up_pc u' = Resting)
   \<or> (\<exists>v. run_job L envs u = None \<and> up_reachable L v \<and> waiting (envs (up_pc v)) v)"
proof (induction L envs u rule: run_job.induct)
  case (1 L envs u)
  show ?case
  proof (cases "up_pc u = Resting")
    case True
    with "1.prems" show ?thesis by (simp add: run_job_resting)
  next
    case False
    show ?thesis
    proof (cases "job_step L (envs (up_pc u)) u")
      case None
      then have "run_job L envs u = None" using False by (simp add: run_job.simps)
      with job_step_None [OF None False] "1.prems" show ?thesis by blast
    next
      case (Some u1)
      have "run_job L envs u = run_job L envs u1" by (rule run_job_step) (rule Some)
      with "1.IH" [OF False Some job_step_reachable [OF "1.prems" Some]] show ?thesis by simp
    qed
  qed
qed

text \<open>A check that does not flow into an apply, step by step.\<close>

definition after_check :: "('e, 'u) up_lib \<Rightarrow> 'e job_env \<Rightarrow> Priority \<Rightarrow> 'e updater \<Rightarrow> 'e updater" where
  "after_check L env prio u =
     (case up_pc (run_check L env prio u) of
        Checked _ outcome last_check \<Rightarrow>
          (upd_status (settle_job False) (upd_status (note_outcome L outcome last_check) (run_check L env prio u)))
            \<lparr>up_schedule := note_schedule outcome (up_schedule u), up_pc := Resting\<rparr>
      | _ \<Rightarrow> u)"

lemma run_check_sel [simp]:
  "up_status (run_check L env prio u) = up_status u" "up_schedule (run_check L env prio u) = up_schedule u"
  "up_auto (run_check L env prio u) = up_auto u" "up_checker (run_check L env prio u) = up_checker u"
  "up_applier (run_check L env prio u) = up_applier u"
  by (simp_all add: run_check_def split: prod.split)

lemma run_check_pc: "\<exists>o' l. up_pc (run_check L env prio u) = Checked prio o' l"
  by (auto simp: run_check_def split: prod.split)

lemma after_check_rests: "up_pc (after_check L env prio u) = Resting"
proof -
  obtain o' l where "up_pc (run_check L env prio u) = Checked prio o' l" using run_check_pc by blast
  then show ?thesis by (simp add: after_check_def)
qed

lemma run_job_check:
  assumes pc: "up_pc u = Started (CheckJob prio)"
    and checked: "up_pc (run_check L (envs (up_pc u)) prio u) = Checked prio outcome last_check"
    and stays: "\<not> up_auto u \<or> (\<forall>p. outcome \<noteq> Inr (UpdateAvailable p))"
  shows "run_job L envs u = Some (after_check L (envs (up_pc u)) prio u)"
proof -
  let ?u1 = "run_check L (envs (up_pc u)) prio u"
  let ?u2 = "(upd_status (note_outcome L outcome last_check) ?u1)\<lparr>up_pc := Noted prio outcome\<rparr>"
  let ?u3 = "?u2\<lparr>up_schedule := note_schedule outcome (up_schedule u), up_pc := Ended False\<rparr>"
  have next': "next_after_check (up_auto u) prio outcome = Ended False"
    using stays by (auto simp: next_after_check_def split: sum.split check_outcome.split)
  have "run_job L envs u = run_job L envs ?u1" by (rule run_job_step) (simp add: job_step_def pc)
  also have "\<dots> = run_job L envs ?u2" by (rule run_job_step) (simp add: job_step_def checked)
  also have "\<dots> = run_job L envs ?u3"
    using next' by (intro run_job_step) (simp add: job_step_def)
  also have "\<dots> = run_job L envs ((upd_status (settle_job False) ?u3)\<lparr>up_pc := Resting\<rparr>)"
    by (rule run_job_step) (simp add: job_step_def)
  also have "\<dots> = Some (after_check L (envs (up_pc u)) prio u)"
    by (simp add: run_job_resting after_check_def checked upd_status_def)
  finally show ?thesis .
qed

lemma inv_resting: "updater_inv u \<Longrightarrow> up_pc u = Resting \<Longrightarrow>
    st_phase (up_status u) = Idle \<and> st_applying (up_status u) = None"
  by (simp add: updater_inv_def status_ok_def acquiring_plan_def)

lemma inv_acquiring: "updater_inv u \<Longrightarrow> up_pc u = Acquiring p prio \<Longrightarrow> st_phase (up_status u) = Applying"
  by (simp add: updater_inv_def status_ok_def acquiring_plan_def)

lemma job_rank_le: "job_rank pc \<le> 7"
  by (induction pc rule: job_rank.induct) simp_all


section \<open>Checking while offline\<close>

text \<open>A tick that starts a check, and the job run to its end.\<close>

definition tick_round :: "('e, 'u) up_lib \<Rightarrow> int \<times> 'e job_env \<Rightarrow> 'e updater \<Rightarrow> 'e updater option" where
  "tick_round L r u = (case tick L (fst r) True u of
       (u1, False) \<Rightarrow> None | (u1, True) \<Rightarrow> run_job L (\<lambda>_. snd r) u1)"

fun tick_rounds :: "('e, 'u) up_lib \<Rightarrow> (int \<times> 'e job_env) list \<Rightarrow> 'e updater \<Rightarrow> 'e updater option" where
  "tick_rounds L [] u = Some u"
| "tick_rounds L (r # rs) u = Option.bind (tick_round L r u) (tick_rounds L rs)"

definition offline :: "'e updater \<Rightarrow> 'e job_env \<Rightarrow> bool" where
  "offline u env \<longleftrightarrow> ch_clock (ckr_channel (up_checker u)) (je_env env) = None"

lemma offline_check:
  assumes "offline u env"
  shows "\<exists>outcome l. up_pc (run_check L env prio u) = Checked prio outcome l
     \<and> (outcome = Inr Skipped_outcome \<or> (\<exists>err. outcome = Inl err))"
  using assms
  by (auto simp: run_check_def check_def resolve_check_def authenticate_def offline_def split: prod.split sum.split)

text \<open>What an offline round leaves of everything the next one depends on.\<close>

definition offline_view :: "'e updater \<Rightarrow> schedule \<times> job_pc \<times> phase \<times> 'e checker \<times> string option \<times> plan option" where
  "offline_view u = (up_schedule u, up_pc u, st_phase (up_status u), up_checker u, st_installed (up_status u),
     st_available (up_status u))"

lemma offline_round:
  assumes idle: "up_pc u = Resting" "st_phase (up_status u) = Idle" and off: "offline u (snd r)"
  shows "if due (fst r) (up_schedule u)
    then \<exists>u'. tick_round L r u = Some u'
      \<and> offline_view u' = (failed (attempted (fst r) (up_schedule u)), Resting, Idle, up_checker u,
          st_installed (up_status u), st_available (up_status u))
    else tick_round L r u = None"
proof (cases "due (fst r) (up_schedule u)")
  case due: True
  let ?u1 = "fst (tick L (fst r) True u)"
  have t: "tick L (fst r) True u = (?u1, True)" "up_pc ?u1 = Started (CheckJob Background)"
    "up_schedule ?u1 = attempted (fst r) (up_schedule u)" "up_checker ?u1 = up_checker u"
    "st_installed (up_status ?u1) = st_installed (up_status u)" "st_available (up_status ?u1) = st_available (up_status u)"
    using idle due by (simp_all add: tick_def begin_check_def start_job_def Let_def)
  have "offline ?u1 (snd r)" using off t(4) by (simp add: offline_def)
  then obtain outcome l where c: "up_pc (run_check L (snd r) Background ?u1) = Checked Background outcome l"
    and o: "outcome = Inr Skipped_outcome \<or> (\<exists>err. outcome = Inl err)"
    using offline_check by blast
  have "run_job L (\<lambda>_. snd r) ?u1 = Some (after_check L (snd r) Background ?u1)"
    using run_job_check [OF t(2), of L "\<lambda>_. snd r"] c o by auto
  then have "tick_round L r u = Some (after_check L (snd r) Background ?u1)"
    unfolding tick_round_def by (subst t(1)) simp
  moreover have "offline_view (after_check L (snd r) Background ?u1)
      = (failed (attempted (fst r) (up_schedule u)), Resting, Idle, up_checker u,
          st_installed (up_status u), st_available (up_status u))"
    using c o t(3-6)
    by (auto simp: offline_view_def after_check_def settle_job_def note_outcome_def note_schedule_def Let_def)
  ultimately show ?thesis using due by simp
qed (simp add: tick_round_def tick_def)

lemma attempted_failed: "attempted t (failed s) = failed (attempted t s)" "attempted t (attempted t' s) = attempted t s"
  by (simp_all add: attempted_def failed_def)

lemma attempted_failures: "attempted t ((failed ^^ n) s) = (failed ^^ n) (attempted t s)"
  by (induction n) (simp_all add: attempted_failed)

lemma offline_rounds:
  "tick_rounds L rs u = Some u' \<Longrightarrow> up_pc u = Resting \<Longrightarrow> st_phase (up_status u) = Idle \<Longrightarrow>
   list_all (\<lambda>r. offline u (snd r)) rs \<Longrightarrow>
   offline_view u' = ((failed ^^ length rs) (if rs = [] then up_schedule u else attempted (fst (last rs)) (up_schedule u)),
     Resting, Idle, up_checker u, st_installed (up_status u), st_available (up_status u))"
proof (induction rs arbitrary: u)
  case Nil
  then show ?case by (simp add: offline_view_def)
next
  case (Cons r rs)
  then obtain u1 where u1: "tick_round L r u = Some u1" "tick_rounds L rs u1 = Some u'" by (auto simp: bind_eq_Some_conv)
  with offline_round [OF Cons.prems(2,3), of r L] Cons.prems(4)
  have v: "offline_view u1 = (failed (attempted (fst r) (up_schedule u)), Resting, Idle, up_checker u,
      st_installed (up_status u), st_available (up_status u))"
    by (auto split: if_splits)
  have "list_all (\<lambda>r. offline u1 (snd r)) rs" using Cons.prems(4) v by (simp add: offline_view_def offline_def)
  with Cons.IH [OF u1(2)] v show ?case
    by (auto simp: offline_view_def attempted_failed funpow_swap1)
qed

text \<open>
  C23: while the network cannot be asked the time, checks back off: after any number of offline
  checks since the last success, the last one at \<open>t\<close>, a tick starts the next exactly when the interval
  has passed since \<open>t\<close> and so has one second doubled with every check before it, up to thirty
  doublings; and nothing of what is installed or on offer has changed.
\<close>

theorem offline_checks_back_off:
  assumes reach: "reachable (up_init L) (up_step L) u" and rest: "up_pc u = Resting"
    and fresh: "failures (up_schedule u) = 0"
    and run: "tick_rounds L (rs @ [(t, env)]) u = Some u'"
    and off: "list_all (\<lambda>r. offline u (snd r)) (rs @ [(t, env)])"
    and range: "length rs < 2 ^ 32 - 1" "0 \<le> t" "t \<le> now" "now \<le> I64_MAX"
  shows "(snd (tick L now True u') \<longleftrightarrow>
      now - t \<ge> max (interval_ms (up_schedule u)) (1000 * 2 ^ min (length rs) 30))
    \<and> st_installed (up_status u') = st_installed (up_status u) \<and> st_available (up_status u') = st_available (up_status u)"
proof -
  have idle: "st_phase (up_status u) = Idle"
    using inv_resting updater_system.reachable_invar [OF reach] rest by blast
  let ?s = "attempted t (up_schedule u)"
  have v: "offline_view u' = ((failed ^^ Suc (length rs)) ?s, Resting, Idle, up_checker u,
      st_installed (up_status u), st_available (up_status u))"
    using offline_rounds [OF run rest idle off] by simp
  have "succeeded ?s = ?s" using fresh by (simp add: succeeded_def attempted_def)
  moreover have "Suc (length rs) < 2 ^ 32" using range(1) by simp
  moreover have "last_attempt_ms ?s = Some t" "interval_ms ?s = interval_ms (up_schedule u)" by (simp_all add: attempted_def)
  ultimately have "due now (up_schedule u') \<longleftrightarrow>
      now - t \<ge> max (interval_ms (up_schedule u)) (1000 * 2 ^ min (length rs) 30)"
    using due_after_failures [of "Suc (length rs)" ?s t now] range v by (simp add: offline_view_def)
  moreover have "snd (tick L now True u') \<longleftrightarrow> due now (up_schedule u')"
    using v by (simp add: tick_def begin_check_def start_job_def offline_view_def Let_def)
  ultimately show ?thesis using v by (simp add: offline_view_def)
qed

section \<open>Progress\<close>

lemma acquired_sum:
  "unat (foldl (\<lambda>acquired a. sat_add acquired (g a)) x as) = min (unat x + (\<Sum>a\<leftarrow>as. unat (g a))) (2 ^ 64 - 1)"
  for g :: "'a \<Rightarrow> u64"
proof (induction as arbitrary: x)
  case Nil
  have "unat x < 2 ^ 64" using unsigned_less [of x, where 'a = nat] by simp
  then show ?case by simp
next
  case (Cons a as)
  then show ?case using Cons.IH [of "sat_add x (g a)"] sat_add_u64_min [of x "g a"] by (simp add: min_def)
qed

lemma acquired_bytes_le: "acquired_bytes l cache f sha n \<le> n"
  by (auto simp: acquired_bytes_def split: sum.split option.split)

lemma acquired_bytes_cached: "is_cached l cache f a \<Longrightarrow> acquired_bytes l cache f (art_sha256 a) (art_size a) = art_size a"
  by (auto simp: acquired_bytes_def is_cached_def split: sum.splits)

lemma as_i64_at_most: "unat a \<le> unat b \<Longrightarrow> 0 \<le> as_i64 a \<and> as_i64 a \<le> as_i64 b"
proof -
  assume "unat a \<le> unat b"
  then have "uint a \<le> uint b" by (simp only: uint_nat of_nat_le_iff)
  then show ?thesis using as_i64_range [of a] by (auto simp: as_i64_def)
qed

text \<open>
  The progress of an apply stays within the whole: for any plan a check made, whatever is on disk,
  the bytes counted as acquired are never negative and never more than the plan's total, also where
  the sizes overflow a \<open>u64\<close> or a partial file is longer than it should be; and once every artifact's
  entry is complete they are the total.
\<close>

theorem progress_within_whole:
  fixes u :: "'e updater"
  defines "l \<equiv> w_lib (ap_world (up_applier u))"
  assumes plan: "st_applying (up_status u) = Some p" "p = Check.select l' gen m target cache f"
  shows "\<exists>got total. up_progress u = Some (got, total) \<and> 0 \<le> got \<and> got \<le> total
    \<and> (list_all (is_cached l (up_cache u) (up_fs u)) (plan_artifacts p) \<longrightarrow> got = total)"
proof -
  let ?as = "plan_artifacts p" and ?g = "\<lambda>a. acquired_bytes l (up_cache u) (up_fs u) (art_sha256 a) (art_size a)"
  let ?acquired = "acquired_of l (up_cache u) (up_fs u) p"
  have all: "unat (plan_total_bytes p) = min (\<Sum>a\<leftarrow>?as. unat (art_size a)) (2 ^ 64 - 1)"
    using select_sums(1) [of l' gen m target cache f] plan(2) by simp
  have got: "unat ?acquired = min (\<Sum>a\<leftarrow>?as. unat (?g a)) (2 ^ 64 - 1)"
    using acquired_sum [of ?g 0 ?as] by (simp add: acquired_of_def)
  have "(\<Sum>a\<leftarrow>?as. unat (?g a)) \<le> (\<Sum>a\<leftarrow>?as. unat (art_size a))"
    using acquired_bytes_le by (intro sum_list_mono) (simp add: word_le_nat_alt)
  then have le: "unat ?acquired \<le> unat (plan_total_bytes p)" using all got by simp
  have "?acquired = plan_total_bytes p" if "list_all (is_cached l (up_cache u) (up_fs u)) ?as"
  proof -
    have "(\<Sum>a\<leftarrow>?as. unat (?g a)) = (\<Sum>a\<leftarrow>?as. unat (art_size a))"
      using that acquired_bytes_cached by (intro arg_cong [where f = sum_list] map_cong) (auto simp: list_all_iff)
    with all got show ?thesis by (simp add: word_unat_eq_iff)
  qed
  with as_i64_at_most [OF le] plan(1) show ?thesis by (auto simp: up_progress_def l_def)
qed

section \<open>Concrete updaters\<close>

definition sample_up_lib :: "(nat \<times> nat, nat) up_lib" where
  "sample_up_lib = \<lparr>ul_check = sample_check_lib, ul_manifest = sample_manifest_lib, ul_show_apply = (\<lambda>_. ''apply''),
     ul_show_spawn = ''spawn''\<rparr>"

definition sample_config :: updater_config where
  "sample_config = \<lparr>uc_install_root = ''/i'', uc_cache_dir = ''/c'', uc_trust_state_dir = ''/t'',
     uc_metadata_base_url = ''https://m'', uc_artifact_base_url = ''https://a'', uc_embedded_root = [],
     uc_target = None, uc_check_interval = 1000, uc_auto_apply = False, uc_workers = 1\<rparr>"

definition updater_on :: "(nat \<times> nat) channel \<Rightarrow> (nat \<times> nat) updater" where
  "updater_on ch = updater_over sample_up_lib sample_lib tiny_install_lib sample_config ch (5, 3) Map.empty"

definition sample_env :: "(nat \<times> nat) job_env" where
  "sample_env = \<lparr>je_env = (5, 3), je_log = (5, 3), je_now = 7, je_apply = tiny_env, je_calls = []\<rparr>"

lemma updater_on_reachable: "reachable (up_init sample_up_lib) (up_step sample_up_lib) (updater_on ch)"
  by (rule reachable_init) (unfold up_init_def updater_on_def, blast)

lemma updater_on_sel: "up_pc (updater_on ch) = Resting" "st_phase (up_status (updater_on ch)) = Idle"
  "up_schedule (updater_on ch) = schedule_new 1000" "ckr_channel (up_checker (updater_on ch)) = ch"
  "up_auto (updater_on ch) = False"
  by (simp_all add: updater_on_def updater_over_def Let_def status_default_def sample_config_def)

definition checking_updater :: "(nat \<times> nat) updater" where
  "checking_updater = fst (check_now sample_up_lib 0 User True (updater_on sample_channel))"

lemma checking_updater_reachable: "reachable (up_init sample_up_lib) (up_step sample_up_lib) checking_updater"
  by (rule reachable_step [OF updater_on_reachable [of sample_channel]])
     (auto simp: up_step_def exec_up_def checking_updater_def intro!: exI [of _ "CheckNow 0 User True"])



definition no_clock :: "(nat \<times> nat) channel" where
  "no_clock = channel_new (\<lambda>_ _ _. Inl ()) (\<lambda>_. None) [] ''/t''"

theorem offline_checks_back_off_witness:
  "\<exists>u'. tick_rounds sample_up_lib [(0, sample_env), (1000, sample_env)] (updater_on no_clock) = Some u'
     \<and> \<not> snd (tick sample_up_lib 2999 True u') \<and> snd (tick sample_up_lib 3000 True u')"
proof -
  let ?u = "updater_on no_clock" and ?r = "(0 :: int, sample_env)" and ?r2 = "(1000 :: int, sample_env)"
  have off: "offline ?u sample_env" by (simp add: offline_def updater_on_sel no_clock_def channel_new_def)
  obtain u1 where u1: "tick_round sample_up_lib ?r ?u = Some u1"
    and v: "up_schedule u1 = failed (attempted 0 (schedule_new 1000))" "up_pc u1 = Resting"
      "st_phase (up_status u1) = Idle" "up_checker u1 = up_checker ?u"
    using offline_round [of ?u ?r sample_up_lib] off
    by (auto simp: updater_on_sel offline_view_def due_def schedule_new_def)
  have "due 1000 (up_schedule u1)"
    using v(1) by (simp add: due_def failed_def attempted_def schedule_new_def wait_ms_def I64_MAX_def
        sat_sub_i64_def I64_MIN_def sat_add_def retry_delay_ms_def RETRY_BASE_DELAY_MS_def)
  moreover have "offline u1 (snd ?r2)" using off v(4) by (simp add: offline_def)
  ultimately obtain u2 where u2: "tick_round sample_up_lib ?r2 u1 = Some u2"
    using offline_round [OF v(2,3), of ?r2 sample_up_lib] by auto
  have run: "tick_rounds sample_up_lib ([?r] @ [?r2]) ?u = Some u2" using u1 u2 by simp
  have "interval_ms (up_schedule ?u) = 1000" by (simp add: updater_on_sel schedule_new_def I64_MAX_def)
  moreover have "snd (tick sample_up_lib now True u2) \<longleftrightarrow>
      now - 1000 \<ge> max (interval_ms (up_schedule ?u)) (1000 * 2 ^ min (length [?r]) 30)"
    if "1000 \<le> now" "now \<le> I64_MAX" for now
    using offline_checks_back_off [OF updater_on_reachable _ _ run _ _ _ that] off
    by (simp add: updater_on_sel schedule_new_def)
  ultimately show ?thesis using run by (auto simp: I64_MAX_def)
qed

definition applying_updater :: "(nat \<times> nat) updater" where
  "applying_updater = upd_status (begin_apply (Check.select sample_lib ''g'' sample_manifest (Some ''linux-x86_64'') ''/c'' Map.empty))
     (updater_on sample_channel)"

theorem progress_within_whole_witness:
  "\<exists>got. up_progress applying_updater = Some (got, 3) \<and> 0 \<le> got \<and> got \<le> 3"
proof -
  let ?p = "Check.select sample_lib ''g'' sample_manifest (Some ''linux-x86_64'') ''/c'' Map.empty"
  have s: "st_applying (up_status applying_updater) = Some ?p" by (simp add: applying_updater_def begin_apply_def)
  have "plan_total_bytes ?p = 3" by code_simp
  moreover obtain got total where "up_progress applying_updater = Some (got, total)" "0 \<le> got" "got \<le> total"
    using progress_within_whole [OF s refl] by auto
  moreover have "as_i64 3 = 3" by code_simp
  ultimately show ?thesis using s by (auto simp: up_progress_def)
qed

end
