(* ===== verification/Updater_Frame.thy ===== *)
theory Updater_Frame
  imports Updater_Props
begin

text \<open>
  The trust floor under everything the updater does: which existing files the queue, an apply, a
  fetch, a sweep, an eviction and a check leave alone, and so that no run of the updater, its job
  thread and the queue's workers lowers a recorded floor.
\<close>

section \<open>Applies\<close>

text \<open>A file outside the cache and outside the install root, which is there.\<close>

definition spared :: "applier \<Rightarrow> string \<Rightarrow> bool" where
  "spared A x \<longleftrightarrow> \<not> cache_file (w_root (ap_world A)) x \<and> \<not> beneath (ap_install A) x"

text \<open>A sound queue, and the file \<open>x\<close> with the content \<open>c\<close> when it has one to keep.\<close>

definition holds_file :: "applier \<Rightarrow> string \<Rightarrow> bytes option \<Rightarrow> queue \<Rightarrow> bool" where
  "holds_file A x c q \<longleftrightarrow> queue_ready (ap_world A) q \<and> (c = None \<or> q_fs q x = c)"

lemma holds_put: "holds_file A x c q \<Longrightarrow> (c \<noteq> None \<Longrightarrow> q_fs q x = c \<Longrightarrow> f x = c) \<Longrightarrow> holds_file A x c (q\<lparr>q_fs := f\<rparr>)"
  by (cases c) (auto simp: holds_file_def ready_fs)

lemma holds_step:
  "spared A x \<Longrightarrow> holds_file A x c q \<Longrightarrow>
   queue_ready (ap_world A) q' \<and> same_outside (w_root (ap_world A)) (q_fs q) (q_fs q') \<Longrightarrow> holds_file A x c q'"
  by (simp add: holds_file_def spared_def same_outside_def)

lemma holds_others: "spared A x \<Longrightarrow> holds_file A x c q \<Longrightarrow> others (ap_world A) cl q = Some q' \<Longrightarrow> holds_file A x c q'"
  using holds_step ready_others by (metis holds_file_def)

lemma holds_exec: "spared A x \<Longrightarrow> holds_file A x c q \<Longrightarrow> exec_event (ap_world A) q ev = Some q' \<Longrightarrow> holds_file A x c q'"
  using holds_step ready_exec by (metis holds_file_def)

lemma holds_push: "spared A x \<Longrightarrow> holds_file A x c q \<Longrightarrow> queue_push t req now q = (q', r) \<Longrightarrow> holds_file A x c q'"
  using holds_step ready_push by (metis holds_file_def)

lemma holds_remove: "spared A x \<Longrightarrow> holds_file A x c q \<Longrightarrow> holds_file A x c (fst (queue_remove i q))"
  using holds_step ready_remove by (metis holds_file_def)

lemma holds_events: "spared A x \<Longrightarrow> holds_file A x c q \<Longrightarrow> run_events (ap_world A) evs q = Some q' \<Longrightarrow> holds_file A x c q'"
  by (induction evs arbitrary: q) (auto intro: holds_exec split: option.splits)

lemma cancel_beyond:
  assumes "queue_ready wd q" "length (q_slots q) \<le> i"
  shows "fst (queue_cancel i q) = q"
proof -
  have c: "consistent q" and inv: "sched_inv (view q)" using assms(1) by (simp_all add: queue_ready_def queue_ok_def)
  have "\<not> is_active q i"
    using sched_inv_heldD [OF inv, of i] assms(2) by (auto simp: is_active_held [OF c] view_def)
  then show ?thesis
    using assms(2) by (simp add: queue_cancel_def upd_slot_beyond Let_def split: prod.split bool.split)
qed

lemma holds_cancel:
  assumes "spared A x" "holds_file A x c q"
  shows "holds_file A x c (fst (queue_cancel i q))"
proof (cases "i < length (q_slots q)")
  case True
  with assms show ?thesis using holds_exec [of A x c q "Cancel i"] by (simp add: exec_event_def)
next
  case False
  with assms cancel_beyond [of "ap_world A" q i] show ?thesis by (simp add: holds_file_def)
qed

lemma dir_of_beneath: "plain_name i \<Longrightarrow> beneath (dir_of root i) x \<Longrightarrow> beneath root x"
  by (auto simp: beneath_iff) (simp add: beneath_def starts_with_def)

lemma placed_beneath: "is_clean_relative_path s \<Longrightarrow> plain_name i \<Longrightarrow> beneath root (path_join (dir_of root i) s)"
  using clean_path_beneath dir_of_beneath by blast

text \<open>Placing an artifact beneath a generation's directory.\<close>

lemma holds_settle:
  assumes "spared A x" "holds_file A x c q" "settle A (dir_of (ap_install A) i) a k cs q = Some (r, cs', q')"
    and "plain_name i" "is_clean_relative_path (art_path a)"
  shows "holds_file A x c q'"
proof -
  have ready: "queue_ready (ap_world A) q" using assms(2) by (simp add: holds_file_def)
  let ?dir = "dir_of (ap_install A) i"
  have x: "x \<noteq> path_join ?dir (art_path a)" "\<not> cache_file (w_root (ap_world A)) x"
    using placed_beneath [OF assms(5,4)] assms(1) by (auto simp: spared_def)
  obtain q1 where q1: "queue_ready (ap_world A) q1 \<and> same_outside (w_root (ap_world A)) (q_fs q) (q_fs q1)"
    and alt: "q' = q1 \<or> (\<exists>pe cached. q' = q1\<lparr>q_fs := fst (place A pe ?dir a cached (q_fs q1))\<rparr>)"
    using settle_cases [OF assms(3) ready] by blast
  have h1: "holds_file A x c q1" using holds_step [OF assms(1,2) q1] .
  from alt show ?thesis
  proof
    assume "\<exists>pe cached. q' = q1\<lparr>q_fs := fst (place A pe ?dir a cached (q_fs q1))\<rparr>"
    then obtain pe cached where q': "q' = q1\<lparr>q_fs := fst (place A pe ?dir a cached (q_fs q1))\<rparr>" by blast
    obtain f r1 where f: "place A pe ?dir a cached (q_fs q1) = (f, r1)" by fastforce
    have "f x = q_fs q1 x" if "q_fs q1 x \<noteq> None" by (rule place_kept [OF f x(2) that]) (use x(1) in simp)
    with h1 q' f show ?thesis by (auto intro!: holds_put)
  qed (use h1 in simp)
qed

text \<open>The acquisition's loops; every tracked index is one of the plan's.\<close>

definition in_plan :: "plan \<Rightarrow> acquisition \<Rightarrow> bool" where
  "in_plan p acq \<longleftrightarrow> (\<forall>t \<in> set (aq_active acq). snd t < length (plan_artifacts p))"

lemma in_plan_nth: "in_plan p acq \<Longrightarrow> cursor < length (aq_active acq) \<Longrightarrow> aq_active acq ! cursor = (i, index) \<Longrightarrow>
    index < length (plan_artifacts p)"
  by (metis in_plan_def nth_mem snd_conv)

lemma in_plan_placed: "in_plan p acq \<Longrightarrow> cursor < length (aq_active acq) \<Longrightarrow> in_plan p (placed_at cursor inst index acq)"
  using set_swap_remove [of cursor "aq_active acq"] by (auto simp: in_plan_def placed_at_def)

text \<open>A file apart from everything a plan whose names pass may write.\<close>

definition spared_by :: "applier \<Rightarrow> plan \<Rightarrow> string \<Rightarrow> bool" where
  "spared_by A p x \<longleftrightarrow> spared A x \<and> refuse_unsafe_names p = None"

lemma spared_byD: "spared_by A p x \<Longrightarrow> spared A x" "spared_by A p x \<Longrightarrow> plain_name (plan_generation_id p)"
  "spared_by A p x \<Longrightarrow> k < length (plan_artifacts p) \<Longrightarrow> is_clean_relative_path (art_path (plan_artifacts p ! k))"
  using hex_plain by (simp_all add: spared_by_def refuse_unsafe_names_None list_all_length)

lemma holds_fill:
  assumes "fill A p prio acq progressed cs q = Some (r, acq', progressed', cs', q')"
    "holds_file A x c q" "in_plan p acq" "spared_by A p x"
  shows "holds_file A x c q' \<and> in_plan p acq'"
  by (rule fill_keeps [OF assms(1), of "\<lambda>acq cs q. holds_file A x c q \<and> in_plan p acq"])
     (use assms(2,3) spared_byD(1) [OF assms(4)] in \<open>auto simp: in_plan_def intro: holds_push holds_others\<close>)

lemma holds_sweep:
  assumes "sweep A (dir_of (ap_install A) (plan_generation_id p)) p cursor acq progressed cs q
      = Some (r, acq', progressed', cs', q')"
    "holds_file A x c q" "in_plan p acq" "spared_by A p x"
  shows "holds_file A x c q' \<and> in_plan p acq'"
proof (rule sweep_keeps [OF assms(1), of "\<lambda>acq cs q. holds_file A x c q \<and> in_plan p acq"])
  let ?dir = "dir_of (ap_install A) (plan_generation_id p)"
  have step: "holds_file A x c q1"
    if "holds_file A x c q \<and> in_plan p acq" "cursor < length (aq_active acq)" "aq_active acq ! cursor = (i, index)"
      "settle A ?dir (plan_artifacts p ! index) i cs q = Some (r, cs1, q1)" for acq cursor i index cs q r cs1 q1
    using holds_settle [OF spared_byD(1) [OF assms(4)] _ that(4) spared_byD(2) [OF assms(4)]
        spared_byD(3) [OF assms(4) in_plan_nth]] that by blast
  fix acq cursor i index cs q cs1 q1
  assume a: "holds_file A x c q \<and> in_plan p acq" "cursor < length (aq_active acq)" "aq_active acq ! cursor = (i, index)"
  show "settle A ?dir (plan_artifacts p ! index) i cs q = Some (Inr None, cs1, q1) \<Longrightarrow> holds_file A x c q1 \<and> in_plan p acq"
    using step [OF a] a(1) by blast
  show "settle A ?dir (plan_artifacts p ! index) i cs q = Some (Inl e, cs1, q1) \<Longrightarrow> holds_file A x c q1 \<and> in_plan p acq" for e
    using step [OF a] a(1) by blast
  fix inst cl q2
  assume "settle A ?dir (plan_artifacts p ! index) i cs q = Some (Inr (Some inst), cl # cs1, q1)"
    and o: "others (ap_world A) cl q1 = Some q2"
  then have "holds_file A x c q1" using step [OF a] by blast
  then have "holds_file A x c (fst (queue_remove i q2))"
    using holds_remove holds_others [OF _ _ o] spared_byD(1) [OF assms(4)] by blast
  then show "holds_file A x c (fst (queue_remove i q2)) \<and> in_plan p (placed_at cursor inst index acq)"
    using in_plan_placed a by blast
qed (use assms(2,3) in auto)

lemma holds_loop:
  "acquire_loop A (dir_of (ap_install A) (plan_generation_id p)) p prio acq cs q = Some (r, acq', cs', q') \<Longrightarrow>
   holds_file A x c q \<Longrightarrow> in_plan p acq \<Longrightarrow> spared_by A p x \<Longrightarrow> holds_file A x c q'"
proof (induction "length cs" arbitrary: acq cs q rule: less_induct)
  case less
  let ?dir = "dir_of (ap_install A) (plan_generation_id p)"
  show ?case
  proof (cases "length (plan_artifacts p) \<le> aq_next acq \<and> aq_active acq = []")
    case True
    with less.prems show ?thesis by (subst (asm) acquire_loop.simps) auto
  next
    case False
    obtain r1 acq1 pr1 cs1 q1 where f: "fill A p prio acq False cs q = Some (r1, acq1, pr1, cs1, q1)"
      using less.prems(1) False by (subst (asm) acquire_loop.simps) (auto split: option.splits)
    note h1 = holds_fill [OF f less.prems(2-4)]
    show ?thesis
    proof (cases r1)
      case (Inl e)
      with less.prems(1) False f h1 show ?thesis by (subst (asm) acquire_loop.simps) auto
    next
      case (Inr u)
      obtain r2 acq2 pr2 cs2 q2 where s: "sweep A ?dir p 0 acq1 pr1 cs1 q1 = Some (r2, acq2, pr2, cs2, q2)"
        using less.prems(1) False f Inr by (subst (asm) acquire_loop.simps) (auto split: option.splits)
      note h2 = holds_sweep [OF s conjunct1 [OF h1] conjunct2 [OF h1] less.prems(4)]
      show ?thesis
      proof (cases r2)
        case (Inl e)
        with less.prems(1) False f s \<open>r1 = Inr u\<close> h2 show ?thesis by (subst (asm) acquire_loop.simps) auto
      next
        case (Inr v)
        have l: "acquire_loop A ?dir p prio acq2 cs2 q2 = Some (r, acq', cs', q')"
          using less.prems(1) False f s \<open>r1 = Inr u\<close> Inr by (subst (asm) acquire_loop.simps) auto
        show ?thesis
          by (rule less.hyps [OF round_calls [OF False f [unfolded \<open>r1 = Inr u\<close>] s] l]) (use h2 less.prems(4) in auto)
      qed
    qed
  qed
qed

lemma holds_cancel_tracked:
  "spared A x \<Longrightarrow> holds_file A x c q \<Longrightarrow> cancel_tracked (ap_world A) ts cs q = Some (cs', q') \<Longrightarrow> holds_file A x c q'"
  by (induction "ap_world A" ts cs q rule: cancel_tracked.induct)
     (auto simp: bind_eq_Some_conv intro: holds_cancel holds_others)

lemma holds_remove_tracked:
  "spared A x \<Longrightarrow> holds_file A x c q \<Longrightarrow> remove_tracked (ap_world A) ts cs q = Some (cs', q') \<Longrightarrow> holds_file A x c q'"
proof (induction cs arbitrary: ts q)
  case Nil
  then show ?case by (cases ts) auto
next
  case (Cons cl cs)
  show ?case
  proof (cases ts)
    case Nil
    with Cons.prems show ?thesis by simp
  next
    case (Cons t ts')
    with Cons.prems(3) obtain q1 where q1: "others (ap_world A) cl q = Some q1"
      and rest: "remove_tracked (ap_world A) (if snd (queue_remove (fst t) q1) then ts' else ts) cs
          (fst (queue_remove (fst t) q1)) = Some (cs', q')"
      by (auto simp: bind_eq_Some_conv case_prod_unfold)
    show ?thesis
      by (rule Cons.IH [OF Cons.prems(1) _ rest]) (use Cons.prems holds_remove holds_others q1 in blast)
  qed
qed

lemma holds_drop: "spared A x \<Longrightarrow> holds_file A x c q \<Longrightarrow> drop_acquisition (ap_world A) ts cs q = Some (cs', q') \<Longrightarrow>
    holds_file A x c q'"
  by (auto simp: drop_acquisition_def bind_eq_Some_conv dest: holds_cancel_tracked holds_remove_tracked)

lemma holds_acquire:
  "acquire A (dir_of (ap_install A) (plan_generation_id p)) p prio cs q = Some (r, cs', q') \<Longrightarrow>
   holds_file A x c q \<Longrightarrow> spared_by A p x \<Longrightarrow> holds_file A x c q'"
  by (auto simp: acquire_def Let_def bind_eq_Some_conv in_plan_def
      dest!: holds_loop [where x = x and c = c] intro: holds_drop spared_byD(1))

text \<open>The record's store writes beneath its own directory.\<close>

definition store_within :: "install_lib \<Rightarrow> bool" where
  "store_within il \<longleftrightarrow> (\<forall>e dir nm b f y. \<not> beneath dir y \<longrightarrow> fst (il_store il e dir nm b f) y = f y)"

lemma record_generation_within:
  "store_within il \<Longrightarrow> \<not> beneath root x \<Longrightarrow> fst (record_generation il root e ident is f) x = f x"
  by (auto simp: record_generation_def Let_def store_within_def split: option.split prod.split) (metis fst_conv)+

lemma holds_publish:
  assumes pub: "publish A p prio e cs S = Some (r, cs', S')" and h: "holds_file A x c (as_queue S)"
    and sp: "spared_by A p x" and il: "store_within (ap_lib A)"
  shows "holds_file A x c (as_queue S')"
proof -
  let ?dir = "dir_of (ap_install A) (plan_generation_id p)"
  have nb: "\<not> beneath (ap_install A) x" using sp by (simp add: spared_by_def spared_def)
  consider "as_queue S' = as_queue S"
    | r1 cs1 q1 where "acquire A ?dir p prio cs (as_queue S) = Some (r1, cs1, q1)" "as_queue S' = q1"
    | r1 cl cs1 q1 q2 iss where "acquire A ?dir p prio cs (as_queue S) = Some (r1, cl # cs1, q1)"
        "others (ap_world A) cl q1 = Some q2"
        "as_queue S' = q2\<lparr>q_fs := fst (record_generation (ap_lib A) (ap_install A) (av_store e)
            (plan_generation_id p) iss (q_fs q2))\<rparr>"
    using pub by (auto simp: publish_def Let_def bind_eq_Some_conv split: option.splits if_splits sum.splits list.splits)
  then show ?thesis
  proof cases
    case 1
    with h show ?thesis by simp
  next
    case 2
    with holds_acquire [OF 2(1) h sp] show ?thesis by simp
  next
    case 3
    have "holds_file A x c q2" using holds_others [OF spared_byD(1) [OF sp] holds_acquire [OF 3(1) h sp] 3(2)] .
    with 3(3) record_generation_within [OF il nb] show ?thesis by (auto intro!: holds_put)
  qed
qed

lemma holds_apply_plan:
  assumes "apply_plan A p prio e cs S = Some (r, cs', S')" "holds_file A x c (as_queue S)"
    and "spared A x" "store_within (ap_lib A)"
  shows "holds_file A x c (as_queue S')"
proof (cases "refuse_unsafe_names p")
  case None
  then have sp: "spared_by A p x" using assms(3) by (simp add: spared_by_def)
  have same: "as_queue (record_completion g T) = as_queue T" for g T by (simp add: record_completion_def)
  from assms(1) None show ?thesis
    using holds_publish [OF _ assms(2) sp assms(4)] assms(2)
    by (auto simp: apply_plan_def same split: option.splits sum.splits)
qed (use assms in \<open>simp add: apply_plan_def\<close>)

section \<open>Fetches, sweeps and evictions\<close>

lemma holds_queue_until:
  "spared A x \<Longrightarrow> holds_file A x c q \<Longrightarrow> queue_until (ap_world A) req cs q = Some (i, cs', q') \<Longrightarrow> holds_file A x c q'"
proof (induction cs arbitrary: q)
  case (Cons cl cs)
  then obtain q1 where q1: "others (ap_world A) cl q = Some q1" by (auto simp: bind_eq_Some_conv)
  obtain q2 got where p: "queue_push (cl_threads cl) req (cl_now cl) q1 = (q2, got)" by fastforce
  have "holds_file A x c q2" using holds_push [OF _ holds_others p] Cons.prems(1,2) q1 by blast
  with Cons.IH [OF Cons.prems(1)] Cons.prems(3) q1 p show ?case by (cases got) auto
qed simp

lemma holds_await:
  "spared A x \<Longrightarrow> holds_file A x c q \<Longrightarrow> await_settled (ap_world A) a i cs q = Some (r, cs', q') \<Longrightarrow> holds_file A x c q'"
proof (induction cs arbitrary: q)
  case (Cons cl cs)
  then obtain q1 where q1: "others (ap_world A) cl q = Some q1" by (auto simp: bind_eq_Some_conv)
  have h1: "holds_file A x c q1" by (rule holds_others [OF Cons.prems(1,2) q1])
  have h2: "holds_file A x c q2" if "others (ap_world A) cl2 q1 = Some q2" for cl2 q2
    by (rule holds_others [OF Cons.prems(1) h1 that])
  show ?case
  proof (cases "queue_state q1 i \<in> {State.Complete, State.Failed, State.Cancelled}")
    case True
    with Cons.prems(3) q1 h1 h2 show ?thesis by (cases cs) (auto simp: bind_eq_Some_conv)
  next
    case False
    with Cons.IH [OF Cons.prems(1) h1] Cons.prems(3) q1 show ?thesis by simp
  qed
qed simp

lemma holds_evict: "spared A x \<Longrightarrow> holds_file A x c q \<Longrightarrow>
    holds_file A x c (q\<lparr>q_fs := evict gone (w_root (ap_world A)) d (q_fs q)\<rparr>)"
  by (rule holds_put) (simp_all add: evict_kept spared_def)

lemma holds_verify: "spared A x \<Longrightarrow> holds_file A x c q \<Longrightarrow>
    holds_file A x c (snd (verify_fetched (ap_world A) a d cached pe q))"
  by (auto simp: verify_fetched_def holds_evict split: sum.split)

lemma holds_fetch:
  assumes f: "fetch A a v prio cs q = Some (r, cs', q')" and "holds_file A x c q" "spared A x"
  shows "holds_file A x c q'"
proof (cases "q' = q")
  case False
  have 1: "refuse_unsafe_path a = None" using f False by (cases "refuse_unsafe_path a") (simp_all add: fetch_def)
  obtain d where 2: "digest_of (w_lib (ap_world A)) a = Inr d"
    using f False 1 by (cases "digest_of (w_lib (ap_world A)) a") (simp_all add: fetch_def Let_def)
  obtain req where 3: "request_for A a v prio = Inr req"
    using f False 1 2 by (cases "request_for A a v prio") (simp_all add: fetch_def Let_def)
  obtain i cs1 q1 where u: "queue_until (ap_world A) req cs q = Some (i, cs1, q1)"
    using f 1 2 3 by (cases "queue_until (ap_world A) req cs q") (auto simp: fetch_def Let_def)
  obtain res cs2 q2 where w: "await_settled (ap_world A) a i cs1 q1 = Some (res, cs2, q2)"
    using f 1 2 3 u by (cases "await_settled (ap_world A) a i cs1 q1") (auto simp: fetch_def Let_def)
  have rest: "(case (case res of Inl err \<Rightarrow> (Inl err, q2)
                  | Inr (cached, pe) \<Rightarrow> verify_fetched (ap_world A) a d cached pe q2) of
        (r', q3) \<Rightarrow> Option.bind (drop_acquisition (ap_world A) [(i, 0)] cs2 q3) (\<lambda>(cs3, q4). Some (r', cs3, q4)))
      = Some (r, cs', q')"
    using f 1 2 3 u w by (simp add: fetch_def Let_def)
  have h2: "holds_file A x c q2" using holds_await [OF assms(3) holds_queue_until [OF assms(3,2) u] w] .
  let ?q3 = "snd (case res of Inl err \<Rightarrow> (Inl err, q2) | Inr (cached, pe) \<Rightarrow> verify_fetched (ap_world A) a d cached pe q2)"
  have "drop_acquisition (ap_world A) [(i, 0)] cs2 ?q3 = Some (cs', q')"
    using rest by (auto simp: bind_eq_Some_conv case_prod_unfold)
  moreover have "holds_file A x c ?q3" using h2 holds_verify [OF assms(3) h2] by (auto split: sum.split)
  ultimately show ?thesis using holds_drop assms(3) by blast
qed (use assms in simp)

lemma slashless_base: "CHR ''/'' \<notin> set s \<Longrightarrow> path_join root s = path_join root [] @ s"
proof (cases "s = []")
  case False
  then show "CHR ''/'' \<notin> set s \<Longrightarrow> ?thesis" by (intro path_join_base) (auto dest: hd_in_set)
qed simp

lemma starts_with_append: "starts_with (a @ t) y \<Longrightarrow> starts_with a y"
  by (auto simp: starts_with_def dest: arg_cong [of _ _ "take (length a)"])

lemma slashless_beneath:
  assumes "CHR ''/'' \<notin> set s"
  shows "beneath root (path_join root s)"
  unfolding beneath_def slashless_base [OF assms] by (simp add: starts_with_def)

lemma slashless_inside:
  assumes "CHR ''/'' \<notin> set s" "beneath (path_join root s) y"
  shows "beneath root y"
proof -
  have "\<exists>t. path_join q [] = q @ t" for q by (simp add: path_join_def)
  then obtain t where "path_join (path_join root s) [] = path_join root [] @ s @ t"
    unfolding slashless_base [OF assms(1)] by (metis append_assoc)
  with assms(2) show ?thesis using starts_with_append unfolding beneath_def by metis
qed

text \<open>What \<open>read_dir\<close> lists are single names.\<close>

definition names_ok :: "listing \<Rightarrow> bool" where
  "names_ok ls \<longleftrightarrow> (\<forall>es nm d. ls = Listed es \<and> Some (Some nm, d) \<in> set es \<longrightarrow> CHR ''/'' \<notin> set nm)"

lemma collect_ids_slashless:
  "collect_ids root es found = Inr is \<Longrightarrow> (\<And>nm d. Some (Some nm, d) \<in> set es \<Longrightarrow> CHR ''/'' \<notin> set nm) \<Longrightarrow>
   (\<And>i. i \<in> set found \<Longrightarrow> CHR ''/'' \<notin> set i) \<Longrightarrow> i \<in> set is \<Longrightarrow> CHR ''/'' \<notin> set i"
proof (induction root es found rule: collect_ids.induct)
  case (4 root nm d es found)
  show ?case
  proof (cases "strip_suffix RECORD_SUFFIX nm")
    case None
    show ?thesis
      by (rule 4(1) [OF None]) (use 4(3-6) None in \<open>auto split: if_splits\<close>)
  next
    case (Some k)
    then have "set k \<subseteq> set nm" by (auto simp: strip_suffix_def Let_def split: if_splits dest: in_set_takeD)
    then have "CHR ''/'' \<notin> set k" using 4(4) [of nm d] by auto
    show ?thesis
      by (rule 4(2) [OF Some]) (use 4(3-6) Some \<open>CHR ''/'' \<notin> set k\<close> in auto)
  qed
qed auto

lemma ids_slashless: "ids root ls = Inr is \<Longrightarrow> names_ok ls \<Longrightarrow> i \<in> set is \<Longrightarrow> CHR ''/'' \<notin> set i"
proof (cases ls)
  case (Listed es)
  assume "ids root ls = Inr is" "names_ok ls" "i \<in> set is"
  with Listed show ?thesis using collect_ids_slashless [of root es "[]" "is" i] by (auto simp: ids_def names_ok_def)
qed (auto simp: ids_def)

lemma collect_spares: "CHR ''/'' \<notin> set i \<Longrightarrow> \<not> beneath root y \<Longrightarrow> fst (collect_generation root rm i f) y = f y"
proof -
  assume i: "CHR ''/'' \<notin> set i" and y: "\<not> beneath root y"
  have "beneath root (generation_record root i)"
    unfolding generation_record_def by (rule slashless_beneath) (use i in \<open>simp add: record_name_def RECORD_SUFFIX_def\<close>)
  moreover have "\<not> beneath (dir_of root i) y" using slashless_inside [OF i] y by (auto simp: dir_of_def)
  ultimately show ?thesis
    using collect_cases [of root rm i f "fst (collect_generation root rm i f)" "snd (collect_generation root rm i f)"] y
    by (auto simp: remove_dir_all_def)
qed

lemma retain_loop_spares: "(\<And>i. i \<in> set is \<Longrightarrow> CHR ''/'' \<notin> set i) \<Longrightarrow> \<not> beneath root y \<Longrightarrow>
    fst (retain_loop root live ms rms k is gone f) y = f y"
proof (induction "is" arbitrary: k gone f)
  case (Cons i "is")
  obtain f1 r where c: "collect_generation root (rms k) i f = (f1, r)" by fastforce
  have "fst (collect_generation root (rms k) i f) y = f y" by (rule collect_spares) (use Cons.prems in auto)
  with Cons c show ?case by (cases r) auto
qed simp

lemma retain_spares:
  assumes "names_ok ls" "\<And>is. set (order is) \<subseteq> set is" "\<not> beneath root y"
  shows "fst (retain root ls order live ms rms f) y = f y"
proof (cases "ids root ls")
  case (Inr iss)
  have "\<And>i. i \<in> set (order iss) \<Longrightarrow> CHR ''/'' \<notin> set i" using ids_slashless [OF Inr assms(1)] assms(2) by blast
  with retain_loop_spares assms(3) Inr show ?thesis by (simp add: retain_def)
qed (simp add: retain_def)

section \<open>Checks\<close>

text \<open>
  Beside the channel's own laws: the store that keeps the check log leaves the floor's file, in the
  same directory, alone.
\<close>

definition check_lib_ok :: "('e, 'u) check_lib \<Rightarrow> bool" where
  "check_lib_ok K \<longleftrightarrow> channel_lib_ok (ck_channel K)
     \<and> (\<forall>e dir b f. fst (cl_store (ck_channel K) e dir RECORD_FILE b f) (floor_path dir) = f (floor_path dir))"

definition floor_at_least :: "('e, 'u) check_lib \<Rightarrow> string \<Rightarrow> trust_floor \<Rightarrow> fs \<Rightarrow> bool" where
  "floor_at_least K trust fl f \<longleftrightarrow> (\<exists>fl'. stored_floor (ck_channel K) trust f = Some fl' \<and> floor_le fl fl')"

lemma floor_at_least_file: "f' (floor_path trust) = f (floor_path trust) \<Longrightarrow>
    floor_at_least K trust fl f' = floor_at_least K trust fl f"
  by (simp add: floor_at_least_def stored_floor_def)

lemma floor_recorded:
  "floor_at_least K trust fl f \<Longrightarrow> \<not> floor_le fl floor_default \<Longrightarrow> \<exists>c. f (floor_path trust) = Some c"
  by (auto simp: floor_at_least_def stored_floor_def split: option.splits)

lemma append_record_floor:
  "check_lib_ok K \<Longrightarrow> fst (append_record K dir e r f) (floor_path dir) = f (floor_path dir)"
  by (auto simp: append_record_def Let_def check_lib_ok_def split: option.split prod.split) (metis fst_conv)+

lemma resolve_check_floor:
  assumes ok: "check_lib_ok K" and fl: "floor_at_least K (ch_trust (ckr_channel ck)) fl f"
  shows "floor_at_least K (ch_trust (ckr_channel ck)) fl (fst (resolve_check K ml l ck installed e f))"
proof -
  have cl: "channel_lib_ok (ck_channel K)" using ok by (simp add: check_lib_ok_def)
  obtain f' res where a: "authenticate (ck_channel K) ml l (ckr_channel ck) e f = (f', res)" by fastforce
  have f': "fst (resolve_check K ml l ck installed e f) = f'"
    using a by (simp add: resolve_check_def split: sum.split attempt.split)
  from authenticate_effect [OF cl a] obtain x where x: "effect_ok (ck_channel K) (ckr_channel ck) e f f' x" by blast
  show ?thesis
  proof (cases x)
    case Unchanged
    with x fl f' show ?thesis by (simp add: effect_ok_def floor_at_least_def)
  next
    case (Raised fl' offered)
    with x fl f' trust.below_trans show ?thesis by (auto simp: effect_ok_def floor_at_least_def)
  qed
qed

lemma check_floor:
  assumes ok: "check_lib_ok K" and fl: "floor_at_least K (ch_trust (ckr_channel ck)) fl f"
    and log: "ckr_log ck = ch_trust (ckr_channel ck)"
  shows "floor_at_least K (ch_trust (ckr_channel ck)) fl (fst (check K ml l ck installed now e f))"
proof -
  obtain f1 r where r: "resolve_check K ml l ck installed e f = (f1, r)" by fastforce
  have "fst (check K ml l ck installed now e f) = fst (append_record K (ckr_log ck) e (record_of K now r) f1)"
    by (simp add: check_def r split: prod.split)
  with resolve_check_floor [OF ok fl, of ml l installed e] append_record_floor [OF ok, of "ckr_log ck" e "record_of K now r" f1]
  show ?thesis using floor_at_least_file r log by (metis fst_conv)
qed

section \<open>Runs\<close>

definition settings :: "'e updater \<Rightarrow> 'e checker \<times> applier \<times> string" where
  "settings u = (up_checker u, up_applier u, up_cache u)"

lemma settings_sel [simp]:
  "settings (set_fs f u) = settings u" "settings (set_queue q u) = settings u" "settings (upd_status g u) = settings u"
  "settings (u\<lparr>up_pc := pc\<rparr>) = settings u" "settings (u\<lparr>up_apply := S\<rparr>) = settings u"
  "settings (u\<lparr>up_schedule := s\<rparr>) = settings u" "settings (u\<lparr>up_handle := h\<rparr>) = settings u"
  by (simp_all add: settings_def set_fs_def set_queue_def upd_status_def)

lemma start_job_keeps: "settings (fst (start_job L j b u)) = settings u \<and> up_apply (fst (start_job L j b u)) = up_apply u"
  by (simp add: start_job_def Let_def)

lemma begin_check_keeps:
  "settings (fst (begin_check L now prio b u)) = settings u \<and> up_apply (fst (begin_check L now prio b u)) = up_apply u"
  using start_job_keeps [of L "CheckJob prio" b u] by (simp add: begin_check_fst)

lemma up_fs_pc [simp]: "up_fs (u\<lparr>up_pc := pc\<rparr>) = up_fs u"
  by (simp add: up_fs_def)

lemma as_queue_set [simp]: "as_queue (up_apply (set_fs f u)) = (as_queue (up_apply u))\<lparr>q_fs := f\<rparr>"
  by (simp add: set_fs_def)

text \<open>What a step of the updater may do to the queue and the files, seen from a file it must spare.\<close>

definition event_ok :: "'e up_event \<Rightarrow> bool" where
  "event_ok ev \<longleftrightarrow> (case ev of
       RetainOnly ls order live rms \<Rightarrow> names_ok ls \<and> (\<forall>is. set (order is) \<subseteq> set is)
     | JobPanic authenticated e evs files \<Rightarrow> list_all (\<lambda>(name, c). is_clean_relative_path name) files
     | _ \<Rightarrow> True)"

lemma fold_writes: "(\<And>name c. (name, c) \<in> set files \<Longrightarrow> path_join dir name \<noteq> x) \<Longrightarrow>
    fold (\<lambda>(name, c) f. f(path_join dir name := c)) files f x = f x"
proof (induction files arbitrary: f)
  case (Cons a files)
  obtain name c where a: "a = (name, c)" by fastforce
  let ?F = "\<lambda>(name, c) f. f(path_join dir name := c)"
  have "fold ?F (a # files) f x = fold ?F files (f(path_join dir name := c)) x" by (simp only: a fold_simps prod.case)
  also have "\<dots> = (f(path_join dir name := c)) x" by (rule Cons.IH) (use Cons.prems in auto)
  also have "\<dots> = f x" using Cons.prems [of name c] a by (simp add: fun_upd_other)
  finally show ?case .
qed simp

lemma exec_slots: "queue_ready wd q \<Longrightarrow> exec_event wd q ev = Some q' \<Longrightarrow> length (q_slots q') = length (q_slots q)"
proof -
  assume "queue_ready wd q" "exec_event wd q ev = Some q'"
  then have "sstep\<^sup>*\<^sup>* (view q) (view q')" using exec_refines by (simp add: queue_ready_def)
  then have "length (v_slots (view q')) = length (v_slots (view q))"
    by (induction rule: rtranclp_induct) (auto dest: length_sstep)
  then show ?thesis by (simp add: view_def)
qed

lemma holds_over_slots:
  assumes "\<And>i q. i < length (q_slots q) \<Longrightarrow> exec_event (ap_world A) q (mk i) = Some (fst (op i q))" and sp: "spared A x"
  shows "holds_file A x c q \<Longrightarrow> (\<And>i. i \<in> set is \<Longrightarrow> i < length (q_slots q)) \<Longrightarrow>
    holds_file A x c (fst (over_slots op is q))"
proof (induction "is" arbitrary: q)
  case (Cons i "is")
  have ex: "exec_event (ap_world A) q (mk i) = Some (fst (op i q))" by (rule assms(1)) (use Cons.prems in simp)
  have "holds_file A x c (fst (op i q))" by (rule holds_exec [OF sp Cons.prems(1) ex])
  moreover have "length (q_slots (fst (op i q))) = length (q_slots q)"
    using exec_slots [OF _ ex] Cons.prems(1) by (simp add: holds_file_def)
  moreover have "fst (over_slots op (i # is) q) = fst (over_slots op is (fst (op i q)))" by (simp split: prod.split)
  ultimately show ?case using Cons.IH [of "fst (op i q)"] Cons.prems(2) by simp
qed simp

lemma holds_all:
  assumes "spared A x" "holds_file A x c q"
  shows "holds_file A x c (fst (pause_all q))" "holds_file A x c (fst (resume_all t q))" "holds_file A x c (fst (cancel_all q))"
  using holds_over_slots [OF _ assms, of Pause queue_pause "[0..<length (q_slots q)]"]
    holds_over_slots [OF _ assms, of "Resume t" "queue_resume t" "[0..<length (q_slots q)]"]
    holds_over_slots [OF _ assms, of Cancel queue_cancel "[0..<length (q_slots q)]"]
  by (simp_all add: pause_all_def resume_all_def cancel_all_def exec_event_def)

definition is_check_step :: "'e up_event \<Rightarrow> 'e updater \<Rightarrow> bool" where
  "is_check_step ev u \<longleftrightarrow> (\<exists>prio. up_pc u = Started (CheckJob prio)) \<and> (case ev of JobStep _ \<Rightarrow> True | JobPanic _ _ _ _ \<Rightarrow> True | _ \<Rightarrow> False)"

lemma job_step_settings: "job_step L env u = Some u' \<Longrightarrow> settings u' = settings u"
proof -
  have "settings (run_check L env prio u) = settings u" for prio by (simp add: settings_def run_check_def split: prod.split)
  then show "job_step L env u = Some u' \<Longrightarrow> settings u' = settings u"
    by (auto simp: job_step_def bind_eq_Some_conv settings_def split: job_pc.splits job.splits)
qed

lemma exec_up_settings: "exec_up L ev u = Some u' \<Longrightarrow> settings u' = settings u"
proof -
  assume ex: "exec_up L ev u = Some u'"
  show ?thesis
  proof (cases ev)
    case (JobStep env)
    with ex job_step_settings show ?thesis by (auto simp: exec_up_def)
  next
    case (JobPanic authenticated e evs files)
    with ex show ?thesis
      by (auto simp: exec_up_def job_panic_def bind_eq_Some_conv Let_def split: job_pc.splits job.splits if_splits)
  next
    case (Tick now b)
    with ex begin_check_keeps [of L] show ?thesis by (auto simp: exec_up_def tick_def)
  qed (use ex start_job_keeps [of L] begin_check_keeps [of L] in \<open>auto simp: exec_up_def check_now_def start_apply_def up_pause_def
      up_resume_def up_cancel_def up_next_completed_def up_fetch_def up_retain_def evict_cached_def bind_eq_Some_conv
      split: prod.splits sum.splits\<close>)
qed

lemma exec_up_holds:
  assumes ex: "exec_up L ev u = Some u'" and h: "holds_file (up_applier u) x c (as_queue (up_apply u))"
    and sp: "spared (up_applier u) x" and il: "store_within (ap_lib (up_applier u))"
    and cache: "up_cache u = w_root (ap_world (up_applier u))" and ok: "event_ok ev" and no: "\<not> is_check_step ev u"
  shows "holds_file (up_applier u) x c (as_queue (up_apply u'))"
proof -
  let ?A = "up_applier u"
  have nb: "\<not> beneath (ap_install ?A) x" using sp by (simp add: spared_def)
  have put: "holds_file ?A x c ((as_queue (up_apply u))\<lparr>q_fs := f\<rparr>)" if "f x = up_fs u x" for f
    by (rule holds_put [OF h]) (use that in \<open>simp add: up_fs_def\<close>)
  show ?thesis
  proof (cases ev)
    case (FetchOne a v prio cs)
    then obtain r cs' q where "fetch ?A a v prio cs (as_queue (up_apply u)) = Some (r, cs', q)" "u' = set_queue q u"
      using ex by (auto simp: exec_up_def up_fetch_def bind_eq_Some_conv)
    with holds_fetch [OF _ h sp] show ?thesis by simp
  next
    case (RetainOnly ls order live rms)
    have "fst (retain (ap_install ?A) ls order live (\<lambda>_. as_claims (up_apply u)) rms (up_fs u)) x = up_fs u x"
      by (rule retain_spares) (use ok RetainOnly nb in \<open>auto simp: event_ok_def\<close>)
    with ex RetainOnly put show ?thesis by (auto simp: exec_up_def up_retain_def split: prod.splits)
  next
    case (EvictCached b sha)
    have "evict b (up_cache u) d (up_fs u) x = up_fs u x" for d
      using sp cache by (simp add: evict_kept spared_def)
    with ex EvictCached h put show ?thesis by (auto simp: exec_up_def evict_cached_def split: sum.splits)
  next
    case (JobStep env)
    show ?thesis
    proof (cases "up_pc u")
      case (Acquiring p prio)
      then obtain r cs' S where a: "apply_plan ?A p prio (je_apply env) (je_calls env) (up_apply u) = Some (r, cs', S)"
        and "u' = u\<lparr>up_apply := S, up_pc := Applied p r\<rparr>"
        using ex JobStep by (auto simp: exec_up_def job_step_def bind_eq_Some_conv)
      with holds_apply_plan [OF a h sp il] show ?thesis by simp
    next
      case (Started j)
      with ex JobStep h no show ?thesis by (cases j) (auto simp: exec_up_def job_step_def is_check_step_def)
    qed (use ex JobStep h in \<open>auto simp: exec_up_def job_step_def\<close>)
  next
    case (JobPanic authenticated e evs files)
    show ?thesis
    proof (cases "up_pc u")
      case (Acquiring p prio)
      let ?dir = "dir_of (ap_install ?A) (plan_generation_id p)"
      obtain q where q: "run_events (ap_world ?A) evs (as_queue (up_apply u)) = Some q" "refuse_unsafe_names p = None"
        and u': "u' = (set_fs (fold (\<lambda>(name, c) f. f(path_join ?dir name := c)) files (q_fs q)) (set_queue q u))\<lparr>up_pc := Ended True\<rparr>"
        using ex JobPanic Acquiring by (auto simp: exec_up_def job_panic_def bind_eq_Some_conv Let_def split: if_splits)
      have hq: "holds_file ?A x c q" by (rule holds_events [OF sp h q(1)])
      have "spared_by ?A p x" using sp q(2) by (simp add: spared_by_def)
      then have "path_join ?dir name \<noteq> x" if "(name, d) \<in> set files" for name d
        using placed_beneath [OF _ spared_byD(2)] that ok JobPanic nb by (fastforce simp: event_ok_def list_all_iff)
      then have "fold (\<lambda>(name, c) f. f(path_join ?dir name := c)) files (q_fs q) x = q_fs q x" by (rule fold_writes)
      with hq u' show ?thesis by (auto intro!: holds_put)
    next
      case (Started j)
      with ex JobPanic h no show ?thesis by (cases j) (auto simp: exec_up_def job_panic_def is_check_step_def)
    qed (use ex JobPanic in \<open>auto simp: exec_up_def job_panic_def\<close>)
  next
    case (QueueStep qe)
    with ex holds_exec [OF sp h] show ?thesis by (auto simp: exec_up_def)
  next
    case (Tick now b)
    with ex h begin_check_keeps [of L] show ?thesis by (auto simp: exec_up_def tick_def)
  next
    case NextCompleted
    with ex h show ?thesis by (auto simp: exec_up_def up_next_completed_def next_completed_def split: list.splits)
  qed (use ex h holds_all [OF sp h] start_job_keeps [of L] begin_check_keeps [of L] in
      \<open>auto simp: exec_up_def check_now_def start_apply_def up_pause_def up_resume_def up_cancel_def\<close>)
qed

section \<open>The floor under every run\<close>

fun run_up :: "('e, 'u) up_lib \<Rightarrow> 'e up_event list \<Rightarrow> 'e updater \<Rightarrow> 'e updater option" where
  "run_up L [] u = Some u"
| "run_up L (ev # evs) u = Option.bind (exec_up L ev u) (run_up L evs)"

lemma hex_last: "s \<noteq> [] \<Longrightarrow> list_all is_lower_hex s \<Longrightarrow> last s \<noteq> CHR ''n''"
proof -
  assume "s \<noteq> []" "list_all is_lower_hex s"
  then have "is_lower_hex (last s)" by (simp add: list_all_iff)
  then show ?thesis by (auto simp: is_lower_hex_def hex_digits_def)
qed

lemma floor_not_cached: "\<not> cache_file root (floor_path trust)"
proof
  assume "cache_file root (floor_path trust)"
  then obtain d where d: "floor_path trust = path_for root d \<or> floor_path trust = sidecar_path (path_for root d)"
    by (auto simp: cache_file_def)
  have "\<exists>pre. floor_path trust = pre @ ''floor.json''" by (auto simp: floor_path_def path_join_def FLOOR_FILE_def)
  then have fl: "last (floor_path trust) = CHR ''n''" "\<exists>pre. floor_path trust = pre @ ''.json''" by auto
  show False
  proof (cases "floor_path trust = path_for root d")
    case True
    have hex: "list_all is_lower_hex (digest_to_string d)"
      using to_hex_lower by (auto simp: digest_to_string_hex list_all_iff)
    show False
    proof (cases "digest_to_string d = []")
      case False
      then have "last (path_for root d) = last (digest_to_string d)" by (auto simp: path_for_def path_join_def)
      with True fl(1) hex_last [OF False hex] show False by simp
    next
      case nil: True
      then have "floor_path trust = path_join root []" using True by (simp add: path_for_def)
      moreover have "path_join root [] = [] \<or> last (path_join root []) = CHR ''/''" by (auto simp: path_join_def)
      moreover have "floor_path trust \<noteq> []" using fl(2) by auto
      ultimately show False using fl(1) by auto
    qed
  next
    case False
    with d fl(1) show False by (simp add: sidecar_path_def)
  qed
qed

text \<open>What every updater \<open>new\<close> builds is set to, and keeps.\<close>

definition floor_guard ::
  "('e, 'u) up_lib \<Rightarrow> 'e checker \<times> applier \<times> string \<Rightarrow> trust_floor \<Rightarrow> 'e updater \<Rightarrow> bool" where
  "floor_guard L conf fl u \<longleftrightarrow> settings u = conf
     \<and> queue_ready (ap_world (fst (snd conf))) (as_queue (up_apply u))
     \<and> (floor_le fl floor_default \<or> floor_at_least (ul_check L) (ch_trust (ckr_channel (fst conf))) fl (up_fs u))"

definition conf_ok :: "'e checker \<times> applier \<times> string \<Rightarrow> bool" where
  "conf_ok conf \<longleftrightarrow> (case conf of (ck, A, cache) \<Rightarrow> cache = w_root (ap_world A)
     \<and> ckr_log ck = ch_trust (ckr_channel ck) \<and> store_within (ap_lib A)
     \<and> \<not> beneath (ap_install A) (floor_path (ch_trust (ckr_channel ck))))"

lemma exec_up_guard:
  assumes K: "check_lib_ok (ul_check L)" and conf: "conf_ok conf" and g: "floor_guard L conf fl u"
    and ex: "exec_up L ev u = Some u'" and ok: "event_ok ev"
  shows "floor_guard L conf fl u'"
proof -
  obtain ck A cache where c: "conf = (ck, A, cache)" by (cases conf)
  let ?x = "floor_path (ch_trust (ckr_channel ck))"
  have u: "up_checker u = ck" "up_applier u = A" "up_cache u = cache" "settings u' = conf"
    using g exec_up_settings [OF ex] c by (auto simp: floor_guard_def settings_def)
  have co: "cache = w_root (ap_world A)" "ckr_log ck = ch_trust (ckr_channel ck)" "store_within (ap_lib A)"
    "\<not> beneath (ap_install A) ?x"
    using conf c by (auto simp: conf_ok_def)
  have sp: "spared A ?x" using co(4) floor_not_cached by (simp add: spared_def)
  have ready: "queue_ready (ap_world A) (as_queue (up_apply u))" using g c by (simp add: floor_guard_def)
  show ?thesis
  proof (cases "is_check_step ev u")
    case False
    let ?c = "if floor_le fl floor_default then None else up_fs u ?x"
    have "holds_file (up_applier u) ?x ?c (as_queue (up_apply u))"
      using ready u(2) by (simp add: holds_file_def up_fs_def)
    from exec_up_holds [OF ex this] sp co u False ok
    have h: "holds_file A ?x ?c (as_queue (up_apply u'))" by simp
    moreover have "floor_at_least (ul_check L) (ch_trust (ckr_channel ck)) fl (up_fs u')"
      if raised: "\<not> floor_le fl floor_default"
    proof -
      have at: "floor_at_least (ul_check L) (ch_trust (ckr_channel ck)) fl (up_fs u)"
        using g c raised by (simp add: floor_guard_def)
      obtain b where "up_fs u ?x = Some b" using floor_recorded [OF at raised] by blast
      with h raised have "up_fs u' ?x = up_fs u ?x" by (simp add: holds_file_def up_fs_def)
      with at floor_at_least_file show ?thesis by blast
    qed
    ultimately show ?thesis using u(4) c by (auto simp: floor_guard_def holds_file_def)
  next
    case True
    then obtain prio where pc: "up_pc u = Started (CheckJob prio)" by (auto simp: is_check_step_def)
    have at: "floor_at_least (ul_check L) (ch_trust (ckr_channel ck)) fl (up_fs u)" if "\<not> floor_le fl floor_default"
      using g c that by (simp add: floor_guard_def)
    note checked = check_floor [OF K at co(2)] resolve_check_floor [OF K at]
    consider env where "ev = JobStep env" | a e evs files where "ev = JobPanic a e evs files"
      using True by (auto simp: is_check_step_def split: up_event.splits)
    then show ?thesis
    proof cases
      case 1
      with ex pc have u': "u' = run_check L env prio u" by (simp add: exec_up_def job_step_def)
      with checked(1) ready ready_fs u c show ?thesis
        by (auto simp: floor_guard_def run_check_def split: prod.split) (metis fst_conv)+
    next
      case 2
      with ex pc ready ready_fs u c show ?thesis
        by (cases "floor_le fl floor_default"; cases a)
           (use checked(2) at in \<open>auto simp: exec_up_def job_panic_def floor_guard_def\<close>)
    qed
  qed
qed

lemma run_up_guard:
  assumes K: "check_lib_ok (ul_check L)" and conf: "conf_ok conf"
  shows "run_up L evs u = Some u' \<Longrightarrow> list_all event_ok evs \<Longrightarrow> floor_guard L conf fl u \<Longrightarrow> floor_guard L conf fl u'"
  by (induction evs arbitrary: u) (auto simp: bind_eq_Some_conv dest: exec_up_guard [OF K conf])

lemma updater_new_settings:
  assumes "updater_new L l il net now c e f = Inr u"
  shows "queue_ready (ap_world (up_applier u)) (as_queue (up_apply u))
    \<and> up_cache u = w_root (ap_world (up_applier u)) \<and> ap_lib (up_applier u) = il
    \<and> ap_install (up_applier u) = path_join (uc_install_root c) GENERATIONS
    \<and> ckr_log (up_checker u) = uc_trust_state_dir c \<and> ch_trust (ckr_channel (up_checker u)) = uc_trust_state_dir c"
  using assms
  by (auto simp: updater_new_def updater_over_def Let_def applier_new_def with_config_ready channel_https_def
      channel_new_def split: if_splits sum.splits)

lemma updater_new_starts: "updater_new L l il net now c e f = Inr u \<Longrightarrow>
    up_pc u = Resting \<and> st_phase (up_status u) = Idle \<and> up_fs u = f"
proof -
  have over: "up_pc v = Resting \<and> st_phase (up_status v) = Idle \<and> up_fs v = f"
    if "v = updater_over L l il c ch e f" for v ch
    using that by (simp add: updater_over_def Let_def status_default_def up_fs_def with_config_def)
  assume "updater_new L l il net now c e f = Inr u"
  with over show ?thesis by (auto simp: updater_new_def split: if_splits sum.splits)
qed

text \<open>
  C20: once an updater has been built, no run of it lowers the trust floor: between any two states of
  a run, however the caller's calls, the job thread's steps and panics, applies, fetches, sweeps,
  evictions and the queue's workers interleave, the floor stored later can still be read and is at
  least the one stored earlier in every role and in time.
\<close>

theorem updater_never_lowers_floor:
  assumes lib: "check_lib_ok (ul_check L)" "store_within il"
    and new: "updater_new L l il net now c e f = Inr u"
    and apart: "\<not> beneath (path_join (uc_install_root c) GENERATIONS) (floor_path (uc_trust_state_dir c))"
    and runs: "run_up L evs u = Some u1" "run_up L evs' u1 = Some u2" "list_all event_ok (evs @ evs')"
    and fl: "stored_floor (ck_channel (ul_check L)) (uc_trust_state_dir c) (up_fs u1) = Some fl"
      "\<not> floor_le fl floor_default"
  shows "\<exists>fl'. stored_floor (ck_channel (ul_check L)) (uc_trust_state_dir c) (up_fs u2) = Some fl' \<and> floor_le fl fl'"
proof -
  note set = updater_new_settings [OF new]
  let ?conf = "settings u"
  have conf: "conf_ok ?conf" using set lib(2) apart by (simp add: conf_ok_def settings_def)
  have "floor_guard L ?conf floor_default u" using set by (simp add: floor_guard_def settings_def trust.below_refl)
  from run_up_guard [OF lib(1) conf runs(1) _ this] runs(3)
  have "settings u1 = ?conf" "queue_ready (ap_world (up_applier u)) (as_queue (up_apply u1))"
    by (simp_all add: floor_guard_def settings_def)
  moreover have "floor_at_least (ul_check L) (uc_trust_state_dir c) fl (up_fs u1)"
    using fl(1) trust.below_refl by (auto simp: floor_at_least_def)
  ultimately have "floor_guard L ?conf fl u1" using set by (simp add: floor_guard_def settings_def)
  from run_up_guard [OF lib(1) conf runs(2) _ this] runs(3)
  have "floor_guard L ?conf fl u2" by simp
  with fl(2) set show ?thesis by (simp add: floor_guard_def settings_def floor_at_least_def)
qed

lemma sample_check_lib_ok: "check_lib_ok (ul_check sample_up_lib)"
  by (auto simp: check_lib_ok_def sample_up_lib_def sample_check_lib_def sample_channel_lib_ok)
     (auto simp: sample_channel_lib_def RECORD_FILE_def floor_path_def FLOOR_FILE_def path_join_def)

lemma tiny_store_within: "store_within tiny_install_lib"
proof -
  have "path_join dir nm \<noteq> y" if "plain_name nm" "\<not> beneath dir y" for dir nm y
    using that slashless_beneath by (auto simp: plain_name_def)
  then show ?thesis by (auto simp: store_within_def tiny_install_lib_def)
qed

definition floored_fs :: fs where
  "floored_fs = [''/t/floor.json'' \<mapsto> [3, 5]]"

definition floored_updater :: "(nat \<times> nat) updater" where
  "floored_updater = (case updater_new sample_up_lib sample_lib tiny_install_lib (\<lambda>_. sample_net) (\<lambda>_. 9)
     sample_config (5, 3) floored_fs of Inr u \<Rightarrow> u)"

lemma floored_updater_new:
  "updater_new sample_up_lib sample_lib tiny_install_lib (\<lambda>_. sample_net) (\<lambda>_. 9) sample_config (5, 3) floored_fs
     = Inr floored_updater"
proof -
  have "\<not> path_starts_with ''/t'' ''/c''" "starts_with ''https://'' ''https://a''" "starts_with ''https://'' ''https://m''"
    by code_simp+
  then show ?thesis
    by (simp add: floored_updater_def updater_new_def sample_config_def channel_https_def host_date_new_def)
qed

theorem updater_never_lowers_floor_witness:
  "\<exists>u1 u2 fl'. run_up sample_up_lib [CheckNow 0 User True] floored_updater = Some u1
     \<and> run_up sample_up_lib [JobStep sample_env] u1 = Some u2
     \<and> stored_floor sample_channel_lib ''/t'' (up_fs u2) = Some fl' \<and> 3 \<le> fl_timestamp fl' \<and> 5 \<le> fl_verified_at fl'"
proof -
  let ?u1 = "fst (check_now sample_up_lib 0 User True floored_updater)"
  let ?u2 = "run_check sample_up_lib sample_env User ?u1"
  let ?fl = "\<lparr>fl_root = 1, fl_timestamp = 3, fl_snapshot = 3, fl_targets = 3, fl_verified_at = 5\<rparr>"
  have u0: "up_pc floored_updater = Resting" "st_phase (up_status floored_updater) = Idle" "up_fs floored_updater = floored_fs"
    using updater_new_starts [OF floored_updater_new] by simp_all
  have r1: "run_up sample_up_lib [CheckNow 0 User True] floored_updater = Some ?u1" by (simp add: exec_up_def)
  have pc: "up_pc ?u1 = Started (CheckJob User)"
    by (simp add: check_now_def begin_check_def start_job_def Let_def u0)
  then have r2: "run_up sample_up_lib [JobStep sample_env] ?u1 = Some ?u2" by (simp add: exec_up_def job_step_def)
  have "up_fs ?u1 = floored_fs"
    using begin_check_keeps [of sample_up_lib 0 User True floored_updater] u0(3) by (simp add: check_now_def up_fs_def)
  then have fl: "stored_floor sample_channel_lib ''/t'' (up_fs ?u1) = Some ?fl"
    by (simp add: stored_floor_def floored_fs_def floor_path_def FLOOR_FILE_def path_join_def sample_channel_lib_def)
  have raised: "\<not> floor_le ?fl floor_default" by (simp add: floor_le_def floor_default_def)
  have apart: "\<not> beneath (path_join (uc_install_root sample_config) GENERATIONS) (floor_path (uc_trust_state_dir sample_config))"
    by code_simp
  have sel: "ck_channel (ul_check sample_up_lib) = sample_channel_lib" "uc_trust_state_dir sample_config = ''/t''"
    by (simp_all add: sample_up_lib_def sample_check_lib_def sample_config_def)
  from updater_never_lowers_floor [OF sample_check_lib_ok tiny_store_within floored_updater_new apart r1 r2 _ _ raised]
  obtain fl' where "stored_floor sample_channel_lib ''/t'' (up_fs ?u2) = Some fl'" "floor_le ?fl fl'"
    using fl by (auto simp: event_ok_def sel)
  with r1 r2 show ?thesis unfolding floor_le_def by auto
qed

end
