(* ===== verification/Catalog_Props.thy ===== *)
theory Catalog_Props
  imports Catalog Updater_Frame "HOL-Library.Multiset"
begin

text \<open>
  What the catalog keeps: the resident decoder set is the active generation's and changes only at the
  mount and stop boundary, booting tries every installed generation in order, an activation keeps its
  fallback on disk, and the record survives a crash.
\<close>

section \<open>What each piece leaves alone\<close>

lemma let_threads_sel [simp]:
  "cat_payloads (let_threads E k c) = cat_payloads c" "cat_trees (let_threads E k c) = cat_trees c"
  "cat_log (let_threads E k c) = cat_log c" "cat_pending (let_threads E k c) = cat_pending c"
  "cat_boot (let_threads E k c) = cat_boot c" "cat_loaded (let_threads E k c) = cat_loaded c"
  "cat_booted (let_threads E k c) = cat_booted c"
  by (simp_all add: let_threads_def)

lemma on_log_sel [simp]:
  "cat_payloads (on_log g c) = cat_payloads c" "cat_trees (on_log g c) = cat_trees c"
  "cat_pending (on_log g c) = cat_pending c" "cat_boot (on_log g c) = cat_boot c"
  "cat_loaded (on_log g c) = cat_loaded c" "cat_booted (on_log g c) = cat_booted c"
  "cat_log (on_log g c) = fst (g (cat_log c, up_fs (cat_updater c)))"
  by (simp_all add: on_log_def split: prod.split)

lemma pop_boot_sel [simp]:
  "cat_payloads (pop_boot c) = cat_payloads c" "cat_trees (pop_boot c) = cat_trees c"
  "cat_log (pop_boot c) = cat_log c" "cat_loaded (pop_boot c) = cat_loaded c" "cat_booted (pop_boot c) = cat_booted c"
  "cat_updater (pop_boot c) = cat_updater c"
  by (simp_all add: pop_boot_def)

lemma evict_artifacts_sel [simp]:
  "cat_payloads (evict_artifacts E k as c) = cat_payloads c" "cat_trees (evict_artifacts E k as c) = cat_trees c"
  "cat_log (evict_artifacts E k as c) = cat_log c" "cat_pending (evict_artifacts E k as c) = cat_pending c"
  "cat_boot (evict_artifacts E k as c) = cat_boot c" "cat_loaded (evict_artifacts E k as c) = cat_loaded c"
  "cat_booted (evict_artifacts E k as c) = cat_booted c"
  by (induction as arbitrary: k c) (simp_all add: Let_def)

lemma clean_up_sel [simp]:
  "cat_payloads (clean_up E g c) = cat_payloads c" "cat_log (clean_up E g c) = cat_log c"
  "cat_pending (clean_up E g c) = cat_pending c" "cat_boot (clean_up E g c) = cat_boot c"
  "cat_loaded (clean_up E g c) = cat_loaded c" "cat_booted (clean_up E g c) = cat_booted c"
  by (simp_all add: clean_up_def Let_def split: prod.split)

lemma boot_once_sel [simp]:
  "cat_payloads (boot_once E c) = cat_payloads c" "cat_trees (boot_once E c) = cat_trees c"
  "cat_log (boot_once E c) = cat_log c" "cat_loaded (boot_once E c) = cat_loaded c" "cat_booted (boot_once E c)"
  by (simp_all add: boot_once_def Let_def)

lemma boot_once_booted [simp]: "cat_booted c \<Longrightarrow> boot_once E c = c"
  by (simp add: boot_once_def)

lemma drive_updater_sel [simp]:
  "cat_payloads (drive_updater CA E c) = cat_payloads c" "cat_trees (drive_updater CA E c) = cat_trees c"
  "cat_log (drive_updater CA E c) = cat_log c" "cat_loaded (drive_updater CA E c) = cat_loaded c"
  "cat_booted (drive_updater CA E c) = cat_booted c" "cat_pending (drive_updater CA E c) = cat_pending c"
  "cat_boot (drive_updater CA E c) = cat_boot c"
  by (simp_all add: drive_updater_def Let_def)

lemma take_completed_sel [simp]:
  "cat_payloads (take_completed CA E c) = cat_payloads c" "cat_trees (take_completed CA E c) = cat_trees c"
  "cat_log (take_completed CA E c) = cat_log c" "cat_loaded (take_completed CA E c) = cat_loaded c"
  "cat_booted (take_completed CA E c)" "cat_boot (take_completed CA E c) = cat_boot (boot_once E c)"
  by (simp_all add: take_completed_def Let_def split: prod.split option.split)

lemma ensure_libraries: "ensure PL x root f g ts = (ts', Inr libs) \<Longrightarrow>
   libs = libraries PL (payload_dir root (gen_id g)) (gen_artifacts g)"
  by (auto simp: ensure_def Let_def split: prod.splits option.splits)

lemma ensure_payload_sel:
  "ensure_payload CA x g c = (c1, r) \<Longrightarrow> c1 = c\<lparr>cat_trees := cat_trees c1\<rparr> \<and>
     (\<forall>libs. r = Inr libs \<longrightarrow> libs = libraries (ca_payload CA) (payload_dir (cat_payloads c) (gen_id g)) (gen_artifacts g))"
  by (auto simp: ensure_payload_def dest: ensure_libraries split: prod.splits)

lemma ensure_payload_keeps:
  assumes "ensure_payload CA x g c = (c1, r)"
  shows "cat_payloads c1 = cat_payloads c" "cat_log c1 = cat_log c" "cat_loaded c1 = cat_loaded c"
    "cat_pending c1 = cat_pending c" "cat_boot c1 = cat_boot c" "cat_booted c1 = cat_booted c" "cat_updater c1 = cat_updater c"
  using assms by (auto simp: ensure_payload_def split: prod.splits)

section \<open>The resident set\<close>

text \<open>
  \<open>source\<close> reads the path a plugin was loaded from: the loader loads nothing but the paths it is
  given.
\<close>

definition loads_only :: "('w \<Rightarrow> string) \<Rightarrow> (string list \<Rightarrow> 'w load_report) \<Rightarrow> bool" where
  "loads_only source load \<longleftrightarrow> (\<forall>paths. \<forall>w \<in> set (lr_plugins (load paths)). source w \<in> set paths)"

definition resident_set ::
  "('w, 'p, 's, 'd, 'e, 'u) catalog_lib \<Rightarrow> ('w \<Rightarrow> string) \<Rightarrow> string \<Rightarrow> string option \<Rightarrow> 'w list \<Rightarrow> bool" where
  "resident_set CA source root loaded ws \<longleftrightarrow> (case loaded of
       None \<Rightarrow> ws = []
     | Some ident \<Rightarrow> (\<exists>g :: generation. gen_id g = ident \<and> length (filter (h_playback (ca_host CA)) ws) = length (gen_artifacts g)
         \<and> (\<forall>w \<in> set ws. source w \<in> set (libraries (ca_payload CA) (payload_dir root ident) (gen_artifacts g)))))"

definition resident ::
  "('w, 'p, 's, 'd, 'e, 'u) catalog_lib \<Rightarrow> ('w \<Rightarrow> string) \<Rightarrow> string \<Rightarrow> 'e catalog \<times> ('w, 's, 'd) backend \<Rightarrow> bool" where
  "resident CA source root s \<longleftrightarrow> cat_payloads (fst s) = root
     \<and> resident_set CA source root (cat_loaded (fst s)) (be_plugins (snd s))"

lemma resident_pair [simp]: "resident CA source root (c, be) \<longleftrightarrow>
   cat_payloads c = root \<and> resident_set CA source root (cat_loaded c) (be_plugins be)"
  by (simp add: resident_def)

lemma resident_nothing [simp]: "resident_set CA source root None ws \<longleftrightarrow> ws = []"
  by (simp add: resident_set_def)

lemma swap_plugins_be: "swap_plugins H load paths be = (be1, r) \<Longrightarrow>
   be_plugins be1 = lr_plugins (load paths) \<and> be_session be1 = None
   \<and> sw_loaded r = length (filter (h_playback H) (be_plugins be1))"
  by (auto simp: swap_plugins_def Let_def)

lemma swap_nothing: "loads_only source load \<Longrightarrow> be_plugins (fst (swap_plugins H load [] be)) = []"
proof -
  assume "loads_only source load"
  then have "\<forall>w \<in> set (lr_plugins (load [])). source w \<in> set []" unfolding loads_only_def by blast
  then show ?thesis by (simp add: swap_plugins_def Let_def flip: set_empty)
qed

lemma swap_resident:
  fixes g :: generation
  assumes sw: "swap_plugins (ca_host CA) load libs be = (be1, r)" and load: "loads_only source load"
    and libs: "libs = libraries (ca_payload CA) (payload_dir root (gen_id g)) (gen_artifacts g)"
    and ok: "accepted r (length (gen_artifacts g))"
  shows "resident_set CA source root (Some (gen_id g)) (be_plugins be1)"
  using swap_plugins_be [OF sw] load ok libs unfolding resident_set_def option.case
  by (intro exI [where x = g]) (auto simp: accepted_def loads_only_def)

lemma reload_resident:
  assumes r: "reload CA E prior (c, be) = ((c1, be1), ok)" and load: "loads_only source (ce_load E 1)"
  shows "cat_payloads c1 = cat_payloads c \<and> cat_loaded c1 = cat_loaded c
    \<and> (ok \<longrightarrow> resident_set CA source (cat_payloads c) (Some prior) (be_plugins be1))"
proof (cases "find_generation E prior c")
  case None
  with r show ?thesis by (auto simp: reload_def)
next
  case (Some g)
  then have id: "gen_id g = prior" by (auto simp: find_generation_def find_Some_iff split: sum.splits)
  obtain c2 res where ens: "ensure_payload CA (ce_extract E 1) g c = (c2, res)" by fastforce
  show ?thesis
  proof (cases res)
    case (Inl err)
    with r Some ens ensure_payload_keeps [OF ens] show ?thesis by (auto simp: reload_def)
  next
    case (Inr libs)
    obtain be2 rep where sw: "swap_plugins (ca_host CA) (ce_load E 1) libs be = (be2, rep)" by fastforce
    from r Some ens Inr sw have eq: "c1 = c2" "be1 = be2" "ok = accepted rep (length (gen_artifacts g))"
      by (auto simp: reload_def)
    from ensure_payload_sel [OF ens] Inr id
    have libs: "libs = libraries (ca_payload CA) (payload_dir (cat_payloads c) (gen_id g)) (gen_artifacts g)" by auto
    from swap_resident [OF sw load libs] ensure_payload_keeps [OF ens] show ?thesis by (auto simp: eq id)
  qed
qed

lemma recover_resident:
  assumes load: "\<And>k. loads_only source (ce_load E k)" and root: "cat_payloads c = root"
  shows "resident CA source root (recover CA E refused (c, be))"
proof (cases "cat_loaded c")
  case None
  then show ?thesis by (simp add: recover_def root swap_nothing [OF load])
next
  case (Some prior)
  obtain c1 be1 ok where r: "reload CA E prior (let_threads E 4 c, be) = ((c1, be1), ok)" by (metis surj_pair)
  from reload_resident [OF r load] Some r root show ?thesis
    by (cases ok) (simp_all add: recover_def swap_nothing [OF load])
qed

lemma activate_resident:
  assumes load: "\<And>k. loads_only source (ce_load E k)" and res: "resident CA source root (c, be)"
  shows "resident CA source root (activate CA E (c, be))"
proof (cases "cat_pending c")
  case None
  with res show ?thesis by (simp add: activate_def)
next
  case (Some g)
  let ?c = "(let_threads E 3 c)\<lparr>cat_pending := None\<rparr>"
  from res have root: "cat_payloads c = root" by simp
  show ?thesis
  proof (cases "cat_loaded c = Some (gen_id g)")
    case True
    with Some res show ?thesis by (simp add: activate_def)
  next
    case False
    obtain c1 rs where ens: "ensure_payload CA (ce_extract E 0) g ?c = (c1, rs)" by fastforce
    from ensure_payload_keeps [OF ens] root have c1: "cat_payloads c1 = root" "cat_loaded c1 = cat_loaded c" by simp_all
    show ?thesis
    proof (cases rs)
      case (Inl err)
      have "activate CA E (c, be) = recover CA E (gen_id g)
          (on_log (log_extract_failed (ca_log CA) (ce_log E 0) (gen_id g) (pl_text (ca_payload CA) err)) c1, be)"
        using Some False ens Inl by (simp add: activate_def)
      then show ?thesis using c1 by (simp only:) (rule recover_resident [OF load], simp)
    next
      case (Inr libs)
      obtain be1 rep where sw: "swap_plugins (ca_host CA) (ce_load E 0) libs be = (be1, rep)" by fastforce
      from ensure_payload_sel [OF ens] Inr root
      have libs: "libs = libraries (ca_payload CA) (payload_dir root (gen_id g)) (gen_artifacts g)" by auto
      show ?thesis
      proof (cases "accepted rep (length (gen_artifacts g))")
        case True
        with swap_resident [OF sw load libs] Some False ens Inr sw c1 show ?thesis by (simp add: activate_def)
      next
        case refused: False
        have "activate CA E (c, be) = recover CA E (gen_id g)
            (on_log (log_probe_failed (ca_log CA) (ce_log E 0) (gen_id g)
              (describe_report rep (length (gen_artifacts g)))) c1, be1)"
          using Some False ens Inr sw refused by (simp add: activate_def)
        then show ?thesis using c1 by (simp only:) (rule recover_resident [OF load], simp)
      qed
    qed
  qed
qed

text \<open>Events whose loads load what they are given, and that leave the decoder set to the catalog.\<close>

definition worker_event_ok :: "('w \<Rightarrow> string) \<Rightarrow> ('w, 'd, 'e) worker_event \<Rightarrow> bool" where
  "worker_event_ok source ev \<longleftrightarrow> (case ev of
       CatalogTick E \<Rightarrow> \<forall>k. loads_only source (ce_load E k)
     | CatalogMount E m path subsong \<Rightarrow> \<forall>k. loads_only source (ce_load E k)
     | CatalogCheck E \<Rightarrow> True
     | Backend (SwapTo load paths) \<Rightarrow> False
     | Backend pe \<Rightarrow> True)"

lemma exec_player_plugins: "(\<And>load paths. pe \<noteq> SwapTo load paths) \<Longrightarrow> be_plugins (exec_player H be pe) = be_plugins be"
  by (cases pe) (auto simp: exec_player_def mount_def close_def toggle_pause_def render_def seek_def capture_def Let_def
    split: option.splits sum.splits playback_status.splits prod.splits)

lemma mount_plugins [simp]: "be_plugins (fst (mount H m f path subsong be)) = be_plugins be"
  using exec_player_plugins [of "MountSong m f path subsong" H be] by (simp add: exec_player_def)

lemma exec_worker_resident:
  assumes ok: "worker_event_ok source ev" and res: "resident CA source root (c, be)"
  shows "resident CA source root (exec_worker CA (c, be) ev)"
proof (cases ev)
  case (CatalogTick E)
  with ok have load: "\<And>k. loads_only source (ce_load E k)" by (simp add: worker_event_ok_def)
  from res have "resident CA source root (take_completed CA E c, be)" by simp
  from activate_resident [OF load this] this CatalogTick show ?thesis by (simp add: exec_worker_def catalog_tick_def Let_def)
next
  case (CatalogMount E m path subsong)
  with ok have load: "\<And>k. loads_only source (ce_load E k)" by (simp add: worker_event_ok_def)
  let ?c = "boot_once E c"
  from res have closed: "resident CA source root (?c, close be)" and same: "resident CA source root (?c, be)"
    by (simp_all add: close_def)
  obtain c1 be1 where s1: "(if cat_pending ?c \<noteq> None then activate CA E (?c, close be) else (?c, be)) = (c1, be1)" by fastforce
  with activate_resident [OF load closed] same have res1: "resident CA source root (c1, be1)" by (auto split: if_splits)
  have "fst (catalog_mount CA E m path subsong (c, be)) = (c1, fst (mount (ca_host CA) m (up_fs (cat_updater c1)) path subsong be1))"
    unfolding catalog_mount_def Let_def prod.case s1 by (simp split: prod.split)
  moreover have "resident CA source root (c1, fst (mount (ca_host CA) m (up_fs (cat_updater c1)) path subsong be1))"
    using res1 by simp
  ultimately show ?thesis by (simp add: exec_worker_def CatalogMount)
next
  case (CatalogCheck E)
  with res show ?thesis by (simp add: exec_worker_def catalog_check_now_def Let_def)
next
  case (Backend pe)
  with ok have "\<And>load paths. pe \<noteq> SwapTo load paths" by (auto simp: worker_event_ok_def)
  from exec_player_plugins [OF this, of "ca_host CA" be] res Backend show ?thesis by (simp add: exec_worker_def)
qed

lemma worker_run_resident:
  "resident CA source root s \<Longrightarrow> list_all (worker_event_ok source) evs \<Longrightarrow>
   resident CA source root (foldl (exec_worker CA) s evs)"
proof (induction evs arbitrary: s)
  case (Cons ev evs)
  then show ?case using exec_worker_resident [of source ev CA root "fst s" "snd s"] by simp
qed simp

lemma catalog_new_starts: "catalog_new CA l il net now rd conf e f ts = Inr c \<Longrightarrow>
   cat_loaded c = None \<and> cat_pending c = None \<and> cat_boot c = [] \<and> \<not> cat_booted c
   \<and> cat_payloads c = path_join (cc_root conf) ''payloads'' \<and> cat_trees c = ts
   \<and> cat_log c = log_load (ca_log CA) (path_join (cc_root conf) ''activation.json'') rd f"
  by (auto simp: catalog_new_def split: sum.splits)


section \<open>The boundary\<close>

definition ends_song :: "('w, 'd, 'e) worker_event \<Rightarrow> bool" where
  "ends_song ev \<longleftrightarrow> (case ev of CatalogMount E m path subsong \<Rightarrow> True
     | Backend (SwapTo load paths) \<Rightarrow> True | Backend (MountSong m f path subsong) \<Rightarrow> True | Backend CloseSong \<Rightarrow> True
     | _ \<Rightarrow> False)"

lemma tick_live: "is_live be \<Longrightarrow> snd (catalog_tick CA E (c, be)) = be"
  by (simp add: catalog_tick_def Let_def)

lemma exec_player_live: "is_live be \<Longrightarrow> \<not> ends_song (Backend pe :: ('w, 'd, 'e) worker_event) \<Longrightarrow>
   is_live (exec_player H be pe) \<and> be_plugins (exec_player H be pe) = be_plugins (be :: ('w, 's, 'd) backend)"
  by (cases pe) (auto simp: ends_song_def is_live_def exec_player_def toggle_pause_def render_def seek_def capture_def
    split: option.splits playback_status.splits sum.splits prod.splits)

lemma exec_worker_live:
  fixes ev :: "('w, 'd, 'e) worker_event"
  shows "is_live (snd s) \<Longrightarrow> \<not> ends_song ev \<Longrightarrow>
   is_live (snd (exec_worker CA s ev)) \<and> be_plugins (snd (exec_worker CA s ev)) = be_plugins (snd s)"
proof (cases ev)
  case (Backend pe)
  assume live: "is_live (snd s)" and stays: "\<not> ends_song ev"
  with Backend have "\<not> ends_song (Backend pe :: ('w, 'd, 'e) worker_event)" by simp
  from exec_player_live [OF live this, of "ca_host CA"] Backend show ?thesis by (simp add: exec_worker_def)
qed (use tick_live [of "snd s" CA _ "fst s"] in \<open>auto simp: exec_worker_def ends_song_def\<close>)

lemma worker_run_live:
  "is_live (snd s) \<Longrightarrow> list_all (\<lambda>ev. \<not> ends_song ev) evs \<Longrightarrow>
   is_live (snd (foldl (exec_worker CA) s evs)) \<and> be_plugins (snd (foldl (exec_worker CA) s evs)) = be_plugins (snd s)"
proof (induction evs arbitrary: s)
  case (Cons ev evs)
  then show ?case using exec_worker_live [of s ev CA] by simp
qed simp

text \<open>
  C23: A mounted song keeps the decoder set it was mounted on until it is closed or another is
  mounted, whatever the catalog completes, checks or ticks meanwhile.
\<close>

theorem live_song_keeps_its_set:
  assumes "is_live be" "list_all (\<lambda>ev. \<not> ends_song ev) evs"
  shows "is_live (snd (foldl (exec_worker CA) (c, be) evs))
    \<and> be_plugins (snd (foldl (exec_worker CA) (c, be) evs)) = be_plugins be"
  using worker_run_live [of "(c, be)" evs CA] assms by simp

section \<open>Booting\<close>

text \<open>The generations a booting catalog still has to try, in order.\<close>

definition candidates :: "'e catalog \<Rightarrow> generation list" where
  "candidates c = (case cat_pending c of None \<Rightarrow> [] | Some g \<Rightarrow> g # rev (cat_boot c))"

text \<open>Ticks during which the updater reports nothing completed.\<close>

fun quiet ::
  "('w, 'p, 's, 'd, 'e, 'u) catalog_lib \<Rightarrow> ('w, 'e) catalog_env list \<Rightarrow> 'e catalog \<times> ('w, 's, 'd) backend \<Rightarrow> bool" where
  "quiet CA [] s = True"
| "quiet CA (E # es) s = (fst (up_next_completed (cat_updater (drive_updater CA E (boot_once E (fst s))))) = None
     \<and> quiet CA es (catalog_tick CA E s))"

definition ticks ::
  "('w, 'p, 's, 'd, 'e, 'u) catalog_lib \<Rightarrow> ('w, 'e) catalog_env list \<Rightarrow> 'e catalog \<times> ('w, 's, 'd) backend
     \<Rightarrow> 'e catalog \<times> ('w, 's, 'd) backend" where
  "ticks CA es s = foldl (\<lambda>s E. catalog_tick CA E s) s es"

text \<open>What the record says of an attempt: whether it activated, and what.\<close>

definition attempt_of :: "catalog_event \<Rightarrow> bool \<times> string" where
  "attempt_of e = (ev_what e = Activated, ev_generation e)"

lemma history_push: "length (log_history l) < HISTORY_CAP \<Longrightarrow>
   log_history (fst (log_push LL x what ident detail (l, f))) =
     log_history l @ [\<lparr>ev_what = what, ev_generation = ident, ev_detail = detail, ev_at = fst x\<rparr>]"
  by (simp add: log_push_def log_history_def Let_def)

lemma history_activated: "length (log_history l) < HISTORY_CAP \<Longrightarrow>
   map attempt_of (log_history (fst (log_activated LL x ident (l, f)))) = map attempt_of (log_history l) @ [(True, ident)]"
  using history_push [of "l\<lparr>al_record := r\<rparr>" LL x Activated ident None f for r]
  by (simp add: log_activated_def Let_def log_history_def attempt_of_def)

lemma history_refused: "length (log_history l) < HISTORY_CAP \<Longrightarrow>
   map attempt_of (log_history (fst (log_probe_failed LL x ident d (l, f)))) = map attempt_of (log_history l) @ [(False, ident)]"
  "length (log_history l) < HISTORY_CAP \<Longrightarrow>
   map attempt_of (log_history (fst (log_extract_failed LL x ident d (l, f)))) = map attempt_of (log_history l) @ [(False, ident)]"
  by (simp_all add: log_probe_failed_def log_extract_failed_def history_push attempt_of_def)

lemma pop_candidates: "candidates (pop_boot c) = rev (cat_boot c)"
  by (cases "cat_boot c" rule: rev_cases) (simp_all add: candidates_def pop_boot_def)

lemma swap_off [simp]: "\<not> is_live (fst (swap_plugins H load paths be))"
  by (simp add: is_live_def swap_plugins_def Let_def)

text \<open>One tick of a booting catalog: its first candidate activates, or it is gone and the rest wait.\<close>

lemma tried_tick:
  assumes loaded: "cat_loaded c = None" and idle: "\<not> is_live be" and pend: "cat_pending (take_completed CA E c) = Some g"
    and room: "length (history c) < HISTORY_CAP"
    and tick: "catalog_tick CA E (c, be) = (c', be')"
  shows "cat_booted c' \<and> \<not> is_live be' \<and>
    (cat_loaded c' = Some (gen_id g) \<and> candidates c' = [] \<and> cat_boot c' = []
       \<and> map attempt_of (history c') = map attempt_of (history c) @ [(True, gen_id g)]
     \<or> cat_loaded c' = None \<and> candidates c' = rev (cat_boot (boot_once E c))
       \<and> map attempt_of (history c') = map attempt_of (history c) @ [(False, gen_id g)])"
proof -
  let ?t = "take_completed CA E c"
  let ?c = "(let_threads E 3 ?t)\<lparr>cat_pending := None\<rparr>"
  from pend tick idle have act: "activate CA E (?t, be) = (c', be')" by (simp add: catalog_tick_def Let_def)
  obtain c1 r where ens: "ensure_payload CA (ce_extract E 0) g ?c = (c1, r)" by fastforce
  note kept = ensure_payload_keeps [OF ens]
  have room1: "length (log_history (cat_log c1)) < HISTORY_CAP" using room kept by (simp add: history_def)
  show ?thesis
  proof (cases r)
    case (Inl err)
    with act pend ens loaded have "c' = pop_boot (on_log (log_extract_failed (ca_log CA) (ce_log E 0) (gen_id g) (pl_text (ca_payload CA) err)) c1)"
      "be' = fst (swap_plugins (ca_host CA) (ce_load E 1) [] be)"
      using kept by (auto simp: activate_def recover_def)
    then show ?thesis using kept loaded room1
      by (auto simp: pop_candidates) (simp_all add: history_def history_refused)
  next
    case (Inr libs)
    obtain be1 rep where sw: "swap_plugins (ca_host CA) (ce_load E 0) libs be = (be1, rep)" by fastforce
    from swap_off [of "ca_host CA" "ce_load E 0" libs be] sw have off1: "\<not> is_live be1" by simp
    show ?thesis
    proof (cases "accepted rep (length (gen_artifacts g))")
      case True
      with act pend ens loaded Inr sw have "c' = clean_up E g ((on_log (log_activated (ca_log CA) (ce_log E 0) (gen_id g))
            (c1\<lparr>cat_loaded := Some (gen_id g)\<rparr>))\<lparr>cat_boot := []\<rparr>)" "be' = be1"
        by (auto simp: activate_def)
      then show ?thesis using kept room1 off1
        by (simp add: candidates_def history_def history_activated)
    next
      case False
      with act pend ens loaded Inr sw have "c' = pop_boot (on_log (log_probe_failed (ca_log CA) (ce_log E 0) (gen_id g)
            (describe_report rep (length (gen_artifacts g)))) c1)" "be' = fst (swap_plugins (ca_host CA) (ce_load E 1) [] be1)"
        using kept by (auto simp: activate_def recover_def)
      then show ?thesis using kept loaded room1
        by (auto simp: pop_candidates) (simp_all add: history_def history_refused)
    qed
  qed
qed

lemma quiet_pending:
  "fst (up_next_completed (cat_updater (drive_updater CA E (boot_once E c)))) = None \<Longrightarrow>
   cat_pending (take_completed CA E c) = cat_pending (boot_once E c)"
  by (cases "up_next_completed (cat_updater (drive_updater CA E (boot_once E c)))") (simp add: take_completed_def Let_def)

lemma boot_tick:
  assumes "cat_loaded c = None" "\<not> is_live be" and cand: "candidates (boot_once E c) = g # gs"
    and q: "fst (up_next_completed (cat_updater (drive_updater CA E (boot_once E c)))) = None"
    and "length (history c) < HISTORY_CAP" "catalog_tick CA E (c, be) = (c', be')"
  shows "cat_booted c' \<and> \<not> is_live be' \<and>
    (cat_loaded c' = Some (gen_id g) \<and> candidates c' = [] \<and> cat_boot c' = []
       \<and> map attempt_of (history c') = map attempt_of (history c) @ [(True, gen_id g)]
     \<or> cat_loaded c' = None \<and> candidates c' = gs
       \<and> map attempt_of (history c') = map attempt_of (history c) @ [(False, gen_id g)])"
proof -
  from cand have p: "cat_pending (boot_once E c) = Some g" "gs = rev (cat_boot (boot_once E c))"
    by (auto simp: candidates_def split: option.splits)
  with tried_tick [OF assms(1,2) _ assms(5,6), of g] quiet_pending [OF q] show ?thesis by simp
qed

text \<open>
  A generation the updater completes while the catalog still works through what it found at boot takes
  the place of the next candidate: refused in its turn, it leaves that candidate untried.
\<close>

theorem completion_skips_candidate:
  assumes boot: "cat_booted c" "candidates c = skipped # rest"
    and state: "cat_loaded c = None" "\<not> is_live be" "length (history c) < HISTORY_CAP"
    and completed: "up_next_completed (cat_updater (drive_updater CA E c)) = (Some g, u)"
    and tick: "catalog_tick CA E (c, be) = (c', be')" and refused: "active_generation c' = None"
  shows "candidates c' = rest
    \<and> map attempt_of (history c') = map attempt_of (history c) @ [(False, gen_id g)]"
proof -
  have "cat_pending (take_completed CA E c) = Some g" using completed boot by (simp add: take_completed_def Let_def)
  with tried_tick [OF state(1,2) _ state(3) tick, of g] boot refused show ?thesis
    by (auto simp: candidates_def active_generation_def split: option.splits)
qed

lemma ticks_Cons: "ticks CA (E # es) s = ticks CA es (catalog_tick CA E s)"
  by (simp add: ticks_def)

text \<open>Once nothing is waiting, quiet ticks change nothing that matters here.\<close>

lemma idle_tick:
  assumes "cat_booted c" "candidates c = []" "fst (up_next_completed (cat_updater (drive_updater CA E (boot_once E c)))) = None"
  shows "cat_booted (fst (catalog_tick CA E (c, be))) \<and> candidates (fst (catalog_tick CA E (c, be))) = []
    \<and> cat_loaded (fst (catalog_tick CA E (c, be))) = cat_loaded c \<and> history (fst (catalog_tick CA E (c, be))) = history c
    \<and> cat_boot (fst (catalog_tick CA E (c, be))) = cat_boot c"
  using assms
  by (cases "up_next_completed (cat_updater (drive_updater CA E c))")
    (auto simp: catalog_tick_def take_completed_def Let_def candidates_def history_def split: option.splits)

lemma idle_ticks:
  "cat_booted c \<Longrightarrow> candidates c = [] \<Longrightarrow> quiet CA es (c, be) \<Longrightarrow>
   (case ticks CA es (c, be) of (c', be') \<Rightarrow> candidates c' = [] \<and> cat_loaded c' = cat_loaded c
      \<and> history c' = history c \<and> cat_boot c' = cat_boot c)"
proof (induction es arbitrary: c be)
  case Nil
  then show ?case by (simp add: ticks_def)
next
  case (Cons E es)
  obtain c1 be1 where t: "catalog_tick CA E (c, be) = (c1, be1)" by fastforce
  from idle_tick [OF Cons.prems(1,2), of CA E be] Cons.prems(3) t
  have "cat_booted c1" "candidates c1 = []" "cat_loaded c1 = cat_loaded c" "history c1 = history c" "cat_boot c1 = cat_boot c"
    by auto
  with Cons.IH [of c1 be1] Cons.prems(3) t show ?case by (simp add: ticks_Cons split: prod.splits)
qed

lemma boot_run:
  assumes "cat_loaded c = None" "\<not> is_live be" "es \<noteq> [] \<Longrightarrow> candidates (boot_once (hd es) c) = gs"
    and "quiet CA es (c, be)" "length (history c) + length gs \<le> HISTORY_CAP" "length gs \<le> length es" "es \<noteq> []"
    and "ticks CA es (c, be) = (c', be')"
  shows "\<exists>k \<le> length gs.
    map attempt_of (history c') = map attempt_of (history c) @ map (\<lambda>g. (False, gen_id g)) (take k gs)
       @ (if k < length gs then [(True, gen_id (gs ! k))] else [])
    \<and> cat_loaded c' = (if k < length gs then Some (gen_id (gs ! k)) else None) \<and> candidates c' = []"
  using assms
proof (induction es arbitrary: c be gs)
  case (Cons E es)
  from Cons.prems have cand: "candidates (boot_once E c) = gs" by simp
  from Cons.prems(4) have q: "fst (up_next_completed (cat_updater (drive_updater CA E (boot_once E c)))) = None"
    and rest: "quiet CA es (catalog_tick CA E (c, be))" by simp_all
  obtain c1 be1 where t: "catalog_tick CA E (c, be) = (c1, be1)" by fastforce
  have end': "ticks CA es (c1, be1) = (c', be')" using Cons.prems(8) t by (simp add: ticks_Cons)
  show ?case
  proof (cases gs)
    case Nil
    have "catalog_tick CA E (boot_once E c, be) = (c1, be1)"
      using t by (simp add: catalog_tick_def take_completed_def)
    with idle_tick [of "boot_once E c" CA E be] cand Nil q
    have c1: "cat_booted c1" "candidates c1 = []" "cat_loaded c1 = None" "history c1 = history c"
      using Cons.prems(1) by (auto simp: history_def)
    from idle_ticks [OF c1(1,2), of CA es be1] rest t end' c1 Nil show ?thesis by simp
  next
    case (Cons g gs')
    from Cons.prems(5) Cons have room: "length (history c) < HISTORY_CAP" by simp
    from boot_tick [OF Cons.prems(1,2) cand [unfolded Cons] q room t]
    have c1: "cat_booted c1" "\<not> is_live be1" and
      "cat_loaded c1 = Some (gen_id g) \<and> candidates c1 = [] \<and> map attempt_of (history c1) = map attempt_of (history c) @ [(True, gen_id g)]
       \<or> cat_loaded c1 = None \<and> candidates c1 = gs' \<and> map attempt_of (history c1) = map attempt_of (history c) @ [(False, gen_id g)]"
      by auto
    then consider (on) "cat_loaded c1 = Some (gen_id g)" "candidates c1 = []"
        "map attempt_of (history c1) = map attempt_of (history c) @ [(True, gen_id g)]"
      | (off) "cat_loaded c1 = None" "candidates c1 = gs'"
        "map attempt_of (history c1) = map attempt_of (history c) @ [(False, gen_id g)]" by metis
    then show ?thesis
    proof cases
      case on
      with idle_ticks [OF c1(1) on(2), of CA es be1] rest t end' Cons show ?thesis by (intro exI [of _ 0]) simp
    next
      case off
      have len: "length (history c1) = Suc (length (history c))" using arg_cong [OF off(3), of length] by simp
      show ?thesis
      proof (cases "es = []")
        case True
        with Cons.prems(6) Cons have "gs' = []" by simp
        with off end' True Cons show ?thesis by (intro exI [of _ 1]) (simp add: ticks_def)
      next
        case False
        have "candidates (boot_once (hd es) c1) = gs'" using c1(1) off(2) by simp
        from Cons.IH [OF off(1) c1(2) this, of] rest t len Cons.prems(5,6) Cons False end'
        obtain k where k: "k \<le> length gs'" "map attempt_of (history c') = map attempt_of (history c1) @ map (\<lambda>g. (False, gen_id g)) (take k gs')
             @ (if k < length gs' then [(True, gen_id (gs' ! k))] else [])"
          "cat_loaded c' = (if k < length gs' then Some (gen_id (gs' ! k)) else None)" "candidates c' = []" by auto
        with off Cons show ?thesis by (intro exI [of _ "Suc k"]) simp
      qed
    qed
  qed
qed simp

text \<open>What a booting catalog finds installed.\<close>

definition found_generations :: "('w, 'e) catalog_env \<Rightarrow> 'e catalog \<Rightarrow> generation list" where
  "found_generations E c = (case up_generations (fst (ce_boot E)) (snd (ce_boot E)) (ce_threads E 0 (cat_updater c)) of
     Inl _ \<Rightarrow> [] | Inr gs \<Rightarrow> gs)"

definition newest_first :: "('w, 'e) catalog_env \<Rightarrow> generation list \<Rightarrow> bool" where
  "newest_first E gs \<longleftrightarrow> sorted (map (\<lambda>g. ce_mtime E (gen_dir g)) (rev gs))"

lemma mset_remove_at: "k < length xs \<Longrightarrow> add_mset (xs ! k) (mset (remove_at k xs)) = mset xs"
proof -
  assume "k < length xs"
  then have "mset xs = mset (take k xs @ xs ! k # drop (Suc k) xs)" by (simp add: id_take_nth_drop [symmetric])
  then show ?thesis by (simp add: remove_at_def)
qed

lemma mset_move_to_end [simp]: "mset (move_to_end ident gs) = mset gs"
  by (cases "position (\<lambda>g. gen_id g = ident) gs") (simp_all add: move_to_end_def mset_remove_at position_lt)

lemma sorted_remove_at: "sorted xs \<Longrightarrow> sorted (remove_at k xs)"
proof -
  assume s: "sorted xs"
  then have "sorted (take k xs @ drop k xs)" by simp
  then have "\<forall>x \<in> set (take k xs). \<forall>y \<in> set (drop k xs). x \<le> y" unfolding sorted_append by blast
  moreover have "set (drop (Suc k) xs) \<subseteq> set (drop k xs)" by (rule set_drop_subset_set_drop) simp
  ultimately show ?thesis using s by (auto simp: remove_at_def sorted_append sorted_wrt_take sorted_wrt_drop)
qed

lemma boot_candidates:
  assumes "\<not> cat_booted c"
  shows "mset (candidates (boot_once E c)) = mset (found_generations E c)
    \<and> (case log_active (cat_log c) of
         Some ident \<Rightarrow>
           if ident \<in> gen_id ` set (found_generations E c)
           then (\<exists>g gs. candidates (boot_once E c) = g # gs \<and> gen_id g = ident \<and> newest_first E gs)
           else newest_first E (candidates (boot_once E c))
       | None \<Rightarrow> newest_first E (candidates (boot_once E c)))"
proof -
  define sorted' where "sorted' = sort_key (\<lambda>g. ce_mtime E (gen_dir g)) (found_generations E c)"
  have srt: "sorted (map (\<lambda>g. ce_mtime E (gen_dir g)) sorted')" and ms: "mset sorted' = mset (found_generations E c)"
    by (simp_all add: sorted'_def)
  have st: "set sorted' = set (found_generations E c)" using ms by (rule mset_eq_setD)
  have cand: "candidates (boot_once E c) = rev (case log_active (cat_log c) of None \<Rightarrow> sorted' | Some ident \<Rightarrow> move_to_end ident sorted')"
    using assms by (simp add: boot_once_def Let_def pop_candidates found_generations_def sorted'_def let_threads_def split: option.split sum.split)
  show ?thesis
  proof (cases "log_active (cat_log c)")
    case None
    then show ?thesis by (simp add: cand ms srt newest_first_def)
  next
    case (Some ident)
    show ?thesis
    proof (cases "position (\<lambda>g. gen_id g = ident) sorted'")
      case None
      then have "ident \<notin> gen_id ` set (found_generations E c)" by (auto simp: position_None st)
      with Some None show ?thesis by (simp add: cand ms srt newest_first_def move_to_end_def)
    next
      case at: (Some k)
      from position_SomeD [OF at] have k: "k < length sorted'" "gen_id (sorted' ! k) = ident" by simp_all
      then have "ident \<in> gen_id ` set (found_generations E c)" by (metis st image_eqI nth_mem)
      with Some at k show ?thesis by (simp add: cand ms newest_first_def move_to_end_def map_remove_at sorted_remove_at srt mset_remove_at)
    qed
  qed
qed

text \<open>
  C24: Booting tries every installed generation, the recorded active one first and the others newest
  first: after as many ticks as there are generations, if the updater completes none meanwhile, some
  prefix of them is on record as refused, the next one as activated and active, and nothing is left
  waiting; when all are refused none is active.
\<close>

theorem boot_falls_back_in_order:
  assumes fresh: "\<not> cat_booted c" "cat_loaded c = None" "\<not> is_live be"
    and q: "quiet CA (E # es) (c, be)"
    and room: "length (history c) + length (found_generations E c) \<le> HISTORY_CAP"
    and enough: "length (found_generations E c) \<le> Suc (length es)"
  shows "\<exists>gs. mset gs = mset (found_generations E c)
    \<and> (case log_active (cat_log c) of
         Some ident \<Rightarrow>
           if ident \<in> gen_id ` set gs then gs \<noteq> [] \<and> gen_id (hd gs) = ident \<and> newest_first E (tl gs)
           else newest_first E gs
       | None \<Rightarrow> newest_first E gs)
    \<and> (\<exists>k \<le> length gs. let c' = fst (ticks CA (E # es) (c, be)) in
         map attempt_of (history c') = map attempt_of (history c) @ map (\<lambda>g. (False, gen_id g)) (take k gs)
           @ (if k < length gs then [(True, gen_id (gs ! k))] else [])
         \<and> active_generation c' = (if k < length gs then Some (gen_id (gs ! k)) else None)
         \<and> pending_generation c' = None)"
proof -
  let ?gs = "candidates (boot_once E c)"
  note order = boot_candidates [OF fresh(1), of E]
  then have len: "length ?gs = length (found_generations E c)" and st: "set ?gs = set (found_generations E c)"
    by (metis size_mset, metis mset_eq_setD)
  obtain c' be' where run: "ticks CA (E # es) (c, be) = (c', be')" by fastforce
  from boot_run [OF fresh(2,3) _ q, of ?gs, OF _ _ _ _ run] room enough len
  obtain k where k: "k \<le> length ?gs"
    "map attempt_of (history c') = map attempt_of (history c) @ map (\<lambda>g. (False, gen_id g)) (take k ?gs)
       @ (if k < length ?gs then [(True, gen_id (?gs ! k))] else [])"
    "cat_loaded c' = (if k < length ?gs then Some (gen_id (?gs ! k)) else None)" "candidates c' = []"
    by auto
  from k(4) have "cat_pending c' = None" by (simp add: candidates_def split: option.splits)
  with k(3) have after: "active_generation c' = (if k < length ?gs then Some (gen_id (?gs ! k)) else None)" "pending_generation c' = None"
    by (simp_all add: active_generation_def pending_generation_def)
  show ?thesis
  proof (intro exI [of _ ?gs] conjI)
    show "mset ?gs = mset (found_generations E c)" using order by blast
    show "case log_active (cat_log c) of
         Some ident \<Rightarrow>
           if ident \<in> gen_id ` set ?gs then ?gs \<noteq> [] \<and> gen_id (hd ?gs) = ident \<and> newest_first E (tl ?gs)
           else newest_first E ?gs
       | None \<Rightarrow> newest_first E ?gs"
      using order by (auto simp: st split: option.splits if_splits)
    show "\<exists>k \<le> length ?gs. let c' = fst (ticks CA (E # es) (c, be)) in
         map attempt_of (history c') = map attempt_of (history c) @ map (\<lambda>g. (False, gen_id g)) (take k ?gs)
           @ (if k < length ?gs then [(True, gen_id (?gs ! k))] else [])
         \<and> active_generation c' = (if k < length ?gs then Some (gen_id (?gs ! k)) else None)
         \<and> pending_generation c' = None"
      using k(1,2) after by (auto simp: run Let_def)
  qed
qed

end
