(* ===== verification/Catalog_Runs.thy ===== *)
theory Catalog_Runs
  imports Catalog_Props
begin

text \<open>
  A concrete catalog over two installed generations, the runs that witness the catalog's properties, and
  what an activation keeps on disk.
\<close>

section \<open>What an activation keeps\<close>

text \<open>
  The other threads neither reconfigure the updater nor touch the generation; the record and the
  cache lie apart from it; and its name is none a staging directory has.
\<close>

definition threads_spare :: "('w, 'e) catalog_env \<Rightarrow> string \<Rightarrow> string \<Rightarrow> bool" where
  "threads_spare E root i \<longleftrightarrow> (\<forall>k u. settings (ce_threads E k u) = settings u \<and> intact root (up_fs u) (up_fs (ce_threads E k u)) i)"

definition of_generation :: "string \<Rightarrow> string \<Rightarrow> string \<Rightarrow> bool" where
  "of_generation root i p \<longleftrightarrow> p = generation_record root i \<or> beneath (dir_of root i) p"

definition kept_apart :: "string \<Rightarrow> 'e catalog \<Rightarrow> string \<Rightarrow> bool" where
  "kept_apart root c i \<longleftrightarrow> \<not> of_generation root i (al_path (cat_log c)) \<and> \<not> of_generation root i (log_staging (cat_log c))
     \<and> (\<forall>p. of_generation root i p \<longrightarrow> \<not> cache_file (up_cache (cat_updater c)) p)"

lemma intact_iff: "intact root f f' i \<longleftrightarrow> (\<forall>p. of_generation root i p \<longrightarrow> f' p = f p)"
  by (auto simp: intact_def of_generation_def)

lemma settings_applier: "settings u' = settings u \<Longrightarrow> up_applier u' = up_applier u \<and> up_cache u' = up_cache u"
  by (simp add: settings_def)

lemma intact_chain: "intact root f f' i \<Longrightarrow> intact root f' f'' i \<Longrightarrow> intact root f f'' i"
  by (simp add: intact_iff)

lemma push_log: "al_path (fst (log_push LL x what i d (l, f))) = al_path l
   \<and> log_staging (fst (log_push LL x what i d (l, f))) = log_staging l
   \<and> (\<forall>p. p \<noteq> al_path l \<and> p \<noteq> log_staging l \<longrightarrow> snd (log_push LL x what i d (l, f)) p = f p)"
  by (auto simp: log_push_def log_persist_def log_staging_def Let_def write_file_def split: prod.split option.split landing.split)

lemma log_of_record [simp]: "log_staging (l\<lparr>al_record := r\<rparr>) = log_staging l"
  by (simp add: log_staging_def)

lemma push_pins: "log_previous (fst (log_push LL x what i d (l, f))) = log_previous l"
  "log_active (fst (log_push LL x what i d (l, f))) = log_active l"
  by (simp_all add: log_push_def Let_def log_previous_def log_active_def)

lemma activated_log: "al_path (fst (log_activated LL x i (l, f))) = al_path l
   \<and> log_staging (fst (log_activated LL x i (l, f))) = log_staging l
   \<and> (\<forall>p. p \<noteq> al_path l \<and> p \<noteq> log_staging l \<longrightarrow> snd (log_activated LL x i (l, f)) p = f p)
   \<and> log_previous (fst (log_activated LL x i (l, f))) = (if log_active l = Some i then log_previous l else log_active l)"
proof -
  define r where "r = (if rf_active (al_record l) \<noteq> Some i then (al_record l)\<lparr>rf_previous := rf_active (al_record l)\<rparr>
    else al_record l)\<lparr>rf_active := Some i\<rparr>"
  have act: "log_activated LL x i (l, f) = log_push LL x Activated i None (l\<lparr>al_record := r\<rparr>, f)"
    by (simp add: log_activated_def r_def Let_def)
  have "log_previous (l\<lparr>al_record := r\<rparr>) = (if log_active l = Some i then log_previous l else log_active l)"
    by (simp add: r_def log_previous_def log_active_def)
  with push_log [of LL x Activated i None "l\<lparr>al_record := r\<rparr>" f] show ?thesis
    unfolding act push_pins by simp
qed

lemma evict_artifacts_intact:
  assumes "threads_spare E root i" "\<And>p. of_generation root i p \<Longrightarrow> \<not> cache_file (up_cache (cat_updater c)) p"
  shows "intact root (up_fs (cat_updater c)) (up_fs (cat_updater (evict_artifacts E k as c))) i"
  using assms(2)
proof (induction as arbitrary: k c)
  case Nil
  then show ?case by (simp add: intact_refl)
next
  case (Cons a as)
  let ?u = "ce_threads E (6 + k) (cat_updater c)"
  let ?u1 = "snd (evict_cached (ce_evict E k) (inst_sha256 a) ?u)"
  have th: "intact root (up_fs (cat_updater c)) (up_fs ?u) i" "up_cache ?u = up_cache (cat_updater c)"
    using assms(1) by (auto simp: threads_spare_def dest: settings_applier)
  have ev: "intact root (up_fs ?u) (up_fs ?u1) i"
    using Cons.prems evict_outside [of "up_cache ?u" "up_fs ?u"]
    by (auto simp: evict_cached_def intact_iff same_outside_def up_fs_def set_fs_def th(2) split: sum.split)
  have cache: "up_cache ?u1 = up_cache (cat_updater c)"
    by (simp add: evict_cached_def set_fs_def th(2) split: sum.split)
  have "intact root (up_fs ?u1) (up_fs (cat_updater (evict_artifacts E (Suc k) as (c\<lparr>cat_updater := ?u1\<rparr>)))) i"
    using Cons.IH [of "c\<lparr>cat_updater := ?u1\<rparr>" "Suc k"] Cons.prems cache by simp
  with intact_chain [OF th(1) ev] show ?case
    by (simp add: Let_def let_threads_def) (erule (1) intact_chain)
qed

lemma clean_up_keeps:
  assumes th: "threads_spare E root i" and root: "ap_install (up_applier (cat_updater c)) = root"
    and cache: "\<And>p. of_generation root i p \<Longrightarrow> \<not> cache_file (up_cache (cat_updater c)) p"
    and names: "\<And>is. ids root (fst (ce_retain E)) = Inr is \<Longrightarrow> list_all plain_name (fst (snd (ce_retain E)) is)"
    and plain: "plain_name i" and live: "i \<in> set (live_ids g c)"
  shows "intact root (up_fs (cat_updater c)) (up_fs (cat_updater (clean_up E g c))) i \<and> cat_trees (clean_up E g c) i = cat_trees c i"
proof -
  obtain ls order rms where r: "ce_retain E = (ls, order, rms)" by (metis surj_pair)
  let ?u = "ce_threads E 5 (cat_updater c)" and ?live = "live_ids g c"
  let ?u1 = "snd (up_retain ls order ?live rms ?u)"
  have same: "intact root (up_fs (cat_updater c)) (up_fs ?u) i" "up_applier ?u = up_applier (cat_updater c)"
    "up_cache ?u = up_cache (cat_updater c)"
    using th by (auto simp: threads_spare_def dest: settings_applier)
  obtain f' res where ret: "retain root ls order ?live (\<lambda>_. as_claims (up_apply ?u)) rms (up_fs ?u) = (f', res)" by fastforce
  then have u1: "up_fs ?u1 = f'" "up_cache ?u1 = up_cache (cat_updater c)"
    using root by (auto simp: up_retain_def same up_fs_def set_fs_def split: prod.split)
  have "intact root (up_fs ?u) f' i"
  proof (cases "ids root ls")
    case (Inl err)
    with ret show ?thesis by (auto simp: retain_def intact_refl)
  next
    case (Inr "is")
    with ret have "retain_loop root ?live (\<lambda>_. as_claims (up_apply ?u)) rms 0 (order is) [] (up_fs ?u) = (f', res)"
      by (simp add: retain_def)
    from retain_loop_keeps [OF this _ plain] names r Inr live show ?thesis by (simp add: is_kept_def)
  qed
  with same(1) u1(1) have "intact root (up_fs (cat_updater c)) (up_fs ?u1) i" by (simp add: intact_chain)
  moreover have "intact root (up_fs ?u1) (up_fs (cat_updater (clean_up E g c))) i"
    using evict_artifacts_intact [OF th, of "c\<lparr>cat_updater := ?u1, cat_trees := payload_retain (ce_payload E) ?live (cat_trees c)\<rparr>" 0 "gen_artifacts g"]
      cache u1(2)
    by (simp add: clean_up_def Let_def r let_threads_def live_ids_def)
  moreover have "cat_trees (clean_up E g c) i = cat_trees c i"
    using live by (auto simp: clean_up_def Let_def r live_ids_def payload_retain_def split: option.split)
  ultimately show ?thesis by (blast intro: intact_chain)
qed

lemma ensure_trees:
  assumes "ensure PL x root f g ts = (ts', Inr libs)" "i \<noteq> STAGING_PREFIX @ gen_id g"
  shows "(i \<noteq> gen_id g \<longrightarrow> ts' i = ts i) \<and> ts' (gen_id g) \<noteq> None"
  using assms by (auto simp: ensure_def extract_tree_def Let_def split: option.splits prod.splits if_splits)

lemma on_log_files [simp]: "up_fs (cat_updater (on_log h c)) = snd (h (cat_log c, up_fs (cat_updater c)))"
  "up_applier (cat_updater (on_log h c)) = up_applier (cat_updater c)"
  "up_cache (cat_updater (on_log h c)) = up_cache (cat_updater c)"
  by (simp_all add: on_log_def up_fs_def set_fs_def split: prod.split)

lemma recover_loaded: "recover CA E refused (c, be) = (c', be') \<Longrightarrow> cat_loaded c' = cat_loaded c \<or> cat_loaded c' = None"
proof (cases "cat_loaded c")
  case (Some prior)
  assume rec: "recover CA E refused (c, be) = (c', be')"
  obtain c1 be1 ok where r: "reload CA E prior (let_threads E 4 c, be) = ((c1, be1), ok)" by (metis surj_pair)
  have "cat_loaded c1 = cat_loaded c"
    using r by (auto simp: reload_def dest: ensure_payload_keeps split: option.splits prod.splits sum.splits)
  with rec r Some show ?thesis by (cases ok) (auto simp: recover_def)
qed (auto simp: recover_def)

text \<open>An activation that ends with the generation live went straight through.\<close>

lemma activate_through:
  assumes pend: "cat_pending c = Some g" and other: "cat_loaded c \<noteq> Some (gen_id g)"
    and act: "activate CA E (c, be) = (c', be')" and live: "cat_loaded c' = Some (gen_id g)"
  obtains c1 libs where "ensure_payload CA (ce_extract E 0) g ((let_threads E 3 c)\<lparr>cat_pending := None\<rparr>) = (c1, Inr libs)"
    "c' = clean_up E g ((on_log (log_activated (ca_log CA) (ce_log E 0) (gen_id g)) (c1\<lparr>cat_loaded := Some (gen_id g)\<rparr>))\<lparr>cat_boot := []\<rparr>)"
proof -
  obtain c1 r where ens: "ensure_payload CA (ce_extract E 0) g ((let_threads E 3 c)\<lparr>cat_pending := None\<rparr>) = (c1, r)" by fastforce
  note kept = ensure_payload_keeps [OF ens]
  show ?thesis
  proof (cases r)
    case (Inl err)
    with act pend other ens have "recover CA E (gen_id g)
        (on_log (log_extract_failed (ca_log CA) (ce_log E 0) (gen_id g) (pl_text (ca_payload CA) err)) c1, be) = (c', be')"
      by (simp add: activate_def)
    from recover_loaded [OF this] live other kept show ?thesis by auto
  next
    case (Inr libs)
    obtain be1 rep where sw: "swap_plugins (ca_host CA) (ce_load E 0) libs be = (be1, rep)" by fastforce
    show ?thesis
    proof (cases "accepted rep (length (gen_artifacts g))")
      case True
      with act pend other ens Inr sw that show ?thesis by (simp add: activate_def)
    next
      case False
      with act pend other ens Inr sw have "recover CA E (gen_id g) (on_log (log_probe_failed (ca_log CA) (ce_log E 0) (gen_id g)
          (describe_report rep (length (gen_artifacts g)))) c1, be1) = (c', be')"
        by (simp add: activate_def)
      from recover_loaded [OF this] live other kept show ?thesis by auto
    qed
  qed
qed

text \<open>
  C25: An activation keeps its way back: when a newer generation goes live over the recorded active
  one, both keep their install record and every installed file, the older one its payload tree and
  the newer one the tree it was loaded from.
\<close>

theorem activation_keeps_fallback:
  assumes pend: "cat_pending c = Some g" and loaded: "cat_loaded c = Some prior"
    and other: "prior \<noteq> gen_id g" and active: "log_active (cat_log c) = Some prior"
    and act: "activate CA E (c, be) = (c', be')" and live: "active_generation c' = Some (gen_id g)"
    and root: "ap_install (up_applier (cat_updater c)) = root"
    and names: "\<And>is. ids root (fst (ce_retain E)) = Inr is \<Longrightarrow> list_all plain_name (fst (snd (ce_retain E)) is)"
    and i: "i \<in> {prior, gen_id g}" and plain: "plain_name i" "i \<noteq> STAGING_PREFIX @ gen_id g"
    and th: "threads_spare E root i" and apart: "kept_apart root c i"
  shows "intact root (up_fs (cat_updater c)) (up_fs (cat_updater c')) i
    \<and> (if i = prior then cat_trees c' i = cat_trees c i else cat_trees c' i \<noteq> None)"
proof -
  let ?c = "(let_threads E 3 c)\<lparr>cat_pending := None\<rparr>"
  from pend loaded other act live obtain c1 libs where ens: "ensure_payload CA (ce_extract E 0) g ?c = (c1, Inr libs)"
    and c': "c' = clean_up E g ((on_log (log_activated (ca_log CA) (ce_log E 0) (gen_id g)) (c1\<lparr>cat_loaded := Some (gen_id g)\<rparr>))\<lparr>cat_boot := []\<rparr>)"
    by (elim activate_through) (auto simp: active_generation_def)
  let ?c2 = "(on_log (log_activated (ca_log CA) (ce_log E 0) (gen_id g)) (c1\<lparr>cat_loaded := Some (gen_id g)\<rparr>))\<lparr>cat_boot := []\<rparr>"
  note kept = ensure_payload_keeps [OF ens]
  have c1: "cat_log c1 = cat_log c" "cat_updater c1 = ce_threads E 3 (cat_updater c)" using kept by (simp_all add: let_threads_def)
  have th3: "intact root (up_fs (cat_updater c)) (up_fs (cat_updater c1)) i"
    "up_applier (cat_updater c1) = up_applier (cat_updater c)" "up_cache (cat_updater c1) = up_cache (cat_updater c)"
    using th by (auto simp: threads_spare_def c1 dest: settings_applier)
  note logged = activated_log [of "ca_log CA" "ce_log E 0" "gen_id g" "cat_log c1" "up_fs (cat_updater c1)"]
  have ne: "p \<noteq> al_path (cat_log c) \<and> p \<noteq> log_staging (cat_log c)" if "of_generation root i p" for p
    using apart that by (auto simp: kept_apart_def)
  have "intact root (up_fs (cat_updater c1)) (up_fs (cat_updater ?c2)) i"
    using logged ne by (simp add: intact_iff c1)
  with th3(1) have fs: "intact root (up_fs (cat_updater c)) (up_fs (cat_updater ?c2)) i" by (rule intact_chain)
  have "i \<in> set (live_ids g ?c2)" using i logged active other by (auto simp: live_ids_def c1)
  then have "intact root (up_fs (cat_updater ?c2)) (up_fs (cat_updater c')) i \<and> cat_trees c' i = cat_trees ?c2 i"
    unfolding c' using apart th3
    by (intro clean_up_keeps [OF th _ _ names plain(1)]) (auto simp: kept_apart_def root)
  moreover have "(i \<noteq> gen_id g \<longrightarrow> cat_trees c1 i = cat_trees c i) \<and> cat_trees c1 (gen_id g) \<noteq> None"
    using ens plain(2) by (auto simp: ensure_payload_def dest!: ensure_trees split: prod.splits)
  ultimately show ?thesis using fs i other by (auto intro: intact_chain)
qed

section \<open>The record survives a crash\<close>

lemma trim_tail_name: "n \<noteq> [] \<Longrightarrow> last n \<noteq> CHR ''/'' \<Longrightarrow> last n \<noteq> CHR ''.'' \<Longrightarrow> trim_tail (rev (p @ n)) = rev (p @ n)"
  by (cases n rule: rev_cases) simp_all

lemma with_extension_join:
  assumes "CHR ''/'' \<notin> set n" "normal n" "last n \<noteq> CHR ''.''" "n \<noteq> []" "ext \<noteq> []"
  shows "\<exists>pre. path_join root n = pre @ n \<and> with_extension ext (path_join root n) = pre @ fst (split_name n) @ ''.'' @ ext"
proof -
  have "path_join root n \<in> {[] @ n, root @ n, (root @ ''/'') @ n}" by (simp add: path_join_def)
  then obtain pre where pre: "path_join root n = pre @ n" by blast
  have "last n \<noteq> CHR ''/''" using assms(1,4) last_in_set by force
  with trim_tail_name [of n pre] assms pre path_name_join [OF assms(1,2,4), of root]
  show ?thesis by (simp add: with_extension_def Let_def)
qed

lemma staging_apart: "with_extension ''json.next'' (path_join root ''activation.json'') \<noteq> path_join root ''activation.json''"
proof -
  have "fst (split_name ''activation.json'') = ''activation''" by code_simp
  moreover have "normal ''activation.json''" by (simp add: normal_def)
  ultimately show ?thesis using with_extension_join [of "''activation.json''" "''json.next''" root] by auto
qed

lemma log_load_reads: "f' p = f p \<Longrightarrow> log_load LL p rd f' = log_load LL p rd f"
  by (simp add: log_load_def)

text \<open>
  C26: Whatever becomes of a write, the activation record on disk is either the one there was or the
  one that was to be written, in full: a restart reads one of the two, the new one when the write and
  its rename went through, and the history it holds is the most recent part of it, at most its cap.
\<close>

theorem record_survives_crash:
  assumes codec: "\<And>r b. ll_ser LL r = Some b \<Longrightarrow> ll_de LL b = Some r"
    and path: "al_path l = path_join root ''activation.json''" and schema: "rf_schema (al_record l) = SCHEMA"
    and push: "log_push LL (now, landing, renamed) what ident detail (l, f) = (l', f')"
  shows "log_load LL (al_path l) True f' \<in> {log_load LL (al_path l) True f, l'}
    \<and> (landing = Landed \<and> renamed \<and> ll_ser LL (al_record l') \<noteq> None \<longrightarrow> log_load LL (al_path l) True f' = l')
    \<and> length (log_history l') \<le> HISTORY_CAP
    \<and> (\<exists>dropped. log_history l @ [\<lparr>ev_what = what, ev_generation = ident, ev_detail = detail, ev_at = now\<rparr>]
          = dropped @ log_history l')"
proof -
  from push have l': "al_path l' = al_path l" "rf_schema (al_record l') = SCHEMA" and f': "f' = log_persist LL (now, landing, renamed) l' f"
    using schema by (auto simp: log_push_def Let_def)
  have stage: "log_staging l' = with_extension ''json.next'' (al_path l)" "log_staging l' \<noteq> al_path l"
    using staging_apart [of root] by (simp_all add: log_staging_def l' path)
  have "log_load LL (al_path l) True f' = (if landing = Landed \<and> renamed \<and> ll_ser LL (al_record l') \<noteq> None then l'
      else log_load LL (al_path l) True f)"
  proof (cases "ll_ser LL (al_record l')")
    case None
    then show ?thesis by (simp add: f' log_persist_def)
  next
    case (Some b)
    show ?thesis
    proof (cases "landing = Landed \<and> renamed")
      case True
      with Some stage codec [OF Some] l' show ?thesis
        by (simp add: f' log_persist_def Let_def log_load_def write_file_def)
    next
      case False
      with Some stage have "f' (al_path l) = f (al_path l)"
        by (auto simp: f' log_persist_def Let_def write_file_def split: landing.split)
      with False show ?thesis by (auto simp: log_load_def)
    qed
  qed
  moreover have "length (log_history l') \<le> HISTORY_CAP"
    using push by (auto simp: log_push_def Let_def log_history_def)
  moreover have "\<exists>dropped. log_history l @ [\<lparr>ev_what = what, ev_generation = ident, ev_detail = detail, ev_at = now\<rparr>]
      = dropped @ log_history l'"
  proof -
    let ?h = "log_history l @ [\<lparr>ev_what = what, ev_generation = ident, ev_detail = detail, ev_at = now\<rparr>]"
    have "log_history l' = drop (if HISTORY_CAP < length ?h then length ?h - HISTORY_CAP else 0) ?h"
      using push by (auto simp: log_push_def Let_def log_history_def)
    then show ?thesis by (metis append_take_drop_id)
  qed
  ultimately show ?thesis by auto
qed

section \<open>A concrete catalog\<close>

text \<open>Two installed generations of one artifact; the newer one, \<open>b\<close>, holds a plugin that does not load.\<close>

definition hively :: installed where
  "hively = \<lparr>inst_name = ''hively'', inst_target = None, inst_version = None, inst_revision = ''1'',
     inst_sha256 = ''00'', inst_size = 1, inst_path = ''hively.tar.zst''\<rparr>"

definition catalog_install_lib :: install_lib where
  "catalog_install_lib = \<lparr>il_ser = (\<lambda>_. None),
     il_de = (\<lambda>b. if b = [1] then Some \<lparr>ir_schema = 1, ir_generation = ''a'', ir_artifacts = [hively]\<rparr>
       else if b = [2] then Some \<lparr>ir_schema = 1, ir_generation = ''b'', ir_artifacts = [hively]\<rparr> else None),
     il_store = (\<lambda>_ _ _ _ f. (f, False))\<rparr>"

definition catalog_fs :: fs where
  "catalog_fs = [''/r/generations/a.generation.json'' \<mapsto> [1], ''/r/generations/a/hively.tar.zst'' \<mapsto> [9],
     ''/r/generations/b.generation.json'' \<mapsto> [2], ''/r/generations/b/hively.tar.zst'' \<mapsto> [9]]"

definition path_host :: "(string, nat, int, unit) host" where
  "path_host = \<lparr>h_playback = (\<lambda>_. True), h_extensions = (\<lambda>_. Some (Some ''ahx'')), h_select = (\<lambda>_ _ _ _. Some 0),
     h_name = (\<lambda>_. ''hively''), h_metadata = (\<lambda>_ _. Inr None), h_open = (\<lambda>_ _ _ _ _ _. Inr 0),
     h_scope = (\<lambda>_ s. s), h_read = (\<lambda>n s. (s, Inr (unat n, False, []))), h_seek = (\<lambda>ms s. (ms, Some ms)),
     h_layout = (\<lambda>_. None), h_capture = (\<lambda>_ d s. (s, d, None))\<rparr>"

definition sample_ca :: "(string, nat, int, unit, nat \<times> nat, nat) catalog_lib" where
  "sample_ca = \<lparr>ca_host = path_host, ca_updater = sample_up_lib,
     ca_payload = \<lparr>pl_dll = ''.so'', pl_text = (\<lambda>_. ''payload''),
       pl_unpack = (\<lambda>_ t. (t(''hively_playback.so'' \<mapsto> Regular), True))\<rparr>,
     ca_log = \<lparr>ll_ser = (\<lambda>_. None), ll_de = (\<lambda>_. None)\<rparr>\<rparr>"

definition catalog_sample_config :: catalog_config where
  "catalog_sample_config = (config_beneath ''/r'' (''https://m'', ''https://a'') [] ''linux-x86_64'')\<lparr>cc_auto_apply := False\<rparr>"

definition sample_catalog :: "(nat \<times> nat) catalog" where
  "sample_catalog = (case catalog_new sample_ca sample_lib catalog_install_lib (\<lambda>_. sample_net) (\<lambda>_. 9) True
     catalog_sample_config (5, 3) catalog_fs Map.empty of Inr c \<Rightarrow> c)"

definition good_extract :: extract_env where
  "good_extract = \<lparr>xe_clear = True, xe_kept = (\<lambda>_. False), xe_create = True, xe_opens = (\<lambda>_. True),
     xe_decodes = (\<lambda>_. True), xe_commit = True\<rparr>"

definition picky_load :: "string list \<Rightarrow> string load_report" where
  "picky_load paths = \<lparr>lr_plugins = filter (\<lambda>p. \<not> starts_with ''/r/payloads/b'' p) paths,
     lr_errors = filter (starts_with ''/r/payloads/b'') paths\<rparr>"

definition catalog_listing :: listing where
  "catalog_listing = Listed [Some (Some ''b.generation.json'', False), Some (Some ''a.generation.json'', False)]"

definition sample_cenv :: "(string, nat \<times> nat) catalog_env" where
  "sample_cenv = \<lparr>ce_threads = (\<lambda>_ u. u), ce_now = 0, ce_spawned = False, ce_boot = (\<lambda>_. True, catalog_listing),
     ce_find = (\<lambda>_. True, catalog_listing), ce_mtime = (\<lambda>d. if d = ''/r/generations/b'' then 2 else 1),
     ce_extract = (\<lambda>_. good_extract), ce_load = (\<lambda>_. picky_load), ce_log = (\<lambda>_. (0, Landed, True)),
     ce_retain = (catalog_listing, \<lambda>is. is, \<lambda>_. clean_removal), ce_payload = Some (\<lambda>_. True, \<lambda>_. None),
     ce_evict = (\<lambda>_. (True, True))\<rparr>"

definition idle_backend :: "(string, int, unit) backend" where
  "idle_backend = backend_new path_host \<lparr>lr_plugins = [], lr_errors = []\<rparr> () (48000, 2) 4096"

lemma sample_catalog_new: "catalog_new sample_ca sample_lib catalog_install_lib (\<lambda>_. sample_net) (\<lambda>_. 9) True
     catalog_sample_config (5, 3) catalog_fs Map.empty = Inr sample_catalog"
proof -
  have "\<not> path_starts_with ''/r/trust-state'' ''/r/cache''" "starts_with ''https://'' ''https://a''" "starts_with ''https://'' ''https://m''"
    by code_simp+
  then show ?thesis
    by (simp add: sample_catalog_def catalog_new_def updater_new_def catalog_sample_config_def config_beneath_def path_join_def
      channel_https_def host_date_new_def)
qed

lemma picky_loads_only: "loads_only (\<lambda>w. w) (ce_load sample_cenv k)"
  by (simp add: loads_only_def sample_cenv_def picky_load_def)


definition playing_backend :: "(string, int, unit) backend" where
  "playing_backend = fst (mount path_host \<lparr>me_opens = True, me_sized = True, me_read = Some 1\<rparr> (\<lambda>_. Some [1]) ''a.ahx'' 0 idle_backend)"

theorem live_song_keeps_its_set_witness:
  "is_live (snd (foldl (exec_worker sample_ca) (sample_catalog, playing_backend) [CatalogTick sample_cenv, Backend TogglePause]))"
proof -
  have "is_live playing_backend" by code_simp
  then show ?thesis
    using live_song_keeps_its_set [of playing_backend "[CatalogTick sample_cenv, Backend TogglePause]" sample_ca sample_catalog]
    by (simp add: ends_song_def)
qed

definition catalog_updater :: "(nat \<times> nat) updater" where
  "catalog_updater = updater_over sample_up_lib sample_lib catalog_install_lib
     \<lparr>uc_install_root = ''/r'', uc_cache_dir = ''/r/cache'', uc_trust_state_dir = ''/r/trust-state'',
      uc_metadata_base_url = ''https://m'', uc_artifact_base_url = ''https://a'', uc_embedded_root = [],
      uc_target = Some ''linux-x86_64'', uc_check_interval = 3600000, uc_auto_apply = False, uc_workers = 1\<rparr>
     (case channel_https (ck_channel (ul_check sample_up_lib)) (\<lambda>_. sample_net) (\<lambda>_. 9) ''https://m'' [] ''/r/trust-state'' of Inr ch \<Rightarrow> ch)
     (5, 3) catalog_fs"

lemma sample_catalog_sel:
  "cat_updater sample_catalog = catalog_updater" "\<not> cat_booted sample_catalog" "cat_loaded sample_catalog = None"
  "cat_log sample_catalog = log_load (ca_log sample_ca) ''/r/activation.json'' True catalog_fs"
proof -
  have "\<not> path_starts_with ''/r/trust-state'' ''/r/cache''" "starts_with ''https://'' ''https://a''" "starts_with ''https://'' ''https://m''"
    by code_simp+
  moreover have "ca_updater sample_ca = sample_up_lib" by (simp add: sample_ca_def)
  ultimately show "cat_updater sample_catalog = catalog_updater"
    using arg_cong [OF sample_catalog_new, of "\<lambda>r. case r of Inr c \<Rightarrow> cat_updater c | Inl _ \<Rightarrow> catalog_updater"]
    by (simp add: catalog_new_def updater_new_def catalog_sample_config_def config_beneath_def path_join_def
      channel_https_def host_date_new_def catalog_updater_def)
  from catalog_new_starts [OF sample_catalog_new] show "\<not> cat_booted sample_catalog" "cat_loaded sample_catalog = None"
    "cat_log sample_catalog = log_load (ca_log sample_ca) ''/r/activation.json'' True catalog_fs"
    by (simp_all add: catalog_sample_config_def config_beneath_def path_join_def)
qed

lemma catalog_updater_sel: "up_fs catalog_updater = catalog_fs" "ap_lib (up_applier catalog_updater) = catalog_install_lib"
  "ap_install (up_applier catalog_updater) = ''/r/generations''" "as_pending (up_apply catalog_updater) = []"
     apply (simp add: catalog_updater_def updater_over_def Let_def up_fs_def with_config_def)
    apply (simp add: catalog_updater_def updater_over_def Let_def applier_new_def)
   apply (simp add: catalog_updater_def updater_over_def Let_def applier_new_def path_join_def GENERATIONS_def)
  apply (simp add: catalog_updater_def updater_over_def Let_def)
  done

lemma sample_found: "map gen_id (found_generations sample_cenv sample_catalog) = [''a'', ''b'']"
proof -
  have "generations catalog_install_lib ''/r/generations'' (\<lambda>_. True) catalog_listing catalog_fs =
      Inr [\<lparr>gen_id = ''a'', gen_dir = ''/r/generations/a'', gen_artifacts = [hively]\<rparr>,
        \<lparr>gen_id = ''b'', gen_dir = ''/r/generations/b'', gen_artifacts = [hively]\<rparr>]" by code_simp
  then show ?thesis
    by (simp add: found_generations_def sample_cenv_def sample_catalog_sel up_generations_def catalog_updater_sel)
qed

text \<open>While no thread runs, a tick with nothing completed leaves nothing completed.\<close>

definition reported :: "'e catalog \<Rightarrow> generation list" where
  "reported c = as_pending (up_apply (cat_updater c))"

definition still :: "('w, 'e) catalog_env \<Rightarrow> bool" where "still E \<longleftrightarrow> ce_threads E = (\<lambda>_ u. u)"

lemma reported_simps [simp]:
  "reported (c\<lparr>cat_trees := ts\<rparr>) = reported c" "reported (c\<lparr>cat_pending := p\<rparr>) = reported c"
  "reported (c\<lparr>cat_boot := b\<rparr>) = reported c" "reported (c\<lparr>cat_loaded := x\<rparr>) = reported c"
  "reported (c\<lparr>cat_booted := y\<rparr>) = reported c" "reported (c\<lparr>cat_log := l\<rparr>) = reported c"
  "reported (pop_boot c) = reported c" "reported (on_log g c) = reported c"
  by (simp_all add: reported_def pop_boot_def on_log_def set_fs_def split: prod.split)

lemma still_threads [simp]: "still E \<Longrightarrow> let_threads E k c = c"
  by (simp add: still_def let_threads_def)

lemma evict_reported: "still E \<Longrightarrow> reported (evict_artifacts E k as c) = reported c"
proof (induction as arbitrary: k c)
  case (Cons a as)
  then show ?case by (simp add: Let_def reported_def evict_cached_def set_fs_def split: sum.split)
qed simp

lemma clean_up_reported: "still E \<Longrightarrow> reported (clean_up E g c) = reported c"
  by (simp add: clean_up_def Let_def evict_reported split: prod.split)
    (simp add: reported_def up_retain_def set_fs_def split: prod.split)

lemma ensure_reported: "ensure_payload CA x g c = (c1, r) \<Longrightarrow> reported c1 = reported c"
  using ensure_payload_keeps(7) [of CA x g c c1 r] by (simp add: reported_def)

lemma recover_reported: "still E \<Longrightarrow> reported (fst (recover CA E refused (c, be))) = reported c"
  by (auto simp: recover_def reload_def dest: ensure_reported split: option.splits prod.splits sum.splits bool.splits)

lemma activate_reported: "still E \<Longrightarrow> reported (fst (activate CA E (c, be))) = reported c"
  by (auto simp: activate_def Let_def recover_reported clean_up_reported dest: ensure_reported split: option.splits prod.splits sum.splits)

lemma drive_reported: "still E \<Longrightarrow> reported (drive_updater CA E c) = reported c"
  by (simp add: drive_updater_def Let_def reported_def tick_def begin_check_def start_job_def upd_status_def split: prod.split)

lemma boot_reported: "still E \<Longrightarrow> reported (boot_once E c) = reported c"
  by (simp add: boot_once_def Let_def)

lemma nothing_completed: "reported c = [] \<Longrightarrow> up_next_completed (cat_updater c) = (None, cat_updater c)"
  by (simp add: reported_def up_next_completed_def next_completed_def)

lemma quiet_tick: "still E \<Longrightarrow> reported c = [] \<Longrightarrow>
   fst (up_next_completed (cat_updater (drive_updater CA E (boot_once E c)))) = None
   \<and> reported (fst (catalog_tick CA E (c, be))) = []"
  by (simp add: nothing_completed drive_reported boot_reported catalog_tick_def take_completed_def Let_def activate_reported)

lemma still_quiet: "list_all still es \<Longrightarrow> reported c = [] \<Longrightarrow> quiet CA es (c, be)"
proof (induction es arbitrary: c be)
  case (Cons E es)
  with quiet_tick [of E c CA be] show ?case by (cases "catalog_tick CA E (c, be)") auto
qed simp

theorem boot_falls_back_in_order_witness:
  "\<exists>gs :: generation list. mset (map gen_id gs) = {#''a'', ''b''#}
    \<and> (\<exists>k \<le> 2. active_generation (fst (ticks sample_ca [sample_cenv, sample_cenv] (sample_catalog, idle_backend)))
         = (if k < 2 then Some (gen_id (gs ! k)) else None))"
proof -
  have st: "still sample_cenv" by (simp add: still_def sample_cenv_def)
  have "reported sample_catalog = []" by (simp add: reported_def sample_catalog_sel catalog_updater_sel)
  then have q: "quiet sample_ca [sample_cenv, sample_cenv] (sample_catalog, idle_backend)" by (intro still_quiet) (simp_all add: st)
  have len: "length (found_generations sample_cenv sample_catalog) = 2" using arg_cong [OF sample_found, of length] by simp
  have hist: "history sample_catalog = []"
    by (simp add: history_def log_history_def sample_catalog_sel log_load_def sample_ca_def catalog_fs_def record_default_def)
  have idle: "\<not> is_live idle_backend" by (simp add: is_live_def idle_backend_def backend_new_def)
  from boot_falls_back_in_order [OF sample_catalog_sel(2,3) idle q] len hist
  obtain gs k where gs: "mset gs = mset (found_generations sample_cenv sample_catalog)" and k: "k \<le> length gs"
    and act: "active_generation (fst (ticks sample_ca [sample_cenv, sample_cenv] (sample_catalog, idle_backend)))
      = (if k < length gs then Some (gen_id (gs ! k)) else None)"
    by (auto simp: HISTORY_CAP_def Let_def)
  from gs len have l: "length gs = 2" by (metis size_mset)
  from gs have "mset (map gen_id gs) = mset (map gen_id (found_generations sample_cenv sample_catalog))" by simp
  then have "mset (map gen_id gs) = {#''a'', ''b''#}" by (simp add: sample_found)
  with act k l show ?thesis by (intro exI [of _ gs] conjI exI [of _ k]) simp_all
qed

definition short_log :: log_lib where
  "short_log = \<lparr>ll_ser = (\<lambda>r. if r = \<lparr>rf_schema = 1, rf_active = None, rf_previous = None,
       rf_history = [\<lparr>ev_what = ProbeFailed, ev_generation = ''b'', ev_detail = None, ev_at = 5\<rparr>]\<rparr> then Some [7] else None),
     ll_de = (\<lambda>b. if b = [7] then Some \<lparr>rf_schema = 1, rf_active = None, rf_previous = None,
       rf_history = [\<lparr>ev_what = ProbeFailed, ev_generation = ''b'', ev_detail = None, ev_at = 5\<rparr>]\<rparr> else None)\<rparr>"

theorem record_survives_crash_witness:
  "rf_history (al_record (log_load short_log ''/r/activation.json'' True
      (snd (log_push short_log (5, Landed, True) ProbeFailed ''b'' None
        (\<lparr>al_path = ''/r/activation.json'', al_record = record_default\<rparr>, Map.empty)))))
    = [\<lparr>ev_what = ProbeFailed, ev_generation = ''b'', ev_detail = None, ev_at = 5\<rparr>]"
proof -
  let ?l = "\<lparr>al_path = ''/r/activation.json'', al_record = record_default\<rparr>"
  let ?p = "log_push short_log (5, Landed, True) ProbeFailed ''b'' None (?l, Map.empty)"
  have codec: "\<And>r b. ll_ser short_log r = Some b \<Longrightarrow> ll_de short_log b = Some r" by (auto simp: short_log_def split: if_splits)
  have path: "al_path ?l = path_join ''/r'' ''activation.json''" by (simp add: path_join_def)
  have schema: "rf_schema (al_record ?l) = SCHEMA" by (simp add: record_default_def)
  have rec: "al_record (fst ?p) = \<lparr>rf_schema = 1, rf_active = None, rf_previous = None,
       rf_history = [\<lparr>ev_what = ProbeFailed, ev_generation = ''b'', ev_detail = None, ev_at = 5\<rparr>]\<rparr>"
    by (simp add: log_push_def Let_def record_default_def SCHEMA_def HISTORY_CAP_def)
  then have "ll_ser short_log (al_record (fst ?p)) \<noteq> None" by (simp add: short_log_def)
  with record_survives_crash [OF codec path schema surjective_pairing] have "log_load short_log (al_path ?l) True (snd ?p) = fst ?p"
    by blast
  with rec show ?thesis by simp
qed

definition updated_catalog :: "(nat \<times> nat) catalog" where
  "updated_catalog = sample_catalog\<lparr>cat_booted := True, cat_loaded := Some ''z'',
     cat_pending := Some \<lparr>gen_id = ''a'', gen_dir = ''/r/generations/a'', gen_artifacts = [hively]\<rparr>,
     cat_log := (cat_log sample_catalog)\<lparr>al_record := record_default\<lparr>rf_active := Some ''z''\<rparr>\<rparr>\<rparr>"

definition generation_a :: generation where
  "generation_a = \<lparr>gen_id = ''a'', gen_dir = ''/r/generations/a'', gen_artifacts = [hively]\<rparr>"

lemma a_loads: "snd (ensure (ca_payload sample_ca) good_extract ''/r/payloads'' catalog_fs generation_a Map.empty)
    = Inr [''/r/payloads/a/hively_playback.so'']"
  "accepted (snd (swap_plugins path_host picky_load [''/r/payloads/a/hively_playback.so''] be)) 1"
   apply code_simp
  apply (simp add: accepted_def swap_plugins_def Let_def picky_load_def starts_with_def path_host_def)
  done

lemma updated_activates: "cat_loaded (fst (activate sample_ca sample_cenv (updated_catalog, idle_backend))) = Some ''a''"
proof -
  have sel: "cat_pending updated_catalog = Some generation_a" "cat_loaded updated_catalog = Some ''z''"
    "cat_payloads updated_catalog = ''/r/payloads''" "cat_trees updated_catalog = Map.empty" "up_fs (cat_updater updated_catalog) = catalog_fs"
    "gen_id generation_a = ''a''" "gen_artifacts generation_a = [hively]"
    using catalog_new_starts [OF sample_catalog_new]
    by (simp_all add: updated_catalog_def generation_a_def sample_catalog_sel catalog_updater_sel
      catalog_sample_config_def config_beneath_def path_join_def)
  have E: "ce_extract sample_cenv 0 = good_extract" "ce_load sample_cenv 0 = picky_load" "ca_host sample_ca = path_host"
    "\<And>k. let_threads sample_cenv k c = c" for c
    by (simp_all add: sample_cenv_def sample_ca_def let_threads_def)
  obtain ts where ens: "ensure (ca_payload sample_ca) good_extract ''/r/payloads'' catalog_fs generation_a Map.empty
      = (ts, Inr [''/r/payloads/a/hively_playback.so''])" using a_loads(1) by (metis prod.collapse)
  obtain be1 rep where sw: "swap_plugins path_host picky_load [''/r/payloads/a/hively_playback.so''] idle_backend = (be1, rep)" by fastforce
  with a_loads(2) [of idle_backend] have "accepted rep 1" by simp
  then show ?thesis by (simp add: activate_def ensure_payload_def sel E ens sw)
qed

lemma of_generation_base: "of_generation ''/r/generations'' i p \<Longrightarrow> plain_name i \<Longrightarrow> \<exists>x. p = ''/r/generations/'' @ x"
  by (auto simp: of_generation_def beneath_iff plain_record path_join_def)

lemma updated_apart: "plain_name i \<Longrightarrow> kept_apart ''/r/generations'' updated_catalog i"
proof -
  assume i: "plain_name i"
  have paths: "al_path (cat_log updated_catalog) = ''/r/activation.json''" "up_cache (cat_updater updated_catalog) = ''/r/cache''"
    by (simp_all add: updated_catalog_def sample_catalog_sel log_load_def catalog_updater_def updater_over_def Let_def)
  moreover have "with_extension ''json.next'' ''/r/activation.json'' = ''/r/activation.json.next''" by code_simp
  ultimately have "log_staging (cat_log updated_catalog) = ''/r/activation.json.next''" by (simp add: log_staging_def)
  moreover have rec: "\<not> of_generation ''/r/generations'' i (''/r/activation.json'' @ x)" for x
    using of_generation_base [OF _ i, of "''/r/activation.json'' @ x"] by auto
  moreover have "\<not> cache_file ''/r/cache'' p" if "of_generation ''/r/generations'' i p" for p
    using of_generation_base [OF that i] cache_file_beneath [of "''/r/cache''" p] by (auto simp: starts_with_def path_join_def)
  ultimately show ?thesis using paths rec [of "[]"] rec [of "''.next''"] by (simp add: kept_apart_def)
qed

theorem activation_keeps_fallback_witness:
  "intact ''/r/generations'' catalog_fs
     (up_fs (cat_updater (fst (activate sample_ca sample_cenv (updated_catalog, idle_backend))))) ''z''"
proof -
  let ?s = "activate sample_ca sample_cenv (updated_catalog, idle_backend)"
  have sel: "cat_pending updated_catalog = Some generation_a" "cat_loaded updated_catalog = Some ''z''"
    "log_active (cat_log updated_catalog) = Some ''z''" "al_path (cat_log updated_catalog) = ''/r/activation.json''"
    "cat_updater updated_catalog = catalog_updater" "gen_id generation_a = ''a''"
    by (simp_all add: updated_catalog_def generation_a_def sample_catalog_sel log_active_def log_load_def)
  have names: "list_all plain_name (fst (snd (ce_retain sample_cenv)) is)" if "ids ''/r/generations'' (fst (ce_retain sample_cenv)) = Inr is" for "is"
  proof -
    have "ids ''/r/generations'' catalog_listing = Inr [''a'', ''b'']" by code_simp
    with that have "is = [''a'', ''b'']" by (simp add: sample_cenv_def)
    then show ?thesis by (simp add: sample_cenv_def plain_name_def)
  qed
  have apart: "kept_apart ''/r/generations'' updated_catalog ''z''" by (rule updated_apart) (simp add: plain_name_def)
  have th: "threads_spare sample_cenv ''/r/generations'' ''z''" by (simp add: threads_spare_def sample_cenv_def intact_refl)
  have live: "active_generation (fst ?s) = Some (gen_id generation_a)"
    using updated_activates by (simp add: active_generation_def sel)
  show ?thesis
    using activation_keeps_fallback [OF sel(1,2) _ sel(3) surjective_pairing live _ names _ _ _ th apart]
    by (simp add: sel catalog_updater_sel plain_name_def STAGING_PREFIX_def)
qed

text \<open>A generation that completes with an artifact whose name is no plain segment, while another waits.\<close>

definition badly_named :: generation where
  "badly_named = \<lparr>gen_id = ''n'', gen_dir = ''/r/generations/n'', gen_artifacts = [hively\<lparr>inst_name := []\<rparr>]\<rparr>"

definition waiting_catalog :: "(nat \<times> nat) catalog" where
  "waiting_catalog = sample_catalog\<lparr>cat_booted := True, cat_pending := Some generation_a,
     cat_updater := catalog_updater\<lparr>up_apply := (up_apply catalog_updater)\<lparr>as_pending := [badly_named]\<rparr>\<rparr>\<rparr>"

theorem completion_skips_candidate_witness:
  "candidates waiting_catalog = [generation_a]
    \<and> candidates (fst (catalog_tick sample_ca sample_cenv (waiting_catalog, idle_backend))) = []"
proof -
  let ?s = "catalog_tick sample_ca sample_cenv (waiting_catalog, idle_backend)"
  have boot: "cat_boot sample_catalog = []" using catalog_new_starts [OF sample_catalog_new] by simp
  have cand: "candidates waiting_catalog = [generation_a]" "cat_booted waiting_catalog" "cat_loaded waiting_catalog = None"
    by (simp_all add: candidates_def waiting_catalog_def boot sample_catalog_sel)
  have still: "still sample_cenv" by (simp add: still_def sample_cenv_def)
  have "reported (drive_updater sample_ca sample_cenv waiting_catalog) = [badly_named]"
    unfolding drive_reported [OF still] by (simp add: reported_def waiting_catalog_def)
  then obtain u where compl: "up_next_completed (cat_updater (drive_updater sample_ca sample_cenv waiting_catalog)) = (Some badly_named, u)"
    by (simp add: reported_def up_next_completed_def next_completed_def)
  have bad: "ensure (ca_payload CA) x root f badly_named ts = (ts, Inl (BadName []))" for CA :: "(string, nat, int, unit, nat \<times> nat, nat) catalog_lib" and x root f ts
    by (simp add: ensure_def badly_named_def hively_def check_name_def)
  have idle: "\<not> is_live idle_backend" by (simp add: is_live_def idle_backend_def backend_new_def)
  have none: "active_generation (fst ?s) = None"
    using cand compl idle by (simp add: catalog_tick_def take_completed_def Let_def activate_def ensure_payload_def bad recover_def
      active_generation_def)
  have room: "length (history waiting_catalog) < HISTORY_CAP"
    by (simp add: waiting_catalog_def history_def log_history_def sample_catalog_sel log_load_def sample_ca_def catalog_fs_def
      record_default_def HISTORY_CAP_def)
  show ?thesis
    using completion_skips_candidate [OF cand(2,1,3) idle room compl surjective_pairing none] cand(1) by simp
qed

end
