(* ===== verification/Desktop.thy ===== *)
theory Desktop
  imports Catalog_Runs
begin

text \<open>
  The desktop player, \<open>crates/desktop/src/main.rs\<close>: its arguments and commands, and the audio worker that
  owns the catalog and its backend and keeps the ring in front of the device filled. The device's
  callback drains the ring on a thread of its own; what is printed is not modelled.
\<close>

section \<open>Constants\<close>

definition SAMPLE_RATE :: u32 where "SAMPLE_RATE = 48000"
definition CHANNELS :: nat where "CHANNELS = 2"
definition MAX_FRAMES :: u32 where "MAX_FRAMES = 4096"
definition BUFFERED_SAMPLES :: nat where "BUFFERED_SAMPLES = unat SAMPLE_RATE div 5 * CHANNELS"
definition DEV_METADATA :: string where
  "DEV_METADATA = ''https://github.com/RetrovertApp/playback_plugins/releases/download/dev/channel-metadata/''"
definition DEV_ARTIFACTS :: string where
  "DEV_ARTIFACTS = ''https://github.com/RetrovertApp/playback_plugins/releases/download/dev/v{version}/''"

section \<open>Arguments and commands\<close>

datatype command = Play string | Stop | Seek int | Status | Check | Quit

record options =
  op_root :: string
  op_interval :: u64
  op_auto_apply :: bool
  op_files :: "string list"

definition default_root :: "string option \<Rightarrow> string option \<Rightarrow> string + string" where
  "default_root home userprofile = (case (if home \<noteq> None then home else userprofile) of
       None \<Rightarrow> Inl ''no HOME to place --root under''
     | Some h \<Rightarrow> Inr (path_join h ''.retrovert-player''))"

fun parse_rest :: "string list \<Rightarrow> options \<Rightarrow> string + options" where
  "parse_rest [] o' = Inr o'"
| "parse_rest (arg # args) o' =
     (if arg = ''--root'' then
        (case args of [] \<Rightarrow> Inl ''--root needs a path'' | p # rest \<Rightarrow> parse_rest rest (o'\<lparr>op_root := p\<rparr>))
      else if arg = ''--interval'' then
        (case args of [] \<Rightarrow> Inl ''--interval needs whole seconds''
         | s # rest \<Rightarrow> (case parse_u64 s of None \<Rightarrow> Inl ''--interval needs whole seconds''
             | Some secs \<Rightarrow> parse_rest rest (o'\<lparr>op_interval := secs\<rparr>)))
      else if arg = ''--no-auto-apply'' then parse_rest args (o'\<lparr>op_auto_apply := False\<rparr>)
      else if arg = ''--help'' \<or> arg = ''-h'' then
        Inl ''usage: retrovert [--root DIR] [--interval SECS] [--no-auto-apply] [FILES..]''
      else parse_rest args (o'\<lparr>op_files := op_files o' @ [arg]\<rparr>))"

definition parse_args :: "string option \<Rightarrow> string option \<Rightarrow> string list \<Rightarrow> string + options" where
  "parse_args home userprofile args = (case default_root home userprofile of
       Inl err \<Rightarrow> Inl err
     | Inr root \<Rightarrow> parse_rest args \<lparr>op_root = root, op_interval = 30, op_auto_apply = True, op_files = []\<rparr>)"

text \<open>\<open>str::parse\<close> of an \<open>i64\<close>.\<close>

definition parse_i64 :: "string \<Rightarrow> int option" where
  "parse_i64 s =
     (let neg = (s \<noteq> [] \<and> hd s = CHR ''-'');
          digits = (if s \<noteq> [] \<and> (hd s = CHR ''+'' \<or> hd s = CHR ''-'') then tl s else s)
      in if digits = [] then None
         else (case decimal 0 digits of
             None \<Rightarrow> None
           | Some n \<Rightarrow> (let v = (if neg then - int n else int n)
               in if I64_MIN \<le> v \<and> v \<le> I64_MAX then Some v else None)))"

function words_of :: "string \<Rightarrow> string list" where
  "words_of s = (let t = dropWhile is_space s in
     if t = [] then [] else takeWhile (\<lambda>c. \<not> is_space c) t # words_of (dropWhile (\<lambda>c. \<not> is_space c) t))"
  by pat_completeness auto
termination
proof (relation "measure length")
  fix s t :: string
  assume t: "t = dropWhile is_space s" and ne: "t \<noteq> []"
  then have "\<not> is_space (hd t)" by (metis hd_dropWhile)
  with ne have "length (dropWhile (\<lambda>c. \<not> is_space c) t) < length t"
    by (cases t) (simp_all add: length_dropWhile_le less_Suc_eq_le)
  also have "length t \<le> length s" unfolding t by (rule length_dropWhile_le)
  finally show "(dropWhile (\<lambda>c. \<not> is_space c) t, s) \<in> measure length" by simp
qed simp

declare words_of.simps [simp del]

definition resolve_file :: "string list \<Rightarrow> string \<Rightarrow> string" where
  "resolve_file files what = (case parse_u64 what of
       Some i \<Rightarrow> if unat i < length files then files ! unat i else what
     | None \<Rightarrow> what)"

text \<open>One line of the loop: a command, \<open>None\<close> for a line that sends nothing, and whether it goes on.\<close>

definition repl_line :: "string list \<Rightarrow> string \<Rightarrow> command option \<times> bool" where
  "repl_line files line = (case words_of line of
       [] \<Rightarrow> (None, True)
     | w # ws \<Rightarrow>
         if w = ''play'' \<and> ws \<noteq> [] then (Some (Play (resolve_file files (hd ws))), True)
         else if w = ''stop'' then (Some Stop, True)
         else if w = ''seek'' \<and> ws \<noteq> [] then
           (case parse_i64 (hd ws) of Some ms \<Rightarrow> (Some (Seek ms), True) | None \<Rightarrow> (None, True))
         else if w = ''status'' then (Some Status, True)
         else if w = ''check'' then (Some Check, True)
         else if w = ''quit'' \<or> w = ''exit'' then (None, False)
         else (None, True))"

section \<open>The worker\<close>

record ('w, 's, 'd, 'e) desktop =
  dk_catalog :: "'e catalog"
  dk_backend :: "('w, 's, 'd) backend"
  dk_ring :: "u32 list"
  dk_announced :: "string option"

definition desktop_config :: "bytes \<Rightarrow> string option \<Rightarrow> options \<Rightarrow> catalog_config" where
  "desktop_config dev_root native o' =
     (config_beneath (op_root o') (DEV_METADATA, DEV_ARTIFACTS) dev_root
        (case native of Some t \<Rightarrow> t | None \<Rightarrow> ''linux-x86_64''))
     \<lparr>cc_check_interval := unat (op_interval o') * 1000, cc_auto_apply := op_auto_apply o'\<rparr>"

definition desktop_start ::
  "('w, 'p, 's, 'd, 'e, 'u) catalog_lib \<Rightarrow> 'w load_report \<Rightarrow> 'd \<Rightarrow> 'e catalog \<Rightarrow> ('w, 's, 'd, 'e) desktop" where
  "desktop_start CA nothing viz c =
     \<lparr>dk_catalog = c, dk_backend = backend_new (ca_host CA) nothing viz (SAMPLE_RATE, of_nat CHANNELS) MAX_FRAMES,
      dk_ring = [], dk_announced = None\<rparr>"

text \<open>The device's callback for \<open>n\<close> samples.\<close>

definition device_pull :: "nat \<Rightarrow> u32 list \<Rightarrow> u32 list \<times> u32 list" where
  "device_pull n ring = (drop n ring, take n ring @ replicate (n - length ring) 0)"

text \<open>\<open>top_up\<close>; the device takes \<open>drained\<close> samples while it decodes.\<close>

definition frames_wanted :: "nat \<Rightarrow> u32" where
  "frames_wanted buffered =
     (let missing = (BUFFERED_SAMPLES - buffered) div CHANNELS
      in min (if missing < 2 ^ 32 then of_nat missing else MAX_FRAMES) MAX_FRAMES)"

definition top_up ::
  "('w, 'p, 's, 'd) host \<Rightarrow> nat \<Rightarrow> ('w, 's, 'd) backend \<times> u32 list \<Rightarrow> ('w, 's, 'd) backend \<times> u32 list" where
  "top_up H drained s = (case s of (be, ring) \<Rightarrow>
     (if BUFFERED_SAMPLES \<le> length ring then (be, ring)
      else (let ring' = fst (device_pull drained ring)
        in case render H (frames_wanted (length ring)) be of
             (be', Inr samples) \<Rightarrow> (be', if samples \<noteq> [] then ring' @ samples else ring')
           | (be', Inl err) \<Rightarrow> (close be', ring'))))"

datatype received = Got command | Empty | Disconnected

text \<open>What one turn of the loop finds.\<close>

record ('w, 'e) desktop_env =
  de_mount :: "('w, 'e) catalog_env"
  de_media :: media_env
  de_check :: "('w, 'e) catalog_env"
  de_tick :: "('w, 'e) catalog_env"
  de_drained :: nat

definition run_command ::
  "('w, 'p, 's, 'd, 'e, 'u) catalog_lib \<Rightarrow> ('w, 'e) desktop_env \<Rightarrow> command \<Rightarrow> ('w, 's, 'd, 'e) desktop
     \<Rightarrow> ('w, 's, 'd, 'e) desktop option" where
  "run_command CA E cmd k = (case cmd of
       Play path \<Rightarrow> (case fst (catalog_mount CA (de_mount E) (de_media E) path 0 (dk_catalog k, dk_backend k)) of
           (c, be) \<Rightarrow> Some (k\<lparr>dk_catalog := c, dk_backend := be\<rparr>))
     | Stop \<Rightarrow> Some (k\<lparr>dk_backend := close (dk_backend k)\<rparr>)
     | Seek ms \<Rightarrow> (case seek (ca_host CA) ms (dk_backend k) of
           (be, Some _) \<Rightarrow> Some (k\<lparr>dk_backend := be, dk_ring := []\<rparr>)
         | (be, None) \<Rightarrow> Some (k\<lparr>dk_backend := be\<rparr>))
     | Status \<Rightarrow> Some k
     | Check \<Rightarrow> Some (k\<lparr>dk_catalog := catalog_check_now CA (de_check E) (dk_catalog k)\<rparr>)
     | Quit \<Rightarrow> None)"

definition worker_turn ::
  "('w, 'p, 's, 'd, 'e, 'u) catalog_lib \<Rightarrow> ('w, 'e) desktop_env \<Rightarrow> received \<Rightarrow> ('w, 's, 'd, 'e) desktop
     \<Rightarrow> ('w, 's, 'd, 'e) desktop option" where
  "worker_turn CA E got k0 =
     (case (case got of Got cmd \<Rightarrow> run_command CA E cmd k0 | Empty \<Rightarrow> Some k0 | Disconnected \<Rightarrow> None) of
        None \<Rightarrow> None
      | Some k1 \<Rightarrow>
          let be1 = (if status (dk_backend k1) = Finished then close (dk_backend k1) else dk_backend k1)
          in (case catalog_tick CA (de_tick E) (dk_catalog k1, be1) of
                (c, be2) \<Rightarrow> (case top_up (ca_host CA) (de_drained E) (be2, dk_ring k1) of
                    (be3, ring) \<Rightarrow> Some (k1\<lparr>dk_catalog := c, dk_backend := be3, dk_ring := ring,
                      dk_announced := (if active_generation c \<noteq> dk_announced k1 then active_generation c
                        else dk_announced k1)\<rparr>))))"

text \<open>The worker and the device; the other threads are the environment of the turns.\<close>

inductive desktop_step ::
  "('w, 'p, 's, 'd, 'e, 'u) catalog_lib \<Rightarrow> (('w, 'e) desktop_env \<Rightarrow> bool) \<Rightarrow> ('w, 's, 'd, 'e) desktop
     \<Rightarrow> ('w, 's, 'd, 'e) desktop \<Rightarrow> bool" for CA ok where
  turn: "ok E \<Longrightarrow> worker_turn CA E got k = Some k' \<Longrightarrow> desktop_step CA ok k k'"
| device: "desktop_step CA ok k (k\<lparr>dk_ring := fst (device_pull n (dk_ring k))\<rparr>)"

section \<open>The ring\<close>

text \<open>A decoder writes no more samples than the frames it was asked for have.\<close>

definition decoder_fills :: "('w, 'p, 's, 'd) host \<Rightarrow> bool" where
  "decoder_fills H \<longleftrightarrow> (\<forall>n s p produced fin samples. h_read H n s = (p, Inr (produced, fin, samples)) \<longrightarrow>
     length samples \<le> unat n * CHANNELS)"

lemma render_fills: "decoder_fills H \<Longrightarrow> render H n be = (be', Inr samples) \<Longrightarrow> length samples \<le> unat n * CHANNELS"
proof -
  assume d: "decoder_fills H" and r: "render H n be = (be', Inr samples)"
  consider "samples = []" | s p k fin where "h_read H (min n (be_max_frames be)) s = (p, Inr (k, fin, samples))"
    using r by (auto simp: render_def split: option.splits if_splits prod.splits sum.splits)
  then show ?thesis
  proof cases
    case 2
    with d have "length samples \<le> unat (min n (be_max_frames be)) * CHANNELS" by (simp add: decoder_fills_def)
    also have "\<dots> \<le> unat n * CHANNELS" by (rule mult_le_mono1) (simp add: min_def word_le_nat_alt)
    finally show ?thesis .
  qed simp
qed

lemma frames_wanted_room: "unat (frames_wanted n) * CHANNELS \<le> BUFFERED_SAMPLES - n"
proof -
  define missing where "missing = (BUFFERED_SAMPLES - n) div CHANNELS"
  have "missing \<le> BUFFERED_SAMPLES" unfolding missing_def by (rule le_trans [OF div_le_dividend]) simp
  then have small: "missing < 2 ^ 32" by (simp add: BUFFERED_SAMPLES_def SAMPLE_RATE_def CHANNELS_def)
  then have "frames_wanted n = min (of_nat missing) MAX_FRAMES" by (simp add: frames_wanted_def missing_def)
  with small have "unat (frames_wanted n) \<le> missing" by (simp add: min_def word_le_nat_alt unat_of_nat_small)
  then have "unat (frames_wanted n) * CHANNELS \<le> missing * CHANNELS" by (rule mult_le_mono1)
  also have "\<dots> \<le> BUFFERED_SAMPLES - n" by (simp add: missing_def CHANNELS_def)
  finally show ?thesis .
qed

lemma top_up_bound:
  assumes d: "decoder_fills H" and le: "length ring \<le> BUFFERED_SAMPLES"
  shows "length (snd (top_up H drained (be, ring))) \<le> BUFFERED_SAMPLES"
proof (cases "BUFFERED_SAMPLES \<le> length ring")
  case True
  with le show ?thesis by (simp add: top_up_def)
next
  case False
  have ring': "length (fst (device_pull drained ring)) \<le> length ring" by (simp add: device_pull_def)
  obtain be' r where ren: "render H (frames_wanted (length ring)) be = (be', r)" by fastforce
  show ?thesis
  proof (cases r)
    case (Inr samples)
    have "length samples \<le> unat (frames_wanted (length ring)) * CHANNELS" using render_fills [OF d] ren Inr by blast
    also have "\<dots> \<le> BUFFERED_SAMPLES - length ring" by (rule frames_wanted_room)
    finally have "length samples \<le> BUFFERED_SAMPLES - length ring" .
    with ring' False have "length (fst (device_pull drained ring)) + length samples \<le> BUFFERED_SAMPLES" by linarith
    with ring' le False ren Inr show ?thesis by (simp add: top_up_def Let_def)
  qed (use ring' le False ren in \<open>simp add: top_up_def Let_def\<close>)
qed

lemma run_command_ring: "run_command CA E cmd k = Some k' \<Longrightarrow> dk_ring k' = dk_ring k \<or> dk_ring k' = []"
  by (auto simp: run_command_def split: command.splits prod.splits option.splits)

lemma worker_turn_ring:
  assumes d: "decoder_fills (ca_host CA)" and turn: "worker_turn CA E got k = Some k'" and le: "length (dk_ring k) \<le> BUFFERED_SAMPLES"
  shows "length (dk_ring k') \<le> BUFFERED_SAMPLES"
proof -
  obtain k1 where k1: "(case got of Got cmd \<Rightarrow> run_command CA E cmd k | Empty \<Rightarrow> Some k | Disconnected \<Rightarrow> None) = Some k1"
    using turn by (auto simp: worker_turn_def split: option.splits)
  then have le1: "length (dk_ring k1) \<le> BUFFERED_SAMPLES"
    using le by (auto split: received.splits dest!: run_command_ring)
  have "\<exists>be. dk_ring k' = snd (top_up (ca_host CA) (de_drained E) (be, dk_ring k1))"
    using turn unfolding worker_turn_def k1 by (auto simp: Let_def split: prod.splits) (metis snd_conv)+
  with top_up_bound [OF d le1] show ?thesis by metis
qed

text \<open>
  C28: The ring in front of the device never holds more than its fifth of a second, however the
  worker's turns and the device's callbacks interleave, as long as a decoder writes no more than it
  was asked for.
\<close>

theorem ring_never_overfull:
  assumes "decoder_fills (ca_host CA)"
    and "reachable (\<lambda>k. \<exists>nothing viz c. k = desktop_start CA nothing viz c) (desktop_step CA ok) k"
  shows "length (dk_ring k) \<le> BUFFERED_SAMPLES"
  using assms(2)
proof (induction rule: reachable.induct)
  case (reachable_init k)
  then show ?case by (auto simp: desktop_start_def)
next
  case (reachable_step k k')
  from this(2,3) show ?case by (cases rule: desktop_step.cases) (auto intro: worker_turn_ring [OF assms(1)] simp: device_pull_def)
qed

section \<open>The worker drives the catalog\<close>

lemma foldl_pair: "foldl f s (xs @ ys) = foldl f (foldl f s xs) ys"
  by simp

definition drives ::
  "('w, 'p, 's, 'd, 'e, 'u) catalog_lib \<Rightarrow> (('w, 'd, 'e) worker_event \<Rightarrow> bool) \<Rightarrow> 'e catalog \<times> ('w, 's, 'd) backend
     \<Rightarrow> 'e catalog \<times> ('w, 's, 'd) backend \<Rightarrow> bool" where
  "drives CA ok s s' \<longleftrightarrow> (\<exists>evs. list_all ok evs \<and> s' = foldl (exec_worker CA) s evs)"

lemma drives_refl [intro]: "drives CA ok s s"
  unfolding drives_def by (rule exI [of _ "[]"]) simp

lemma drives_trans [trans]: "drives CA ok s t \<Longrightarrow> drives CA ok t u \<Longrightarrow> drives CA ok s u"
  unfolding drives_def by (metis list_all_append foldl_append)

lemma drives_one: "ok ev \<Longrightarrow> s' = exec_worker CA s ev \<Longrightarrow> drives CA ok s s'"
  unfolding drives_def by (rule exI [of _ "[ev]"]) simp

text \<open>The loads of a turn's three catalog calls.\<close>

definition turn_ok :: "('w \<Rightarrow> string) \<Rightarrow> ('w, 'e) desktop_env \<Rightarrow> bool" where
  "turn_ok source E \<longleftrightarrow> (\<forall>k. loads_only source (ce_load (de_mount E) k)) \<and> (\<forall>k. loads_only source (ce_load (de_tick E) k))"

lemma run_command_drives:
  assumes "turn_ok source E" "run_command CA E cmd k = Some k'"
  shows "drives CA (worker_event_ok source) (dk_catalog k, dk_backend k) (dk_catalog k', dk_backend k')"
proof (cases cmd)
  case (Play path)
  with assms(2) have "(dk_catalog k', dk_backend k') = exec_worker CA (dk_catalog k, dk_backend k) (CatalogMount (de_mount E) (de_media E) path 0)"
    by (auto simp: run_command_def exec_worker_def split: prod.splits)
  with assms(1) show ?thesis by (intro drives_one) (auto simp: worker_event_ok_def turn_ok_def)
next
  case Stop
  with assms(2) have "(dk_catalog k', dk_backend k') = exec_worker CA (dk_catalog k, dk_backend k) (Backend CloseSong)"
    by (auto simp: run_command_def exec_worker_def exec_player_def)
  then show ?thesis by (intro drives_one) (auto simp: worker_event_ok_def)
next
  case (Seek ms)
  with assms(2) have "(dk_catalog k', dk_backend k') = exec_worker CA (dk_catalog k, dk_backend k) (Backend (SeekTo ms))"
    by (auto simp: run_command_def exec_worker_def exec_player_def split: prod.splits option.splits)
  then show ?thesis by (intro drives_one) (auto simp: worker_event_ok_def)
next
  case Status
  with assms(2) show ?thesis by (auto simp: run_command_def)
next
  case Check
  with assms(2) have "(dk_catalog k', dk_backend k') = exec_worker CA (dk_catalog k, dk_backend k) (CatalogCheck (de_check E))"
    by (auto simp: run_command_def exec_worker_def)
  then show ?thesis by (intro drives_one) (auto simp: worker_event_ok_def)
next
  case Quit
  with assms(2) show ?thesis by (simp add: run_command_def)
qed

lemma top_up_drives: "drives CA (worker_event_ok source) (c, be) (c, fst (top_up (ca_host CA) n (be, ring)))"
proof (cases "BUFFERED_SAMPLES \<le> length ring")
  case True
  then show ?thesis by (simp add: top_up_def drives_refl)
next
  case False
  let ?ok = "worker_event_ok source" and ?r = "RenderFrames (frames_wanted (length ring))"
  obtain be' r where ren: "render (ca_host CA) (frames_wanted (length ring)) be = (be', r)" by fastforce
  then have step: "drives CA ?ok (c, be) (c, be')"
    by (intro drives_one [of _ "Backend ?r"]) (auto simp: worker_event_ok_def exec_worker_def exec_player_def)
  have "drives CA ?ok (c, be') (c, close be')"
    by (intro drives_one [of _ "Backend CloseSong"]) (auto simp: worker_event_ok_def exec_worker_def exec_player_def)
  with step False ren show ?thesis by (cases r) (auto simp: top_up_def Let_def intro: drives_trans)
qed

lemma worker_turn_drives:
  assumes ok: "turn_ok source E" and turn: "worker_turn CA E got k = Some k'"
  shows "drives CA (worker_event_ok source) (dk_catalog k, dk_backend k) (dk_catalog k', dk_backend k')"
proof -
  let ?ok = "worker_event_ok source"
  obtain k1 where k1: "(case got of Got cmd \<Rightarrow> run_command CA E cmd k | Empty \<Rightarrow> Some k | Disconnected \<Rightarrow> None) = Some k1"
    using turn by (auto simp: worker_turn_def split: option.splits)
  define be1 where "be1 = (if status (dk_backend k1) = Finished then close (dk_backend k1) else dk_backend k1)"
  obtain c be2 where tick: "catalog_tick CA (de_tick E) (dk_catalog k1, be1) = (c, be2)" by fastforce
  have end': "dk_catalog k' = c" "dk_backend k' = fst (top_up (ca_host CA) (de_drained E) (be2, dk_ring k1))"
    using turn unfolding worker_turn_def k1 by (auto simp: Let_def be1_def [symmetric] tick split: prod.splits)
  have "drives CA ?ok (dk_catalog k, dk_backend k) (dk_catalog k1, dk_backend k1)"
    using k1 run_command_drives [OF ok] by (auto split: received.splits)
  also have "drives CA ?ok (dk_catalog k1, dk_backend k1) (dk_catalog k1, be1)"
    using drives_one [of ?ok "Backend CloseSong" "(dk_catalog k1, be1)" CA "(dk_catalog k1, dk_backend k1)"]
    by (auto simp: be1_def worker_event_ok_def exec_worker_def exec_player_def)
  also have "drives CA ?ok (dk_catalog k1, be1) (c, be2)"
    using ok tick by (intro drives_one [of _ "CatalogTick (de_tick E)"]) (auto simp: worker_event_ok_def turn_ok_def exec_worker_def)
  also have "drives CA ?ok (c, be2) (dk_catalog k', dk_backend k')" unfolding end' by (rule top_up_drives)
  finally show ?thesis .
qed

text \<open>
  C27: Every run of the desktop worker is a run of the catalog's and the backend's own operations,
  none of which swaps the decoders behind the catalog's back; so at every moment the decoders that
  play are those of the generation the catalog reports as active.
\<close>

theorem desktop_plays_active_set:
  fixes CA :: "('w, 'p, 's, 'd, 'e, 'u) catalog_lib" and rep :: "'w load_report"
  assumes new: "catalog_new CA l il net now rd conf e f ts = Inr c" and empty: "lr_plugins rep = []"
    and run: "reachable (\<lambda>k. k = desktop_start CA rep viz c) (desktop_step CA (turn_ok source)) k"
  shows "(\<exists>evs. list_all (worker_event_ok source) evs
      \<and> (dk_catalog k, dk_backend k) = foldl (exec_worker CA) (c, dk_backend (desktop_start CA rep viz c)) evs)
    \<and> (case active_generation (dk_catalog k) of
         None \<Rightarrow> be_plugins (dk_backend k) = []
       | Some ident \<Rightarrow> \<forall>w \<in> set (be_plugins (dk_backend k)). \<exists>a.
           source w = path_join (payload_dir (path_join (cc_root conf) ''payloads'') ident) (library_name (ca_payload CA) a))"
proof -
  have drv: "drives CA (worker_event_ok source) (c, dk_backend (desktop_start CA rep viz c)) (dk_catalog k, dk_backend k)"
    using run
  proof (induction rule: reachable.induct)
    case (reachable_init k)
    then show ?case by (auto simp: desktop_start_def)
  next
    case (reachable_step k k')
    from this(2) have "drives CA (worker_event_ok source) (dk_catalog k, dk_backend k) (dk_catalog k', dk_backend k')"
      by (cases rule: desktop_step.cases) (auto intro: worker_turn_drives)
    with reachable_step.IH show ?case by (rule drives_trans)
  qed
  then obtain evs where evs: "list_all (worker_event_ok source) evs"
    "(dk_catalog k, dk_backend k) = foldl (exec_worker CA) (c, dk_backend (desktop_start CA rep viz c)) evs"
    by (auto simp: drives_def)
  have "resident CA source (path_join (cc_root conf) ''payloads'') (c, dk_backend (desktop_start CA rep viz c))"
    using catalog_new_starts [OF new] by (simp add: desktop_start_def backend_new_def empty)
  from worker_run_resident [OF this evs(1)] evs(2)
  have "resident_set CA source (path_join (cc_root conf) ''payloads'') (cat_loaded (dk_catalog k)) (be_plugins (dk_backend k))"
    by (metis resident_pair)
  with evs show ?thesis by (auto simp: active_generation_def resident_set_def libraries_def split: option.splits)
qed

section \<open>A concrete run\<close>

lemma worker_turn_goes: "\<exists>k'. worker_turn CA E Empty k = Some k'"
  by (auto simp: worker_turn_def Let_def split: prod.split)

definition tone_ca :: "(string, nat, int, unit, nat \<times> nat, nat) catalog_lib" where
  "tone_ca = sample_ca\<lparr>ca_host := path_host\<lparr>h_read := (\<lambda>n s. (s, Inr (unat n, False, replicate (unat n * 2) 7)))\<rparr>\<rparr>"

definition quiet_turn :: "(string, nat \<times> nat) desktop_env" where
  "quiet_turn = \<lparr>de_mount = sample_cenv, de_media = \<lparr>me_opens = True, me_sized = True, me_read = Some 1\<rparr>,
     de_check = sample_cenv, de_tick = sample_cenv, de_drained = 5\<rparr>"

definition empty_report :: "string load_report" where "empty_report = \<lparr>lr_plugins = [], lr_errors = []\<rparr>"

theorem ring_never_overfull_witness:
  "\<exists>k. desktop_step tone_ca (\<lambda>_. True) (desktop_start tone_ca empty_report () sample_catalog) k
    \<and> length (dk_ring k) \<le> 19200"
proof -
  let ?k = "desktop_start tone_ca empty_report () sample_catalog"
  obtain k where "worker_turn tone_ca quiet_turn Empty ?k = Some k" using worker_turn_goes by blast
  then have step: "desktop_step tone_ca (\<lambda>_. True) ?k k" by (auto intro: desktop_step.turn)
  have "reachable (\<lambda>k. \<exists>nothing viz c. k = desktop_start tone_ca nothing viz c) (desktop_step tone_ca (\<lambda>_. True)) k"
    by (rule reachable_step [where step = "desktop_step tone_ca (\<lambda>_. True)", OF reachable_init step]) blast
  moreover have "decoder_fills (ca_host tone_ca)" by (simp add: decoder_fills_def tone_ca_def CHANNELS_def)
  ultimately have "length (dk_ring k) \<le> BUFFERED_SAMPLES" using ring_never_overfull by blast
  with step show ?thesis by (auto simp: BUFFERED_SAMPLES_def SAMPLE_RATE_def CHANNELS_def)
qed

theorem desktop_plays_active_set_witness:
  "\<exists>k. desktop_step sample_ca (turn_ok (\<lambda>w. w)) (desktop_start sample_ca empty_report () sample_catalog) k
    \<and> (active_generation (dk_catalog k) = None \<longrightarrow> be_plugins (dk_backend k) = [])"
proof -
  let ?k = "desktop_start sample_ca empty_report () sample_catalog"
  obtain k where "worker_turn sample_ca quiet_turn Empty ?k = Some k" using worker_turn_goes by blast
  moreover have "turn_ok (\<lambda>w. w) quiet_turn" by (simp add: turn_ok_def quiet_turn_def picky_loads_only)
  ultimately have step: "desktop_step sample_ca (turn_ok (\<lambda>w. w)) ?k k" by (auto intro: desktop_step.turn)
  have run: "reachable (\<lambda>k. k = ?k) (desktop_step sample_ca (turn_ok (\<lambda>w. w))) k"
    by (rule reachable_step [where step = "desktop_step sample_ca (turn_ok (\<lambda>w. w))", OF reachable_init step]) simp
  have "lr_plugins empty_report = []" by (simp add: empty_report_def)
  from desktop_plays_active_set [OF sample_catalog_new this run] step show ?thesis by (auto split: option.splits)
qed

end
