(* ===== verification/Library.thy ===== *)
theory Library
  imports Paths "HOL-Library.List_Lexorder" "HOL-Library.Char_ord" "HOL-Library.Multiset"
begin

text \<open>
  The music library, \<open>crates/library/src/lib.rs\<close>: the rows, what a decoder's metadata puts in them, the
  labels of a path, and the walk that finds the files. A decoder's lengths are floating-point and stay
  abstract: \<open>'n\<close>, with \<open>ms\<close> for \<open>seconds_to_ms\<close>. Texts are ASCII.
\<close>

section \<open>Metadata\<close>

datatype 'n metadata_value = Text string | Number 'n

record 'n metadata_subsong =
  sub_index :: u32
  sub_name :: string
  sub_length :: "'n option"

record 'n track_metadata =
  md_tags :: "(string \<times> 'n metadata_value) list"
  md_subsongs :: "'n metadata_subsong list"
  md_samples :: "string list"
  md_instruments :: "string list"

text \<open>\<open>Iterator::find_map\<close>.\<close>

fun find_map :: "('a \<Rightarrow> 'b option) \<Rightarrow> 'a list \<Rightarrow> 'b option" where
  "find_map g [] = None"
| "find_map g (x # xs) = (case g x of Some y \<Rightarrow> Some y | None \<Rightarrow> find_map g xs)"

definition text_tag :: "'n track_metadata \<Rightarrow> string \<Rightarrow> string option" where
  "text_tag m key = find_map (\<lambda>(k, v). case v of
     Text t \<Rightarrow> if eq_ignore_ascii_case k key then Some t else None | Number _ \<Rightarrow> None) (md_tags m)"

definition number_tag :: "'n track_metadata \<Rightarrow> string \<Rightarrow> 'n option" where
  "number_tag m key = find_map (\<lambda>(k, v). case v of
     Number n \<Rightarrow> if eq_ignore_ascii_case k key then Some n else None | Text _ \<Rightarrow> None) (md_tags m)"

section \<open>Years\<close>

text \<open>\<open>char::to_digit(10).unwrap_or(10)\<close>, and the windows of four.\<close>

definition digit_of :: "char \<Rightarrow> nat" where
  "digit_of c = (case digit_value c of Some d \<Rightarrow> d | None \<Rightarrow> 10)"

fun windows4 :: "nat list \<Rightarrow> nat list list" where
  "windows4 (a # b # c # d # xs) = [a, b, c, d] # windows4 (b # c # d # xs)"
| "windows4 xs = []"

definition year_of :: "string \<Rightarrow> u32" where
  "year_of date = (case List.find (list_all (\<lambda>d. d < 10)) (windows4 (map digit_of date)) of
     None \<Rightarrow> 0 | Some w \<Rightarrow> foldl (\<lambda>acc d. acc * 10 + of_nat d) 0 w)"

section \<open>Rows\<close>

record row =
  row_id :: u32
  row_path :: string
  row_title :: string
  row_composer :: string
  row_group :: string
  row_format :: string
  row_duration_ms :: u32
  row_year :: u32
  row_subsongs :: u32
  row_added :: u64
  row_size :: u64

definition to_upper :: "char \<Rightarrow> char" where
  "to_upper c = (let n = (of_char c :: nat) in if 97 \<le> n \<and> n \<le> 122 then char_of (n - 32) else c)"

definition group_of :: "string \<Rightarrow> string \<Rightarrow> string" where
  "group_of root path =
     (case Option.bind (Option.bind (strip_components root path) parent_components) last_name of
        Some n \<Rightarrow> n | None \<Rightarrow> [])"

definition subsong_count :: "nat \<Rightarrow> u32" where
  "subsong_count n = (let k = max n 1 in if k < 2 ^ 32 then of_nat k else - 1)"

definition apply_metadata :: "('n \<Rightarrow> u32) \<Rightarrow> 'n track_metadata \<Rightarrow> row \<Rightarrow> row" where
  "apply_metadata ms m r0 =
     (let r1 = (case text_tag m ''title'' of
            Some t \<Rightarrow> if trim t \<noteq> [] then r0\<lparr>row_title := trim t\<rparr> else r0 | None \<Rightarrow> r0);
          r2 = (case text_tag m ''artist'' of Some t \<Rightarrow> r1\<lparr>row_composer := trim t\<rparr> | None \<Rightarrow> r1);
          r3 = (case text_tag m ''date'' of Some t \<Rightarrow> r2\<lparr>row_year := year_of t\<rparr> | None \<Rightarrow> r2);
          first = (case md_subsongs m of [] \<Rightarrow> None | s # _ \<Rightarrow> sub_length s)
      in r3\<lparr>row_subsongs := subsong_count (length (md_subsongs m)),
            row_duration_ms := max (case first of Some n \<Rightarrow> ms n | None \<Rightarrow> 0)
              (case number_tag m ''length'' of Some n \<Rightarrow> ms n | None \<Rightarrow> 0)\<rparr>)"

text \<open>\<open>stat\<close>: the file's time, when it has one since the epoch, and its size, when it can be asked.\<close>

definition describe ::
  "('n \<Rightarrow> u32) \<Rightarrow> (u64 option \<times> u64) option \<Rightarrow> u32 \<Rightarrow> string \<Rightarrow> string \<Rightarrow> string \<Rightarrow> 'n track_metadata option \<Rightarrow> row" where
  "describe ms stat ident root path format metadata =
     (let r = \<lparr>row_id = ident, row_path = path, row_title = (case path_stem path of Some s \<Rightarrow> s | None \<Rightarrow> []),
            row_composer = [], row_group = group_of root path, row_format = map to_upper format,
            row_duration_ms = 0, row_year = 0, row_subsongs = 1,
            row_added = (case stat of Some (Some t, _) \<Rightarrow> t | _ \<Rightarrow> 0),
            row_size = (case stat of Some (_, n) \<Rightarrow> n | None \<Rightarrow> 0)\<rparr>
      in case metadata of None \<Rightarrow> r | Some m \<Rightarrow> apply_metadata ms m r)"

section \<open>Labels\<close>

definition file_extension :: "string \<Rightarrow> string" where
  "file_extension path = (case path_extension path of Some e \<Rightarrow> lowercase e | None \<Rightarrow> [])"

definition split_once :: "char \<Rightarrow> string \<Rightarrow> (string \<times> string) option" where
  "split_once c s = (case position (\<lambda>x. x = c) s of None \<Rightarrow> None | Some k \<Rightarrow> Some (take k s, drop (Suc k) s))"

definition dotted_prefix :: "string \<Rightarrow> string" where
  "dotted_prefix path = (case Option.bind (path_name path) (split_once CHR ''.'') of
     Some (head, tail) \<Rightarrow> if head \<noteq> [] \<and> tail \<noteq> [] then lowercase head else [] | None \<Rightarrow> [])"

section \<open>The walk\<close>

text \<open>
  A directory as the file system holds it: whether it can be listed, and its entries, in the order
  the system happens to list them. Links and whatever else is neither file nor directory are alike.
\<close>

datatype fnode = FDir bool "(string \<times> fnode) list" | FFile | FOther

lemma size_entry: "(n, t) \<in> set es \<Longrightarrow> size t < size (FDir ok es)"
proof -
  assume "(n, t) \<in> set es"
  then have "size_prod (\<lambda>_. 0) size (n, t) \<le> size_list (size_prod (\<lambda>_. 0) size) es" by (rule size_list_estimation') simp
  then show ?thesis by simp
qed

function visit :: "string \<Rightarrow> fnode \<Rightarrow> string list" where
  "visit dir (FDir ok es) =
     (if ok then concat (map (\<lambda>e. visit (path_join dir (fst e)) (snd e)) (sort_key fst es)) else [])"
| "visit path FFile = [path]"
| "visit path FOther = []"
  by pat_completeness auto
termination
proof (relation "measure (\<lambda>(_, t). size t)")
  fix dir :: string and ok es and e :: "string \<times> fnode"
  assume "e \<in> set (sort_key fst es)"
  then have "(fst e, snd e) \<in> set es" by simp
  then show "((path_join dir (fst e), snd e), dir, FDir ok es) \<in> measure (\<lambda>(_, t). size t)"
    using size_entry by fastforce
qed simp

text \<open>\<open>walk\<close> lists its root as a directory: a root that is none lists nothing.\<close>

definition walk_library :: "string \<Rightarrow> fnode \<Rightarrow> string list" where
  "walk_library root t = (case t of FDir ok es \<Rightarrow> visit root t | _ \<Rightarrow> [])"

section \<open>What the walk lists\<close>

text \<open>The regular files of a tree, by the names on the way to them.\<close>

inductive file_at :: "fnode \<Rightarrow> string list \<Rightarrow> bool" where
  file_here: "file_at FFile []"
| file_below: "(n, t) \<in> set es \<Longrightarrow> file_at t ns \<Longrightarrow> file_at (FDir True es) (n # ns)"

inductive_simps file_at_simps [simp]: "file_at FFile ns" "file_at FOther ns" "file_at (FDir ok es) ns"

text \<open>No directory holds two entries of one name.\<close>

function named_apart :: "fnode \<Rightarrow> bool" where
  "named_apart (FDir ok es) \<longleftrightarrow> distinct (map fst es) \<and> list_all (\<lambda>e. named_apart (snd e)) es"
| "named_apart FFile \<longleftrightarrow> True"
| "named_apart FOther \<longleftrightarrow> True"
  by pat_completeness auto
termination
proof (relation "measure size")
  fix ok es and e :: "string \<times> fnode"
  assume "e \<in> set es"
  then show "(snd e, FDir ok es) \<in> measure size" using size_entry [of "fst e" "snd e" es ok] by simp
qed simp

text \<open>The walk without its paths: the names on the way to each file, in the order it visits them.\<close>

function names_below :: "fnode \<Rightarrow> string list list" where
  "names_below (FDir ok es) =
     (if ok then concat (map (\<lambda>e. map ((#) (fst e)) (names_below (snd e))) (sort_key fst es)) else [])"
| "names_below FFile = [[]]"
| "names_below FOther = []"
  by pat_completeness auto
termination
proof (relation "measure size")
  fix ok es and e :: "string \<times> fnode"
  assume "e \<in> set (sort_key fst es)"
  then show "(snd e, FDir ok es) \<in> measure size" using size_entry [of "fst e" "snd e" es ok] by simp
qed simp

lemma visit_names: "visit dir t = map (foldl path_join dir) (names_below t)"
proof (induction dir t rule: visit.induct)
  case (1 dir ok es)
  then show ?case by (auto simp: map_concat o_def intro!: arg_cong [where f = concat] map_cong)
qed simp_all

lemma names_below_files: "ns \<in> set (names_below t) \<longleftrightarrow> file_at t ns"
proof (induction t arbitrary: ns rule: names_below.induct)
  case (1 ok es)
  show ?case
  proof (cases ok)
    case True
    then have "ns \<in> set (names_below (FDir ok es)) \<longleftrightarrow> (\<exists>e \<in> set es. \<exists>ms \<in> set (names_below (snd e)). ns = fst e # ms)"
      by auto
    also have "\<dots> \<longleftrightarrow> (\<exists>e \<in> set es. \<exists>ms. file_at (snd e) ms \<and> ns = fst e # ms)"
      using 1 [OF True] by (metis set_sort)
    also have "\<dots> \<longleftrightarrow> file_at (FDir ok es) ns" using True by (auto simp: split_paired_all) (metis fst_conv snd_conv)
    finally show ?thesis .
  qed simp
qed simp_all

text \<open>Visiting entries in the order of their names visits files in the order of their paths.\<close>

lemma sorted_wrt_concat:
  "\<forall>ys \<in> set yss. sorted_wrt P ys \<Longrightarrow> sorted_wrt (\<lambda>xs ys. \<forall>x \<in> set xs. \<forall>y \<in> set ys. P x y) yss \<Longrightarrow> sorted_wrt P (concat yss)"
  by (induction yss) (auto simp: sorted_wrt_append)

lemma names_below_sorted: "named_apart t \<Longrightarrow> sorted_wrt (<) (names_below t)"
proof (induction t rule: names_below.induct)
  case (1 ok es)
  let ?es = "sort_key fst es"
  have "sorted_wrt (<) (map fst ?es)" using 1(2) by (simp add: strict_sorted_iff distinct_map)
  then have "sorted_wrt (\<lambda>xs ys. \<forall>x \<in> set xs. \<forall>y \<in> set ys. x < y) (map (\<lambda>e. map ((#) (fst e)) (names_below (snd e))) ?es)"
    by (auto simp: sorted_wrt_map elim!: sorted_wrt_mono_rel [rotated])
  moreover have "sorted_wrt (<) (map ((#) (fst e)) (names_below (snd e)))" if "e \<in> set ?es" "ok" for e
    using 1(1) [OF that(2,1)] 1(2) that(1) by (auto simp: list_all_iff sorted_wrt_map)
  ultimately show ?case by (auto intro!: sorted_wrt_concat)
qed simp_all

text \<open>
  C29: The walk lists exactly the regular files beneath its root that can be reached, each once and in the
  order of their paths' names, whatever order the system lists directories in.
\<close>

theorem walk_is_sorted_files:
  assumes "named_apart t"
  shows "walk_library root t = map (foldl path_join root) (sorted_list_of_set {ns. ns \<noteq> [] \<and> file_at t ns})"
proof (cases t)
  case (FDir ok es)
  have files: "{ns. file_at t ns} = set (names_below t)" using names_below_files [of _ t] by blast
  have "sorted_list_of_set {ns. file_at t ns} = names_below t"
    unfolding files using names_below_sorted [OF assms] by (simp add: strict_sorted_iff sorted_list_of_set.idem_if_sorted_distinct)
  moreover have "{ns. ns \<noteq> [] \<and> file_at t ns} = {ns. file_at t ns}" using FDir by auto
  ultimately show ?thesis using FDir by (simp add: walk_library_def visit_names)
next
  case FFile
  then have "{ns. ns \<noteq> [] \<and> file_at t ns} = {}" by auto
  with FFile show ?thesis by (simp only: walk_library_def) simp
qed (simp add: walk_library_def)

definition sample_tree :: fnode where
  "sample_tree = FDir True [(''b'', FDir True [(''y.it'', FFile), (''inner'', FDir True [(''z.mod'', FFile)])]),
     (''link'', FOther), (''a.xm'', FFile), (''shut'', FDir False [(''c.it'', FFile)])]"

theorem walk_is_sorted_files_witness:
  "named_apart sample_tree
   \<and> map (foldl path_join ''m'') (sorted_list_of_set {ns. ns \<noteq> [] \<and> file_at sample_tree ns})
       = [''m/a.xm'', ''m/b/inner/z.mod'', ''m/b/y.it'']"
proof -
  have apart: "named_apart sample_tree" by (simp add: sample_tree_def)
  moreover have "walk_library ''m'' sample_tree = [''m/a.xm'', ''m/b/inner/z.mod'', ''m/b/y.it'']" by code_simp
  ultimately show ?thesis using walk_is_sorted_files [OF apart, of "''m''"] by simp
qed

end
