(* ===== verification/Present.thy ===== *)
theory Present
  imports Prelude
begin

text \<open>
  The presentation core, \<open>crates/present/src/lib.rs\<close>: the polyline of a scope channel, the pattern grid with
  the window it was last filled from, and the level meters. Samples and levels are numbers \<open>'f\<close> of an
  ordered type; what the code computes with them is the record \<open>float_ops\<close>, so rounding is whatever the
  machine's is, and a NaN is not a number here. A snapshot is what the third-party host hands out.
\<close>

section \<open>Numbers and snapshots\<close>

record 'f float_ops =
  fo_zero :: 'f
  fo_one :: 'f
  fo_neg_one :: 'f
  fo_abs :: "'f \<Rightarrow> 'f"
  fo_sub :: "'f \<Rightarrow> 'f \<Rightarrow> 'f"
  fo_ratio :: "nat \<Rightarrow> nat \<Rightarrow> 'f"

definition clamp :: "'f::linorder \<Rightarrow> 'f \<Rightarrow> 'f \<Rightarrow> 'f" where
  "clamp lo hi x = (if x < lo then lo else if hi < x then hi else x)"

record tracker =
  tk_order :: u32
  tk_pattern :: u32
  tk_row :: u32
  tk_window_lo :: u32
  tk_window_hi :: u32

record 'f viz_snapshot =
  sn_position :: "tracker option"
  sn_cells :: "bytes list"
  sn_vu :: "'f list"
  sn_scopes :: "'f list list"

definition sn_scope :: "'f viz_snapshot \<Rightarrow> nat \<Rightarrow> 'f list" where
  "sn_scope s channel = (if channel < length (sn_scopes s) then sn_scopes s ! channel else [])"

section \<open>Scope traces\<close>

record 'f scope_trace =
  tr_points :: "('f \<times> 'f) list"
  tr_len :: nat

definition trace_new :: "'f float_ops \<Rightarrow> nat \<Rightarrow> 'f scope_trace" where
  "trace_new F capacity = \<lparr>tr_points = replicate (max capacity 2) (fo_zero F, fo_zero F), tr_len = 0\<rparr>"

definition trace_capacity :: "'f scope_trace \<Rightarrow> nat" where "trace_capacity t = length (tr_points t)"

definition trace_points :: "'f scope_trace \<Rightarrow> ('f \<times> 'f) list" where "trace_points t = take (tr_len t) (tr_points t)"

text \<open>The samples point \<open>i\<close> of \<open>n\<close> stands for, and the one of largest magnitude among them.\<close>

definition bucket_lo :: "nat \<Rightarrow> nat \<Rightarrow> 'f list \<Rightarrow> nat" where "bucket_lo n i xs = i * length xs div n"

definition bucket_hi :: "nat \<Rightarrow> nat \<Rightarrow> 'f list \<Rightarrow> nat" where
  "bucket_hi n i xs = max ((i + 1) * length xs div n) (bucket_lo n i xs + 1)"

definition bucket :: "nat \<Rightarrow> nat \<Rightarrow> 'f list \<Rightarrow> 'f list" where
  "bucket n i xs = take (bucket_hi n i xs - bucket_lo n i xs) (drop (bucket_lo n i xs) xs)"

definition peak :: "'f::linorder float_ops \<Rightarrow> 'f list \<Rightarrow> 'f" where
  "peak F xs = foldl (\<lambda>best s. if fo_abs F best < fo_abs F s then s else best) (fo_zero F) xs"

definition trace_fill :: "'f::linorder float_ops \<Rightarrow> 'f list \<Rightarrow> 'f scope_trace \<Rightarrow> 'f scope_trace" where
  "trace_fill F samples t =
     (if samples = [] then
        t\<lparr>tr_points := (tr_points t)[0 := (fo_zero F, fo_zero F), 1 := (fo_one F, fo_zero F)], tr_len := 2\<rparr>
      else
        (let n = min (length samples) (length (tr_points t)); final = max (n - 1) 1;
             point = (\<lambda>i. (fo_ratio F i final, clamp (fo_neg_one F) (fo_one F) (peak F (bucket n i samples))))
         in t\<lparr>tr_points := map point [0..<n] @ drop n (tr_points t), tr_len := n\<rparr>))"

definition trace_copy_from :: "'f scope_trace \<Rightarrow> 'f scope_trace \<Rightarrow> 'f scope_trace" where
  "trace_copy_from other t =
     (let src = trace_points other; n = min (length src) (length (tr_points t))
      in t\<lparr>tr_points := take n src @ drop n (tr_points t), tr_len := n\<rparr>)"

definition trace_fill_from :: "'f::linorder float_ops \<Rightarrow> 'f viz_snapshot \<Rightarrow> nat \<Rightarrow> 'f scope_trace \<Rightarrow> 'f scope_trace" where
  "trace_fill_from F s channel t = trace_fill F (sn_scope s channel) t"

section \<open>The pattern grid\<close>

datatype column_kind = NoteColumn | InstrumentColumn | VolumeColumn | EffectColumn | ParamColumn | CustomColumn

datatype cell_class = EmptyCell | NoteCell | NoteOffCell | InstrumentCell | VolumeCell | EffectCell | ParamCell | CustomCell

fun class_code :: "cell_class \<Rightarrow> u8" where
  "class_code EmptyCell = 0"
| "class_code NoteCell = 1"
| "class_code NoteOffCell = 2"
| "class_code InstrumentCell = 3"
| "class_code VolumeCell = 4"
| "class_code EffectCell = 5"
| "class_code ParamCell = 6"
| "class_code CustomCell = 7"

text \<open>Blank is NUL, dot, space or dash; a note that starts with \<open>=\<close>, \<open>^\<close>, \<open>~\<close> or \<open>#\<close> is no pitch.\<close>

definition blank_text :: "bytes \<Rightarrow> bool" where
  "blank_text text \<longleftrightarrow> list_all (\<lambda>b. b = 0 \<or> b = 0x2E \<or> b = 0x20 \<or> b = 0x2D) text"

definition class_of :: "column_kind \<Rightarrow> bytes \<Rightarrow> cell_class" where
  "class_of kind text =
     (if blank_text text then EmptyCell
      else (case kind of
          NoteColumn \<Rightarrow> if hd text \<in> {0x3D, 0x5E, 0x7E, 0x23} then NoteOffCell else NoteCell
        | InstrumentColumn \<Rightarrow> InstrumentCell
        | VolumeColumn \<Rightarrow> VolumeCell
        | EffectColumn \<Rightarrow> EffectCell
        | ParamColumn \<Rightarrow> ParamCell
        | CustomColumn \<Rightarrow> CustomCell))"

record grid_cell =
  gc_class :: u8
  gc_text :: bytes

definition cell_default :: grid_cell where
  "cell_default = \<lparr>gc_class = class_code EmptyCell, gc_text = replicate 16 0\<rparr>"

record grid_column =
  co_width :: u8
  co_kind :: column_kind

record pattern_grid =
  pg_columns :: "grid_column list"
  pg_channels :: nat
  pg_cells :: "grid_cell list"
  pg_rows :: nat
  pg_window_lo :: u32
  pg_cursor :: u32
  pg_key :: "(u32 \<times> u32 \<times> u32) option"

definition grid_new :: "nat \<Rightarrow> grid_column list \<Rightarrow> nat \<Rightarrow> pattern_grid" where
  "grid_new channels columns row_budget =
     \<lparr>pg_columns = columns, pg_channels = channels,
      pg_cells = replicate (row_budget * channels * length columns) cell_default,
      pg_rows = 0, pg_window_lo = 0, pg_cursor = 0, pg_key = None\<rparr>"

definition grid_empty :: pattern_grid where "grid_empty = grid_new 0 [] 0"

definition stride :: "pattern_grid \<Rightarrow> nat" where "stride g = pg_channels g * length (pg_columns g)"

definition window_hi :: "pattern_grid \<Rightarrow> u32" where
  "window_hi g = sat_add (pg_window_lo g) (if pg_rows g < 2 ^ 32 then of_nat (pg_rows g) else - 1)"

definition grid_cells :: "pattern_grid \<Rightarrow> grid_cell list" where
  "grid_cells g = take (pg_rows g * stride g) (pg_cells g)"

definition grid_row :: "pattern_grid \<Rightarrow> u32 \<Rightarrow> grid_cell list option" where
  "grid_row g row =
     (if row < pg_window_lo g then None
      else (let index = unat (row - pg_window_lo g)
        in if pg_rows g \<le> index then None else Some (take (stride g) (drop (index * stride g) (pg_cells g)))))"

text \<open>\<open>columns_fitting\<close>: the loop over the columns, with the characters used and the columns counted.\<close>

fun fit_columns :: "nat \<Rightarrow> nat \<Rightarrow> nat \<Rightarrow> grid_column list \<Rightarrow> nat" where
  "fit_columns chars used fit [] = fit"
| "fit_columns chars used fit (c # cs) =
     (let need = unat (co_width c) + (if 0 < fit then 1 else 0)
      in if 0 < fit \<and> chars < used + need then fit else fit_columns chars (used + need) (fit + 1) cs)"

definition columns_fitting :: "pattern_grid \<Rightarrow> nat \<Rightarrow> nat" where
  "columns_fitting g chars = fit_columns chars 0 0 (pg_columns g)"

definition grid_load :: "u32 \<Rightarrow> u32 \<Rightarrow> bytes list \<Rightarrow> pattern_grid \<Rightarrow> pattern_grid" where
  "grid_load lo cursor cells g =
     (let rows = (if stride g = 0 then 0 else min (length cells div stride g) (length (pg_cells g) div stride g));
          put = (\<lambda>i. \<lparr>gc_class = class_code (class_of (co_kind (pg_columns g ! (i mod length (pg_columns g)))) (cells ! i)),
                      gc_text = cells ! i\<rparr>)
      in g\<lparr>pg_cursor := cursor, pg_window_lo := lo, pg_rows := rows,
           pg_cells := map put [0..<rows * stride g] @ drop (rows * stride g) (pg_cells g)\<rparr>)"

definition grid_fill_from :: "'f viz_snapshot \<Rightarrow> pattern_grid \<Rightarrow> pattern_grid \<times> bool" where
  "grid_fill_from s g = (case sn_position s of
       None \<Rightarrow> (g\<lparr>pg_rows := 0, pg_key := None\<rparr>, 0 < pg_rows g)
     | Some p \<Rightarrow>
         let g1 = g\<lparr>pg_cursor := tk_row p\<rparr>; key = (tk_pattern p, tk_window_lo p, tk_window_hi p)
         in if pg_key g1 = Some key then (g1, False)
            else (grid_load (tk_window_lo p) (tk_row p) (sn_cells s) (g1\<lparr>pg_key := Some key\<rparr>), True))"

definition grid_copy_from :: "pattern_grid \<Rightarrow> pattern_grid \<Rightarrow> pattern_grid" where
  "grid_copy_from other g =
     (let src = grid_cells other; n = min (length src) (length (pg_cells g))
      in g\<lparr>pg_cells := take n src @ drop n (pg_cells g),
           pg_rows := (if stride g = 0 then 0 else n div stride g),
           pg_window_lo := pg_window_lo other, pg_cursor := pg_cursor other, pg_key := pg_key other\<rparr>)"

text \<open>\<open>copy_rows\<close> into a block of cells: the block after, and how many cells were written.\<close>

definition grid_copy_rows :: "u32 \<Rightarrow> u32 \<Rightarrow> grid_cell list \<Rightarrow> pattern_grid \<Rightarrow> grid_cell list \<times> nat" where
  "grid_copy_rows lo hi out g =
     (if stride g = 0 \<or> hi \<le> lo then (out, 0)
      else (let rows = min (unat (hi - lo)) (length out div stride g);
                chunk = (\<lambda>i. case grid_row g (sat_add lo (if i < 2 ^ 32 then of_nat i else - 1)) of
                    Some src \<Rightarrow> src | None \<Rightarrow> replicate (stride g) cell_default)
        in (concat (map chunk [0..<rows]) @ drop (rows * stride g) out, rows * stride g)))"

section \<open>Level meters\<close>

record 'f vu_meter =
  vu_all :: "'f list"
  vu_len :: nat
  vu_fall :: 'f

definition vu_new :: "'f::linorder float_ops \<Rightarrow> nat \<Rightarrow> 'f \<Rightarrow> 'f vu_meter" where
  "vu_new F capacity fall =
     \<lparr>vu_all = replicate (max capacity 1) (fo_zero F), vu_len = 0, vu_fall = max fall (fo_zero F)\<rparr>"

definition vu_levels :: "'f vu_meter \<Rightarrow> 'f list" where "vu_levels m = take (vu_len m) (vu_all m)"

text \<open>One level against one reading.\<close>

definition vu_level :: "'f::linorder float_ops \<Rightarrow> 'f \<Rightarrow> 'f \<Rightarrow> 'f \<Rightarrow> 'f" where
  "vu_level F fall level reading = (if level \<le> reading then reading else max (fo_sub F level fall) reading)"

definition vu_apply :: "'f::linorder float_ops \<Rightarrow> 'f list \<Rightarrow> 'f vu_meter \<Rightarrow> 'f vu_meter" where
  "vu_apply F readings m =
     (let n = min (length readings) (length (vu_all m))
      in m\<lparr>vu_all := map2 (vu_level F (vu_fall m)) (take n (vu_all m)) (take n readings) @ drop n (vu_all m), vu_len := n\<rparr>)"

definition vu_tick :: "'f::linorder float_ops \<Rightarrow> 'f list \<Rightarrow> 'f vu_meter \<Rightarrow> 'f vu_meter" where
  "vu_tick F readings m = vu_apply F (map (clamp (fo_zero F) (fo_one F)) readings) m"

definition scope_reading :: "'f::linorder float_ops \<Rightarrow> 'f list \<Rightarrow> 'f" where
  "scope_reading F xs = clamp (fo_zero F) (fo_one F) (foldl (\<lambda>p s. max p (fo_abs F s)) (fo_zero F) xs)"

definition vu_tick_from :: "'f::linorder float_ops \<Rightarrow> 'f viz_snapshot \<Rightarrow> 'f vu_meter \<Rightarrow> 'f vu_meter" where
  "vu_tick_from F s m =
     (if sn_vu s \<noteq> [] then vu_tick F (sn_vu s) m
      else vu_apply F (map (scope_reading F) (sn_scopes s)) m)"

definition vu_clear :: "'f float_ops \<Rightarrow> 'f vu_meter \<Rightarrow> 'f vu_meter" where
  "vu_clear F m = m\<lparr>vu_all := map (\<lambda>_. fo_zero F) (vu_all m), vu_len := 0\<rparr>"

section \<open>Buckets\<close>

lemma slices_join:
  "(\<And>i. f i \<le> f (Suc i)) \<Longrightarrow> f 0 = 0 \<Longrightarrow> concat (map (\<lambda>i. take (f (Suc i) - f i) (drop (f i) xs)) [0..<n]) = take (f n) xs"
proof (induction n)
  case (Suc n)
  have "take (f n) xs @ take (f (Suc n) - f n) (drop (f n) xs) = take (f n + (f (Suc n) - f n)) xs" by (simp add: take_add)
  with Suc show ?case by simp
qed simp

lemma bucket_hi_next: "0 < n \<Longrightarrow> n \<le> length xs \<Longrightarrow> bucket_hi n i xs = bucket_lo n (Suc i) xs"
proof -
  assume n: "0 < n" "n \<le> length xs"
  have "i * length xs div n + 1 = (i * length xs + n) div n" using n(1) by (simp add: div_add_self2)
  also have "\<dots> \<le> (i * length xs + length xs) div n" using n(2) by (intro div_le_mono) simp
  finally show ?thesis by (simp add: bucket_hi_def bucket_lo_def max_def add.commute)
qed

lemma bucket_range:
  assumes "0 < n" "n \<le> length xs" "i < n"
  shows "bucket_lo n i xs < bucket_hi n i xs" "bucket_hi n i xs \<le> length xs"
proof -
  show "bucket_lo n i xs < bucket_hi n i xs" by (simp add: bucket_hi_def)
  have "(i + 1) * length xs div n \<le> n * length xs div n" using assms(3) by (intro div_le_mono mult_le_mono) simp_all
  also have "n * length xs div n = length xs" using assms(1) by simp
  finally show "bucket_hi n i xs \<le> length xs" by (simp add: bucket_hi_next [OF assms(1,2)] bucket_lo_def)
qed

lemma buckets_partition: "0 < n \<Longrightarrow> n \<le> length xs \<Longrightarrow> concat (map (\<lambda>i. bucket n i xs) [0..<n]) = xs"
  using slices_join [of "\<lambda>i. bucket_lo n i xs" xs n]
  by (simp add: bucket_def bucket_hi_next) (simp add: bucket_lo_def div_le_mono)

lemma peak_from:
  fixes F :: "('f::linorder) float_ops"
  defines "louder \<equiv> \<lambda>best s. if fo_abs F best < fo_abs F s then s else best"
  shows "foldl louder b xs \<in> insert b (set xs) \<and> fo_abs F b \<le> fo_abs F (foldl louder b xs)
    \<and> (\<forall>s \<in> set xs. fo_abs F s \<le> fo_abs F (foldl louder b xs))"
proof (induction xs arbitrary: b)
  case (Cons x xs)
  have "fo_abs F b \<le> fo_abs F (louder b x)" "fo_abs F x \<le> fo_abs F (louder b x)" "louder b x \<in> {b, x}" by (auto simp: louder_def)
  with Cons [of "louder b x"] show ?case by auto
qed simp

lemma peak_max: "peak F xs \<in> insert (fo_zero F) (set xs)" "s \<in> set xs \<Longrightarrow> fo_abs F s \<le> fo_abs F (peak F xs)"
  using peak_from [of F "fo_zero F" xs] by (simp_all add: peak_def)

text \<open>
  C30: A filled trace has a point for each of as many equal runs of samples as fit its capacity; the runs
  cover all samples in order, none is empty, and every point shows a sample of its run no quieter than
  any other, so no transient is lost.
\<close>

theorem trace_keeps_peaks:
  fixes F :: "('f::linorder) float_ops"
  assumes "samples \<noteq> []" "2 \<le> trace_capacity t"
  defines "n \<equiv> min (length samples) (trace_capacity t)" and "t' \<equiv> trace_fill F samples t"
  shows "length (trace_points t') = n \<and> trace_capacity t' = trace_capacity t
    \<and> concat (map (\<lambda>i. bucket n i samples) [0..<n]) = samples
    \<and> (\<forall>i < n. bucket n i samples \<noteq> [] \<and> bucket_hi n i samples \<le> length samples
        \<and> (\<exists>y \<in> insert (fo_zero F) (set (bucket n i samples)).
             snd (trace_points t' ! i) = clamp (fo_neg_one F) (fo_one F) y
             \<and> (\<forall>s \<in> set (bucket n i samples). fo_abs F s \<le> fo_abs F y)))"
proof -
  from assms have n: "0 < n" "n \<le> length samples" by (auto simp: n_def)
  have pts: "trace_points t' = map (\<lambda>i. (fo_ratio F i (max (n - 1) 1), clamp (fo_neg_one F) (fo_one F) (peak F (bucket n i samples)))) [0..<n]"
    and cap: "trace_capacity t' = trace_capacity t"
    using assms(1) by (simp_all add: t'_def trace_fill_def trace_points_def trace_capacity_def n_def Let_def)
  have "bucket n i samples \<noteq> [] \<and> bucket_hi n i samples \<le> length samples" if "i < n" for i
    using bucket_range [OF n that] by (auto simp: bucket_def)
  moreover have "\<exists>y \<in> insert (fo_zero F) (set (bucket n i samples)). snd (trace_points t' ! i) = clamp (fo_neg_one F) (fo_one F) y
      \<and> (\<forall>s \<in> set (bucket n i samples). fo_abs F s \<le> fo_abs F y)" if "i < n" for i
    using that by (intro bexI [OF _ peak_max(1)]) (simp add: pts peak_max(2))
  ultimately show ?thesis using cap buckets_partition [OF n] by (simp add: pts)
qed

section \<open>Windows\<close>

text \<open>What every grid keeps: its window fits the cells it holds.\<close>

definition grid_ok :: "pattern_grid \<Rightarrow> bool" where "grid_ok g \<longleftrightarrow> pg_rows g * stride g \<le> length (pg_cells g)"

lemma stride_simps [simp]:
  "stride (g\<lparr>pg_cells := a\<rparr>) = stride g" "stride (g\<lparr>pg_rows := b\<rparr>) = stride g" "stride (g\<lparr>pg_window_lo := c\<rparr>) = stride g"
  "stride (g\<lparr>pg_cursor := d\<rparr>) = stride g" "stride (g\<lparr>pg_key := e\<rparr>) = stride g"
  by (simp_all add: stride_def)

lemma grid_ok_new [simp]: "grid_ok (grid_new channels columns budget)" by (simp add: grid_ok_def grid_new_def)

lemma grid_load_ok: "grid_ok (grid_load lo cursor cells g)"
proof (cases "stride g = 0")
  case False
  let ?rows = "min (length cells div stride g) (length (pg_cells g) div stride g)"
  have "?rows * stride g \<le> length (pg_cells g)" by (meson div_times_less_eq_dividend le_trans min.cobounded2 mult_le_mono1)
  then show ?thesis using False by (simp add: grid_ok_def grid_load_def Let_def)
qed (simp add: grid_ok_def grid_load_def Let_def)

lemma grid_fill_ok: "grid_ok g \<Longrightarrow> grid_ok (fst (grid_fill_from s g))"
  using grid_load_ok by (auto simp: grid_fill_from_def Let_def grid_ok_def split: option.split)

lemma grid_copy_ok: "grid_ok (grid_copy_from other g)"
  by (auto simp: grid_ok_def grid_copy_from_def Let_def intro: le_trans [OF div_times_less_eq_dividend])

lemma concat_blocks:
  "(\<And>i. i < n \<Longrightarrow> length (f i) = k) \<Longrightarrow> length (concat (map f [0..<n])) = n * k
     \<and> (\<forall>i < n. \<forall>j < k. concat (map f [0..<n]) ! (i * k + j) = f i ! j)"
proof (induction n)
  case (Suc n)
  then have len: "length (concat (map f [0..<n])) = n * k"
    and at: "\<forall>i < n. \<forall>j < k. concat (map f [0..<n]) ! (i * k + j) = f i ! j" and fn: "length (f n) = k" by auto
  have "(concat (map f [0..<n]) @ f n) ! (i * k + j) = f i ! j" if "i < Suc n" "j < k" for i j
  proof (cases "i = n")
    case True
    then show ?thesis using len by (simp add: nth_append)
  next
    case False
    with that have "i < n" by simp
    then have "(i + 1) * k \<le> n * k" by (intro mult_le_mono1) simp
    with that have "i * k + j < n * k" by simp
    then show ?thesis using len at \<open>i < n\<close> that by (simp add: nth_append)
  qed
  then show ?case using len fn by simp
qed simp

lemma grid_row_length: "grid_ok g \<Longrightarrow> grid_row g r = Some src \<Longrightarrow> length src = stride g"
proof -
  assume ok: "grid_ok g" and src: "grid_row g r = Some src"
  let ?i = "unat (r - pg_window_lo g)"
  from src have i: "?i < pg_rows g" and s: "src = take (stride g) (drop (?i * stride g) (pg_cells g))"
    by (auto simp: grid_row_def Let_def split: if_splits)
  from i have "(?i + 1) * stride g \<le> pg_rows g * stride g" by (intro mult_le_mono1) simp
  also have "\<dots> \<le> length (pg_cells g)" using ok by (simp add: grid_ok_def)
  finally show ?thesis by (simp add: s)
qed

lemma grid_row_in_window:
  "grid_row g r = (if unat (pg_window_lo g) \<le> unat r \<and> unat r < unat (pg_window_lo g) + pg_rows g
     then Some (take (stride g) (drop ((unat r - unat (pg_window_lo g)) * stride g) (pg_cells g))) else None)"
  by (auto simp: grid_row_def Let_def word_less_nat_alt word_le_nat_alt unat_sub)

text \<open>
  Asked for rows, a grid fills whole rows of the block and nothing beyond it: every cell of a row
  inside the window is the decoder's, every other one is blank, and what is left of the block is as it
  was, whatever the window and however small the block.
\<close>

theorem copy_rows_shows_window:
  assumes ok: "grid_ok g" and str: "0 < stride g" and lohi: "lo < hi" and copy: "grid_copy_rows lo hi out g = (out', written)"
  defines "rows \<equiv> min (unat hi - unat lo) (length out div stride g)"
  shows "written = rows * stride g \<and> length out' = length out \<and> drop written out' = drop written out
    \<and> (\<forall>i < rows. \<forall>j < stride g. out' ! (i * stride g + j) =
        (if unat (pg_window_lo g) \<le> unat lo + i \<and> unat lo + i < unat (pg_window_lo g) + pg_rows g
         then pg_cells g ! ((unat lo + i - unat (pg_window_lo g)) * stride g + j) else cell_default))"
proof -
  define chunk where "chunk = (\<lambda>i. case grid_row g (sat_add lo (if i < 2 ^ 32 then of_nat i else - 1)) of
      Some src \<Rightarrow> src | None \<Rightarrow> replicate (stride g) cell_default)"
  have gap: "unat (hi - lo) = unat hi - unat lo" using lohi by (simp add: unat_sub word_less_nat_alt word_le_nat_alt)
  from lohi have "\<not> hi \<le> lo" by simp
  with copy str have out: "out' = concat (map chunk [0..<rows]) @ drop (rows * stride g) out" and w: "written = rows * stride g"
    by (auto simp: grid_copy_rows_def Let_def chunk_def rows_def gap)
  have "rows * stride g \<le> length out" unfolding rows_def by (meson div_times_less_eq_dividend le_trans min.cobounded2 mult_le_mono1)
  moreover have "length (chunk i) = stride g" for i
    using grid_row_length [OF ok] by (auto simp: chunk_def split: option.split)
  note blocks = concat_blocks [of rows chunk "stride g", OF this]
  ultimately have len: "length out' = length out" "drop written out' = drop written out"
    by (auto simp: out w)
  have cell: "out' ! (i * stride g + j) = chunk i ! j" if "i < rows" "j < stride g" for i j
  proof -
    from that have "(i + 1) * stride g \<le> rows * stride g" by (intro mult_le_mono1) simp
    with that have "i * stride g + j < rows * stride g" by simp
    with that blocks show ?thesis by (simp add: out nth_append)
  qed
  have "chunk i ! j = (if unat (pg_window_lo g) \<le> unat lo + i \<and> unat lo + i < unat (pg_window_lo g) + pg_rows g
      then pg_cells g ! ((unat lo + i - unat (pg_window_lo g)) * stride g + j) else cell_default)"
    if ij: "i < rows" "j < stride g" for i j
  proof -
    have "unat lo + i < 2 ^ 32" using ij(1) unsigned_less [of hi, where 'a = nat] by (auto simp: rows_def less_diff_conv)
    then have "unat (sat_add lo (if i < 2 ^ 32 then of_nat i else - 1)) = unat lo + i"
      by (simp add: unat_sat_add unat_of_nat_small)
    then obtain r where at: "unat r = unat lo + i"
      and c: "chunk i = (case grid_row g r of Some src \<Rightarrow> src | None \<Rightarrow> replicate (stride g) cell_default)"
      by (simp add: chunk_def)
    show ?thesis
    proof (cases "unat (pg_window_lo g) \<le> unat lo + i \<and> unat lo + i < unat (pg_window_lo g) + pg_rows g")
      case True
      let ?k = "unat lo + i - unat (pg_window_lo g)"
      from True have "?k + 1 \<le> pg_rows g" by linarith
      then have "(?k + 1) * stride g \<le> pg_rows g * stride g" by (rule mult_le_mono1)
      with ok have "?k * stride g + stride g \<le> length (pg_cells g)" by (simp add: grid_ok_def)
      with True ij(2) show ?thesis by (simp add: c grid_row_in_window at)
    next
      case False
      with ij(2) show ?thesis by (auto simp: c grid_row_in_window at)
    qed
  qed
  with len w cell show ?thesis by simp
qed

section \<open>The cache\<close>

text \<open>What a grid that copied its cells on every capture would do.\<close>

definition fill_always :: "'f viz_snapshot \<Rightarrow> pattern_grid \<Rightarrow> pattern_grid" where
  "fill_always s g = (case sn_position s of
       None \<Rightarrow> g\<lparr>pg_rows := 0, pg_key := None\<rparr>
     | Some p \<Rightarrow> grid_load (tk_window_lo p) (tk_row p) (sn_cells s)
         (g\<lparr>pg_key := Some (tk_pattern p, tk_window_lo p, tk_window_hi p)\<rparr>))"

text \<open>The cells a decoder publishes for a window depend on the pattern and the window alone.\<close>

definition pattern_stable :: "(u32 \<times> u32 \<times> u32 \<Rightarrow> bytes list) \<Rightarrow> 'f viz_snapshot \<Rightarrow> bool" where
  "pattern_stable shown s \<longleftrightarrow> (\<forall>p. sn_position s = Some p \<longrightarrow> sn_cells s = shown (tk_pattern p, tk_window_lo p, tk_window_hi p))"

text \<open>A grid whose cells are those of its key.\<close>

definition cells_current :: "(u32 \<times> u32 \<times> u32 \<Rightarrow> bytes list) \<Rightarrow> pattern_grid \<Rightarrow> bool" where
  "cells_current shown g \<longleftrightarrow> (\<forall>pat lo hi. pg_key g = Some (pat, lo, hi) \<longrightarrow>
     (\<forall>cursor. grid_load lo cursor (shown (pat, lo, hi)) g = g\<lparr>pg_cursor := cursor\<rparr>))"

lemma grid_load_again:
  "grid_load lo cursor cells (grid_load lo before cells g) = (grid_load lo before cells g)\<lparr>pg_cursor := cursor\<rparr>"
proof -
  let ?rows = "if stride g = 0 then 0 else min (length cells div stride g) (length (pg_cells g) div stride g)"
  have "?rows * stride g \<le> length (pg_cells g)"
    by (simp add: min_le_iff_disj) (meson div_times_less_eq_dividend le_trans min.cobounded2 mult_le_mono1)
  then have len: "length (pg_cells (grid_load lo before cells g)) = length (pg_cells g)"
    and str: "stride (grid_load lo before cells g) = stride g"
    by (simp_all add: grid_load_def Let_def)
  show ?thesis
    unfolding grid_load_def [of _ _ _ "grid_load lo before cells g"] len str
    by (simp add: grid_load_def Let_def)
qed

lemma fill_from_always:
  assumes "cells_current shown g" "pattern_stable shown s"
  shows "fst (grid_fill_from s g) = fill_always s g" "cells_current shown (fill_always s g)"
proof -
  show "fst (grid_fill_from s g) = fill_always s g"
  proof (cases "sn_position s")
    case (Some p)
    let ?key = "(tk_pattern p, tk_window_lo p, tk_window_hi p)"
    from assms(2) Some have cells: "sn_cells s = shown ?key" by (simp add: pattern_stable_def)
    show ?thesis
    proof (cases "pg_key g = Some ?key")
      case True
      with assms(1) have "grid_load (tk_window_lo p) (tk_row p) (shown ?key) g = g\<lparr>pg_cursor := tk_row p\<rparr>"
        by (simp add: cells_current_def)
      moreover from True have same: "g\<lparr>pg_key := Some ?key\<rparr> = g" by simp
      ultimately have "fill_always s g = g\<lparr>pg_cursor := tk_row p\<rparr>" using Some by (simp add: fill_always_def cells del: pattern_grid.update_convs)
      with True Some show ?thesis by (simp add: grid_fill_from_def Let_def)
    next
      case False
      with Some show ?thesis by (simp add: grid_fill_from_def fill_always_def Let_def grid_load_def)
    qed
  qed (simp add: grid_fill_from_def fill_always_def)
  show "cells_current shown (fill_always s g)"
  proof (cases "sn_position s")
    case (Some p)
    from assms(2) Some have cells: "sn_cells s = shown (tk_pattern p, tk_window_lo p, tk_window_hi p)" by (simp add: pattern_stable_def)
    have "pg_key (grid_load lo cursor cs h) = pg_key h" for lo cursor cs h by (simp add: grid_load_def Let_def)
    with Some show ?thesis by (simp add: cells_current_def fill_always_def cells grid_load_again)
  qed (simp add: cells_current_def fill_always_def)
qed

lemma fills_always:
  "cells_current shown g \<Longrightarrow> list_all (pattern_stable shown) ss \<Longrightarrow>
   foldl (\<lambda>g s. fst (grid_fill_from s g)) g ss = foldl (\<lambda>g s. fill_always s g) g ss"
  by (induction ss arbitrary: g) (simp_all add: fill_from_always)

text \<open>
  C31: Keeping the cells while pattern and window stay the same is invisible: after any captures, the grid
  is the one that copies its cells on every capture, as long as what a window of a pattern shows does not change.
\<close>

theorem grid_cache_invisible:
  assumes "list_all (pattern_stable shown) ss"
  shows "foldl (\<lambda>g s. fst (grid_fill_from s g)) (grid_new channels columns budget) ss
    = foldl (\<lambda>g s. fill_always s g) (grid_new channels columns budget) ss"
  using assms by (intro fills_always [of shown]) (simp_all add: cells_current_def grid_new_def)

section \<open>Columns and meters\<close>

text \<open>The characters a run of columns takes with a space between each two.\<close>

definition run_width :: "grid_column list \<Rightarrow> nat" where
  "run_width cs = sum_list (map (\<lambda>c. unat (co_width c)) cs) + (length cs - 1)"

lemma run_width_Nil: "run_width [] = 0" by (simp add: run_width_def)

lemma run_width_snoc: "run_width (cs @ [c]) = run_width cs + unat (co_width c) + (if cs = [] then 0 else 1)"
  by (cases cs) (simp_all add: run_width_def)

lemma fit_columns_maximal:
  "\<lbrakk>used = run_width pre; fit = length pre; 1 < fit \<Longrightarrow> used \<le> chars\<rbrakk> \<Longrightarrow>
   (let n = fit_columns chars used fit cs in fit \<le> n \<and> n \<le> fit + length cs \<and> (pre @ cs \<noteq> [] \<longrightarrow> 0 < n)
     \<and> (1 < n \<longrightarrow> run_width (take n (pre @ cs)) \<le> chars)
     \<and> (n < fit + length cs \<longrightarrow> chars < run_width (take (n + 1) (pre @ cs))))"
proof (induction cs arbitrary: pre used fit)
  case (Cons c cs)
  let ?need = "unat (co_width c) + (if 0 < fit then 1 else 0)"
  have w: "run_width (pre @ [c]) = used + ?need" using Cons.prems by (auto simp: run_width_snoc)
  show ?case
  proof (cases "0 < fit \<and> chars < used + ?need")
    case True
    with Cons.prems w show ?thesis by (auto simp: Let_def)
  next
    case False
    with Cons.prems(2) have "1 < fit + 1 \<Longrightarrow> used + ?need \<le> chars" by auto
    from Cons.IH [OF w [symmetric] _ this] Cons.prems(2) False show ?thesis by (auto simp: Let_def)
  qed
qed (auto simp: Let_def)

text \<open>As many leading columns as fit are shown, and always one.\<close>

theorem columns_fitting_maximal:
  "let cs = pg_columns g; n = columns_fitting g chars
   in n \<le> length cs \<and> (cs \<noteq> [] \<longrightarrow> 0 < n) \<and> (1 < n \<longrightarrow> run_width (take n cs) \<le> chars)
     \<and> (n < length cs \<longrightarrow> chars < run_width (take (n + 1) cs))"
  using fit_columns_maximal [of 0 "[]" 0 chars "pg_columns g"]
  by (simp add: columns_fitting_def run_width_Nil Let_def)

text \<open>Subtracting what is not negative from a number does not raise it, and one is above zero.\<close>

definition ordered_ops :: "'f::linorder float_ops \<Rightarrow> bool" where
  "ordered_ops F \<longleftrightarrow> fo_zero F \<le> fo_one F \<and> (\<forall>a b. fo_zero F \<le> b \<longrightarrow> fo_sub F a b \<le> a)"

definition meter_ok :: "'f::linorder float_ops \<Rightarrow> 'f vu_meter \<Rightarrow> bool" where
  "meter_ok F m \<longleftrightarrow> vu_len m \<le> length (vu_all m) \<and> fo_zero F \<le> vu_fall m
     \<and> (\<forall>x \<in> set (vu_all m). fo_zero F \<le> x \<and> x \<le> fo_one F)"

lemma clamp_range: "lo \<le> hi \<Longrightarrow> lo \<le> clamp lo hi x \<and> clamp lo hi x \<le> hi"
  by (auto simp: clamp_def)

lemma vu_apply_ok:
  assumes "ordered_ops F" "meter_ok F m" "\<forall>r \<in> set readings. fo_zero F \<le> r \<and> r \<le> fo_one F"
  shows "meter_ok F (vu_apply F readings m)"
proof -
  have level: "fo_zero F \<le> vu_level F (vu_fall m) l r \<and> vu_level F (vu_fall m) l r \<le> fo_one F"
    if "l \<in> set (vu_all m)" "r \<in> set readings" for l r
  proof -
    from assms(1,2) have "fo_sub F l (vu_fall m) \<le> l" by (simp add: ordered_ops_def meter_ok_def)
    with assms(2,3) that show ?thesis by (auto simp: vu_level_def meter_ok_def max_def)
  qed
  have "x \<in> set (vu_all (vu_apply F readings m)) \<Longrightarrow> fo_zero F \<le> x \<and> x \<le> fo_one F" for x
    using level assms(2) by (auto simp: vu_apply_def Let_def meter_ok_def set_zip dest: in_set_dropD)
  with assms(2) show ?thesis by (simp add: meter_ok_def vu_apply_def Let_def)
qed

lemma vu_steps_ok:
  assumes "ordered_ops F"
  shows "meter_ok F (vu_new F capacity fall)" "meter_ok F m \<Longrightarrow> meter_ok F (vu_tick F readings m)"
    "meter_ok F m \<Longrightarrow> meter_ok F (vu_tick_from F s m)" "meter_ok F m \<Longrightarrow> meter_ok F (vu_clear F m)"
proof -
  have le: "fo_zero F \<le> fo_one F" using assms by (simp add: ordered_ops_def)
  then show "meter_ok F (vu_new F capacity fall)" "meter_ok F m \<Longrightarrow> meter_ok F (vu_clear F m)"
    by (auto simp: meter_ok_def vu_new_def vu_clear_def)
  show "meter_ok F m \<Longrightarrow> meter_ok F (vu_tick F readings m)" for readings
    unfolding vu_tick_def by (rule vu_apply_ok [OF assms]) (auto simp: clamp_range [OF le])
  then show "meter_ok F m \<Longrightarrow> meter_ok F (vu_tick_from F s m)"
    using vu_apply_ok [OF assms, of m "map (scope_reading F) (sn_scopes s)"]
    by (auto simp: vu_tick_from_def scope_reading_def clamp_range [OF le])
qed

section \<open>A concrete capture\<close>

definition milli_ops :: "int float_ops" where
  "milli_ops = \<lparr>fo_zero = 0, fo_one = 1000, fo_neg_one = - 1000, fo_abs = abs, fo_sub = (-), fo_ratio = (\<lambda>i l. int (i * 1000 div l))\<rparr>"

theorem trace_keeps_peaks_witness:
  "map snd (trace_points (trace_fill milli_ops [3, - 700, 20, 5, 1200] (trace_new milli_ops 2))) = [- 700, 1000]
   \<and> length (trace_points (trace_fill milli_ops [3, - 700, 20, 5, 1200] (trace_new milli_ops 2))) = 2"
proof
  show "map snd (trace_points (trace_fill milli_ops [3, - 700, 20, 5, 1200] (trace_new milli_ops 2))) = [- 700, 1000]" by code_simp
  have "[3, - 700, 20, 5, 1200] \<noteq> ([] :: int list)" "2 \<le> trace_capacity (trace_new milli_ops 2)"
    by (simp_all add: trace_capacity_def trace_new_def)
  from trace_keeps_peaks [OF this, of milli_ops]
  show "length (trace_points (trace_fill milli_ops [3, - 700, 20, 5, 1200] (trace_new milli_ops 2))) = 2"
    by (simp add: trace_capacity_def trace_new_def)
qed

definition note_grid :: pattern_grid where "note_grid = grid_new 1 [\<lparr>co_width = 3, co_kind = NoteColumn\<rparr>] 4"

text \<open>Two rows, \<open>C-4\<close> and \<open>...\<close>.\<close>

definition note_texts :: "bytes list" where
  "note_texts = [[0x43, 0x2D, 0x34] @ replicate 13 0, [0x2E, 0x2E, 0x2E] @ replicate 13 0]"

definition at_row :: "u32 \<Rightarrow> int viz_snapshot" where
  "at_row r = \<lparr>sn_position = Some \<lparr>tk_order = 0, tk_pattern = 7, tk_row = r, tk_window_lo = 10, tk_window_hi = 12\<rparr>,
     sn_cells = note_texts, sn_vu = [], sn_scopes = []\<rparr>"

theorem copy_rows_shows_window_witness:
  "\<exists>out'. grid_copy_rows 9 12 (replicate 4 \<lparr>gc_class = 9, gc_text = []\<rparr>) (grid_load 10 10 note_texts note_grid) = (out', 3)
    \<and> out' ! 0 = cell_default \<and> out' ! 1 = pg_cells (grid_load 10 10 note_texts note_grid) ! 0
    \<and> drop 3 out' = [\<lparr>gc_class = 9, gc_text = []\<rparr>]"
proof -
  let ?g = "grid_load 10 10 note_texts note_grid" and ?out = "replicate 4 \<lparr>gc_class = 9, gc_text = []\<rparr>"
  have str: "stride ?g = 1" by (simp add: stride_def grid_load_def note_grid_def grid_new_def Let_def)
  have g: "pg_rows ?g = 2" "pg_window_lo ?g = 10"
    by (simp_all add: grid_load_def note_grid_def grid_new_def stride_def note_texts_def Let_def)
  obtain out' written where copy: "grid_copy_rows 9 12 ?out ?g = (out', written)" by (meson surj_pair)
  from str have "0 < stride ?g" by simp
  note shown = copy_rows_shows_window [OF grid_load_ok this _ copy, unfolded str g]
  have w: "written = 3" using shown by simp
  have "i < 3 \<Longrightarrow> out' ! i = (if 10 \<le> 9 + i \<and> 9 + i < 12 then pg_cells ?g ! (9 + i - 10) else cell_default)" for i
    using shown by simp
  from this [of 0] this [of 1] have "out' ! 0 = cell_default" "out' ! 1 = pg_cells ?g ! 0" by simp_all
  moreover have "drop 3 ?out = [\<lparr>gc_class = 9, gc_text = []\<rparr>]" by (simp add: numeral_eq_Suc)
  then have "drop 3 out' = [\<lparr>gc_class = 9, gc_text = []\<rparr>]" using shown w by simp
  ultimately show ?thesis using copy w by blast
qed

theorem grid_cache_invisible_witness:
  "foldl (\<lambda>g s. fst (grid_fill_from s g)) (grid_new 1 [\<lparr>co_width = 3, co_kind = NoteColumn\<rparr>] 4) [at_row 10, at_row 11]
     = foldl (\<lambda>g s. fill_always s g) (grid_new 1 [\<lparr>co_width = 3, co_kind = NoteColumn\<rparr>] 4) [at_row 10, at_row 11]
   \<and> snd (grid_fill_from (at_row 11) (fst (grid_fill_from (at_row 10) note_grid))) = False"
proof
  have "list_all (pattern_stable (\<lambda>_. note_texts)) [at_row 10, at_row 11]" by (simp add: pattern_stable_def at_row_def)
  then show "foldl (\<lambda>g s. fst (grid_fill_from s g)) (grid_new 1 [\<lparr>co_width = 3, co_kind = NoteColumn\<rparr>] 4) [at_row 10, at_row 11]
     = foldl (\<lambda>g s. fill_always s g) (grid_new 1 [\<lparr>co_width = 3, co_kind = NoteColumn\<rparr>] 4) [at_row 10, at_row 11]"
    by (rule grid_cache_invisible)
  show "snd (grid_fill_from (at_row 11) (fst (grid_fill_from (at_row 10) note_grid))) = False"
    by (simp add: grid_fill_from_def at_row_def grid_load_def note_grid_def grid_new_def Let_def)
qed

end
