(* ===== verification/Worker.thy ===== *)
theory Worker
  imports Playlist_Props Player Library Present
begin

text \<open>
  The audio worker inside the Quickshell shell, \<open>ui-quickshell/bridge/src/engine.rs\<close>: the queue over the
  playlist engine, the mounted song over the player, the library as it is scanned, and the front and
  documents the UI reads. The decoders, the JSON writer and the numbers are parameters; files, clocks
  and the frames the pacer has earned are the environment of a turn.
\<close>

section \<open>Constants and codes\<close>

definition SAMPLE_RATE :: u32 where "SAMPLE_RATE = 48000"
definition CHANNELS :: nat where "CHANNELS = 2"
definition MAX_FRAMES :: u32 where "MAX_FRAMES = 4096"
definition BUFFERED_SAMPLES :: nat where "BUFFERED_SAMPLES = unat SAMPLE_RATE div 5 * CHANNELS"
definition LOW_WATER_SAMPLES :: nat where "LOW_WATER_SAMPLES = BUFFERED_SAMPLES div 4"
definition SCAN_WATER_SAMPLES :: nat where "SCAN_WATER_SAMPLES = BUFFERED_SAMPLES div 2"
definition CAPTURE_INTERVAL :: int where "CAPTURE_INTERVAL = 16667000"
definition SCAN_PUBLISH_ROWS :: nat where "SCAN_PUBLISH_ROWS = 100"
definition SCAN_PUBLISH_INTERVAL :: int where "SCAN_PUBLISH_INTERVAL = 400000000"
definition RESTART_AFTER_MS :: int where "RESTART_AFTER_MS = 3000"
definition TRACE_CAPACITY :: nat where "TRACE_CAPACITY = 1024"
definition PATTERN_ROW_BUDGET :: nat where "PATTERN_ROW_BUDGET = 256"

datatype ui_status = UiIdle | UiPlaying | UiFinished | UiError | UiPaused

fun ui_status_code :: "ui_status \<Rightarrow> u32" where
  "ui_status_code UiIdle = 0"
| "ui_status_code UiPlaying = 1"
| "ui_status_code UiFinished = 2"
| "ui_status_code UiError = 3"
| "ui_status_code UiPaused = 4"

datatype loop_mode = LoopOff | LoopOne | LoopAll

fun loop_code :: "loop_mode \<Rightarrow> u32" where
  "loop_code LoopOff = 0"
| "loop_code LoopOne = 1"
| "loop_code LoopAll = 2"

definition loop_from_u32 :: "u32 \<Rightarrow> loop_mode" where
  "loop_from_u32 raw = (if raw = 1 then LoopOne else if raw = 2 then LoopAll else LoopOff)"

datatype ui_document = LibraryDocument | TrackDocument | QueueDocument

definition document_from_u32 :: "u32 \<Rightarrow> ui_document option" where
  "document_from_u32 raw = (if raw = 0 then Some LibraryDocument else if raw = 1 then Some TrackDocument
     else if raw = 2 then Some QueueDocument else None)"

definition playlist_mode :: "loop_mode \<Rightarrow> mode" where
  "playlist_mode m = (if m = LoopAll then Loop else Sequential)"

section \<open>What the UI reads\<close>

record tracker_position =
  tp_has :: bool
  tp_order :: u32
  tp_pattern :: u32
  tp_row :: u32

definition no_position :: tracker_position where
  "no_position = \<lparr>tp_has = False, tp_order = 0, tp_pattern = 0, tp_row = 0\<rparr>"

record 'f front =
  fr_traces :: "'f scope_trace list"
  fr_vu :: "'f list"
  fr_vu_len :: nat
  fr_grid :: pattern_grid
  fr_cells_rev :: u64
  fr_frame :: u64
  fr_status :: ui_status
  fr_position_ms :: int
  fr_duration_ms :: int
  fr_subsong :: u32
  fr_subsong_count :: u32
  fr_position :: tracker_position
  fr_volume :: 'f
  fr_loop_mode :: loop_mode
  fr_library_scanned :: u32
  fr_library_total :: u32
  fr_library_rev :: u64
  fr_track_rev :: u64
  fr_queue_rev :: u64
  fr_plugin :: string
  fr_error :: string

record docs =
  docs_library :: string
  docs_track :: string
  docs_queue :: string

definition docs_get :: "ui_document \<Rightarrow> docs \<Rightarrow> string" where
  "docs_get which d = (case which of LibraryDocument \<Rightarrow> docs_library d | TrackDocument \<Rightarrow> docs_track d
     | QueueDocument \<Rightarrow> docs_queue d)"

text \<open>The documents, as the JSON writer is given them.\<close>

record library_doc =
  ld_root :: string
  ld_plugins :: "string list"
  ld_scanned :: nat
  ld_total :: nat
  ld_rows :: "row list"

record subsong_doc =
  sd_index :: u32
  sd_name :: string
  sd_length_ms :: u32

record column_doc =
  cd_label :: string
  cd_width :: u8
  cd_kind :: string

record layout_doc =
  yd_scroll_mode :: string
  yd_columns :: "column_doc list"
  yd_pattern_channels :: "string list"
  yd_scope_channels :: "string list"

record track_doc =
  td_title :: string
  td_composer :: string
  td_format :: string
  td_plugin :: string
  td_channels :: nat
  td_samples :: "string list"
  td_instruments :: "string list"
  td_subsongs :: "subsong_doc list"
  td_subsong :: u32
  td_year :: u32
  td_file :: string
  td_path :: string
  td_size :: u64
  td_row :: "u32 option"
  td_message :: string
  td_layout :: "layout_doc option"

record queue_item_doc =
  qd_row :: "u32 option"
  qd_title :: string
  qd_composer :: string
  qd_format :: string
  qd_duration_ms :: u32

record queue_doc =
  qd_items :: "queue_item_doc list"
  qd_total_ms :: u64

section \<open>State\<close>

record track =
  trk_path :: string
  trk_row :: "u32 option"

record ui_library =
  lb_root :: string
  lb_plugins :: "string list"
  lb_pending :: "string list"
  lb_entries :: "row list"
  lb_unpublished :: nat
  lb_published_at :: int

record ('d, 'n) playing =
  py_track :: track
  py_metadata :: "'n track_metadata"
  py_entry :: row
  py_subsong :: u32
  py_snapshot :: 'd

record ('w, 's, 'd, 'n, 'f) worker =
  wk_backend :: "('w, 's, 'd) backend"
  wk_ring :: "u32 list"
  wk_front :: "'f front"
  wk_docs :: docs
  wk_playlist :: "track engine"
  wk_playing :: "('d, 'n) playing option"
  wk_library :: ui_library
  wk_traces :: "'f scope_trace list"
  wk_vu :: "'f vu_meter"
  wk_grid :: pattern_grid
  wk_next_capture :: int
  wk_frame :: u64
  wk_volume :: 'f
  wk_loop_mode :: loop_mode

datatype 'f command = Open string | PlayRows "u32 list" nat | Stop | Toggle | SeekMs int | Next | Previous
  | SetSubsong u32 | SetLoop loop_mode | SetVolume 'f | ClearQueue | ScanLibrary string
  | Walked string "string list" | Quit

text \<open>A layout as the host publishes it: padded names, and a column's label, width and raw kind.\<close>

record layout =
  ly_per_channel :: bool
  ly_columns :: "(bytes \<times> u8 \<times> u8) list"
  ly_patterns :: "bytes list"
  ly_scopes :: "bytes list"

text \<open>
  The libraries the worker is built on: the decoder host with its values read as metadata, layouts and
  snapshots, what a visualization slot for a layout is, the arithmetic on samples, and the JSON writer.
\<close>

record ('w, 'p, 's, 'd, 'n, 'f) worker_lib =
  wl_host :: "('w, 'p, 's, 'd) host"
  wl_visualization :: 'd
  wl_scope_limit :: nat
  wl_metadata :: "'d \<Rightarrow> 'n track_metadata"
  wl_layout :: "'d \<Rightarrow> layout"
  wl_slot :: "'d \<Rightarrow> 'd option"
  wl_snapshot :: "'d \<Rightarrow> 'f viz_snapshot"
  wl_kind :: "u8 \<Rightarrow> column_kind option"
  wl_utf8 :: "bytes \<Rightarrow> string option"
  wl_ms :: "'n \<Rightarrow> u32"
  wl_floats :: "'f float_ops"
  wl_finite :: "'f \<Rightarrow> bool"
  wl_fall :: 'f
  wl_scale :: "'f \<Rightarrow> u32 \<Rightarrow> u32"
  wl_error :: "backend_error \<Rightarrow> string"
  wl_library_json :: "library_doc \<Rightarrow> string option"
  wl_track_json :: "track_doc \<Rightarrow> string option"
  wl_queue_json :: "queue_doc \<Rightarrow> string option"

text \<open>
  What one turn finds: the files, how each read of a medium goes, the attributes of files, the clock at
  each of its readings, the frames the pacer has earned, and the samples the device takes meanwhile.
\<close>

record worker_env =
  we_fs :: fs
  we_media :: "nat \<Rightarrow> media_env"
  we_stat :: "string \<Rightarrow> (u64 option \<times> u64) option"
  we_clock :: "nat \<Rightarrow> int"
  we_earned :: u32
  we_drained :: nat

text \<open>\<open>u32::try_from(n).unwrap_or(u32::MAX)\<close>.\<close>

definition u32_of :: "nat \<Rightarrow> u32" where "u32_of n = (if n < 2 ^ 32 then of_nat n else - 1)"

definition on_front :: "('f front \<Rightarrow> 'f front) \<Rightarrow> ('w, 's, 'd, 'n, 'f) worker \<Rightarrow> ('w, 's, 'd, 'n, 'f) worker" where
  "on_front g w = w\<lparr>wk_front := g (wk_front w)\<rparr>"

definition on_playlist :: "(track engine \<Rightarrow> track engine) \<Rightarrow> ('w, 's, 'd, 'n, 'f) worker \<Rightarrow> ('w, 's, 'd, 'n, 'f) worker" where
  "on_playlist g w = w\<lparr>wk_playlist := g (wk_playlist w)\<rparr>"

definition on_library :: "(ui_library \<Rightarrow> ui_library) \<Rightarrow> ('w, 's, 'd, 'n, 'f) worker \<Rightarrow> ('w, 's, 'd, 'n, 'f) worker" where
  "on_library g w = w\<lparr>wk_library := g (wk_library w)\<rparr>"

section \<open>Plugins\<close>

text \<open>
  Every file named \<open>.so\<close> beneath a directory; a tree here is what following links shows, so it has no
  cycle. The labels drop every leading \<open>lib\<close> and every trailing \<open>_playback\<close>.
\<close>

function plugin_paths :: "string \<Rightarrow> fnode \<Rightarrow> string list" where
  "plugin_paths dir (FDir ok es) =
     (if ok then concat (map (\<lambda>e. plugin_paths (path_join dir (fst e)) (snd e)) (sort_key fst es)) else [])"
| "plugin_paths path FFile = (if path_extension path = Some ''so'' then [path] else [])"
| "plugin_paths path FOther = (if path_extension path = Some ''so'' then [path] else [])"
  by pat_completeness auto
termination
proof (relation "measure (\<lambda>(_, t). size t)")
  fix dir :: string and ok es and e :: "string \<times> fnode"
  assume "e \<in> set (sort_key fst es)"
  then show "((path_join dir (fst e), snd e), dir, FDir ok es) \<in> measure (\<lambda>(_, t). size t)"
    using size_entry [of "fst e" "snd e" es ok] by simp
qed simp

function trim_start_matches :: "string \<Rightarrow> string \<Rightarrow> string" where
  "trim_start_matches pat s =
     (if pat \<noteq> [] \<and> starts_with pat s then trim_start_matches pat (drop (length pat) s) else s)"
  by pat_completeness auto
termination
  by (relation "measure (\<lambda>(_, s). length s)") (auto simp: starts_with_def, metis diff_less length_greater_0_conv take_Nil)

declare trim_start_matches.simps [simp del]

definition trim_end_matches :: "string \<Rightarrow> string \<Rightarrow> string" where
  "trim_end_matches pat s = rev (trim_start_matches (rev pat) (rev s))"

definition plugin_labels :: "string list \<Rightarrow> string list" where
  "plugin_labels paths = map (\<lambda>stem. trim_end_matches ''_playback'' (trim_start_matches ''lib'' stem))
     (List.map_filter path_stem paths)"

section \<open>Publishing\<close>

definition publish_library ::
  "('w, 'p, 's, 'd, 'n, 'f) worker_lib \<Rightarrow> int \<Rightarrow> ('w, 's, 'd, 'n, 'f) worker \<Rightarrow> ('w, 's, 'd, 'n, 'f) worker" where
  "publish_library L clock w =
     (let lb = wk_library w; scanned = length (lb_entries lb); total = scanned + length (lb_pending lb);
          doc = (case wl_library_json L \<lparr>ld_root = lb_root lb, ld_plugins = lb_plugins lb, ld_scanned = scanned,
                     ld_total = total, ld_rows = lb_entries lb\<rparr> of Some s \<Rightarrow> s | None \<Rightarrow> [])
      in on_front (\<lambda>f. f\<lparr>fr_library_scanned := u32_of scanned, fr_library_total := u32_of total,
                         fr_library_rev := fr_library_rev f + 1\<rparr>)
           (w\<lparr>wk_docs := (wk_docs w)\<lparr>docs_library := doc\<rparr>,
              wk_library := lb\<lparr>lb_unpublished := 0, lb_published_at := clock\<rparr>\<rparr>))"

definition padded :: "(bytes \<Rightarrow> string option) \<Rightarrow> bytes \<Rightarrow> string" where
  "padded utf8 b = (case utf8 (takeWhile (\<lambda>x. x \<noteq> 0) b) of Some s \<Rightarrow> s | None \<Rightarrow> [])"

definition kind_name :: "column_kind option \<Rightarrow> string" where
  "kind_name k = (case k of Some NoteColumn \<Rightarrow> ''note'' | Some InstrumentColumn \<Rightarrow> ''instrument''
     | Some VolumeColumn \<Rightarrow> ''volume'' | Some EffectColumn \<Rightarrow> ''effect'' | Some ParamColumn \<Rightarrow> ''param'' | _ \<Rightarrow> ''custom'')"

definition layout_document :: "('w, 'p, 's, 'd, 'n, 'f) worker_lib \<Rightarrow> layout \<Rightarrow> layout_doc" where
  "layout_document L ly =
     \<lparr>yd_scroll_mode = (if ly_per_channel ly then ''per_channel'' else ''synchronized''),
      yd_columns = map (\<lambda>(label, width, kind). \<lparr>cd_label = padded (wl_utf8 L) label, cd_width = width,
          cd_kind = kind_name (wl_kind L kind)\<rparr>) (ly_columns ly),
      yd_pattern_channels = map (padded (wl_utf8 L)) (ly_patterns ly),
      yd_scope_channels = map (padded (wl_utf8 L)) (ly_scopes ly)\<rparr>"

definition row_of_path :: "string \<Rightarrow> row list \<Rightarrow> u32 option" where
  "row_of_path path es = map_option row_id (List.find (\<lambda>r. path_components (row_path r) = path_components path) es)"

definition track_document ::
  "('w, 'p, 's, 'd, 'n, 'f) worker_lib \<Rightarrow> ('w, 's, 'd, 'n, 'f) worker \<Rightarrow> ('d, 'n) playing \<Rightarrow> track_doc" where
  "track_document L w py =
     (let md = py_metadata py; path = trk_path (py_track py); en = py_entry py;
          ly = map_option (wl_layout L) (visualization_layout (wl_host L) (wk_backend w))
      in \<lparr>td_title = row_title en, td_composer = row_composer en,
          td_format = (case text_tag md ''song_type'' of
              Some s \<Rightarrow> if trim s \<noteq> [] then trim s else row_format en | None \<Rightarrow> row_format en),
          td_plugin = plugin_name (wk_backend w),
          td_channels = (case ly of Some l \<Rightarrow> length (ly_scopes l) | None \<Rightarrow> 0),
          td_samples = md_samples md, td_instruments = md_instruments md,
          td_subsongs = map (\<lambda>s. \<lparr>sd_index = sub_index s, sd_name = sub_name s,
              sd_length_ms = (case sub_length s of Some n \<Rightarrow> wl_ms L n | None \<Rightarrow> 0)\<rparr>) (md_subsongs md),
          td_subsong = py_subsong py, td_year = row_year en,
          td_file = (case path_name path of Some n \<Rightarrow> n | None \<Rightarrow> []), td_path = path, td_size = row_size en,
          td_row = (if trk_row (py_track py) \<noteq> None then trk_row (py_track py)
                    else row_of_path path (lb_entries (wk_library w))),
          td_message = (case text_tag md ''message'' of Some s \<Rightarrow> s | None \<Rightarrow> []),
          td_layout = map_option (layout_document L) ly\<rparr>)"

definition publish_track ::
  "('w, 'p, 's, 'd, 'n, 'f) worker_lib \<Rightarrow> ('w, 's, 'd, 'n, 'f) worker \<Rightarrow> ('w, 's, 'd, 'n, 'f) worker" where
  "publish_track L w =
     (let doc = (case wk_playing w of None \<Rightarrow> []
        | Some py \<Rightarrow> (case wl_track_json L (track_document L w py) of Some s \<Rightarrow> s | None \<Rightarrow> []))
      in on_front (\<lambda>f. f\<lparr>fr_track_rev := fr_track_rev f + 1\<rparr>) (w\<lparr>wk_docs := (wk_docs w)\<lparr>docs_track := doc\<rparr>\<rparr>))"

text \<open>The rows a queued track names are read as positions in the library.\<close>

definition entry_at :: "row list \<Rightarrow> u32 \<Rightarrow> row option" where
  "entry_at es r = (if unat r < length es then Some (es ! unat r) else None)"

definition queue_entry :: "row list \<Rightarrow> track item \<Rightarrow> queue_item_doc" where
  "queue_entry es it =
     \<lparr>qd_row = trk_row (payload it),
      qd_title = (if title it = [] then last (split_on CHR ''/'' (identity it)) else title it),
      qd_composer = artist it,
      qd_format = (case Option.bind (trk_row (payload it)) (entry_at es) of Some e \<Rightarrow> row_format e | None \<Rightarrow> []),
      qd_duration_ms = duration_ms it\<rparr>"

text \<open>What follows the current item, everything when there is none.\<close>

definition queued_after :: "track engine \<Rightarrow> track playlist \<Rightarrow> track item list" where
  "queued_after e pl = (case Option.bind (current_item_id e) (item_index pl) of
     Some i \<Rightarrow> drop (i + 1) (pl_items pl) | None \<Rightarrow> pl_items pl)"

definition queue_document :: "row list \<Rightarrow> track item list \<Rightarrow> queue_doc" where
  "queue_document es later = \<lparr>qd_items = map (queue_entry es) later, qd_total_ms = (\<Sum>it \<leftarrow> later. ucast (duration_ms it))\<rparr>"

definition publish_queue ::
  "('w, 'p, 's, 'd, 'n, 'f) worker_lib \<Rightarrow> ('w, 's, 'd, 'n, 'f) worker \<Rightarrow> ('w, 's, 'd, 'n, 'f) worker" where
  "publish_queue L w =
     (let e = wk_playlist w;
          doc = Option.bind (Option.bind (playing_playlist e) (playlist e))
            (\<lambda>pl. wl_queue_json L (queue_document (lb_entries (wk_library w)) (queued_after e pl)))
      in on_front (\<lambda>f. f\<lparr>fr_queue_rev := fr_queue_rev f + 1\<rparr>)
           (w\<lparr>wk_docs := (wk_docs w)\<lparr>docs_queue := (case doc of Some s \<Rightarrow> s | None \<Rightarrow> [])\<rparr>\<rparr>))"

section \<open>The queue\<close>

definition track_spec :: "row list \<Rightarrow> track \<Rightarrow> track item_spec" where
  "track_spec es tr =
     (let s = item_spec_new (trk_path tr) tr
      in case Option.bind (trk_row tr) (entry_at es) of
           None \<Rightarrow> s
         | Some e \<Rightarrow> s\<lparr>spec_title := row_title e, spec_artist := row_composer e, spec_duration_ms := row_duration_ms e\<rparr>)"

text \<open>The loop that appends the tracks, with the item of the one at \<open>start\<close>.\<close>

fun append_tracks ::
  "row list \<Rightarrow> PlaylistId \<Rightarrow> nat \<Rightarrow> nat \<Rightarrow> track list \<Rightarrow> ItemId option \<Rightarrow> track engine \<Rightarrow> track engine \<times> ItemId option" where
  "append_tracks es p k start' [] found e = (e, found)"
| "append_tracks es p k start' (tr # trs) found e =
     (case append_item p (track_spec es tr) e of
        (e', it) \<Rightarrow> append_tracks es p (Suc k) start' trs (if k = start' then it else found) e')"

definition start_queue ::
  "('w, 'p, 's, 'd, 'n, 'f) worker_lib \<Rightarrow> track list \<Rightarrow> nat \<Rightarrow> ('w, 's, 'd, 'n, 'f) worker \<Rightarrow> ('w, 's, 'd, 'n, 'f) worker" where
  "start_queue L trs start' w =
     (case create None (stop (wk_playlist w)) of
        (e, None) \<Rightarrow> w\<lparr>wk_playlist := e\<rparr>
      | (e, Some p) \<Rightarrow> (case append_tracks (lb_entries (wk_library w)) p 0 start' trs None e of
            (e1, start_item) \<Rightarrow>
              publish_queue L (w\<lparr>wk_playlist := fst (start p start_item (set_mode (playlist_mode (wk_loop_mode w)) e1))\<rparr>)))"

definition known_tracks :: "row list \<Rightarrow> u32 list \<Rightarrow> track list" where
  "known_tracks es rows = map (\<lambda>e. \<lparr>trk_path = row_path e, trk_row = Some (row_id e)\<rparr>) (List.map_filter (entry_at es) rows)"

definition play_rows ::
  "('w, 'p, 's, 'd, 'n, 'f) worker_lib \<Rightarrow> u32 list \<Rightarrow> nat \<Rightarrow> ('w, 's, 'd, 'n, 'f) worker \<Rightarrow> ('w, 's, 'd, 'n, 'f) worker" where
  "play_rows L rows start' w =
     (let trs = known_tracks (lb_entries (wk_library w)) rows
      in if trs \<noteq> [] then start_queue L trs (min start' (length trs - 1)) w else w)"

text \<open>The loop of \<open>clear_queue\<close> over the items of the playing playlist.\<close>

fun remove_past :: "PlaylistId \<Rightarrow> ItemId option \<Rightarrow> bool \<Rightarrow> ItemId list \<Rightarrow> track engine \<Rightarrow> track engine" where
  "remove_past p cur past [] e = e"
| "remove_past p cur past (i # is) e =
     remove_past p cur (past \<or> Some i = cur) is (if past then fst (remove_item p i e) else e)"

definition clear_queue ::
  "('w, 'p, 's, 'd, 'n, 'f) worker_lib \<Rightarrow> ('w, 's, 'd, 'n, 'f) worker \<Rightarrow> ('w, 's, 'd, 'n, 'f) worker" where
  "clear_queue L w =
     (let e = wk_playlist w
      in publish_queue L (case playing_playlist e of
           None \<Rightarrow> w
         | Some p \<Rightarrow> w\<lparr>wk_playlist := remove_past p (current_item_id e) (current_item_id e = None)
             (case playlist e p of Some pl \<Rightarrow> map item_id (pl_items pl) | None \<Rightarrow> []) e\<rparr>))"

definition has_previous :: "track engine \<Rightarrow> bool" where
  "has_previous e = (case Option.bind (playing_playlist e) (playlist e) of
     None \<Rightarrow> False
   | Some pl \<Rightarrow> (case Option.bind (current_item_id e) (item_index pl) of Some i \<Rightarrow> 0 < i | None \<Rightarrow> False))"

section \<open>Mounting\<close>

definition grid_for :: "('w, 'p, 's, 'd, 'n, 'f) worker_lib \<Rightarrow> layout \<Rightarrow> pattern_grid" where
  "grid_for L ly =
     grid_new (length (ly_patterns ly))
       (map (\<lambda>(_, width, kind). \<lparr>co_width = max 1 (min 16 width),
          co_kind = (case wl_kind L kind of Some k \<Rightarrow> k | None \<Rightarrow> CustomColumn)\<rparr>) (ly_columns ly))
       PATTERN_ROW_BUDGET"

definition unmount ::
  "('w, 'p, 's, 'd, 'n, 'f) worker_lib \<Rightarrow> ('w, 's, 'd, 'n, 'f) worker \<Rightarrow> ('w, 's, 'd, 'n, 'f) worker" where
  "unmount L w =
     on_front (\<lambda>f. f\<lparr>fr_traces := [], fr_vu_len := 0, fr_grid := grid_empty,
                     fr_cells_rev := fr_cells_rev f + 1, fr_position := no_position\<rparr>)
       (w\<lparr>wk_backend := close (wk_backend w), wk_playing := None, wk_traces := [],
          wk_vu := vu_clear (wl_floats L) (wk_vu w), wk_grid := grid_empty, wk_ring := []\<rparr>)"

definition fail_song ::
  "('w, 'p, 's, 'd, 'n, 'f) worker_lib \<Rightarrow> string \<Rightarrow> ('w, 's, 'd, 'n, 'f) worker \<Rightarrow> ('w, 's, 'd, 'n, 'f) worker" where
  "fail_song L message w =
     publish_queue L (publish_track L (on_playlist on_failed
       (on_front (\<lambda>f. f\<lparr>fr_status := UiError, fr_error := message\<rparr>) (unmount L w))))"

definition claimed :: "('w, 's, 'd) backend \<Rightarrow> string \<Rightarrow> string" where
  "claimed be path =
     (let ext = file_extension path; pre = dotted_prefix path
      in if ext \<noteq> [] \<and> can_handle_extension be ext then ext
         else if pre \<noteq> [] \<and> can_handle_extension be pre then pre else [])"

definition no_metadata :: "'n track_metadata" where
  "no_metadata = \<lparr>md_tags = [], md_subsongs = [], md_samples = [], md_instruments = []\<rparr>"

definition song_metadata ::
  "('w, 'p, 's, 'd, 'n, 'f) worker_lib \<Rightarrow> backend_error + 'd option \<Rightarrow> 'n track_metadata" where
  "song_metadata L r = (case r of Inr (Some d) \<Rightarrow> wl_metadata L d | _ \<Rightarrow> no_metadata)"

text \<open>What a mount that succeeded leaves: the song, its buffers and the front.\<close>

definition install_song ::
  "('w, 'p, 's, 'd, 'n, 'f) worker_lib \<Rightarrow> track \<Rightarrow> u32 \<Rightarrow> layout \<Rightarrow> 'd \<Rightarrow> 'n track_metadata \<Rightarrow> row
     \<Rightarrow> ('w, 's, 'd, 'n, 'f) worker \<Rightarrow> ('w, 's, 'd, 'n, 'f) worker" where
  "install_song L tr sub ly slot md entry w =
     (let traces = replicate (length (ly_scopes ly)) (trace_new (wl_floats L) TRACE_CAPACITY);
          duration = (if unat sub < length (md_subsongs md)
            then (case sub_length (md_subsongs md ! unat sub) of Some n \<Rightarrow> wl_ms L n | None \<Rightarrow> row_duration_ms entry)
            else row_duration_ms entry)
      in on_front (\<lambda>f. f\<lparr>fr_traces := traces, fr_vu_len := 0, fr_grid := grid_for L ly,
             fr_cells_rev := fr_cells_rev f + 1, fr_status := UiPlaying, fr_plugin := plugin_name (wk_backend w),
             fr_error := [], fr_position_ms := 0, fr_duration_ms := uint duration, fr_subsong := sub,
             fr_subsong_count := u32_of (length (md_subsongs md)), fr_position := no_position\<rparr>)
           (w\<lparr>wk_traces := traces, wk_vu := vu_clear (wl_floats L) (wk_vu w), wk_grid := grid_for L ly,
              wk_playing := Some \<lparr>py_track = tr, py_metadata = md, py_entry = entry, py_subsong = sub,
                py_snapshot = slot\<rparr>\<rparr>))"

definition mount_track ::
  "('w, 'p, 's, 'd, 'n, 'f) worker_lib \<Rightarrow> worker_env \<Rightarrow> nat \<Rightarrow> track \<Rightarrow> u32
     \<Rightarrow> ('w, 's, 'd, 'n, 'f) worker \<Rightarrow> ('w, 's, 'd, 'n, 'f) worker" where
  "mount_track L E k tr sub w0 =
     (let path = trk_path tr
      in case mount (wl_host L) (we_media E k) (we_fs E) path (if unat sub < 2 ^ 16 then ucast sub else 0) (wk_backend w0) of
           (be, Inl err) \<Rightarrow>
             fail_song L (''could not play '' @ path @ '': '' @ wl_error L err) (w0\<lparr>wk_ring := [], wk_playing := None, wk_backend := be\<rparr>)
         | (be, Inr _) \<Rightarrow>
             let w = w0\<lparr>wk_ring := [], wk_playing := None, wk_backend := be\<rparr>
             in (case visualization_layout (wl_host L) be of
                   None \<Rightarrow> fail_song L (''could not play '' @ path @ '': the decoder published no visualization layout'') w
                 | Some d \<Rightarrow> (case wl_slot L d of
                     None \<Rightarrow> fail_song L (''could not play '' @ path @ '': the decoder published no visualization layout'') w
                   | Some slot \<Rightarrow>
                       let md = song_metadata L (probe_metadata (wl_host L) (we_media E (k + 1)) (we_fs E) path be);
                           entry = describe (wl_ms L) (we_stat E path) (case trk_row tr of Some r \<Rightarrow> r | None \<Rightarrow> - 1)
                             (lb_root (wk_library w)) path (claimed be path) (Some md)
                       in publish_queue L (publish_track L (install_song L tr sub (wl_layout L d) slot md entry w)))))"

section \<open>Commands\<close>

definition toggle_song :: "('w, 's, 'd, 'n, 'f) worker \<Rightarrow> ('w, 's, 'd, 'n, 'f) worker" where
  "toggle_song w = (case toggle_pause (wk_backend w) of
       (be, None) \<Rightarrow> w\<lparr>wk_backend := be\<rparr>
     | (be, Some on) \<Rightarrow>
         on_front (\<lambda>f. f\<lparr>fr_status := (if on then UiPlaying else UiPaused)\<rparr>)
           (w\<lparr>wk_backend := be, wk_ring := (if on then wk_ring w else [])\<rparr>))"

definition seek_song ::
  "('w, 'p, 's, 'd, 'n, 'f) worker_lib \<Rightarrow> int \<Rightarrow> ('w, 's, 'd, 'n, 'f) worker \<Rightarrow> ('w, 's, 'd, 'n, 'f) worker" where
  "seek_song L ms w = (case seek (wl_host L) (max ms 0) (wk_backend w) of
       (be, None) \<Rightarrow> w\<lparr>wk_backend := be\<rparr>
     | (be, Some reached) \<Rightarrow>
         on_front (\<lambda>f. f\<lparr>fr_position_ms := reached, fr_status := (if fr_status f = UiFinished then UiPlaying else fr_status f)\<rparr>)
           (w\<lparr>wk_backend := be, wk_ring := []\<rparr>))"

text \<open>\<open>seek(0)\<close> as \<open>previous\<close> and a repeated song use it: whether the decoder went there.\<close>

definition rewind ::
  "('w, 'p, 's, 'd, 'n, 'f) worker_lib \<Rightarrow> ('w, 's, 'd, 'n, 'f) worker \<Rightarrow> ('w, 's, 'd, 'n, 'f) worker \<times> bool" where
  "rewind L w = (case seek (wl_host L) 0 (wk_backend w) of
       (be, None) \<Rightarrow> (w\<lparr>wk_backend := be\<rparr>, False)
     | (be, Some _) \<Rightarrow> (on_front (\<lambda>f. f\<lparr>fr_position_ms := 0\<rparr>) (w\<lparr>wk_backend := be, wk_ring := []\<rparr>), True))"

definition previous_song ::
  "('w, 'p, 's, 'd, 'n, 'f) worker_lib \<Rightarrow> ('w, 's, 'd, 'n, 'f) worker \<Rightarrow> ('w, 's, 'd, 'n, 'f) worker" where
  "previous_song L w =
     (let at = (case position_ms (wk_backend w) of Some ms \<Rightarrow> ms | None \<Rightarrow> 0)
      in if RESTART_AFTER_MS < at \<or> \<not> has_previous (wk_playlist w) then fst (rewind L w)
         else on_playlist previous w)"

definition set_subsong ::
  "('w, 'p, 's, 'd, 'n, 'f) worker_lib \<Rightarrow> worker_env \<Rightarrow> u32 \<Rightarrow> ('w, 's, 'd, 'n, 'f) worker \<Rightarrow> ('w, 's, 'd, 'n, 'f) worker" where
  "set_subsong L E i w = (case wk_playing w of
       None \<Rightarrow> w
     | Some py \<Rightarrow>
         if i < u32_of (length (md_subsongs (py_metadata py))) \<and> i \<noteq> py_subsong py
         then mount_track L E 0 (py_track py) i w else w)"

definition set_loop ::
  "('w, 'p, 's, 'd, 'n, 'f) worker_lib \<Rightarrow> loop_mode \<Rightarrow> ('w, 's, 'd, 'n, 'f) worker \<Rightarrow> ('w, 's, 'd, 'n, 'f) worker" where
  "set_loop L m w =
     publish_queue L (on_front (\<lambda>f. f\<lparr>fr_loop_mode := m\<rparr>)
       (on_playlist (set_mode (playlist_mode m)) (w\<lparr>wk_loop_mode := m\<rparr>)))"

definition set_volume ::
  "('w, 'p, 's, 'd, 'n, 'f::linorder) worker_lib \<Rightarrow> 'f \<Rightarrow> ('w, 's, 'd, 'n, 'f) worker \<Rightarrow> ('w, 's, 'd, 'n, 'f) worker" where
  "set_volume L v w =
     (let w1 = (if wl_finite L v then w\<lparr>wk_volume := clamp (fo_zero (wl_floats L)) (fo_one (wl_floats L)) v\<rparr> else w)
      in on_front (\<lambda>f. f\<lparr>fr_volume := wk_volume w1\<rparr>) w1)"

text \<open>The walk runs on a thread of its own and answers with \<open>Walked\<close>.\<close>

definition scan_library ::
  "('w, 'p, 's, 'd, 'n, 'f) worker_lib \<Rightarrow> int \<Rightarrow> string \<Rightarrow> ('w, 's, 'd, 'n, 'f) worker \<Rightarrow> ('w, 's, 'd, 'n, 'f) worker" where
  "scan_library L clock root w =
     publish_library L clock (on_library (\<lambda>lb. lb\<lparr>lb_root := root, lb_pending := [], lb_entries := []\<rparr>) w)"

definition walked ::
  "('w, 'p, 's, 'd, 'n, 'f) worker_lib \<Rightarrow> int \<Rightarrow> string \<Rightarrow> string list \<Rightarrow> ('w, 's, 'd, 'n, 'f) worker \<Rightarrow> ('w, 's, 'd, 'n, 'f) worker" where
  "walked L clock root files w =
     (if path_components root \<noteq> path_components (lb_root (wk_library w)) then w
      else publish_library L clock
        (on_library (\<lambda>lb. lb\<lparr>lb_pending := filter (\<lambda>p. claimed (wk_backend w) p \<noteq> []) files\<rparr>) w))"

definition stop_song ::
  "('w, 'p, 's, 'd, 'n, 'f) worker_lib \<Rightarrow> ('w, 's, 'd, 'n, 'f) worker \<Rightarrow> ('w, 's, 'd, 'n, 'f) worker" where
  "stop_song L w = publish_queue L (on_front (\<lambda>f. f\<lparr>fr_status := UiIdle\<rparr>) (unmount L (on_playlist stop w)))"

definition handle ::
  "('w, 'p, 's, 'd, 'n, 'f::linorder) worker_lib \<Rightarrow> worker_env \<Rightarrow> 'f command \<Rightarrow> ('w, 's, 'd, 'n, 'f) worker \<Rightarrow> ('w, 's, 'd, 'n, 'f) worker" where
  "handle L E cmd w = (case cmd of
       Open path \<Rightarrow> start_queue L [\<lparr>trk_path = path, trk_row = row_of_path path (lb_entries (wk_library w))\<rparr>] 0 w
     | PlayRows rows start' \<Rightarrow> play_rows L rows start' w
     | Stop \<Rightarrow> stop_song L w
     | Toggle \<Rightarrow> toggle_song w
     | SeekMs ms \<Rightarrow> seek_song L ms w
     | Next \<Rightarrow> on_playlist next_item w
     | Previous \<Rightarrow> previous_song L w
     | SetSubsong i \<Rightarrow> set_subsong L E i w
     | SetLoop m \<Rightarrow> set_loop L m w
     | SetVolume v \<Rightarrow> set_volume L v w
     | ClearQueue \<Rightarrow> clear_queue L w
     | ScanLibrary root \<Rightarrow> scan_library L (we_clock E 0) root w
     | Walked root files \<Rightarrow> walked L (we_clock E 0) root files w
     | Quit \<Rightarrow> w)"

section \<open>The turn\<close>

definition song_ended ::
  "('w, 'p, 's, 'd, 'n, 'f) worker_lib \<Rightarrow> ('w, 's, 'd, 'n, 'f) worker \<Rightarrow> ('w, 's, 'd, 'n, 'f) worker" where
  "song_ended L w0 =
     (case (if wk_loop_mode w0 = LoopOne then rewind L w0 else (w0, False)) of
        (w, True) \<Rightarrow> w
      | (w, False) \<Rightarrow>
          let w1 = on_playlist on_finished w
          in if peek_next (wk_playlist w1) \<noteq> None then w1
             else publish_queue L (on_front (\<lambda>f. f\<lparr>fr_status := UiFinished\<rparr>) (unmount L (on_playlist stop w1))))"

text \<open>
  \<open>top_up\<close>: the frames the clock allows are the pacer's, whose own fraction is the environment's; the
  device takes \<open>drained\<close> samples while the decoder works.
\<close>

definition frames_due :: "nat \<Rightarrow> u32 \<Rightarrow> u32" where
  "frames_due buffered earned =
     (let missing = min (u32_of ((BUFFERED_SAMPLES - buffered) div CHANNELS)) MAX_FRAMES
      in if buffered < LOW_WATER_SAMPLES then missing else min missing earned)"

definition top_up ::
  "('w, 'p, 's, 'd, 'n, 'f) worker_lib \<Rightarrow> worker_env \<Rightarrow> ('w, 's, 'd, 'n, 'f) worker
     \<Rightarrow> ('w, 's, 'd, 'n, 'f) worker \<times> backend_error option" where
  "top_up L E w =
     (let buffered = length (wk_ring w); frames = frames_due buffered (we_earned E)
      in if BUFFERED_SAMPLES \<le> buffered \<or> frames = 0 then (w, None)
         else (let ring = drop (we_drained E) (wk_ring w)
           in case render (wl_host L) frames (wk_backend w) of
                (be, Inl err) \<Rightarrow> (w\<lparr>wk_backend := be, wk_ring := ring\<rparr>, Some err)
              | (be, Inr samples) \<Rightarrow>
                  (w\<lparr>wk_backend := be, wk_ring := ring @ map (wl_scale L (wk_volume w)) samples\<rparr>, None)))"

definition render_turn ::
  "('w, 'p, 's, 'd, 'n, 'f) worker_lib \<Rightarrow> worker_env \<Rightarrow> ('w, 's, 'd, 'n, 'f) worker \<Rightarrow> ('w, 's, 'd, 'n, 'f) worker" where
  "render_turn L E w = (case top_up L E w of
       (w1, None) \<Rightarrow> w1
     | (w1, Some err) \<Rightarrow>
         on_playlist on_failed (on_front (\<lambda>f. f\<lparr>fr_status := UiError, fr_error := ''render failed: '' @ wl_error L err\<rparr>)
           (unmount L w1)))"

text \<open>One capture: the slot, the traces, the meter and the grid, then their copies in the front.\<close>

definition tracker_of :: "'f viz_snapshot \<Rightarrow> tracker_position" where
  "tracker_of s = (case sn_position s of None \<Rightarrow> no_position
     | Some p \<Rightarrow> \<lparr>tp_has = True, tp_order = tk_order p, tp_pattern = tk_pattern p, tp_row = tk_row p\<rparr>)"

definition fill_traces :: "'f::linorder float_ops \<Rightarrow> 'f viz_snapshot \<Rightarrow> 'f scope_trace list \<Rightarrow> 'f scope_trace list" where
  "fill_traces F s ts = map (\<lambda>(k, tr). trace_fill_from F s k tr) (zip [0..<length ts] ts)"

definition copy_traces :: "'f scope_trace list \<Rightarrow> 'f scope_trace list \<Rightarrow> 'f scope_trace list" where
  "copy_traces src dst = map2 trace_copy_from src (take (length src) dst) @ drop (length src) dst"

definition capture_frame ::
  "('w, 'p, 's, 'd, 'n, 'f::linorder) worker_lib \<Rightarrow> ('w, 's, 'd, 'n, 'f) worker \<Rightarrow> ('w, 's, 'd, 'n, 'f) worker" where
  "capture_frame L w0 = (case wk_playing w0 of
       None \<Rightarrow> w0
     | Some py \<Rightarrow> (case capture (wl_host L) (py_snapshot py) (wk_backend w0) of
           (be, snap, err) \<Rightarrow>
             let w = w0\<lparr>wk_backend := be, wk_playing := Some (py\<lparr>py_snapshot := snap\<rparr>)\<rparr>; s = wl_snapshot L snap
             in if err \<noteq> None then w
                else (case grid_fill_from s (wk_grid w) of
                    (grid, changed) \<Rightarrow>
                      let traces = fill_traces (wl_floats L) s (wk_traces w);
                          vu = vu_tick_from (wl_floats L) s (wk_vu w);
                          at = (case position_ms be of Some ms \<Rightarrow> ms | None \<Rightarrow> 0)
                      in on_front (\<lambda>f. f\<lparr>fr_traces := copy_traces traces (fr_traces f),
                             fr_vu := vu_levels vu @ drop (length (vu_levels vu)) (fr_vu f), fr_vu_len := length (vu_levels vu),
                             fr_grid := (if changed then grid_copy_from grid (fr_grid f) else fr_grid f),
                             fr_cells_rev := (if changed then fr_cells_rev f + 1 else fr_cells_rev f),
                             fr_frame := wk_frame w + 1, fr_position_ms := at, fr_position := tracker_of s\<rparr>)
                           (w\<lparr>wk_traces := traces, wk_vu := vu, wk_grid := grid, wk_frame := wk_frame w + 1\<rparr>))))"

definition capture_due ::
  "('w, 'p, 's, 'd, 'n, 'f::linorder) worker_lib \<Rightarrow> int \<Rightarrow> ('w, 's, 'd, 'n, 'f) worker \<Rightarrow> ('w, 's, 'd, 'n, 'f) worker" where
  "capture_due L now w =
     (if now < wk_next_capture w then w
      else (let due = wk_next_capture w + CAPTURE_INTERVAL;
                due = (if due + CAPTURE_INTERVAL < now then now + CAPTURE_INTERVAL else due)
        in capture_frame L (w\<lparr>wk_next_capture := due\<rparr>)))"

definition library_progress ::
  "('w, 'p, 's, 'd, 'n, 'f) worker_lib \<Rightarrow> worker_env \<Rightarrow> ('w, 's, 'd, 'n, 'f) worker \<Rightarrow> ('w, 's, 'd, 'n, 'f) worker" where
  "library_progress L E w =
     (let lb = wk_library w; over = (lb_pending lb = [])
      in if over \<or> SCAN_PUBLISH_ROWS \<le> lb_unpublished lb
            \<or> SCAN_PUBLISH_INTERVAL \<le> we_clock E 2 - lb_published_at lb
         then (let w1 = publish_library L (we_clock E 3) w in if over then publish_track L w1 else w1)
         else on_front (\<lambda>f. f\<lparr>fr_library_scanned := u32_of (length (lb_entries lb)),
             fr_library_total := u32_of (length (lb_entries lb) + length (lb_pending lb))\<rparr>) w)"

definition scan_step ::
  "('w, 'p, 's, 'd, 'n, 'f) worker_lib \<Rightarrow> worker_env \<Rightarrow> ('w, 's, 'd, 'n, 'f) worker \<Rightarrow> ('w, 's, 'd, 'n, 'f) worker" where
  "scan_step L E w0 = (case lb_pending (wk_library w0) of
       [] \<Rightarrow> w0
     | path # rest \<Rightarrow>
         if wk_playing w0 \<noteq> None \<and> length (wk_ring w0) < SCAN_WATER_SAMPLES then w0
         else (let w = on_library (\<lambda>lb. lb\<lparr>lb_pending := rest\<rparr>) w0
           in case probe_metadata (wl_host L) (we_media E 4) (we_fs E) path (wk_backend w) of
                Inr (Some d) \<Rightarrow>
                  let es = lb_entries (wk_library w);
                      entry = describe (wl_ms L) (we_stat E path) (u32_of (length es)) (lb_root (wk_library w)) path
                        (claimed (wk_backend w) path) (Some (wl_metadata L d))
                  in library_progress L E
                       (on_library (\<lambda>lb. lb\<lparr>lb_entries := es @ [entry], lb_unpublished := lb_unpublished lb + 1\<rparr>) w)
              | _ \<Rightarrow> library_progress L E w))"

text \<open>\<open>poll\<close> and what it mounts; a poll that panics takes the worker with it.\<close>

definition poll_track ::
  "('w, 'p, 's, 'd, 'n, 'f) worker_lib \<Rightarrow> worker_env \<Rightarrow> ('w, 's, 'd, 'n, 'f) worker \<Rightarrow> ('w, 's, 'd, 'n, 'f) worker outcome" where
  "poll_track L E w = (case poll (wk_playlist w) of
       Panic \<Rightarrow> Panic
     | Returned (e, None) \<Rightarrow> Returned (w\<lparr>wk_playlist := e\<rparr>)
     | Returned (e, Some it) \<Rightarrow> Returned (mount_track L E 2 (payload it) 0 (w\<lparr>wk_playlist := e\<rparr>)))"

definition ended_turn ::
  "('w, 'p, 's, 'd, 'n, 'f) worker_lib \<Rightarrow> ('w, 's, 'd, 'n, 'f) worker \<Rightarrow> ('w, 's, 'd, 'n, 'f) worker" where
  "ended_turn L w = (if status (wk_backend w) = Finished then song_ended L w else w)"

text \<open>One turn of the loop on the command received, if any; \<open>Quit\<close> ends the loop.\<close>

definition worker_turn ::
  "('w, 'p, 's, 'd, 'n, 'f::linorder) worker_lib \<Rightarrow> worker_env \<Rightarrow> 'f command option \<Rightarrow> ('w, 's, 'd, 'n, 'f) worker
     \<Rightarrow> ('w, 's, 'd, 'n, 'f) worker outcome" where
  "worker_turn L E got w =
     (case poll_track L E (case got of Some cmd \<Rightarrow> handle L E cmd w | None \<Rightarrow> w) of
        Panic \<Rightarrow> Panic
      | Returned w1 \<Rightarrow> Returned (scan_step L E (capture_due L (we_clock E 1) (render_turn L E (ended_turn L w1)))))"

definition worker_new ::
  "('w, 'p, 's, 'd, 'n, 'f::linorder) worker_lib \<Rightarrow> 'w load_report \<Rightarrow> string list \<Rightarrow> int \<Rightarrow> int \<Rightarrow> ('w, 's, 'd, 'n, 'f) worker" where
  "worker_new L r plugins clock capture_at =
     (let F = wl_floats L
      in publish_queue L (publish_track L (publish_library L clock
       \<lparr>wk_backend = backend_new (wl_host L) r (wl_visualization L) (SAMPLE_RATE, of_nat CHANNELS) MAX_FRAMES,
        wk_ring = [],
        wk_front = \<lparr>fr_traces = [], fr_vu = replicate (wl_scope_limit L) (fo_zero F), fr_vu_len = 0, fr_grid = grid_empty,
          fr_cells_rev = 0, fr_frame = 0, fr_status = UiIdle, fr_position_ms = 0, fr_duration_ms = 0, fr_subsong = 0,
          fr_subsong_count = 0, fr_position = no_position, fr_volume = fo_one F, fr_loop_mode = LoopOff,
          fr_library_scanned = 0, fr_library_total = 0, fr_library_rev = 0, fr_track_rev = 0, fr_queue_rev = 0,
          fr_plugin = [], fr_error = []\<rparr>,
        wk_docs = \<lparr>docs_library = [], docs_track = [], docs_queue = []\<rparr>,
        wk_playlist = engine_new, wk_playing = None,
        wk_library = \<lparr>lb_root = [], lb_plugins = plugin_labels plugins, lb_pending = [], lb_entries = [],
          lb_unpublished = 0, lb_published_at = clock\<rparr>,
        wk_traces = [], wk_vu = vu_new F (wl_scope_limit L) (wl_fall L), wk_grid = grid_empty,
        wk_next_capture = capture_at, wk_frame = 0, wk_volume = fo_one F, wk_loop_mode = LoopOff\<rparr>)))"

text \<open>
  The shell: its worker, the commands on their way to it and the walks still running. A command of the
  user goes to the end of the channel; a walk that is through sends what it found.
\<close>

record ('w, 's, 'd, 'n, 'f) shell =
  sh_worker :: "('w, 's, 'd, 'n, 'f) worker outcome"
  sh_channel :: "'f command list"
  sh_walks :: "string list"

definition walks_of :: "'f command option \<Rightarrow> string list" where
  "walks_of got = (case got of Some (ScanLibrary root) \<Rightarrow> [root] | _ \<Rightarrow> [])"

inductive shell_step ::
  "('w, 'p, 's, 'd, 'n, 'f::linorder) worker_lib \<Rightarrow> ('w, 's, 'd, 'n, 'f) shell \<Rightarrow> ('w, 's, 'd, 'n, 'f) shell \<Rightarrow> bool" for L where
  user: "(\<forall>root files. cmd \<noteq> Walked root files) \<Longrightarrow> shell_step L sh (sh\<lparr>sh_channel := sh_channel sh @ [cmd]\<rparr>)"
| walk_through: "i < length (sh_walks sh) \<Longrightarrow>
    shell_step L sh (sh\<lparr>sh_channel := sh_channel sh @ [Walked (sh_walks sh ! i) (walk_library (sh_walks sh ! i) tree)],
      sh_walks := remove_at i (sh_walks sh)\<rparr>)"
| idle_turn: "sh_worker sh = Returned w \<Longrightarrow> sh_channel sh = [] \<Longrightarrow> shell_step L sh (sh\<lparr>sh_worker := worker_turn L E None w\<rparr>)"
| command_turn: "sh_worker sh = Returned w \<Longrightarrow> sh_channel sh = cmd # rest \<Longrightarrow> cmd \<noteq> Quit \<Longrightarrow>
    shell_step L sh (sh\<lparr>sh_worker := worker_turn L E (Some cmd) w, sh_channel := rest,
      sh_walks := sh_walks sh @ (if spawned then walks_of (Some cmd) else [])\<rparr>)"
| pulled: "sh_worker sh = Returned w \<Longrightarrow> shell_step L sh (sh\<lparr>sh_worker := Returned (w\<lparr>wk_ring := drop n (wk_ring w)\<rparr>)\<rparr>)"

end
