(* ===== verification/Worker_Props.thy ===== *)
theory Worker_Props
  imports Worker
begin

text \<open>
  What the audio worker keeps: the queue never asks for an item that is not there, the front tells the
  truth about the song, the library's rows are numbered as the UI names them, and the ring stays within
  its fifth of a second.
\<close>

section \<open>Frames\<close>

lemma on_front_frame [simp]:
  "wk_backend (on_front g w) = wk_backend w" "wk_ring (on_front g w) = wk_ring w" "wk_docs (on_front g w) = wk_docs w"
  "wk_playlist (on_front g w) = wk_playlist w" "wk_playing (on_front g w) = wk_playing w"
  "wk_library (on_front g w) = wk_library w" "wk_volume (on_front g w) = wk_volume w"
  "wk_loop_mode (on_front g w) = wk_loop_mode w" "wk_front (on_front g w) = g (wk_front w)"
  by (simp_all add: on_front_def)

lemma on_playlist_frame [simp]:
  "wk_backend (on_playlist h w) = wk_backend w" "wk_ring (on_playlist h w) = wk_ring w"
  "wk_playlist (on_playlist h w) = h (wk_playlist w)" "wk_playing (on_playlist h w) = wk_playing w"
  "wk_library (on_playlist h w) = wk_library w" "wk_volume (on_playlist h w) = wk_volume w"
  "wk_loop_mode (on_playlist h w) = wk_loop_mode w" "wk_front (on_playlist h w) = wk_front w"
  by (simp_all add: on_playlist_def)

lemma on_library_frame [simp]:
  "wk_backend (on_library h w) = wk_backend w" "wk_ring (on_library h w) = wk_ring w"
  "wk_playlist (on_library h w) = wk_playlist w" "wk_playing (on_library h w) = wk_playing w"
  "wk_library (on_library h w) = h (wk_library w)" "wk_volume (on_library h w) = wk_volume w"
  "wk_loop_mode (on_library h w) = wk_loop_mode w" "wk_front (on_library h w) = wk_front w"
  by (simp_all add: on_library_def)

text \<open>Publishing the queue or the track changes a document and its revision.\<close>

lemma publish_queue_frame [simp]:
  "wk_backend (publish_queue L w) = wk_backend w" "wk_ring (publish_queue L w) = wk_ring w"
  "wk_playlist (publish_queue L w) = wk_playlist w" "wk_playing (publish_queue L w) = wk_playing w"
  "wk_library (publish_queue L w) = wk_library w" "wk_volume (publish_queue L w) = wk_volume w"
  "wk_loop_mode (publish_queue L w) = wk_loop_mode w"
  "wk_front (publish_queue L w) = (wk_front w)\<lparr>fr_queue_rev := fr_queue_rev (wk_front w) + 1\<rparr>"
  by (simp_all add: publish_queue_def Let_def)

lemma publish_track_frame [simp]:
  "wk_backend (publish_track L w) = wk_backend w" "wk_ring (publish_track L w) = wk_ring w"
  "wk_playlist (publish_track L w) = wk_playlist w" "wk_playing (publish_track L w) = wk_playing w"
  "wk_library (publish_track L w) = wk_library w" "wk_volume (publish_track L w) = wk_volume w"
  "wk_loop_mode (publish_track L w) = wk_loop_mode w"
  "wk_front (publish_track L w) = (wk_front w)\<lparr>fr_track_rev := fr_track_rev (wk_front w) + 1\<rparr>"
  by (simp_all add: publish_track_def Let_def)

lemma publish_library_frame [simp]:
  "wk_backend (publish_library L clock w) = wk_backend w" "wk_ring (publish_library L clock w) = wk_ring w"
  "wk_playlist (publish_library L clock w) = wk_playlist w" "wk_playing (publish_library L clock w) = wk_playing w"
  "wk_volume (publish_library L clock w) = wk_volume w" "wk_loop_mode (publish_library L clock w) = wk_loop_mode w"
  "lb_entries (wk_library (publish_library L clock w)) = lb_entries (wk_library w)"
  "lb_pending (wk_library (publish_library L clock w)) = lb_pending (wk_library w)"
  "lb_root (wk_library (publish_library L clock w)) = lb_root (wk_library w)"
  "wk_front (publish_library L clock w) = (wk_front w)\<lparr>fr_library_scanned := u32_of (length (lb_entries (wk_library w))),
     fr_library_total := u32_of (length (lb_entries (wk_library w)) + length (lb_pending (wk_library w))),
     fr_library_rev := fr_library_rev (wk_front w) + 1\<rparr>"
  by (simp_all add: publish_library_def Let_def)

lemma unmount_frame [simp]:
  "wk_backend (unmount L w) = close (wk_backend w)" "wk_ring (unmount L w) = []" "wk_playing (unmount L w) = None"
  "wk_playlist (unmount L w) = wk_playlist w" "wk_library (unmount L w) = wk_library w"
  "wk_volume (unmount L w) = wk_volume w" "wk_loop_mode (unmount L w) = wk_loop_mode w"
  "fr_status (wk_front (unmount L w)) = fr_status (wk_front w)" "fr_loop_mode (wk_front (unmount L w)) = fr_loop_mode (wk_front w)"
  "fr_volume (wk_front (unmount L w)) = fr_volume (wk_front w)"
  "fr_library_scanned (wk_front (unmount L w)) = fr_library_scanned (wk_front w)"
  "fr_library_total (wk_front (unmount L w)) = fr_library_total (wk_front w)"
  by (simp_all add: unmount_def)

lemma install_song_frame [simp]:
  "wk_backend (install_song L tr sub ly slot md entry w) = wk_backend w" "wk_ring (install_song L tr sub ly slot md entry w) = wk_ring w"
  "wk_playlist (install_song L tr sub ly slot md entry w) = wk_playlist w" "wk_playing (install_song L tr sub ly slot md entry w) \<noteq> None"
  "wk_library (install_song L tr sub ly slot md entry w) = wk_library w"
  "wk_volume (install_song L tr sub ly slot md entry w) = wk_volume w"
  "wk_loop_mode (install_song L tr sub ly slot md entry w) = wk_loop_mode w"
  "fr_status (wk_front (install_song L tr sub ly slot md entry w)) = UiPlaying"
  "fr_loop_mode (wk_front (install_song L tr sub ly slot md entry w)) = fr_loop_mode (wk_front w)"
  "fr_volume (wk_front (install_song L tr sub ly slot md entry w)) = fr_volume (wk_front w)"
  "fr_library_scanned (wk_front (install_song L tr sub ly slot md entry w)) = fr_library_scanned (wk_front w)"
  "fr_library_total (wk_front (install_song L tr sub ly slot md entry w)) = fr_library_total (wk_front w)"
  by (simp_all add: install_song_def Let_def)

section \<open>The queue\<close>

text \<open>The queue as the worker keeps it: the current item, when there is one, is still in it.\<close>

definition queue_ok :: "track engine \<Rightarrow> bool" where
  "queue_ok e \<longleftrightarrow> engine_inv e \<and> (\<forall>c. cursor e = Some c \<longrightarrow> \<not> cur_removed c)"

lemma cursor_item:
  assumes inv: "engine_inv e" and c: "cursor e = Some c" and pl: "playlist e (cur_playlist c) = Some pl"
    and it: "cur_current c = Some it" and stays: "\<not> cur_removed c"
  shows "it \<in> set (ids_of pl)"
proof -
  from inv c have "cursor_ok (playlists e) (next_item_id e) c" and dist: "distinct (map pl_id (playlists e))"
    by (auto simp: engine_inv_def stored_inv_def)
  then obtain j where j: "j < length (playlists e)" "cursor_at c (playlists e ! j)" by (auto simp: cursor_ok_def)
  from pl obtain i where i: "i < length (playlists e)" "playlists e ! i = pl" "pl_id pl = cur_playlist c"
    using playlist_Some by blast
  have "map pl_id (playlists e) ! i = map pl_id (playlists e) ! j" using j i by (simp add: cursor_at_def)
  moreover have "map pl_id (playlists e) ! i = map pl_id (playlists e) ! j \<longleftrightarrow> i = j"
    using dist i(1) j(1) by (intro nth_eq_iff_index_eq) simp_all
  ultimately have "i = j" by simp
  with i(2) j(2) it stays show ?thesis by (simp add: cursor_at_def)
qed

lemma queue_ok_poll: "queue_ok e \<Longrightarrow> \<exists>e' r. poll e = Returned (e', r) \<and> queue_ok e'"
proof -
  assume ok: "queue_ok e"
  have "poll e \<noteq> Panic"
  proof
    assume "poll e = Panic"
    then obtain c pl where c: "cursor e = Some c" "cur_pending c = Some Backward" and pl: "playlist e (cur_playlist c) = Some pl"
      and gone: "current_index c pl = None" by (auto simp: poll_panics_iff)
    from ok c(1) have inv: "engine_inv e" and stays: "\<not> cur_removed c" by (auto simp: queue_ok_def)
    from pending_Start [OF inv c(1)] c(2) obtain it where it: "cur_current c = Some it" by auto
    with gone cursor_item [OF inv c(1) pl it stays] show False by (simp add: current_index_def item_index_None)
  qed
  then obtain e' r where ret: "poll e = Returned (e', r)" by (cases "poll e") auto
  have "engine_inv e'" using poll_inv [OF _ ret] ok by (simp add: queue_ok_def)
  moreover have "\<not> cur_removed c" if "cursor e' = Some c" for c
    using that ok ret by (cases rule: poll_cases [of e]) (auto simp: queue_ok_def)
  ultimately show ?thesis using ret by (auto simp: queue_ok_def)
qed

lemma remove_other_cursor: "current_item_id e \<noteq> Some it \<Longrightarrow> cursor (fst (remove_item p it e)) = cursor e"
  by (auto simp: remove_item_def Let_def current_item_id_def split: option.splits)

lemma remove_past_ok:
  "queue_ok e \<Longrightarrow> current_item_id e = cur \<Longrightarrow> distinct is \<Longrightarrow> (past \<Longrightarrow> cur \<notin> Some ` set is) \<Longrightarrow>
   queue_ok (remove_past p cur past is e)"
proof (induction "is" arbitrary: past e)
  case (Cons i rest)
  let ?e = "if past then fst (remove_item p i e) else e"
  have "cursor ?e = cursor e" using Cons.prems(2,4) remove_other_cursor [of e i p] by auto
  moreover have "engine_inv ?e" using Cons.prems(1) remove_item_inv by (auto simp: queue_ok_def)
  ultimately have "queue_ok ?e" "current_item_id ?e = cur" using Cons.prems(1,2) by (auto simp: queue_ok_def current_item_id_def)
  from Cons.IH [OF this, of "past \<or> Some i = cur"] Cons.prems(3,4)
  have "queue_ok (remove_past p cur (past \<or> Some i = cur) rest ?e)" by fastforce
  then show ?case by simp
qed simp

lemma queue_ok_ops:
  assumes "queue_ok e"
  shows "queue_ok (stop e)" "queue_ok (on_finished e)" "queue_ok (on_failed e)" "queue_ok (next_item e)" "queue_ok (previous e)"
    "queue_ok (set_mode m e)" "queue_ok (fst (create name e))" "queue_ok (fst (append_item p s e))" "queue_ok (fst (start p it e))"
proof -
  from assms have inv: "engine_inv e" and cur: "\<And>c. cursor e = Some c \<Longrightarrow> \<not> cur_removed c" by (auto simp: queue_ok_def)
  note invs = stop_inv [OF inv] on_finished_inv [OF inv] on_failed_inv [OF inv] next_item_inv [OF inv] previous_inv [OF inv]
    create_inv [OF inv] append_item_inv [OF inv] start_inv [OF inv]
  show "queue_ok (stop e)" using invs by (simp add: queue_ok_def)
  show "queue_ok (on_finished e)" using invs cur by (auto simp: queue_ok_def on_finished_def split: option.splits)
  show "queue_ok (next_item e)" using invs cur by (auto simp: queue_ok_def next_item_def split: option.splits)
  show "queue_ok (previous e)" using invs cur by (auto simp: queue_ok_def previous_def split: option.splits)
  show "queue_ok (on_failed e)" using invs cur by (auto simp: queue_ok_def on_failed_def Let_def split: option.splits)
  show "queue_ok (set_mode m e)" using assms by (simp add: queue_ok_def set_mode_inv) (simp add: set_mode_def)
  show "queue_ok (fst (create name e))" using invs cur by (auto simp: queue_ok_def create_def mint_playlist_id_def split: option.splits)
  show "queue_ok (fst (append_item p s e))"
    using invs cur by (auto simp: queue_ok_def append_item_def mint_item_id_def split: option.splits)
  show "queue_ok (fst (start p it e))"
    using invs by (auto simp: queue_ok_def start_def Let_def split: option.splits)
qed

lemma append_tracks_ok: "queue_ok e \<Longrightarrow> queue_ok (fst (append_tracks es p k n trs found e))"
proof (induction trs arbitrary: k found e)
  case (Cons tr trs)
  obtain e' it where app: "append_item p (track_spec es tr) e = (e', it)" by fastforce
  with queue_ok_ops(8) [OF Cons.prems, of p "track_spec es tr"] Cons.IH show ?case by simp
qed simp

lemma start_queue_ok: "queue_ok (wk_playlist w) \<Longrightarrow> queue_ok (wk_playlist (start_queue L trs n w))"
proof -
  assume ok: "queue_ok (wk_playlist w)"
  obtain e p where new: "create None (stop (wk_playlist w)) = (e, p)" by fastforce
  from queue_ok_ops(7) [OF queue_ok_ops(1) [OF ok], of None] have e: "queue_ok e" by (simp add: new)
  show ?thesis
  proof (cases p)
    case None
    with e new show ?thesis by (simp add: start_queue_def)
  next
    case (Some i)
    let ?es = "lb_entries (wk_library w)"
    obtain e1 s where app: "append_tracks ?es i 0 n trs None e = (e1, s)" by fastforce
    from append_tracks_ok [OF e, of ?es i 0 n trs None] have "queue_ok e1" by (simp add: app)
    from queue_ok_ops(9) [OF queue_ok_ops(6) [OF this, of "playlist_mode (wk_loop_mode w)"], of i s] new Some app
    show ?thesis by (simp add: start_queue_def)
  qed
qed

lemma clear_queue_ok: "queue_ok (wk_playlist w) \<Longrightarrow> queue_ok (wk_playlist (clear_queue L w))"
proof -
  assume ok: "queue_ok (wk_playlist w)"
  let ?e = "wk_playlist w"
  show ?thesis
  proof (cases "playing_playlist ?e")
    case None
    with ok show ?thesis by (simp add: clear_queue_def Let_def)
  next
    case (Some p)
    let ?ids = "case playlist ?e p of Some pl \<Rightarrow> map item_id (pl_items pl) | None \<Rightarrow> []"
    have "distinct ?ids"
    proof (cases "playlist ?e p")
      case at: (Some pl)
      then obtain i where "i < length (playlists ?e)" "playlists ?e ! i = pl" using playlist_Some by blast
      with ok have "distinct (ids_of pl)" using stored_inv_ids by (auto simp: queue_ok_def engine_inv_def)
      with at show ?thesis by (simp add: ids_of_def)
    qed simp
    with remove_past_ok [OF ok refl this, of "current_item_id ?e = None" p] Some
    show ?thesis by (simp add: clear_queue_def Let_def image_iff)
  qed
qed

section \<open>The song\<close>

text \<open>What the front calls the song, and what the backend may be doing then.\<close>

fun says :: "ui_status \<Rightarrow> playback_status \<Rightarrow> bool" where
  "says UiPlaying s \<longleftrightarrow> s \<in> {Playing, Finished}"
| "says UiPaused s \<longleftrightarrow> s = Paused"
| "says UiIdle s \<longleftrightarrow> s = Idle"
| "says UiFinished s \<longleftrightarrow> s = Idle"
| "says UiError s \<longleftrightarrow> s = Idle"

text \<open>
  A song is held exactly while one is mounted, the front says what it is doing, the counters are those
  of the library, the rows are numbered by their position, and volume and mode are those in force.
\<close>

definition song_ok :: "('w, 'p, 's, 'd, 'n, 'f) worker_lib \<Rightarrow> ('w, 's, 'd, 'n, 'f) worker \<Rightarrow> bool" where
  "song_ok L w \<longleftrightarrow> backend_ok (wl_host L) (wk_backend w) \<and> (wk_playing w \<noteq> None \<longleftrightarrow> is_live (wk_backend w))
     \<and> says (fr_status (wk_front w)) (status (wk_backend w))"

definition front_ok :: "('w, 's, 'd, 'n, 'f) worker \<Rightarrow> bool" where
  "front_ok w \<longleftrightarrow> fr_loop_mode (wk_front w) = wk_loop_mode w \<and> fr_volume (wk_front w) = wk_volume w
     \<and> fr_library_scanned (wk_front w) = u32_of (length (lb_entries (wk_library w)))
     \<and> fr_library_total (wk_front w) = u32_of (length (lb_entries (wk_library w)) + length (lb_pending (wk_library w)))
     \<and> (\<forall>i < length (lb_entries (wk_library w)). row_id (lb_entries (wk_library w) ! i) = u32_of i)"

lemma status_live: "backend_ok H be \<Longrightarrow> status be = Idle \<longleftrightarrow> \<not> is_live be"
  by (auto simp: backend_ok_def status_def is_live_def split: option.splits)

lemma status_closed [simp]: "status (close be) = Idle" "\<not> is_live (close be)"
  by (simp_all add: status_def close_def is_live_def)

lemma backend_ok_close: "backend_ok H be \<Longrightarrow> backend_ok H (close be)"
  using exec_player_ok [of H be CloseSong] by (simp add: exec_player_def)

lemma song_ok_unmount: "song_ok L w \<Longrightarrow> backend_ok (wl_host L) (wk_backend (unmount L w)) \<and> wk_playing (unmount L w) = None
    \<and> \<not> is_live (wk_backend (unmount L w)) \<and> status (wk_backend (unmount L w)) = Idle"
  by (simp add: song_ok_def backend_ok_close)

text \<open>A mount ends with the song in place or as a failure of whatever was there.\<close>

lemma mount_track_cases:
  obtains (failed) be msg where "fst (mount (wl_host L) (we_media E k) (we_fs E) (trk_path tr) (if unat sub < 2 ^ 16 then ucast sub else 0) (wk_backend w)) = be"
      "mount_track L E k tr sub w = fail_song L msg (w\<lparr>wk_ring := [], wk_playing := None, wk_backend := be\<rparr>)"
  | (mounted) be ly slot md entry where
      "fst (mount (wl_host L) (we_media E k) (we_fs E) (trk_path tr) (if unat sub < 2 ^ 16 then ucast sub else 0) (wk_backend w)) = be"
      "is_live be" "status be = Playing"
      "mount_track L E k tr sub w = publish_queue L (publish_track L (install_song L tr sub ly slot md entry
         (w\<lparr>wk_ring := [], wk_playing := None, wk_backend := be\<rparr>)))"
proof -
  let ?n = "if unat sub < 2 ^ 16 then ucast sub else 0 :: u16"
  obtain be r where m: "mount (wl_host L) (we_media E k) (we_fs E) (trk_path tr) ?n (wk_backend w) = (be, r)" by fastforce
  show thesis
  proof (cases r)
    case (Inl err)
    with m show thesis by (intro failed [of be]) (simp_all add: mount_track_def Let_def)
  next
    case (Inr u)
    with m have live: "is_live be" "status be = Playing"
      by (auto simp: mount_def Let_def is_live_def status_def split: sum.splits)
    consider "visualization_layout (wl_host L) be = None" | d where "visualization_layout (wl_host L) be = Some d" "wl_slot L d = None"
      | d slot where "visualization_layout (wl_host L) be = Some d" "wl_slot L d = Some slot" by fastforce
    then show thesis
    proof cases
      case 3
      with m Inr live show thesis by (intro mounted [of be]) (simp_all add: mount_track_def Let_def)
    qed (use m Inr in \<open>(intro failed [of be]; simp add: mount_track_def Let_def)+\<close>)
  qed
qed

text \<open>All three together, kept by every part of a turn.\<close>

definition worker_ok :: "('w, 'p, 's, 'd, 'n, 'f) worker_lib \<Rightarrow> ('w, 's, 'd, 'n, 'f) worker \<Rightarrow> bool" where
  "worker_ok L w \<longleftrightarrow> queue_ok (wk_playlist w) \<and> song_ok L w \<and> front_ok w"

lemma fail_song_ok:
  "queue_ok (wk_playlist w) \<Longrightarrow> front_ok w \<Longrightarrow> backend_ok (wl_host L) (wk_backend w) \<Longrightarrow> worker_ok L (fail_song L msg w)"
  by (simp add: worker_ok_def fail_song_def song_ok_def front_ok_def backend_ok_close queue_ok_ops)

lemma mount_track_ok:
  assumes "queue_ok (wk_playlist w)" "front_ok w" "backend_ok (wl_host L) (wk_backend w)"
  shows "worker_ok L (mount_track L E k tr sub w)"
proof -
  let ?n = "if unat sub < 2 ^ 16 then ucast sub else 0 :: u16"
  have ok: "backend_ok (wl_host L) (fst (mount (wl_host L) (we_media E k) (we_fs E) (trk_path tr) ?n (wk_backend w)))"
    using exec_player_ok [OF assms(3), of "MountSong (we_media E k) (we_fs E) (trk_path tr) ?n"] by (simp add: exec_player_def)
  show ?thesis
  proof (cases rule: mount_track_cases [of L E k tr sub w])
    case (failed be msg)
    with ok assms show ?thesis by (auto intro!: fail_song_ok simp: front_ok_def)
  next
    case (mounted be ly slot md entry)
    with ok assms show ?thesis by (simp add: worker_ok_def song_ok_def front_ok_def)
  qed
qed

lemma toggle_song_ok: "worker_ok L w \<Longrightarrow> worker_ok L (toggle_song w)"
  by (auto simp: worker_ok_def song_ok_def front_ok_def toggle_song_def toggle_pause_def backend_ok_def is_live_def status_def
      split: option.splits playback_status.splits)

text \<open>A seek that is answered leaves a mounted song mounted and a finished one playing.\<close>

lemma seek_answered:
  "seek H ms be = (be', r) \<Longrightarrow> backend_ok H be \<Longrightarrow> backend_ok H be' \<and> is_live be' = is_live be
     \<and> status be' = (if r \<noteq> None \<and> status be = Finished then Playing else status be) \<and> (r \<noteq> None \<longrightarrow> is_live be)"
  by (auto simp: seek_def backend_ok_def is_live_def status_def split: option.splits prod.splits)

lemma says_live: "says u s \<Longrightarrow> s \<noteq> Idle \<Longrightarrow> u = UiPlaying \<or> u = UiPaused" by (cases u) auto

lemma seek_song_ok: "worker_ok L w \<Longrightarrow> worker_ok L (seek_song L ms w)"
proof -
  assume ok: "worker_ok L w"
  obtain be r where s: "seek (wl_host L) (max ms 0) (wk_backend w) = (be, r)" by fastforce
  from ok have b: "backend_ok (wl_host L) (wk_backend w)" by (simp add: worker_ok_def song_ok_def)
  note sk = seek_answered [OF s b] and st = status_live [OF b]
  show ?thesis
  proof (cases r)
    case None
    with s sk ok show ?thesis by (simp add: seek_song_def worker_ok_def song_ok_def front_ok_def)
  next
    case (Some reached)
    with sk st ok have "fr_status (wk_front w) \<in> {UiPlaying, UiPaused}" using says_live by (auto simp: worker_ok_def song_ok_def)
    with Some s sk ok show ?thesis by (auto simp: seek_song_def worker_ok_def song_ok_def front_ok_def split: if_splits)
  qed
qed

lemma rewind_ok: "worker_ok L w \<Longrightarrow> worker_ok L (fst (rewind L w))"
proof -
  assume ok: "worker_ok L w"
  obtain be r where s: "seek (wl_host L) 0 (wk_backend w) = (be, r)" by fastforce
  from ok have b: "backend_ok (wl_host L) (wk_backend w)" by (simp add: worker_ok_def song_ok_def)
  note sk = seek_answered [OF s b] and st = status_live [OF b]
  show ?thesis
  proof (cases r)
    case (Some reached)
    with sk st ok have "fr_status (wk_front w) \<in> {UiPlaying, UiPaused}" using says_live by (auto simp: worker_ok_def song_ok_def)
    with Some s sk ok show ?thesis by (auto simp: rewind_def worker_ok_def song_ok_def front_ok_def split: if_splits)
  qed (use s sk ok in \<open>simp add: rewind_def worker_ok_def song_ok_def front_ok_def\<close>)
qed

lemma stop_song_ok: "worker_ok L w \<Longrightarrow> worker_ok L (stop_song L w)"
  by (simp add: worker_ok_def stop_song_def song_ok_def front_ok_def backend_ok_close queue_ok_ops)

lemma song_ended_ok: "worker_ok L w \<Longrightarrow> worker_ok L (song_ended L w)"
proof -
  assume ok: "worker_ok L w"
  have ended: "worker_ok L (let w1 = on_playlist on_finished v in if peek_next (wk_playlist w1) \<noteq> None then w1
      else publish_queue L (on_front (\<lambda>f. f\<lparr>fr_status := UiFinished\<rparr>) (unmount L (on_playlist stop w1))))"
    if "worker_ok L v" for v
    using that by (auto simp: worker_ok_def song_ok_def front_ok_def backend_ok_close queue_ok_ops Let_def)
  show ?thesis
  proof (cases "wk_loop_mode w = LoopOne")
    case True
    obtain v went where r: "rewind L w = (v, went)" by fastforce
    with rewind_ok [OF ok] have "worker_ok L v" by simp
    with ended [of v] True r show ?thesis by (cases went) (simp_all add: song_ended_def)
  next
    case False
    with ended [OF ok] show ?thesis by (simp add: song_ended_def)
  qed
qed

lemma rendered:
  "render H n be = (be', r) \<Longrightarrow> backend_ok H be \<Longrightarrow> backend_ok H be' \<and> is_live be' = is_live be
     \<and> (status be' = status be \<or> status be = Playing \<and> status be' = Finished)"
  by (auto simp: render_def backend_ok_def is_live_def status_def split: option.splits sum.splits prod.splits if_splits)

lemma says_rendered: "says u s \<Longrightarrow> s' = s \<or> s = Playing \<and> s' = Finished \<Longrightarrow> says u s'"
  by (cases u) auto

lemma render_turn_ok: "worker_ok L w \<Longrightarrow> worker_ok L (render_turn L E w)"
proof (cases "BUFFERED_SAMPLES \<le> length (wk_ring w) \<or> frames_due (length (wk_ring w)) (we_earned E) = 0")
  case True
  then show "worker_ok L w \<Longrightarrow> worker_ok L (render_turn L E w)" by (auto simp: render_turn_def top_up_def Let_def)
next
  case False
  assume ok: "worker_ok L w"
  obtain be r where ren: "render (wl_host L) (frames_due (length (wk_ring w)) (we_earned E)) (wk_backend w) = (be, r)" by fastforce
  from ok have b: "backend_ok (wl_host L) (wk_backend w)" by (simp add: worker_ok_def song_ok_def)
  note r = rendered [OF ren b]
  show ?thesis
  proof (cases r)
    case (Inl err)
    with False ren r ok show ?thesis
      by (simp add: render_turn_def top_up_def Let_def worker_ok_def song_ok_def front_ok_def backend_ok_close queue_ok_ops)
  next
    case (Inr samples)
    from ok have "says (fr_status (wk_front w)) (status be)" using says_rendered r by (metis worker_ok_def song_ok_def)
    with Inr False ren r ok show ?thesis
      by (simp add: render_turn_def top_up_def Let_def worker_ok_def song_ok_def front_ok_def)
  qed
qed

lemma captured:
  "capture H snap be = (be', snap', err) \<Longrightarrow> backend_ok H be \<Longrightarrow> backend_ok H be' \<and> is_live be' = is_live be \<and> status be' = status be"
  by (auto simp: capture_def backend_ok_def is_live_def status_def split: option.splits prod.splits)

lemma capture_frame_ok: "worker_ok L w \<Longrightarrow> worker_ok L (capture_frame L w)"
proof (cases "wk_playing w")
  case (Some py)
  assume ok: "worker_ok L w"
  obtain be snap err where c: "capture (wl_host L) (py_snapshot py) (wk_backend w) = (be, snap, err)"
    by (metis prod_cases3)
  from ok have b: "backend_ok (wl_host L) (wk_backend w)" by (simp add: worker_ok_def song_ok_def)
  obtain grid changed where g: "grid_fill_from (wl_snapshot L snap) (wk_grid w) = (grid, changed)" by fastforce
  show ?thesis
  proof (cases err)
    case None
    with Some c g captured [OF c b] ok show ?thesis
      by (simp add: capture_frame_def Let_def worker_ok_def song_ok_def front_ok_def)
  next
    case (Some x)
    with \<open>wk_playing w = Some py\<close> c captured [OF c b] ok show ?thesis
      by (simp add: capture_frame_def Let_def worker_ok_def song_ok_def front_ok_def)
  qed
qed (simp add: capture_frame_def)

lemma capture_due_ok: "worker_ok L w \<Longrightarrow> worker_ok L (capture_due L now w)"
proof -
  assume ok: "worker_ok L w"
  then have "worker_ok L (w\<lparr>wk_next_capture := n\<rparr>)" for n by (simp add: worker_ok_def song_ok_def front_ok_def)
  with ok show ?thesis by (simp add: capture_due_def Let_def capture_frame_ok)
qed

lemma publish_library_ok:
  "queue_ok (wk_playlist w) \<Longrightarrow> song_ok L w \<Longrightarrow> fr_loop_mode (wk_front w) = wk_loop_mode w \<Longrightarrow> fr_volume (wk_front w) = wk_volume w \<Longrightarrow>
   \<forall>i < length (lb_entries (wk_library w)). row_id (lb_entries (wk_library w) ! i) = u32_of i \<Longrightarrow>
   worker_ok L (publish_library L clock w)"
  by (simp add: worker_ok_def song_ok_def front_ok_def)

lemma library_progress_ok:
  assumes "queue_ok (wk_playlist w)" "song_ok L w" "fr_loop_mode (wk_front w) = wk_loop_mode w" "fr_volume (wk_front w) = wk_volume w"
    "\<forall>i < length (lb_entries (wk_library w)). row_id (lb_entries (wk_library w) ! i) = u32_of i"
  shows "worker_ok L (library_progress L E w)"
proof -
  have "worker_ok L (publish_library L (we_clock E 3) w)" by (rule publish_library_ok [OF assms])
  moreover from this have "worker_ok L (publish_track L (publish_library L (we_clock E 3) w))"
    by (simp add: worker_ok_def song_ok_def front_ok_def)
  ultimately show ?thesis
    using assms by (simp add: library_progress_def Let_def) (simp add: worker_ok_def song_ok_def front_ok_def)
qed

lemma describe_id [simp]: "row_id (describe ms st i root path format md) = i"
  by (simp add: describe_def apply_metadata_def Let_def split: option.split)

lemma scan_step_ok: "worker_ok L w \<Longrightarrow> worker_ok L (scan_step L E w)"
proof (cases "lb_pending (wk_library w)")
  case (Cons path rest)
  assume ok: "worker_ok L w"
  note parts = ok [unfolded worker_ok_def song_ok_def front_ok_def]
  show ?thesis
  proof (cases "wk_playing w \<noteq> None \<and> length (wk_ring w) < SCAN_WATER_SAMPLES")
    case True
    with Cons ok show ?thesis by (simp add: scan_step_def)
  next
    case False
    let ?w = "on_library (\<lambda>lb. lb\<lparr>lb_pending := rest\<rparr>) w"
    have skip: "worker_ok L (library_progress L E ?w)" using parts by (intro library_progress_ok) (simp_all add: song_ok_def)
    have add: "worker_ok L (library_progress L E (on_library (\<lambda>lb. lb\<lparr>lb_entries := lb_entries (wk_library ?w) @ [entry],
         lb_unpublished := lb_unpublished lb + 1\<rparr>) ?w))" if "row_id entry = u32_of (length (lb_entries (wk_library w)))" for entry
      using parts that by (intro library_progress_ok) (simp_all add: song_ok_def nth_append less_Suc_eq)
    note add = add [simplified]
    show ?thesis
      using Cons False skip by (auto simp: scan_step_def Let_def split: sum.split option.split intro!: add)
  qed
qed (simp add: scan_step_def)

section \<open>Whole turns\<close>

lemma handle_ok: "worker_ok L w \<Longrightarrow> worker_ok L (handle L E cmd w)"
proof -
  assume ok: "worker_ok L w"
  note parts = ok [unfolded worker_ok_def]
  have queue: "worker_ok L (start_queue L trs n w)" for trs n
    using parts start_queue_ok [of w L trs n] by (auto simp: worker_ok_def start_queue_def song_ok_def front_ok_def split: prod.splits option.splits)
  show ?thesis
  proof (cases cmd)
    case (Open path)
    with queue show ?thesis by (simp add: handle_def)
  next
    case (PlayRows rows n)
    with queue ok show ?thesis by (simp add: handle_def play_rows_def Let_def)
  next
    case Previous
    with rewind_ok [OF ok] parts queue_ok_ops(5) show ?thesis
      by (auto simp: handle_def previous_song_def Let_def worker_ok_def song_ok_def front_ok_def)
  next
    case (SetSubsong i)
    with ok mount_track_ok [of w L E 0] parts show ?thesis
      by (auto simp: handle_def set_subsong_def song_ok_def split: option.split)
  next
    case (SetVolume v)
    with parts show ?thesis by (auto simp: handle_def set_volume_def Let_def worker_ok_def song_ok_def front_ok_def)
  next
    case ClearQueue
    with parts clear_queue_ok [of w L] show ?thesis
      by (auto simp: handle_def clear_queue_def Let_def worker_ok_def song_ok_def front_ok_def split: option.splits)
  next
    case (ScanLibrary root)
    with parts show ?thesis by (simp add: handle_def scan_library_def worker_ok_def song_ok_def front_ok_def)
  next
    case (Walked root files)
    with parts show ?thesis by (simp add: handle_def walked_def worker_ok_def song_ok_def front_ok_def)
  next
    case Next
    with parts queue_ok_ops show ?thesis by (simp add: handle_def worker_ok_def song_ok_def front_ok_def)
  next
    case (SetLoop m)
    with parts queue_ok_ops show ?thesis by (simp add: handle_def set_loop_def worker_ok_def song_ok_def front_ok_def)
  qed (use ok in \<open>simp_all add: handle_def stop_song_ok toggle_song_ok seek_song_ok\<close>)
qed

lemma poll_track_ok: "worker_ok L w \<Longrightarrow> \<exists>w'. poll_track L E w = Returned w' \<and> worker_ok L w'"
proof -
  assume ok: "worker_ok L w"
  then obtain e r where p: "poll (wk_playlist w) = Returned (e, r)" "queue_ok e" using queue_ok_poll by (metis worker_ok_def)
  from ok p(2) have "worker_ok L (w\<lparr>wk_playlist := e\<rparr>)" by (simp add: worker_ok_def song_ok_def front_ok_def)
  moreover from this have "worker_ok L (mount_track L E 2 (payload it) 0 (w\<lparr>wk_playlist := e\<rparr>))" for it :: "track item"
    by (intro mount_track_ok) (auto simp: worker_ok_def song_ok_def)
  ultimately show ?thesis using p(1) by (cases r) (auto simp: poll_track_def)
qed

lemma worker_turn_ok: "worker_ok L w \<Longrightarrow> \<exists>w'. worker_turn L E got w = Returned w' \<and> worker_ok L w'"
proof -
  assume ok: "worker_ok L w"
  then have "worker_ok L (case got of Some cmd \<Rightarrow> handle L E cmd w | None \<Rightarrow> w)" by (auto intro: handle_ok split: option.split)
  from poll_track_ok [OF this, of E] obtain w1 where w1: "poll_track L E (case got of Some cmd \<Rightarrow> handle L E cmd w | None \<Rightarrow> w) = Returned w1"
    and "worker_ok L w1" by blast
  then have "worker_ok L (ended_turn L w1)" by (simp add: ended_turn_def song_ended_ok)
  then have "worker_ok L (scan_step L E (capture_due L (we_clock E 1) (render_turn L E (ended_turn L w1))))"
    by (intro scan_step_ok capture_due_ok render_turn_ok)
  with w1 show ?thesis by (simp add: worker_turn_def)
qed

lemma worker_new_ok: "worker_ok L (worker_new L r plugins clock at)"
proof -
  have "queue_ok engine_new" using engine_inv_new by (simp add: queue_ok_def engine_new_def)
  then show ?thesis
    by (simp add: worker_new_def Let_def worker_ok_def song_ok_def front_ok_def backend_new_ok) (simp add: backend_new_def is_live_def status_def)
qed

end
