(* ===== verification/Worker_Queue.thy ===== *)
theory Worker_Queue
  imports Worker_Props
begin

text \<open>
  What the worker queues: the rows it is asked for, the one it starts with, how long it plays on, and
  what a scan of the library adds.
\<close>

section \<open>Appending\<close>

lemma append_step:
  assumes inv: "engine_inv e" and i: "playlist_index e p = Some i" and room: "unat (next_item_id e) + 1 < 2 ^ 64"
  obtains e' it where "append_item p s e = (e', Some it)" "engine_inv e'" "cursor e' = cursor e" "playlist_index e' p = Some i"
    "unat (next_item_id e') = unat (next_item_id e) + 1"
    "pl_items (playlists e' ! i) = pl_items (playlists e ! i) @ [item_of_spec it s]"
    "item_index (playlists e' ! i) it = Some (length (pl_items (playlists e ! i)))"
    "\<forall>other j. item_index (playlists e ! i) other = Some j \<longrightarrow> item_index (playlists e' ! i) other = Some j"
proof -
  from room have n: "checked_add (next_item_id e) 1 = Some (next_item_id e + 1)" by (simp add: checked_add_Some)
  let ?it = "ItemId (next_item_id e + 1)"
  let ?pl = "playlists e ! i"
  have lt: "i < length (playlists e)" using i by (rule playlist_index_lt)
  have "?it \<notin> set (concat (map ids_of (playlists e)))"
    using mint_fresh_item [OF engine_invD(1) [OF inv] checked_add_gt [OF n]] .
  with lt have fresh: "?it \<notin> set (ids_of ?pl)" by auto
  define e' where "e' = fst (append_item p s e)"
  have app: "append_item p s e = (e', Some ?it)" by (simp add: e'_def append_item_def mint_item_id_def i n)
  have pls: "playlists e' = (playlists e)[i := touch_content (?pl\<lparr>pl_items := pl_items ?pl @ [item_of_spec ?it s]\<rparr>)]"
    and rest: "cursor e' = cursor e" "next_item_id e' = next_item_id e + 1"
    by (simp_all add: e'_def append_item_def mint_item_id_def i n update_playlist_def)
  have items: "pl_items (playlists e' ! i) = pl_items ?pl @ [item_of_spec ?it s]"
    using lt by (simp add: pls touch_content_def)
  show thesis
  proof (rule that [OF app _ rest(1) _ _ items])
    show "engine_inv e'" using append_item_inv [OF inv, of p s] by (simp add: e'_def)
    show "playlist_index e' p = Some i"
    proof -
      have "map pl_id (playlists e') = map pl_id (playlists e)" using lt by (simp add: pls map_update touch_content_def) (metis list_update_id map_update)
      with i show ?thesis by (simp add: playlist_index_map)
    qed
    show "unat (next_item_id e') = unat (next_item_id e) + 1" using unat_checked_add [OF n] by (simp add: rest(2))
    show "item_index (playlists e' ! i) ?it = Some (length (pl_items ?pl))"
    proof -
      have "position (\<lambda>x. item_id x = ?it) (pl_items ?pl) = None" using fresh item_index_None [of ?pl ?it] by (simp add: item_index_def)
      then show ?thesis by (simp add: item_index_def items position_append item_of_spec_def)
    qed
    show "\<forall>other j. item_index ?pl other = Some j \<longrightarrow> item_index (playlists e' ! i) other = Some j"
      by (simp add: item_index_def items position_append)
  qed
qed

lemma append_tracks_result:
  "\<lbrakk>engine_inv e; playlist_index e p = Some i; unat (next_item_id e) + length trs < 2 ^ 64;
    append_tracks es p k n trs found e = (e', r)\<rbrakk> \<Longrightarrow>
   engine_inv e' \<and> cursor e' = cursor e \<and> playlist_index e' p = Some i
   \<and> map payload (pl_items (playlists e' ! i)) = map payload (pl_items (playlists e ! i)) @ trs
   \<and> (\<forall>other j. item_index (playlists e ! i) other = Some j \<longrightarrow> item_index (playlists e' ! i) other = Some j)
   \<and> (if k \<le> n \<and> n < k + length trs
      then \<exists>it. r = Some it \<and> item_index (playlists e' ! i) it = Some (length (pl_items (playlists e ! i)) + (n - k))
      else r = found)"
proof (induction trs arbitrary: k found e)
  case (Cons tr trs)
  from Cons.prems(3) have "unat (next_item_id e) + 1 < 2 ^ 64" by simp
  then obtain e1 it where
    app: "append_item p (track_spec es tr) e = (e1, Some it)" "engine_inv e1" "cursor e1 = cursor e" "playlist_index e1 p = Some i"
    and nx: "unat (next_item_id e1) = unat (next_item_id e) + 1"
    and items: "pl_items (playlists e1 ! i) = pl_items (playlists e ! i) @ [item_of_spec it (track_spec es tr)]"
    and new: "item_index (playlists e1 ! i) it = Some (length (pl_items (playlists e ! i)))"
    and old: "\<forall>other j. item_index (playlists e ! i) other = Some j \<longrightarrow> item_index (playlists e1 ! i) other = Some j"
    by (rule append_step [OF Cons.prems(1,2), where s = "track_spec es tr"])
  have pay: "payload (item_of_spec it (track_spec es tr)) = tr"
    by (simp add: item_of_spec_def track_spec_def item_spec_new_def Let_def split: option.split)
  from Cons.prems(3,4) app nx have "unat (next_item_id e1) + length trs < 2 ^ 64"
    "append_tracks es p (Suc k) n trs (if k = n then Some it else found) e1 = (e', r)" by simp_all
  note IH = Cons.IH [OF app(2,4) this]
  show ?case
  proof (cases "k = n")
    case True
    with IH app(3) items pay new old show ?thesis by (auto split: if_splits)
  next
    case False
    with IH app(3) items pay old show ?thesis by (auto split: if_splits simp: Suc_diff_le)
  qed
qed auto

section \<open>Starting a queue\<close>

text \<open>Room left in the id counters for one more queue.\<close>

definition queue_room :: "track engine \<Rightarrow> nat \<Rightarrow> bool" where
  "queue_room e n \<longleftrightarrow> unat (next_playlist_id e) + 1 < 2 ^ 64 \<and> unat (next_item_id e) + n < 2 ^ 64"

lemma remove_playlist_counters [simp]:
  "next_item_id (remove_playlist p e) = next_item_id e" "next_playlist_id (remove_playlist p e) = next_playlist_id e"
  by (simp_all add: remove_playlist_def split: option.split)

lemma stop_counters [simp]: "next_item_id (stop e) = next_item_id e" "next_playlist_id (stop e) = next_playlist_id e"
  by (simp_all add: stop_def Let_def split: option.split)

lemma start_queue_plays:
  assumes ok: "queue_ok (wk_playlist w)" and room: "queue_room (wk_playlist w) (length trs)" and n: "n < length trs"
  obtains e i pl c it where "poll (wk_playlist (start_queue L trs n w)) = Returned (e, Some it)"
    "at_item e i pl n c" "cur_pending c = None" "engine_mode e = Sequential" "map payload (pl_items pl) = trs" "it = pl_items pl ! n"
proof -
  let ?e0 = "stop (wk_playlist w)"
  from room have np: "checked_add (next_playlist_id (wk_playlist w)) 1 = Some (next_playlist_id (wk_playlist w) + 1)"
    by (simp add: checked_add_Some queue_room_def)
  define p where "p = PlaylistId (next_playlist_id (wk_playlist w) + 1)"
  obtain e1 where new: "create None ?e0 = (e1, Some p)" by (simp add: create_def mint_playlist_id_def np p_def)
  have inv0: "engine_inv ?e0" using ok queue_ok_ops(1) by (simp add: queue_ok_def)
  from create_inv [OF this, of None] new have inv1: "engine_inv e1" by simp
  from new np have e1: "cursor e1 = None" "next_item_id e1 = next_item_id (wk_playlist w)" "\<exists>q. playlists e1 = playlists ?e0 @ [q] \<and> pl_id q = p \<and> pl_items q = []"
    by (auto simp: create_def mint_playlist_id_def p_def)
  then obtain q where q: "playlists e1 = playlists ?e0 @ [q]" "pl_id q = p" "pl_items q = []" by blast
  have idx: "playlist_index e1 p = Some (length (playlists ?e0))"
  proof -
    have "\<forall>x \<in> set (playlists ?e0). pl_id x \<noteq> p" using mint_fresh_playlist [OF engine_invD(1) [OF inv0], of "next_playlist_id (wk_playlist w) + 1"] np by (simp add: p_def)
    then have "position (\<lambda>x. pl_id x = p) (playlists ?e0) = None" by (simp add: position_None)
    with q show ?thesis by (simp add: playlist_index_def position_append)
  qed
  let ?i = "length (playlists ?e0)"
  obtain e2 r where app: "append_tracks (lb_entries (wk_library w)) p 0 n trs None e1 = (e2, r)" by fastforce
  from room have "unat (next_item_id e1) + length trs < 2 ^ 64" by (simp add: e1(2) queue_room_def)
  from append_tracks_result [OF inv1 idx this app] n q e1(1) obtain it where it: "r = Some it" "item_index (playlists e2 ! ?i) it = Some n"
    and e2: "engine_inv e2" "cursor e2 = None" "playlist_index e2 p = Some ?i" "map payload (pl_items (playlists e2 ! ?i)) = trs"
    by auto
  let ?m = "set_mode (playlist_mode (wk_loop_mode w)) e2"
  have "stop ?m = ?m" using e2(2) by (simp add: stop_def set_mode_def)
  moreover have "playlist ?m p = Some (playlists e2 ! ?i)"
    using e2(3) by (simp add: set_mode_def playlist_conv_index playlist_index_def)
  ultimately have pl: "playlist (stop ?m) p = Some (playlists e2 ! ?i)" by simp
  from e2(1) have invm: "engine_inv ?m" by (simp add: set_mode_inv)
  have start: "wk_playlist (start_queue L trs n w) = fst (start p (Some it) ?m)"
    using new app it(1) by (simp add: start_queue_def)
  show thesis
  proof (rule start_poll [OF invm pl it(2), of Sequential])
    fix e' i c
    assume "poll (set_mode Sequential (fst (start p (Some it) ?m))) = Returned (e', Some (pl_items (playlists e2 ! ?i) ! n))"
      and at: "at_item e' i (playlists e2 ! ?i) n c" "cur_pending c = None" "engine_mode e' = Sequential"
    then have "poll (wk_playlist (start_queue L trs n w)) = Returned (e', Some (pl_items (playlists e2 ! ?i) ! n))"
      by (simp add: start set_mode_start [OF pl it(2)])
    from this at(1,2,3) e2(4) refl show thesis by (rule that)
  qed
qed

text \<open>
  Asked for rows of the library, the worker plays the ones it knows, in the order given, from the
  chosen one among them, or the last when there are fewer; the queue plays on in order and does not
  repeat, whatever the loop mode in force.
\<close>

theorem play_rows_queues_known:
  assumes ok: "queue_ok (wk_playlist w)"
    and known: "known_tracks (lb_entries (wk_library w)) rows = trs" "trs \<noteq> []"
    and room: "queue_room (wk_playlist w) (length trs)"
  shows "\<exists>e it pl. poll (wk_playlist (play_rows L rows n w)) = Returned (e, Some it)
    \<and> Option.bind (playing_playlist e) (playlist e) = Some pl \<and> map payload (pl_items pl) = trs
    \<and> payload it = trs ! min n (length trs - 1) \<and> map payload (queued_after e pl) = drop (Suc (min n (length trs - 1))) trs
    \<and> engine_mode e = Sequential"
proof -
  let ?n = "min n (length trs - 1)"
  from known(2) have n: "?n < length trs" by (cases trs) auto
  obtain e i pl c it where
    poll: "poll (wk_playlist (start_queue L trs ?n w)) = Returned (e, Some it)" and at: "at_item e i pl ?n c" "engine_mode e = Sequential"
    and pl: "map payload (pl_items pl) = trs" "it = pl_items pl ! ?n"
    using start_queue_plays [OF ok room n, of L] by metis
  from at(1) have cur: "cursor e = Some c" "playlist e (cur_playlist c) = Some pl" "cur_current c = Some (ids_of pl ! ?n)"
    and idx: "item_index pl (ids_of pl ! ?n) = Some ?n"
    by (auto simp: at_item_def playlist_index_Some item_index_nth)
  have len: "length (pl_items pl) = length trs" using pl(1) by auto
  have "payload it = trs ! ?n" using pl n len by (metis nth_map)
  moreover have "map payload (queued_after e pl) = drop (Suc ?n) trs"
    using cur idx by (simp add: queued_after_def current_item_id_def drop_map [symmetric] pl(1))
  ultimately show ?thesis
    using poll known at(2) cur(1,2) pl(1) by (auto simp: play_rows_def Let_def playing_playlist_def)
qed

end
