(* ===== verification/Worker_Runs.thy ===== *)
theory Worker_Runs
  imports Worker_Queue
begin

text \<open>
  The worker over whole runs of the shell: it never panics, its front tells the truth, and what becomes
  of the loop mode. The concrete library plays everything on the sample host with samples in thousandths.
\<close>

section \<open>A concrete worker\<close>

definition front_lib :: "(nat, nat, int, unit, nat, int) worker_lib" where
  "front_lib = \<lparr>wl_host = sample_host\<lparr>h_layout := \<lambda>_. Some ()\<rparr>, wl_visualization = (), wl_scope_limit = 4,
     wl_metadata = (\<lambda>_. no_metadata), wl_layout = (\<lambda>_. \<lparr>ly_per_channel = False, ly_columns = [], ly_patterns = [], ly_scopes = []\<rparr>),
     wl_slot = Some, wl_snapshot = (\<lambda>_. \<lparr>sn_position = None, sn_cells = [], sn_vu = [], sn_scopes = []\<rparr>),
     wl_kind = (\<lambda>_. None), wl_utf8 = (\<lambda>_. None), wl_ms = of_nat, wl_floats = milli_ops, wl_finite = (\<lambda>_. True), wl_fall = 15,
     wl_scale = (\<lambda>v s. s), wl_error = (\<lambda>_. ''refused''),
     wl_library_json = (\<lambda>_. None), wl_track_json = (\<lambda>_. None), wl_queue_json = (\<lambda>_. None)\<rparr>"

definition sample_worker :: "(nat, int, unit, nat, int) worker" where
  "sample_worker = worker_new front_lib \<lparr>lr_plugins = [0, 1], lr_errors = []\<rparr> [] 0 0"

definition sample_env :: worker_env where
  "sample_env = \<lparr>we_fs = (\<lambda>_. Some [1, 2, 3]), we_media = (\<lambda>_. \<lparr>me_opens = True, me_sized = True, me_read = Some 3\<rparr>),
     we_stat = (\<lambda>_. None), we_clock = (\<lambda>_. 0), we_earned = 100, we_drained = 0\<rparr>"

definition sample_row :: "u32 \<Rightarrow> string \<Rightarrow> row" where
  "sample_row i path = \<lparr>row_id = i, row_path = path, row_title = path, row_composer = [], row_group = [], row_format = ''XM'',
     row_duration_ms = 1000, row_year = 0, row_subsongs = 1, row_added = 0, row_size = 3\<rparr>"

definition scanned_worker :: "(nat, int, unit, nat, int) worker" where
  "scanned_worker = sample_worker\<lparr>wk_library := (wk_library sample_worker)\<lparr>lb_entries := [sample_row 0 ''a.xm'', sample_row 1 ''b.xm'']\<rparr>\<rparr>"

lemma scanned_playlist: "wk_playlist scanned_worker = engine_new"
  by (simp add: scanned_worker_def sample_worker_def worker_new_def Let_def)

lemma scanned_queue: "queue_ok (wk_playlist scanned_worker)" "n < 2 ^ 64 \<Longrightarrow> queue_room (wk_playlist scanned_worker) n"
  by (simp_all add: scanned_playlist queue_ok_def engine_inv_new queue_room_def) (simp_all add: engine_new_def)

lemma front_mount:
  assumes "be_plugins (wk_backend w) = [0, 1]"
  shows "wk_playing (mount_track front_lib sample_env k tr sub w) \<noteq> None
    \<and> fr_status (wk_front (mount_track front_lib sample_env k tr sub w)) = UiPlaying
    \<and> status (wk_backend (mount_track front_lib sample_env k tr sub w)) = Playing"
  using assms
  by (simp add: mount_track_def Let_def mount_def select_plugin_def front_lib_def sample_env_def sample_host_def
      visualization_layout_def status_def)

lemma start_queue_polls:
  assumes "queue_ok (wk_playlist w)" "queue_room (wk_playlist w) (length trs)" "n < length trs"
  shows "\<exists>e it. poll (wk_playlist (start_queue L trs n w)) = Returned (e, Some it)"
  by (rule start_queue_plays [OF assms, of L]) blast

lemma front_plugins: "be_plugins (wk_backend scanned_worker) = [0, 1]" "be_plugins (wk_backend sample_worker) = [0, 1]"
  by (simp_all add: scanned_worker_def sample_worker_def worker_new_def Let_def backend_new_def)

lemma start_queue_frame [simp]:
  "wk_backend (start_queue L trs n w) = wk_backend w" "wk_loop_mode (start_queue L trs n w) = wk_loop_mode w"
  by (simp_all add: start_queue_def split: prod.split option.split)

lemma set_loop_frame [simp]: "wk_backend (set_loop L m w) = wk_backend w" "wk_library (set_loop L m w) = wk_library w"
  by (simp_all add: set_loop_def)

theorem play_rows_queues_known_witness:
  "\<exists>e it pl. poll (wk_playlist (play_rows front_lib [1, 7, 0] 1 scanned_worker)) = Returned (e, Some it)
    \<and> Option.bind (playing_playlist e) (playlist e) = Some pl
    \<and> map payload (pl_items pl) = [\<lparr>trk_path = ''b.xm'', trk_row = Some 1\<rparr>, \<lparr>trk_path = ''a.xm'', trk_row = Some 0\<rparr>]
    \<and> payload it = \<lparr>trk_path = ''a.xm'', trk_row = Some 0\<rparr>"
proof -
  let ?trs = "[\<lparr>trk_path = ''b.xm'', trk_row = Some 1\<rparr>, \<lparr>trk_path = ''a.xm'', trk_row = Some 0\<rparr>]"
  have "known_tracks (lb_entries (wk_library scanned_worker)) [1, 7, 0] = ?trs"
    by (simp add: scanned_worker_def known_tracks_def entry_at_def sample_row_def List.map_filter_def)
  from play_rows_queues_known [OF scanned_queue(1) this _ scanned_queue(2), of front_lib 1]
  show ?thesis by simp meson
qed

section \<open>The loop mode\<close>

lemma peek_next_at: "at_item e i pl j c \<Longrightarrow> peek_next e = None \<longleftrightarrow> forward_position e = None"
  using forward_position_at [of e i pl j c]
  by (auto simp: peek_next_def at_item_def playlist_conv_index playlist_index_def split: if_splits)

text \<open>A mount leaves the queue alone when it holds a song.\<close>

lemma mounted_playlist: "wk_playing (mount_track L E k tr sub w) \<noteq> None \<Longrightarrow> wk_playlist (mount_track L E k tr sub w) = wk_playlist w"
  by (cases rule: mount_track_cases [of L E k tr sub w]) (simp_all add: fail_song_def)

lemma poll_track_playing:
  assumes "poll_track L E w = Returned w1" "poll (wk_playlist w) = Returned (e, Some it)" "wk_playing w1 \<noteq> None"
  shows "wk_playlist w1 = e" "wk_loop_mode w1 = wk_loop_mode w"
proof -
  have w1: "w1 = mount_track L E 2 (payload it) 0 (w\<lparr>wk_playlist := e\<rparr>)" using assms(1,2) by (simp add: poll_track_def)
  with assms(3) mounted_playlist show "wk_playlist w1 = e" by fastforce
  show "wk_loop_mode w1 = wk_loop_mode w" unfolding w1
    by (cases rule: mount_track_cases [of L E 2 "payload it" 0 "w\<lparr>wk_playlist := e\<rparr>"]) (simp_all add: fail_song_def)
qed

text \<open>
  C34: The loop mode chosen before a queue is started does not survive its start: with all songs to
  repeat, the end of the last one ends the playing all the same, while the mode in force is still said
  to be that one. Chosen again during the last song, the same mode starts over with the first.
\<close>

theorem loop_all_forgotten:
  assumes ok: "queue_ok (wk_playlist w)" and room: "queue_room (wk_playlist w) (length trs)" and some: "trs \<noteq> []"
    and all: "wk_loop_mode w = LoopAll"
    and mounted: "poll_track L E (start_queue L trs (length trs - 1) w) = Returned w1" "wk_playing w1 \<noteq> None"
  shows "wk_loop_mode (song_ended L w1) = LoopAll \<and> fr_status (wk_front (song_ended L w1)) = UiFinished
    \<and> \<not> is_playing (wk_playlist (song_ended L w1))
    \<and> (\<exists>e it. poll (wk_playlist (song_ended L (set_loop L LoopAll w1))) = Returned (e, Some it) \<and> payload it = hd trs)"
proof -
  from some have n: "length trs - 1 < length trs" by (cases trs) auto
  obtain e i pl c it where polled: "poll (wk_playlist (start_queue L trs (length trs - 1) w)) = Returned (e, Some it)"
    and at: "at_item e i pl (length trs - 1) c" "cur_pending c = None" and seq: "engine_mode e = Sequential"
    and pl: "map payload (pl_items pl) = trs"
    using start_queue_plays [OF ok room n, of L] by metis
  note w1 = poll_track_playing [OF mounted(1) polled mounted(2)]
  have mode: "wk_loop_mode w1 = LoopAll" using w1(2) all by (simp add: start_queue_def split: prod.splits option.splits)
  have len: "length (pl_items pl) = length trs" using pl by auto
  let ?c = "c\<lparr>cur_failures := 0, cur_pending := Some Forward\<rparr>"
  have fin: "on_finished (wk_playlist w1) = e\<lparr>cursor := Some ?c\<rparr>" using w1(1) on_finished_at [OF at] by simp
  have at1: "at_item (e\<lparr>cursor := Some ?c\<rparr>) i pl (length trs - 1) ?c" by (rule at_item_pending [OF at(1)])
  have "peek_next (on_finished (wk_playlist w1)) = None"
    unfolding fin using peek_next_at [OF at1] forward_position_at [OF at1] len some seq by simp
  with mode have over: "wk_loop_mode (song_ended L w1) = LoopAll" "fr_status (wk_front (song_ended L w1)) = UiFinished"
    "\<not> is_playing (wk_playlist (song_ended L w1))"
    by (simp_all add: song_ended_def Let_def is_playing_def stop_def remove_playlist_def split: option.split)
  let ?e = "set_mode Loop e"
  have at2: "at_item ?e i pl (length trs - 1) c" using at(1) by (simp add: at_item_def set_mode_def playlist_index_def)
  have fin2: "on_finished ?e = ?e\<lparr>cursor := Some ?c\<rparr>" by (rule on_finished_at [OF at2 at(2)])
  have at3: "at_item (?e\<lparr>cursor := Some ?c\<rparr>) i pl (length trs - 1) ?c" by (rule at_item_pending [OF at2])
  have pos: "forward_position (?e\<lparr>cursor := Some ?c\<rparr>) = Some 0"
    using forward_position_at [OF at3] len some by (simp add: set_mode_def)
  have "peek_next (on_finished ?e) \<noteq> None" unfolding fin2 using peek_next_at [OF at3] pos by simp
  then have "wk_playlist (song_ended L (set_loop L LoopAll w1)) = on_finished ?e"
    by (simp add: song_ended_def set_loop_def w1(1) playlist_mode_def Let_def)
  moreover from poll_forward [OF at3 _ pos] obtain e' where "poll (on_finished ?e) = Returned (e', Some (pl_items pl ! 0))"
    unfolding fin2 by auto
  moreover have "payload (pl_items pl ! 0) = hd trs" using pl some len by (metis hd_conv_nth length_0_conv length_greater_0_conv nth_map)
  ultimately show ?thesis using over by auto
qed

theorem loop_all_forgotten_witness:
  "\<exists>w1. poll_track front_lib sample_env (start_queue front_lib [\<lparr>trk_path = ''a.xm'', trk_row = Some 0\<rparr>] 0
      (set_loop front_lib LoopAll scanned_worker)) = Returned w1
    \<and> fr_status (wk_front (song_ended front_lib w1)) = UiFinished \<and> wk_loop_mode (song_ended front_lib w1) = LoopAll"
proof -
  let ?w = "set_loop front_lib LoopAll scanned_worker" and ?trs = "[\<lparr>trk_path = ''a.xm'', trk_row = Some 0\<rparr>]"
  have "wk_playlist ?w = set_mode Loop engine_new" "wk_loop_mode ?w = LoopAll"
    by (simp_all add: set_loop_def scanned_playlist playlist_mode_def)
  then have "queue_ok (wk_playlist ?w)" "queue_room (wk_playlist ?w) (length ?trs)"
    using queue_ok_ops(6) [OF scanned_queue(1)] by (simp_all add: scanned_playlist queue_room_def set_mode_def engine_new_def)
  note ready = this
  from start_queue_polls [OF ready, of 0 front_lib] obtain e it where
    "poll (wk_playlist (start_queue front_lib ?trs (length ?trs - 1) ?w)) = Returned (e, Some it)" by auto
  then obtain w1 where w1: "poll_track front_lib sample_env (start_queue front_lib ?trs (length ?trs - 1) ?w) = Returned w1"
    "wk_playing w1 \<noteq> None"
    using front_mount [of "start_queue front_lib ?trs (length ?trs - 1) ?w\<lparr>wk_playlist := e\<rparr>" 2 "payload it" 0] front_plugins
    by (auto simp: poll_track_def)
  from loop_all_forgotten [OF ready _ \<open>wk_loop_mode ?w = LoopAll\<close> w1] w1(1) show ?thesis by simp
qed

section \<open>Whole runs\<close>

definition shell_start :: "('w, 'p, 's, 'd, 'n, 'f::linorder) worker_lib \<Rightarrow> ('w, 's, 'd, 'n, 'f) shell \<Rightarrow> bool" where
  "shell_start L sh \<longleftrightarrow> (\<exists>r plugins clock due. sh = \<lparr>sh_worker = Returned (worker_new L r plugins clock due),
     sh_channel = [], sh_walks = []\<rparr>)"

definition shell_ok :: "('w, 'p, 's, 'd, 'n, 'f) worker_lib \<Rightarrow> ('w, 's, 'd, 'n, 'f) shell \<Rightarrow> bool" where
  "shell_ok L sh \<longleftrightarrow> (\<exists>w. sh_worker sh = Returned w \<and> worker_ok L w)"

lemma shell_step_ok: "shell_step L sh sh' \<Longrightarrow> shell_ok L sh \<Longrightarrow> shell_ok L sh'"
proof (induction rule: shell_step.induct)
  case (idle_turn sh w E)
  with worker_turn_ok [of L w E None] show ?case by (auto simp: shell_ok_def)
next
  case (command_turn sh w cmd rest spawned E)
  with worker_turn_ok [of L w E "Some cmd"] show ?case by (auto simp: shell_ok_def)
next
  case (pulled sh w n)
  then show ?case by (simp add: shell_ok_def worker_ok_def song_ok_def front_ok_def)
qed (auto simp: shell_ok_def)

lemma shell_reachable: "reachable (shell_start L) (shell_step L) sh \<Longrightarrow> shell_ok L sh"
proof (induction rule: reachable.induct)
  case (reachable_init sh)
  then show ?case using worker_new_ok by (auto simp: shell_start_def shell_ok_def)
next
  case (reachable_step sh sh')
  then show ?case by (blast intro: shell_step_ok)
qed

text \<open>
  C32: However the user, the walks, the turns and the device interleave, the worker never panics: the
  item the playlist is polled for is always there, although the playlist itself allows asking for one
  that is gone.
\<close>

theorem shell_never_panics:
  "reachable (shell_start L) (shell_step L) sh \<Longrightarrow> sh_worker sh \<noteq> Panic"
  using shell_reachable [of L sh] by (auto simp: shell_ok_def)

lemma sample_shell:
  obtains sh where "reachable (shell_start front_lib) (shell_step front_lib) sh"
    "sh_worker sh = worker_turn front_lib sample_env (Some (Open ''a.xm'')) sample_worker"
proof -
  let ?s0 = "\<lparr>sh_worker = Returned sample_worker, sh_channel = [], sh_walks = []\<rparr>"
  let ?s1 = "?s0\<lparr>sh_channel := [Open ''a.xm'']\<rparr>"
  let ?s2 = "?s1\<lparr>sh_worker := worker_turn front_lib sample_env (Some (Open ''a.xm'')) sample_worker, sh_channel := []\<rparr>"
  have r0: "reachable (shell_start front_lib) (shell_step front_lib) ?s0"
    by (rule reachable_init) (auto simp: shell_start_def sample_worker_def)
  have "shell_step front_lib ?s0 ?s1" using user [of "Open ''a.xm''" front_lib ?s0] by simp
  from reachable_step [where step = "shell_step front_lib", OF r0 this] have r1: "reachable (shell_start front_lib) (shell_step front_lib) ?s1" .
  have "shell_step front_lib ?s1 ?s2" using command_turn [where sh = ?s1 and w = sample_worker and cmd = "Open ''a.xm''" and rest = "[]" and L = front_lib and E = sample_env
      and spawned = True]
    by (simp add: walks_of_def)
  from reachable_step [where step = "shell_step front_lib", OF r1 this] show thesis by (rule that) simp
qed

theorem shell_never_panics_witness:
  "worker_turn front_lib sample_env (Some (Open ''a.xm'')) sample_worker \<noteq> Panic"
  by (rule sample_shell) (metis shell_never_panics)

text \<open>What follows the poll in a turn changes the front's status only where a song ends or fails.\<close>

lemma capture_status [simp]: "fr_status (wk_front (capture_due L now w)) = fr_status (wk_front w)"
  by (simp add: capture_due_def capture_frame_def Let_def split: option.split prod.split)

lemma scan_status [simp]: "fr_status (wk_front (scan_step L E w)) = fr_status (wk_front w)"
  by (simp add: scan_step_def library_progress_def Let_def split: list.split sum.split option.split)

lemma front_render: "fr_status (wk_front (render_turn front_lib E w)) = fr_status (wk_front w)" if "status (wk_backend w) = Playing"
  using that
  by (simp add: render_turn_def top_up_def Let_def front_lib_def render_def sample_host_def status_def split: option.splits)

lemma front_plays:
  obtains w where "worker_turn front_lib sample_env (Some (Open ''a.xm'')) sample_worker = Returned w"
    "fr_status (wk_front w) = UiPlaying"
proof -
  let ?w = "start_queue front_lib [\<lparr>trk_path = ''a.xm'', trk_row = row_of_path ''a.xm'' (lb_entries (wk_library sample_worker))\<rparr>] 0 sample_worker"
  have pl: "wk_playlist sample_worker = engine_new" using scanned_playlist by (simp add: scanned_worker_def)
  have "queue_ok (wk_playlist sample_worker)" "queue_room (wk_playlist sample_worker) 1"
    using scanned_queue(1) scanned_queue(2) [of 1] by (simp_all add: pl scanned_playlist)
  then obtain e it where "poll (wk_playlist ?w) = Returned (e, Some it)"
    using start_queue_polls [of sample_worker "[\<lparr>trk_path = ''a.xm'', trk_row = row_of_path ''a.xm'' (lb_entries (wk_library sample_worker))\<rparr>]" 0 front_lib]
    by auto
  then have run: "poll_track front_lib sample_env (handle front_lib sample_env (Open ''a.xm'') sample_worker)
      = Returned (mount_track front_lib sample_env 2 (payload it) 0 (?w\<lparr>wk_playlist := e\<rparr>))" (is "_ = Returned ?v")
    by (simp add: poll_track_def handle_def)
  have v: "fr_status (wk_front ?v) = UiPlaying" "status (wk_backend ?v) = Playing"
    using front_mount [of "?w\<lparr>wk_playlist := e\<rparr>" 2 "payload it" 0] front_plugins by simp_all
  with run front_render [of ?v sample_env] show thesis
    by (intro that [of "scan_step front_lib sample_env (capture_due front_lib (we_clock sample_env 1) (render_turn front_lib sample_env ?v))"])
      (simp_all add: worker_turn_def ended_turn_def)
qed



end
