(* ===== verification/Publish.thy ===== *)
theory Publish
  imports Channel Install
begin

text \<open>
  The publisher's side of a channel, \<open>crates/publish/src/\<close>: the workspace and its keys
  (\<open>workspace.rs\<close>, \<open>keys.rs\<close>), the chain of online metadata a write supersedes and commits
  (\<open>chain.rs\<close>), publishing a generation (\<open>publish.rs\<close>), refreshing expiries (\<open>resign.rs\<close>) and
  creating a channel (\<open>init.rs\<close>), over the channel's directories (\<open>crates/tuf/src/repository.rs\<close>).
  JSON, PEM, signatures and calendar arithmetic are the record \<open>publish_lib\<close>; how each access to the
  disk ends is the environment \<open>publish_env\<close>. Directories are not kept, only files.
\<close>

section \<open>Errors\<close>

datatype publish_error = PubTuf tuf_error | PubManifest manifest_error | PubKey | PubDate | PubIo string
  | PubMetadata string | PubMissingPin string string | PubVersionExhausted string u64 | PubNotEmpty string
  | PubKeyDirIsSymlink string | PubNotEnoughRootSigners nat u32 | PubUnauthorizedRootSigner string

text \<open>The operator \<open>?\<close>.\<close>

definition and_then :: "'e + 'a \<Rightarrow> ('a \<Rightarrow> 'e + 'b) \<Rightarrow> 'e + 'b" where
  "and_then r k = (case r of Inl e \<Rightarrow> Inl e | Inr x \<Rightarrow> k x)"

definition or_err :: "'e \<Rightarrow> 'a option \<Rightarrow> 'e + 'a" where
  "or_err e r = (case r of None \<Rightarrow> Inl e | Some x \<Rightarrow> Inr x)"

definition tuf :: "tuf_error + 'a \<Rightarrow> publish_error + 'a" where
  "tuf r = (case r of Inl e \<Rightarrow> Inl (PubTuf e) | Inr x \<Rightarrow> Inr x)"

section \<open>Directories\<close>

definition ws_channel :: "string \<Rightarrow> string" where "ws_channel ws = path_join ws ''repository''"
definition ws_keys :: "string \<Rightarrow> string" where "ws_keys ws = path_join ws ''keys''"
definition ch_metadata_dir :: "string \<Rightarrow> string" where "ch_metadata_dir ch = path_join ch ''metadata''"
definition ch_targets_dir :: "string \<Rightarrow> string" where "ch_targets_dir ch = path_join ch ''targets''"
definition online_dir :: "string \<Rightarrow> string" where "online_dir store = path_join store ''online''"
definition offline_dir :: "string \<Rightarrow> string" where "offline_dir store = path_join store ''offline''"

definition key_path :: "string \<Rightarrow> RoleName \<Rightarrow> string" where
  "key_path store r = path_join (case r of Root \<Rightarrow> offline_dir store | _ \<Rightarrow> online_dir store) (role_str r @ ''.pem'')"

section \<open>What the publisher is given\<close>

type_synonym targets_role = "(string \<Rightarrow> target_file option) role_body"
type_synonym meta_role = "(string \<Rightarrow> meta_file option) role_body"

record 'k publish_lib =
  pb_signer :: "('k, unit) signer"
  pb_root_canonical :: "root_role \<Rightarrow> bytes option"
  pb_targets_canonical :: "targets_role \<Rightarrow> bytes option"
  pb_meta_canonical :: "meta_role \<Rightarrow> bytes option"
  pb_root_json :: "root_role signed \<Rightarrow> bytes option"
  pb_targets_json :: "targets_role signed \<Rightarrow> bytes option"
  pb_meta_json :: "meta_role signed \<Rightarrow> bytes option"
  pb_read_root :: "bytes \<Rightarrow> root_role signed option"
  pb_read_targets :: "bytes \<Rightarrow> targets_role signed option"
  pb_read_snapshot :: "bytes \<Rightarrow> meta_role signed option"
  pb_read_timestamp :: "bytes \<Rightarrow> meta_role signed option"
  pb_pem :: "'k \<Rightarrow> bytes option"
  pb_from_pem :: "bytes \<Rightarrow> 'k option"
  pb_expires :: "span \<Rightarrow> int \<Rightarrow> string option"
  pb_manifest :: manifest_lib

text \<open>
  How an atomic write ends: the file replaced and synced, replaced though the error is reported, or as
  it was. A process killed between two writes is a write that leaves the file as it was.
\<close>

datatype write_end = Replaced | ReplacedUnsynced | NotReplaced

datatype key_end = KeyWritten | KeyNotRemoved | KeyNotOpened | KeyCut nat | KeyNotRestricted

datatype dir_end = DirMade | DirIsLink | DirFailed

record publish_env =
  pe_readable :: "string \<Rightarrow> bool"
  pe_write :: "nat \<Rightarrow> write_end"
  pe_now :: int
  pe_empty :: "bool option"
  pe_store_dir :: "nat \<Rightarrow> dir_end"
  pe_key :: "RoleName \<Rightarrow> key_end"
  pe_clear :: "nat \<Rightarrow> removal"
  pe_channel_dirs :: bool

definition with_canonical :: "('k, unit) signer \<Rightarrow> ('p \<Rightarrow> bytes option) \<Rightarrow> ('k, 'p) signer" where
  "with_canonical s c = \<lparr>sg_lib = sg_lib s, sg_canonical = c, sg_canonical_key = sg_canonical_key s,
     sg_verifying = sg_verifying s, sg_sign = sg_sign s\<rparr>"

definition policy_expires :: "'k publish_lib \<Rightarrow> RoleName \<Rightarrow> int \<Rightarrow> publish_error + string" where
  "policy_expires L r now = or_err PubDate (pb_expires L (expiry_span r) now)"

section \<open>Files\<close>

definition write_atomically :: "publish_env \<Rightarrow> nat \<Rightarrow> string \<Rightarrow> bytes \<Rightarrow> fs \<Rightarrow> fs \<times> (publish_error + unit)" where
  "write_atomically E k path b f = (case pe_write E k of
       Replaced \<Rightarrow> (f(path \<mapsto> b), Inr ())
     | ReplacedUnsynced \<Rightarrow> (f(path \<mapsto> b), Inl (PubIo path))
     | NotReplaced \<Rightarrow> (f, Inl (PubIo path)))"

text \<open>The loop that writes files one after the other, the \<open>k\<close>-th write of the run first.\<close>

fun write_all :: "publish_env \<Rightarrow> nat \<Rightarrow> (string \<times> bytes) list \<Rightarrow> fs \<Rightarrow> fs \<times> (publish_error + unit)" where
  "write_all E k [] f = (f, Inr ())"
| "write_all E k ((path, b) # rest) f = (case write_atomically E k path b f of
       (f1, Inl e) \<Rightarrow> (f1, Inl e)
     | (f1, Inr _) \<Rightarrow> write_all E (Suc k) rest f1)"

definition read_bytes :: "publish_env \<Rightarrow> string \<Rightarrow> fs \<Rightarrow> publish_error + bytes" where
  "read_bytes E path f = or_err (PubIo path) (if pe_readable E path then f path else None)"

definition read_signed ::
  "(bytes \<Rightarrow> 'p signed option) \<Rightarrow> publish_env \<Rightarrow> string \<Rightarrow> fs \<Rightarrow> publish_error + 'p signed" where
  "read_signed parse E path f =
     and_then (read_bytes E path f) (\<lambda>b. or_err (PubMetadata path) (parse b))"

definition read_key :: "'k publish_lib \<Rightarrow> publish_env \<Rightarrow> string \<Rightarrow> RoleName \<Rightarrow> fs \<Rightarrow> publish_error + 'k" where
  "read_key L E store r f = and_then (read_bytes E (key_path store r) f) (\<lambda>b. or_err PubKey (pb_from_pem L b))"

section \<open>The chain in force\<close>

record chain_next =
  nx_targets :: u64
  nx_snapshot :: u64
  nx_timestamp :: u64
  nx_current :: string

definition next_version :: "u64 \<Rightarrow> string \<Rightarrow> publish_error + u64" where
  "next_version version path = or_err (PubVersionExhausted path version) (checked_add version 1)"

definition pinned_version :: "(string \<Rightarrow> meta_file option) \<Rightarrow> string \<Rightarrow> RoleName \<Rightarrow> publish_error + u64" where
  "pinned_version m path child =
     (case m (file_name child) of Some pin \<Rightarrow> Inr (mf_version pin) | None \<Rightarrow> Inl (PubMissingPin path (file_name child)))"

definition next_read :: "'k publish_lib \<Rightarrow> publish_env \<Rightarrow> string \<Rightarrow> fs \<Rightarrow> publish_error + chain_next" where
  "next_read L E ch f =
     (let md = ch_metadata_dir ch; tpath = path_join md (file_name Timestamp)
      in and_then (read_signed (pb_read_timestamp L) E tpath f) (\<lambda>ts.
         and_then (pinned_version (rb_meta (signed_payload ts)) tpath Snapshot) (\<lambda>sv.
         let spath = path_join md (versioned_name Snapshot sv)
         in and_then (read_signed (pb_read_snapshot L) E spath f) (\<lambda>sn.
         and_then (pinned_version (rb_meta (signed_payload sn)) spath Targets) (\<lambda>tv.
         and_then (next_version tv spath) (\<lambda>t.
         and_then (next_version (rb_version (signed_payload sn)) spath) (\<lambda>s.
         and_then (next_version (rb_version (signed_payload ts)) tpath) (\<lambda>m.
         Inr \<lparr>nx_targets = t, nx_snapshot = s, nx_timestamp = m,
              nx_current = path_join md (versioned_name Targets tv)\<rparr>))))))))"

definition current_targets :: "'k publish_lib \<Rightarrow> publish_env \<Rightarrow> chain_next \<Rightarrow> fs \<Rightarrow> publish_error + targets_role" where
  "current_targets L E nx f =
     and_then (read_signed (pb_read_targets L) E (nx_current nx) f) (\<lambda>sd. Inr (signed_payload sd))"

section \<open>Committing\<close>

record signed_role =
  sr_role :: RoleName
  sr_version :: u64
  sr_expires :: string

record committed =
  cm_written :: "string list"
  cm_roles :: "signed_role list"

definition sign_json ::
  "'k publish_lib \<Rightarrow> ('p \<Rightarrow> bytes option) \<Rightarrow> ('p signed \<Rightarrow> bytes option) \<Rightarrow> 'p \<Rightarrow> 'k list \<Rightarrow> publish_error + bytes" where
  "sign_json L canonical json payload keys =
     and_then (tuf (signed_new (with_canonical (pb_signer L) canonical) payload keys)) (\<lambda>sd.
     or_err (PubTuf JsonError) (json sd))"

text \<open>The three files of a write, each signed after everything it pins.\<close>

definition sign_chain ::
  "'k publish_lib \<Rightarrow> publish_env \<Rightarrow> string \<Rightarrow> targets_role \<Rightarrow> chain_next \<Rightarrow> fs
     \<Rightarrow> publish_error + (RoleName \<times> u64 \<times> string \<times> bytes) list" where
  "sign_chain L E store targets nx f =
     (let l = sg_lib (pb_signer L)
      in and_then (read_key L E store Targets f) (\<lambda>tk.
         and_then (sign_json L (pb_targets_canonical L) (pb_targets_json L) targets [tk]) (\<lambda>tb.
         and_then (policy_expires L Snapshot (pe_now E)) (\<lambda>sx.
         and_then (read_key L E store Snapshot f) (\<lambda>sk.
         and_then (sign_json L (pb_meta_canonical L) (pb_meta_json L)
           (snapshot_new (nx_snapshot nx) sx [file_name Targets \<mapsto> meta_pinning l (rb_version targets) tb]) [sk]) (\<lambda>sb.
         and_then (policy_expires L Timestamp (pe_now E)) (\<lambda>mx.
         and_then (read_key L E store Timestamp f) (\<lambda>mk.
         and_then (sign_json L (pb_meta_canonical L) (pb_meta_json L)
           (timestamp_new (nx_timestamp nx) mx (meta_pinning l (nx_snapshot nx) sb)) [mk]) (\<lambda>mb.
         Inr [(Targets, rb_version targets, rb_expires targets, tb), (Snapshot, nx_snapshot nx, sx, sb),
              (Timestamp, nx_timestamp nx, mx, mb)])))))))))"

definition role_writes :: "string \<Rightarrow> (RoleName \<times> u64 \<times> string \<times> bytes) list \<Rightarrow> (string \<times> bytes) list" where
  "role_writes ch rs = concat (map (\<lambda>(r, v, _, b).
     map (\<lambda>n. (path_join (ch_metadata_dir ch) n, b)) (published_names r v)) rs)"

definition commit ::
  "'k publish_lib \<Rightarrow> publish_env \<Rightarrow> nat \<Rightarrow> string \<Rightarrow> string \<Rightarrow> targets_role \<Rightarrow> chain_next \<Rightarrow> fs
     \<Rightarrow> fs \<times> (publish_error + committed)" where
  "commit L E k ch store targets nx f = (case sign_chain L E store targets nx f of
       Inl e \<Rightarrow> (f, Inl e)
     | Inr rs \<Rightarrow> (case write_all E k (role_writes ch rs) f of
           (f1, Inl e) \<Rightarrow> (f1, Inl e)
         | (f1, Inr _) \<Rightarrow> (f1, Inr \<lparr>cm_written = map fst (role_writes ch rs),
             cm_roles = map (\<lambda>(r, v, x, _). \<lparr>sr_role = r, sr_version = v, sr_expires = x\<rparr>) rs\<rparr>)))"

section \<open>Publishing\<close>

record publish_report =
  pr_generation_id :: string
  pr_source_revision :: string
  pr_version :: u64
  pr_written :: "string list"

text \<open>What a publish reads and decides before it writes: the manifest, the target's name and the role naming it.\<close>

definition publish_plan ::
  "'k publish_lib \<Rightarrow> publish_env \<Rightarrow> string \<Rightarrow> string \<Rightarrow> fs
     \<Rightarrow> publish_error + (bytes \<times> manifest \<times> targets_role \<times> chain_next)" where
  "publish_plan L E ws manifest_path f =
     (let l = sg_lib (pb_signer L)
      in and_then (read_bytes E manifest_path f) (\<lambda>b.
         and_then (case parse_manifest (pb_manifest L) b of Inl e \<Rightarrow> Inl (PubManifest e) | Inr m \<Rightarrow> Inr m) (\<lambda>m.
         and_then (next_read L E (ws_channel ws) f) (\<lambda>nx.
         and_then (policy_expires L Targets (pe_now E)) (\<lambda>x.
         Inr (b, m, targets_new (nx_targets nx) x
           [TARGET_PATH \<mapsto> \<lparr>tf_length = of_nat (length b), tf_hashes = sha256_map l b, tf_extra = Map.empty\<rparr>], nx))))))"

definition target_file_path :: "lib \<Rightarrow> string \<Rightarrow> bytes \<Rightarrow> string" where
  "target_file_path l ws b =
     path_join (ch_targets_dir (ws_channel ws)) (target_published_name TARGET_PATH (generation_id l b))"

definition publish ::
  "'k publish_lib \<Rightarrow> publish_env \<Rightarrow> string \<Rightarrow> string \<Rightarrow> fs \<Rightarrow> fs \<times> (publish_error + publish_report)" where
  "publish L E ws manifest_path f = (case publish_plan L E ws manifest_path f of
       Inl e \<Rightarrow> (f, Inl e)
     | Inr (b, m, targets, nx) \<Rightarrow>
         let l = sg_lib (pb_signer L); target = target_file_path l ws b
         in (case write_atomically E 0 target b f of
               (f1, Inl e) \<Rightarrow> (f1, Inl e)
             | (f1, Inr _) \<Rightarrow> (case commit L E 1 (ws_channel ws) (ws_keys ws) targets nx f1 of
                   (f2, Inl e) \<Rightarrow> (f2, Inl e)
                 | (f2, Inr cm) \<Rightarrow> (f2, Inr \<lparr>pr_generation_id = generation_id l b, pr_source_revision = m_source_revision m,
                     pr_version = m_version m, pr_written = target # cm_written cm\<rparr>))))"

section \<open>Re-signing\<close>

definition resign_plan ::
  "'k publish_lib \<Rightarrow> publish_env \<Rightarrow> string \<Rightarrow> fs \<Rightarrow> publish_error + (targets_role \<times> chain_next)" where
  "resign_plan L E ws f =
     and_then (next_read L E (ws_channel ws) f) (\<lambda>nx.
     and_then (current_targets L E nx f) (\<lambda>targets.
     and_then (policy_expires L Targets (pe_now E)) (\<lambda>x.
     Inr (targets\<lparr>rb_version := nx_targets nx, rb_expires := x\<rparr>, nx))))"

definition resign :: "'k publish_lib \<Rightarrow> publish_env \<Rightarrow> string \<Rightarrow> fs \<Rightarrow> fs \<times> (publish_error + committed)" where
  "resign L E ws f = (case resign_plan L E ws f of
       Inl e \<Rightarrow> (f, Inl e)
     | Inr (targets, nx) \<Rightarrow> commit L E 0 (ws_channel ws) (ws_keys ws) targets nx f)"

section \<open>Creating a channel\<close>

definition INITIAL_VERSION :: u64 where "INITIAL_VERSION = 1"
definition ONLINE_ROLES :: "RoleName list" where "ONLINE_ROLES = [Targets, Snapshot, Timestamp]"

text \<open>A root keyed here, or by keys held elsewhere: the authorized ones, how many must sign, and those that do.\<close>

datatype 'k root_keys = Generated 'k | Held "public_key list" u32 "'k list"

definition root_authorization :: "('k, 'p) signer \<Rightarrow> 'k root_keys \<Rightarrow> role_authorization" where
  "root_authorization s r = (case r of
       Generated k \<Rightarrow> authorize_single Root (public_of s k)
     | Held authorized threshold signing \<Rightarrow> \<lparr>ra_role = Root, ra_keys = authorized, ra_threshold = threshold\<rparr>)"

fun check_signers :: "('k, 'p) signer \<Rightarrow> string list \<Rightarrow> 'k list \<Rightarrow> publish_error + unit" where
  "check_signers s allowed [] = Inr ()"
| "check_signers s allowed (k # ks) =
     and_then (or_err (PubTuf JsonError) (pair_key_id s k)) (\<lambda>kid.
     if kid \<in> set allowed then check_signers s allowed ks else Inl (PubUnauthorizedRootSigner kid))"

definition root_signers :: "('k, 'p) signer \<Rightarrow> 'k root_keys \<Rightarrow> publish_error + 'k list" where
  "root_signers s r = (case r of
       Generated k \<Rightarrow> Inr [k]
     | Held authorized threshold signing \<Rightarrow>
         if length signing < unat threshold then Inl (PubNotEnoughRootSigners (length signing) threshold)
         else and_then (or_err (PubTuf JsonError) (those (map (key_id s) authorized))) (\<lambda>allowed.
              and_then (check_signers s allowed signing) (\<lambda>_. Inr signing)))"

definition root_to_store :: "'k root_keys \<Rightarrow> 'k option" where
  "root_to_store r = (case r of Generated k \<Rightarrow> Some k | Held _ _ _ \<Rightarrow> None)"

record 'k key_set =
  ks_root :: "'k root_keys"
  ks_targets :: 'k
  ks_snapshot :: 'k
  ks_timestamp :: 'k

definition ks_get :: "'k key_set \<Rightarrow> RoleName \<Rightarrow> 'k option" where
  "ks_get ks r = (case r of Root \<Rightarrow> root_to_store (ks_root ks) | Targets \<Rightarrow> Some (ks_targets ks)
     | Snapshot \<Rightarrow> Some (ks_snapshot ks) | Timestamp \<Rightarrow> Some (ks_timestamp ks))"

definition authorizations :: "('k, 'p) signer \<Rightarrow> 'k key_set \<Rightarrow> role_authorization list" where
  "authorizations s ks = root_authorization s (ks_root ks)
     # map (\<lambda>r. authorize_single r (public_of s (the (ks_get ks r)))) ONLINE_ROLES"

record init_report =
  ir_metadata :: "string list"
  ir_keys :: "string list"
  ir_root_key_ids :: "string list"
  ir_root_threshold :: u32

fun create_store_dirs :: "publish_env \<Rightarrow> nat \<Rightarrow> string list \<Rightarrow> publish_error + unit" where
  "create_store_dirs E k [] = Inr ()"
| "create_store_dirs E k (dir # dirs) = (case pe_store_dir E k of
       DirMade \<Rightarrow> create_store_dirs E (Suc k) dirs
     | DirIsLink \<Rightarrow> Inl (PubKeyDirIsSymlink dir)
     | DirFailed \<Rightarrow> Inl (PubIo dir))"

text \<open>\<open>write_private_key\<close>: whatever is at the path goes first, then the file is created anew.\<close>

definition write_private_key :: "'k publish_lib \<Rightarrow> key_end \<Rightarrow> string \<Rightarrow> 'k \<Rightarrow> fs \<Rightarrow> fs \<times> (publish_error + unit)" where
  "write_private_key L e path key f = (case pb_pem L key of
       None \<Rightarrow> (f, Inl PubKey)
     | Some pem \<Rightarrow> (case e of
           KeyWritten \<Rightarrow> (f(path \<mapsto> pem), Inr ())
         | KeyNotRemoved \<Rightarrow> (f, Inl (PubIo path))
         | KeyNotOpened \<Rightarrow> (f(path := None), Inl (PubIo path))
         | KeyCut n \<Rightarrow> (f(path \<mapsto> take n pem), Inl (PubIo path))
         | KeyNotRestricted \<Rightarrow> (f(path \<mapsto> pem), Inl (PubIo path))))"

fun write_keys ::
  "'k publish_lib \<Rightarrow> publish_env \<Rightarrow> string \<Rightarrow> 'k key_set \<Rightarrow> RoleName list \<Rightarrow> fs \<Rightarrow> fs \<times> (publish_error + string list)" where
  "write_keys L E store ks [] f = (f, Inr [])"
| "write_keys L E store ks (r # rs) f = (case ks_get ks r of
       None \<Rightarrow> write_keys L E store ks rs f
     | Some key \<Rightarrow> (case write_private_key L (pe_key E r) (key_path store r) key f of
           (f1, Inl e) \<Rightarrow> (f1, Inl e)
         | (f1, Inr _) \<Rightarrow> (case write_keys L E store ks rs f1 of
               (f2, Inl e) \<Rightarrow> (f2, Inl e)
             | (f2, Inr written) \<Rightarrow> (f2, Inr (key_path store r # written)))))"

fun clear_dirs :: "publish_env \<Rightarrow> nat \<Rightarrow> string list \<Rightarrow> fs \<Rightarrow> fs \<times> (publish_error + unit)" where
  "clear_dirs E k [] f = (f, Inr ())"
| "clear_dirs E k (dir # dirs) f = (case remove_dir_all (pe_clear E k) dir f of
       (f1, False) \<Rightarrow> (f1, Inl (PubIo dir))
     | (f1, True) \<Rightarrow> clear_dirs E (Suc k) dirs f1)"

text \<open>What \<open>init\<close> decides before it writes: the root payload and who signs it.\<close>

definition init_plan ::
  "'k publish_lib \<Rightarrow> publish_env \<Rightarrow> string \<Rightarrow> 'k key_set \<Rightarrow> bool \<Rightarrow> publish_error + (root_role \<times> 'k list)" where
  "init_plan L E ws ks force =
     and_then (if force then Inr () else (case pe_empty E of
         None \<Rightarrow> Inl (PubIo ws) | Some True \<Rightarrow> Inr () | Some False \<Rightarrow> Inl (PubNotEmpty ws))) (\<lambda>_.
     and_then (policy_expires L Root (pe_now E)) (\<lambda>x.
     and_then (tuf (root_new (pb_signer L) INITIAL_VERSION x (authorizations (pb_signer L) ks))) (\<lambda>root.
     and_then (root_signers (pb_signer L) (ks_root ks)) (\<lambda>signers.
     Inr (root, signers)))))"

text \<open>The four files, signed in the order they are published.\<close>

definition sign_initial ::
  "'k publish_lib \<Rightarrow> publish_env \<Rightarrow> 'k key_set \<Rightarrow> root_role \<Rightarrow> 'k list
     \<Rightarrow> publish_error + (RoleName \<times> u64 \<times> string \<times> bytes) list" where
  "sign_initial L E ks root signers =
     (let l = sg_lib (pb_signer L); v = INITIAL_VERSION
      in and_then (sign_json L (pb_root_canonical L) (pb_root_json L) root signers) (\<lambda>rb.
         and_then (policy_expires L Targets (pe_now E)) (\<lambda>tx.
         and_then (sign_json L (pb_targets_canonical L) (pb_targets_json L) (targets_new v tx Map.empty) [ks_targets ks]) (\<lambda>tb.
         and_then (policy_expires L Snapshot (pe_now E)) (\<lambda>sx.
         and_then (sign_json L (pb_meta_canonical L) (pb_meta_json L)
           (snapshot_new v sx [file_name Targets \<mapsto> meta_pinning l v tb]) [ks_snapshot ks]) (\<lambda>sb.
         and_then (policy_expires L Timestamp (pe_now E)) (\<lambda>mx.
         and_then (sign_json L (pb_meta_canonical L) (pb_meta_json L)
           (timestamp_new v mx (meta_pinning l v sb)) [ks_timestamp ks]) (\<lambda>mb.
         Inr [(Root, v, root_expires root, rb), (Targets, v, tx, tb), (Snapshot, v, sx, sb), (Timestamp, v, mx, mb)]))))))))"

definition init_write ::
  "'k publish_lib \<Rightarrow> publish_env \<Rightarrow> string \<Rightarrow> 'k key_set \<Rightarrow> root_role \<Rightarrow> 'k list \<Rightarrow> string list \<Rightarrow> fs
     \<Rightarrow> fs \<times> (publish_error + init_report)" where
  "init_write L E ws ks root signers written f =
     (let ch = ws_channel ws
      in if \<not> pe_channel_dirs E then (f, Inl (PubIo ch))
         else (case sign_initial L E ks root signers of
             Inl e \<Rightarrow> (f, Inl e)
           | Inr rs \<Rightarrow> (case write_all E 0 (role_writes ch rs) f of
                 (f1, Inl e) \<Rightarrow> (f1, Inl e)
               | (f1, Inr _) \<Rightarrow>
                   let role = the (root_roles root (role_str Root))
                   in (f1, Inr \<lparr>ir_metadata = map fst (role_writes ch rs), ir_keys = written,
                       ir_root_key_ids = rk_keyids role, ir_root_threshold = rk_threshold role\<rparr>))))"

definition init ::
  "'k publish_lib \<Rightarrow> publish_env \<Rightarrow> string \<Rightarrow> 'k key_set \<Rightarrow> bool \<Rightarrow> fs \<Rightarrow> fs \<times> (publish_error + init_report)" where
  "init L E ws ks force f = (case init_plan L E ws ks force of
       Inl e \<Rightarrow> (f, Inl e)
     | Inr (root, signers) \<Rightarrow>
         let store = ws_keys ws
         in (case create_store_dirs E 0 [store, online_dir store, offline_dir store] of
               Inl e \<Rightarrow> (f, Inl e)
             | Inr _ \<Rightarrow> (case write_keys L E store ks ALL_ROLES f of
                   (f1, Inl e) \<Rightarrow> (f1, Inl e)
                 | (f1, Inr written) \<Rightarrow>
                     let ch = ws_channel ws
                     in (case (if force then clear_dirs E 0 [ch_metadata_dir ch, ch_targets_dir ch] f1 else (f1, Inr ())) of
                           (f2, Inl e) \<Rightarrow> (f2, Inl e)
                         | (f2, Inr _) \<Rightarrow> init_write L E ws ks root signers written f2))))"

end
