(* ===== verification/Host.thy ===== *)
theory Host
  imports Publish Library
begin

text \<open>
  The release host a channel is served from, \<open>crates/publish/src/host.rs\<close>, and bringing a local channel
  onto it, \<open>remote.rs\<close>. What a request does at the host and what it answers is the record
  \<open>http_host\<close>, over an arbitrary state of the host; a request may be lost with or without effect. The
  JSON library turns text into values of the type \<open>json\<close>. A string is its bytes.
\<close>

section \<open>Repositories and names\<close>

datatype http_method = Get | Post | Patch | Delete

datatype host_error = HostFault http_method string | HostMissingRelease string string | HostStopped nat
  | HostMissingToken | HostIo string | HostUnnameable string | HostMalformedRepo string

record repo =
  rp_owner :: string
  rp_name :: string

definition STAGING_SUFFIX :: string where "STAGING_SUFFIX = ''.incoming''"
definition STABLE :: string where "STABLE = ''stable''"

definition repo_from_str :: "string \<Rightarrow> host_error + repo" where
  "repo_from_str s = (case split_once CHR ''/'' s of
       None \<Rightarrow> Inl (HostMalformedRepo s)
     | Some (owner, name) \<Rightarrow>
         if owner = [] \<or> name = [] \<or> CHR ''/'' \<in> set name then Inl (HostMalformedRepo s)
         else Inr \<lparr>rp_owner = owner, rp_name = name\<rparr>)"

definition repo_show :: "repo \<Rightarrow> string" where "repo_show r = rp_owner r @ ''/'' @ rp_name r"

definition metadata_tag :: "string \<Rightarrow> string" where "metadata_tag channel = channel @ ''/channel-metadata''"

definition release_tag :: "string \<Rightarrow> u64 \<Rightarrow> string" where "release_tag channel version = channel @ ''/v'' @ show_u64 version"

definition channel_url :: "repo \<Rightarrow> string \<Rightarrow> string" where
  "channel_url r channel = ''https://github.com/'' @ repo_show r @ ''/releases/download/'' @ metadata_tag channel @ ''/''"

definition origin :: "string \<Rightarrow> string" where
  "origin endpoint = rev (dropWhile (\<lambda>c. c = CHR ''/'') (rev endpoint))"

text \<open>Percent-encoding of a path segment or query value.\<close>

definition unreserved :: "char \<Rightarrow> bool" where
  "unreserved c \<longleftrightarrow> (let n = (of_char c :: nat) in 65 \<le> n \<and> n \<le> 90 \<or> 97 \<le> n \<and> n \<le> 122 \<or> 48 \<le> n \<and> n \<le> 57)
     \<or> c \<in> {CHR ''-'', CHR ''.'', CHR ''_'', CHR ''~''}"

definition upper_hex :: string where "upper_hex = ''0123456789ABCDEF''"

definition encode_char :: "char \<Rightarrow> string" where
  "encode_char c = (if unreserved c then [c]
     else let n = (of_char c :: nat) in [CHR ''%'', upper_hex ! (n div 16), upper_hex ! (n mod 16)])"

definition encode_segment :: "string \<Rightarrow> string" where "encode_segment s = concat (map encode_char s)"

section \<open>Requests\<close>

datatype json = JNull | JBool bool | JInt u64 | JOther | JString string | JArray "json list" | JObject "(string \<times> json) list"

record request =
  rq_method :: http_method
  rq_url :: string
  rq_token :: string
  rq_content_type :: "string option"
  rq_body :: bytes

text \<open>The host: what it does with a request, and the JSON library on either side of it.\<close>

record 'h http_host =
  hh_send :: "request \<Rightarrow> 'h \<Rightarrow> 'h \<times> (nat \<times> string) option"
  hh_json :: "string \<Rightarrow> json option"
  hh_show :: "json \<Rightarrow> bytes"

record github =
  gh_repo :: repo
  gh_token :: string
  gh_api :: string
  gh_uploads :: string

definition with_endpoints :: "repo \<Rightarrow> string \<Rightarrow> string \<Rightarrow> string \<Rightarrow> github" where
  "with_endpoints r token api uploads = \<lparr>gh_repo = r, gh_token = token, gh_api = origin api, gh_uploads = origin uploads\<rparr>"

definition github_new :: "repo \<Rightarrow> string \<Rightarrow> github" where
  "github_new r token = with_endpoints r token ''https://api.github.com'' ''https://uploads.github.com''"

text \<open>The token is the first of two variables that is set and not empty.\<close>

definition TOKEN_VARS :: "string list" where "TOKEN_VARS = [''GH_TOKEN'', ''GITHUB_TOKEN'']"

definition from_env :: "(string \<Rightarrow> string option) \<Rightarrow> repo \<Rightarrow> host_error + github" where
  "from_env var r = (case find_map (\<lambda>v. case var v of Some t \<Rightarrow> if t = [] then None else Some t | None \<Rightarrow> None) TOKEN_VARS of
       None \<Rightarrow> Inl HostMissingToken
     | Some t \<Rightarrow> Inr (github_new r t))"

definition send ::
  "'h http_host \<Rightarrow> github \<Rightarrow> http_method \<Rightarrow> string \<Rightarrow> (string \<times> bytes) option \<Rightarrow> 'h \<Rightarrow> 'h \<times> (host_error + nat \<times> string)" where
  "send H G m url payload h =
     (case hh_send H \<lparr>rq_method = m, rq_url = url, rq_token = gh_token G, rq_content_type = map_option fst payload,
         rq_body = (case payload of Some (_, b) \<Rightarrow> b | None \<Rightarrow> [])\<rparr> h of
        (h1, None) \<Rightarrow> (h1, Inl (HostFault m url))
      | (h1, Some answer) \<Rightarrow> (h1, Inr answer))"

definition expect_ok :: "http_method \<Rightarrow> string \<Rightarrow> nat \<Rightarrow> string \<Rightarrow> host_error + string" where
  "expect_ok m url status body = (if 200 \<le> status \<and> status < 300 then Inr body else Inl (HostFault m url))"

definition json_at :: "json \<Rightarrow> string \<Rightarrow> json" where
  "json_at v key = (case v of JObject fs \<Rightarrow> (case map_of fs key of Some x \<Rightarrow> x | None \<Rightarrow> JNull) | _ \<Rightarrow> JNull)"

definition id_of :: "json \<Rightarrow> u64 option" where
  "id_of v = (case json_at v ''id'' of JInt n \<Rightarrow> Some n | _ \<Rightarrow> None)"

record release =
  rl_id :: u64
  rl_assets :: "(string \<times> u64) list"

definition parse_asset :: "json \<Rightarrow> (string \<times> u64) option" where
  "parse_asset a = (case json_at a ''name'' of JString n \<Rightarrow> map_option (\<lambda>i. (n, i)) (id_of a) | _ \<Rightarrow> None)"

definition parse_release :: "'h http_host \<Rightarrow> string \<Rightarrow> release option" where
  "parse_release H body = Option.bind (hh_json H body) (\<lambda>v.
     Option.bind (case json_at v ''assets'' of JNull \<Rightarrow> Some [] | JArray xs \<Rightarrow> those (map parse_asset xs) | _ \<Rightarrow> None) (\<lambda>as.
     map_option (\<lambda>i. \<lparr>rl_id = i, rl_assets = as\<rparr>) (id_of v)))"

definition asset_id :: "release \<Rightarrow> string \<Rightarrow> u64 option" where
  "asset_id r name = map_option snd (List.find (\<lambda>a. fst a = name) (rl_assets r))"

definition releases_url :: "github \<Rightarrow> string" where
  "releases_url G = gh_api G @ ''/repos/'' @ repo_show (gh_repo G) @ ''/releases''"

definition tag_url :: "github \<Rightarrow> string \<Rightarrow> string" where
  "tag_url G tag = releases_url G @ ''/tags/'' @ encode_segment tag"

definition upload_url :: "github \<Rightarrow> u64 \<Rightarrow> string \<Rightarrow> string" where
  "upload_url G rid name = gh_uploads G @ ''/repos/'' @ repo_show (gh_repo G) @ ''/releases/'' @ show_u64 rid
     @ ''/assets?name='' @ encode_segment name"

definition asset_url :: "github \<Rightarrow> u64 \<Rightarrow> string" where
  "asset_url G aid = releases_url G @ ''/assets/'' @ show_u64 aid"

definition get_release :: "'h http_host \<Rightarrow> github \<Rightarrow> string \<Rightarrow> 'h \<Rightarrow> 'h \<times> (host_error + release option)" where
  "get_release H G tag h = (case send H G Get (tag_url G tag) None h of
       (h1, Inl e) \<Rightarrow> (h1, Inl e)
     | (h1, Inr (status, body)) \<Rightarrow>
         if status = 404 then (h1, Inr None)
         else (case expect_ok Get (tag_url G tag) status body of
             Inl e \<Rightarrow> (h1, Inl e)
           | Inr b \<Rightarrow> (case parse_release H b of
                 None \<Rightarrow> (h1, Inl (HostFault Get (tag_url G tag)))
               | Some r \<Rightarrow> (h1, Inr (Some r)))))"

definition upload_asset :: "'h http_host \<Rightarrow> github \<Rightarrow> u64 \<Rightarrow> string \<Rightarrow> bytes \<Rightarrow> 'h \<Rightarrow> 'h \<times> (host_error + u64)" where
  "upload_asset H G rid name b h = (case send H G Post (upload_url G rid name) (Some (''application/octet-stream'', b)) h of
       (h1, Inl e) \<Rightarrow> (h1, Inl e)
     | (h1, Inr (status, body)) \<Rightarrow> (case expect_ok Post (upload_url G rid name) status body of
           Inl e \<Rightarrow> (h1, Inl e)
         | Inr t \<Rightarrow> (case Option.bind (hh_json H t) id_of of
               None \<Rightarrow> (h1, Inl (HostFault Post (upload_url G rid name)))
             | Some i \<Rightarrow> (h1, Inr i))))"

definition delete_asset :: "'h http_host \<Rightarrow> github \<Rightarrow> u64 \<Rightarrow> 'h \<Rightarrow> 'h \<times> (host_error + unit)" where
  "delete_asset H G aid h = (case send H G Delete (asset_url G aid) None h of
       (h1, Inl e) \<Rightarrow> (h1, Inl e)
     | (h1, Inr (status, body)) \<Rightarrow>
         if status = 404 then (h1, Inr ())
         else (case expect_ok Delete (asset_url G aid) status body of Inl e \<Rightarrow> (h1, Inl e) | Inr _ \<Rightarrow> (h1, Inr ())))"

definition rename_asset :: "'h http_host \<Rightarrow> github \<Rightarrow> u64 \<Rightarrow> string \<Rightarrow> 'h \<Rightarrow> 'h \<times> (host_error + unit)" where
  "rename_asset H G aid name h =
     (case send H G Patch (asset_url G aid) (Some (''application/json'', hh_show H (JObject [(''name'', JString name)]))) h of
       (h1, Inl e) \<Rightarrow> (h1, Inl e)
     | (h1, Inr (status, body)) \<Rightarrow>
         (case expect_ok Patch (asset_url G aid) status body of Inl e \<Rightarrow> (h1, Inl e) | Inr _ \<Rightarrow> (h1, Inr ())))"

definition ensure_release :: "'h http_host \<Rightarrow> github \<Rightarrow> string \<Rightarrow> bool \<Rightarrow> 'h \<Rightarrow> 'h \<times> (host_error + unit)" where
  "ensure_release H G tag prerelease h = (case get_release H G tag h of
       (h1, Inl e) \<Rightarrow> (h1, Inl e)
     | (h1, Inr (Some _)) \<Rightarrow> (h1, Inr ())
     | (h1, Inr None) \<Rightarrow>
         (case send H G Post (releases_url G) (Some (''application/json'', hh_show H (JObject [(''tag_name'', JString tag),
             (''name'', JString tag), (''prerelease'', JBool prerelease)]))) h1 of
           (h2, Inl e) \<Rightarrow> (h2, Inl e)
         | (h2, Inr (status, body)) \<Rightarrow>
             (case (if status = 422 then get_release H G tag h2 else (h2, Inr None)) of
                (h3, Inl e) \<Rightarrow> (h3, Inl e)
              | (h3, Inr (Some _)) \<Rightarrow> (h3, Inr ())
              | (h3, Inr None) \<Rightarrow>
                  (case expect_ok Post (releases_url G) status body of Inl e \<Rightarrow> (h3, Inl e) | Inr _ \<Rightarrow> (h3, Inr ())))))"

text \<open>A name in use is swapped: the new bytes go up beside it, then it is dropped and they take its name.\<close>

definition swap_asset :: "'h http_host \<Rightarrow> github \<Rightarrow> release \<Rightarrow> string \<Rightarrow> bytes \<Rightarrow> 'h \<Rightarrow> 'h \<times> (host_error + unit)" where
  "swap_asset H G r name b h = (case asset_id r name of
       None \<Rightarrow> (case upload_asset H G (rl_id r) name b h of (h1, Inl e) \<Rightarrow> (h1, Inl e) | (h1, Inr _) \<Rightarrow> (h1, Inr ()))
     | Some published \<Rightarrow> (case upload_asset H G (rl_id r) (name @ STAGING_SUFFIX) b h of
           (h1, Inl e) \<Rightarrow> (h1, Inl e)
         | (h1, Inr staged) \<Rightarrow> (case delete_asset H G published h1 of
               (h2, Inl e) \<Rightarrow> (h2, Inl e)
             | (h2, Inr _) \<Rightarrow> rename_asset H G staged name h2)))"

definition put_asset :: "'h http_host \<Rightarrow> github \<Rightarrow> string \<Rightarrow> string \<Rightarrow> bytes \<Rightarrow> 'h \<Rightarrow> 'h \<times> (host_error + unit)" where
  "put_asset H G tag name b h = (case get_release H G tag h of
       (h1, Inl e) \<Rightarrow> (h1, Inl e)
     | (h1, Inr None) \<Rightarrow> (h1, Inl (HostMissingRelease (repo_show (gh_repo G)) tag))
     | (h1, Inr (Some r)) \<Rightarrow> (case asset_id r (name @ STAGING_SUFFIX) of
           None \<Rightarrow> swap_asset H G r name b h1
         | Some abandoned \<Rightarrow> (case delete_asset H G abandoned h1 of
               (h2, Inl e) \<Rightarrow> (h2, Inl e)
             | (h2, Inr _) \<Rightarrow> swap_asset H G r name b h2)))"

section \<open>Pushing a channel\<close>

text \<open>A host as a push sees it.\<close>

record 'h release_host =
  rh_ensure :: "string \<Rightarrow> bool \<Rightarrow> 'h \<Rightarrow> 'h \<times> (host_error + unit)"
  rh_put :: "string \<Rightarrow> string \<Rightarrow> bytes \<Rightarrow> 'h \<Rightarrow> 'h \<times> (host_error + unit)"

definition github_host :: "'h http_host \<Rightarrow> github \<Rightarrow> 'h release_host" where
  "github_host H G = \<lparr>rh_ensure = ensure_release H G, rh_put = put_asset H G\<rparr>"

definition asset_name :: "string \<Rightarrow> host_error + string" where
  "asset_name path = (case path_name path of Some n \<Rightarrow> Inr n | None \<Rightarrow> Inl (HostUnnameable path))"

text \<open>The assets pushed so far, those of this run counted from \<open>start\<close>.\<close>

definition push_put ::
  "'h release_host \<Rightarrow> nat option \<Rightarrow> nat \<Rightarrow> string \<Rightarrow> string \<Rightarrow> bytes \<Rightarrow> 'h \<times> string list \<Rightarrow> ('h \<times> string list) \<times> (host_error + unit)" where
  "push_put R stop_after base tag name b s = (case s of (h, pushed) \<Rightarrow>
     if stop_after = Some (length pushed - base) then (s, Inl (HostStopped (length pushed - base)))
     else (case rh_put R tag name b h of
         (h1, Inl e) \<Rightarrow> ((h1, pushed), Inl e)
       | (h1, Inr _) \<Rightarrow> ((h1, pushed @ [tag @ ''/'' @ name]), Inr ())))"

fun push_files ::
  "'h release_host \<Rightarrow> (string \<Rightarrow> bool) \<Rightarrow> nat option \<Rightarrow> nat \<Rightarrow> string \<Rightarrow> fs \<Rightarrow> string list \<Rightarrow> 'h \<times> string list
     \<Rightarrow> ('h \<times> string list) \<times> (host_error + unit)" where
  "push_files R rd stop_after base tag f [] s = (s, Inr ())"
| "push_files R rd stop_after base tag f (path # paths) s = (case asset_name path of
       Inl e \<Rightarrow> (s, Inl e)
     | Inr name \<Rightarrow> (case (if rd path then f path else None) of
           None \<Rightarrow> (s, Inl (HostIo path))
         | Some b \<Rightarrow> (case push_put R stop_after base tag name b s of
               (s1, Inl e) \<Rightarrow> (s1, Inl e)
             | (s1, Inr _) \<Rightarrow> push_files R rd stop_after base tag f paths s1)))"

definition push_channel ::
  "'h release_host \<Rightarrow> (string \<Rightarrow> bool) \<Rightarrow> nat option \<Rightarrow> nat \<Rightarrow> string \<Rightarrow> fs \<Rightarrow> string list \<Rightarrow> 'h \<times> string list
     \<Rightarrow> ('h \<times> string list) \<times> (host_error + unit)" where
  "push_channel R rd stop_after base channel f paths s = (case s of (h, pushed) \<Rightarrow>
     (case rh_ensure R (metadata_tag channel) True h of
        (h1, Inl e) \<Rightarrow> ((h1, pushed), Inl e)
      | (h1, Inr _) \<Rightarrow> push_files R rd stop_after base (metadata_tag channel) f paths (h1, pushed)))"

definition push_metadata ::
  "'h release_host \<Rightarrow> (string \<Rightarrow> bool) \<Rightarrow> string \<Rightarrow> fs \<Rightarrow> string list \<Rightarrow> 'h \<times> string list \<Rightarrow> ('h \<times> string list) \<times> (host_error + unit)" where
  "push_metadata R rd channel f paths s = push_channel R rd None (length (snd s)) channel f paths s"

definition push_generation ::
  "'h release_host \<Rightarrow> (string \<Rightarrow> bool) \<Rightarrow> string \<Rightarrow> publish_report \<Rightarrow> bytes \<Rightarrow> nat option \<Rightarrow> fs \<Rightarrow> 'h \<times> string list
     \<Rightarrow> ('h \<times> string list) \<times> (host_error + unit)" where
  "push_generation R rd channel rep manifest_bytes stop_after f s = (case s of (h, pushed) \<Rightarrow>
     (let tag = release_tag channel (pr_version rep); base = length pushed
      in case rh_ensure R tag (channel \<noteq> STABLE) h of
           (h1, Inl e) \<Rightarrow> ((h1, pushed), Inl e)
         | (h1, Inr _) \<Rightarrow> (case push_put R stop_after base tag TARGET_PATH manifest_bytes (h1, pushed) of
               (s1, Inl e) \<Rightarrow> (s1, Inl e)
             | (s1, Inr _) \<Rightarrow> push_channel R rd stop_after base channel f (pr_written rep) s1)))"

end
