(* ===== verification/Publish_Props.thy ===== *)
theory Publish_Props
  imports Publish
begin

text \<open>
  What a channel's publisher keeps: a client reading the channel finds the old chain or the new one
  whole, whatever interrupts the write; every write moves the chain forward; a re-sign leaves what the
  chain names; a root that \<open>init\<close> writes meets its own threshold.
\<close>

section \<open>Commit points\<close>

text \<open>Files laid down one after the other.\<close>

definition puts :: "('a \<times> 'b) list \<Rightarrow> ('a \<Rightarrow> 'b option) \<Rightarrow> 'a \<Rightarrow> 'b option" where
  "puts ws f = foldl (\<lambda>f (p, b). f(p \<mapsto> b)) f ws"

lemma puts_simps [simp]: "puts [] f = f" "puts ((p, b) # ws) f = puts ws (f(p \<mapsto> b))" "puts (us @ ws) f = puts ws (puts us f)"
  by (simp_all add: puts_def)

lemma puts_other: "p \<notin> fst ` set ws \<Longrightarrow> puts ws f p = f p"
  by (induction ws arbitrary: f) auto

text \<open>
  A view that rests on a few files: as long as only others are laid down it is the same, so a sequence
  of writes whose last alone touches those files shows the view before or the view after.
\<close>

locale commit_point =
  fixes view :: "('a \<Rightarrow> 'b option) \<Rightarrow> 'c option"
    and support :: "'c \<Rightarrow> 'a set"
  assumes view_frame: "view f = Some c \<Longrightarrow> (\<And>p. p \<in> support c \<Longrightarrow> f' p = f p) \<Longrightarrow> view f' = Some c"
begin

lemma view_puts: "view f = Some c \<Longrightarrow> fst ` set ws \<inter> support c = {} \<Longrightarrow> view (puts ws f) = Some c"
  by (rule view_frame [of f]) (auto intro!: puts_other)

lemma all_or_nothing:
  assumes "view f = Some c" "fst ` set ws \<inter> support c = {}" "n \<le> Suc (length ws)"
  shows "view (puts (take n (ws @ [w])) f) = Some c \<or> puts (take n (ws @ [w])) f = puts (ws @ [w]) f"
proof (cases "n \<le> length ws")
  case True
  have "fst ` set (take n ws) \<inter> support c = {}" using assms(2) set_take_subset [of n ws] by auto
  with True view_puts [OF assms(1)] show ?thesis by simp
qed (use assms(3) in simp)

end

section \<open>The operator \<open>?\<close>\<close>

lemma and_then_simps [simp]: "and_then (Inl e) k = Inl e" "and_then (Inr x) k = k x"
  by (simp_all add: and_then_def)

lemma and_then_Inr [simp]: "and_then r k = Inr y \<longleftrightarrow> (\<exists>x. r = Inr x \<and> k x = Inr y)"
  by (cases r) auto

lemma or_err_simps [simp]: "or_err e None = Inl e" "or_err e (Some x) = Inr x" "or_err e r = Inr y \<longleftrightarrow> r = Some y"
  by (simp_all add: or_err_def split: option.split)

lemma tuf_Inr [simp]: "tuf r = Inr y \<longleftrightarrow> r = Inr y"
  by (simp add: tuf_def split: sum.split)

section \<open>What a client finds\<close>

text \<open>What is relied on of the JSON library: what was written for a role reads back as it.\<close>

definition publish_lib_ok :: "'k publish_lib \<Rightarrow> bool" where
  "publish_lib_ok L \<longleftrightarrow>
     (\<forall>sd b. pb_root_json L sd = Some b \<longrightarrow> pb_read_root L b = Some sd)
   \<and> (\<forall>sd b. pb_targets_json L sd = Some b \<longrightarrow> pb_read_targets L b = Some sd)
   \<and> (\<forall>sd b. pb_meta_json L sd = Some b \<longrightarrow> pb_read_snapshot L b = Some sd \<and> pb_read_timestamp L b = Some sd)"

text \<open>The client's side of a pin: the length and the digest it states, where it states them.\<close>

definition pin_holds :: "lib \<Rightarrow> meta_file \<Rightarrow> bytes \<Rightarrow> bool" where
  "pin_holds l pin b \<longleftrightarrow> (case mf_length pin of None \<Rightarrow> True | Some n \<Rightarrow> n = of_nat (length b))
     \<and> (case mf_hashes pin of None \<Rightarrow> True | Some h \<Rightarrow> h ''sha256'' = Some (hex_encode l (sha256 l b)))"

lemma pinning_holds [simp]: "pin_holds l (meta_pinning l v b) b" "mf_version (meta_pinning l v b) = v"
  by (simp_all add: pin_holds_def meta_pinning_def sha256_map_def)

record chain =
  ck_timestamp :: meta_role
  ck_snapshot :: meta_role
  ck_targets :: targets_role

text \<open>
  The chain a client follows from \<open>timestamp.json\<close>: each role pins the next by version, length and
  digest, and carries the version it was pinned at.
\<close>

definition pinned_file :: "lib \<Rightarrow> string \<Rightarrow> RoleName \<Rightarrow> (string \<Rightarrow> meta_file option) \<Rightarrow> fs \<Rightarrow> (u64 \<times> bytes) option" where
  "pinned_file l md r m f =
     Option.bind (m (file_name r)) (\<lambda>pin. Option.bind (f (path_join md (versioned_name r (mf_version pin)))) (\<lambda>b.
       if pin_holds l pin b then Some (mf_version pin, b) else None))"

definition client_chain :: "'k publish_lib \<Rightarrow> string \<Rightarrow> fs \<Rightarrow> chain option" where
  "client_chain L md f =
     (let l = sg_lib (pb_signer L)
      in Option.bind (f (path_join md (file_name Timestamp))) (\<lambda>mb.
         Option.bind (pb_read_timestamp L mb) (\<lambda>ts.
         Option.bind (pinned_file l md Snapshot (rb_meta (signed_payload ts)) f) (\<lambda>(sv, sb).
         Option.bind (pb_read_snapshot L sb) (\<lambda>sn.
         if rb_version (signed_payload sn) \<noteq> sv then None else
         Option.bind (pinned_file l md Targets (rb_meta (signed_payload sn)) f) (\<lambda>(tv, tb).
         Option.bind (pb_read_targets L tb) (\<lambda>tg.
         if rb_version (signed_payload tg) \<noteq> tv then None else
         Some \<lparr>ck_timestamp = signed_payload ts, ck_snapshot = signed_payload sn, ck_targets = signed_payload tg\<rparr>)))))))"

definition chain_files :: "string \<Rightarrow> chain \<Rightarrow> string set" where
  "chain_files md c = {path_join md (file_name Timestamp), path_join md (versioned_name Snapshot (rb_version (ck_snapshot c))),
     path_join md (versioned_name Targets (rb_version (ck_targets c)))}"

lemma pinned_file_Some:
  "pinned_file l md r m f = Some (v, b) \<longleftrightarrow>
     (\<exists>pin. m (file_name r) = Some pin \<and> mf_version pin = v \<and> f (path_join md (versioned_name r v)) = Some b \<and> pin_holds l pin b)"
  by (auto simp: pinned_file_def bind_eq_Some_conv split: if_splits)

lemma client_chain_Some:
  "client_chain L md f = Some c \<longleftrightarrow> (\<exists>mb ts sb sn tb tg.
      f (path_join md (file_name Timestamp)) = Some mb \<and> pb_read_timestamp L mb = Some ts
    \<and> pinned_file (sg_lib (pb_signer L)) md Snapshot (rb_meta (signed_payload ts)) f = Some (rb_version (signed_payload sn), sb)
    \<and> pb_read_snapshot L sb = Some sn
    \<and> pinned_file (sg_lib (pb_signer L)) md Targets (rb_meta (signed_payload sn)) f = Some (rb_version (signed_payload tg), tb)
    \<and> pb_read_targets L tb = Some tg
    \<and> c = \<lparr>ck_timestamp = signed_payload ts, ck_snapshot = signed_payload sn, ck_targets = signed_payload tg\<rparr>)"
  by (fastforce simp: client_chain_def Let_def bind_eq_Some_conv split: if_splits)

lemma pinned_file_frame:
  "pinned_file l md r m f = Some (v, b) \<Longrightarrow> f' (path_join md (versioned_name r v)) = f (path_join md (versioned_name r v)) \<Longrightarrow>
   pinned_file l md r m f' = Some (v, b)"
  by (simp add: pinned_file_Some)

interpretation chain: commit_point "client_chain L md" "chain_files md" for L :: "'k publish_lib" and md
proof unfold_locales
  fix f f' :: fs and c
  assume "client_chain L md f = Some c" and same: "\<And>p. p \<in> chain_files md c \<Longrightarrow> f' p = f p"
  then obtain mb ts sb sn tb tg where ts: "f (path_join md (file_name Timestamp)) = Some mb" "pb_read_timestamp L mb = Some ts"
    and sn: "pinned_file (sg_lib (pb_signer L)) md Snapshot (rb_meta (signed_payload ts)) f = Some (rb_version (signed_payload sn), sb)"
      "pb_read_snapshot L sb = Some sn"
    and tg: "pinned_file (sg_lib (pb_signer L)) md Targets (rb_meta (signed_payload sn)) f = Some (rb_version (signed_payload tg), tb)"
      "pb_read_targets L tb = Some tg"
    and c: "c = \<lparr>ck_timestamp = signed_payload ts, ck_snapshot = signed_payload sn, ck_targets = signed_payload tg\<rparr>"
    unfolding client_chain_Some by metis
  have "f' (path_join md (file_name Timestamp)) = Some mb" using same ts(1) by (simp add: chain_files_def)
  moreover have "pinned_file (sg_lib (pb_signer L)) md Snapshot (rb_meta (signed_payload ts)) f' = Some (rb_version (signed_payload sn), sb)"
    by (rule pinned_file_frame [OF sn(1)]) (rule same, simp add: chain_files_def c)
  moreover have "pinned_file (sg_lib (pb_signer L)) md Targets (rb_meta (signed_payload sn)) f' = Some (rb_version (signed_payload tg), tb)"
    by (rule pinned_file_frame [OF tg(1)]) (rule same, simp add: chain_files_def c)
  ultimately show "client_chain L md f' = Some c" unfolding client_chain_Some using ts(2) sn(2) tg(2) c by blast
qed

section \<open>The files of a write\<close>

lemma meta_name_hd: "versioned_name r v \<noteq> [] \<and> hd (versioned_name r v) \<noteq> CHR ''/''" "file_name r \<noteq> [] \<and> hd (file_name r) \<noteq> CHR ''/''"
proof -
  have "show_u64 v \<noteq> []" by (simp add: show_u64_def show_nonempty)
  then show "versioned_name r v \<noteq> [] \<and> hd (versioned_name r v) \<noteq> CHR ''/''"
    using show_u64_digits [of v] by (cases "show_u64 v") (auto simp: versioned_name_def is_digit_def)
  show "file_name r \<noteq> [] \<and> hd (file_name r) \<noteq> CHR ''/''" by (cases r) (simp_all add: file_name_def role_str_def)
qed

lemma meta_path_eq [simp]:
  "path_join md (versioned_name r v) = path_join md (versioned_name r' v') \<longleftrightarrow> r = r' \<and> v = v'"
  "path_join md (versioned_name r v) \<noteq> path_join md (file_name r')" "path_join md (file_name r') \<noteq> path_join md (versioned_name r v)"
  using path_join_inj [of md] meta_name_hd versioned_name_inj versioned_not_plain by metis+

lemma file_path_eq [simp]: "path_join md (file_name r) = path_join md (file_name r') \<longleftrightarrow> r = r'"
  using path_join_inj [of md] meta_name_hd file_name_inj by metis

text \<open>Nothing written among the targets is a file of the metadata.\<close>

lemma target_not_metadata:
  assumes "lib_ok l" "n \<noteq> []" "hd n \<noteq> CHR ''/''"
  shows "target_file_path l ws b \<noteq> path_join (ch_metadata_dir (ws_channel ws)) n"
proof -
  let ?ch = "ws_channel ws"
  obtain pre where pre: "ch_metadata_dir ?ch = pre @ ''metadata''" "ch_targets_dir ?ch = pre @ ''targets''"
    by (rule that [of "if ?ch = [] then [] else if last ?ch = CHR ''/'' then ?ch else ?ch @ ''/''"])
      (simp_all add: ch_metadata_dir_def ch_targets_dir_def path_join_def)
  from assms(1) have "length (sha256 l b) = 32" by (simp add: lib_ok_def)
  then have "sha256 l b \<noteq> []" by auto
  then have "hd (to_hex (sha256 l b)) \<noteq> CHR ''/'' \<and> to_hex (sha256 l b) \<noteq> []"
    using to_hex_hd [of "sha256 l b"] by (auto simp: lib_ok_def is_lower_hex_def hex_digits_def)
  moreover have "rsplit_slash TARGET_PATH = None" by code_simp
  ultimately have "target_file_path l ws b = pre @ ''targets/'' @ to_hex (sha256 l b) @ ''.manifest.json''"
    using assms(1) by (simp add: target_file_path_def pre path_join_def target_published_name_def generation_id_def lib_ok_def)
      (simp add: TARGET_PATH_def)
  moreover have "path_join (ch_metadata_dir ?ch) n = pre @ ''metadata/'' @ n" using assms(2,3) by (simp add: pre path_join_def)
  ultimately show ?thesis by simp
qed

lemma write_all_puts:
  "write_all E k ws f = (f', r) \<Longrightarrow> \<exists>n \<le> length ws. f' = puts (take n ws) f \<and> (r = Inr () \<longrightarrow> n = length ws)"
proof (induction ws arbitrary: k f)
  case (Cons w ws)
  obtain p b where w: "w = (p, b)" by force
  consider f1 e where "write_atomically E k p b f = (f1, Inl e)" "f1 = f \<or> f1 = f(p \<mapsto> b)" | "write_atomically E k p b f = (f(p \<mapsto> b), Inr ())"
    by (cases "pe_write E k") (auto simp: write_atomically_def)
  then show ?case
  proof cases
    case 1
    with Cons.prems w show ?thesis by (intro exI [of _ "if f1 = f then 0 else 1"]) auto
  next
    case 2
    with Cons.prems w have "write_all E (Suc k) ws (f(p \<mapsto> b)) = (f', r)" by simp
    from Cons.IH [OF this] obtain n where "n \<le> length ws" "f' = puts (take n ws) (f(p \<mapsto> b))"
      "r = Inr () \<longrightarrow> n = length ws" by blast
    with w show ?thesis by (intro exI [of _ "Suc n"]) simp
  qed
qed simp

lemma sign_json_payload:
  assumes "sign_json L canonical json payload keys = Inr b"
  obtains sd where "json sd = Some b" "signed_payload sd = payload" "signed_new (with_canonical (pb_signer L) canonical) payload keys = Inr sd"
  using assms by (auto simp: sign_json_def signed_new_def Let_def split: option.splits)

lemma sign_chain_files:
  assumes ok: "publish_lib_ok L" and signed: "sign_chain L E store targets nx f = Inr rs"
  obtains tb sb mb sx mx sdt sds sdm where
    "rs = [(Targets, rb_version targets, rb_expires targets, tb), (Snapshot, nx_snapshot nx, sx, sb), (Timestamp, nx_timestamp nx, mx, mb)]"
    "pb_read_targets L tb = Some sdt" "signed_payload sdt = targets"
    "pb_read_snapshot L sb = Some sds"
    "signed_payload sds = snapshot_new (nx_snapshot nx) sx [file_name Targets \<mapsto> meta_pinning (sg_lib (pb_signer L)) (rb_version targets) tb]"
    "pb_read_timestamp L mb = Some sdm"
    "signed_payload sdm = timestamp_new (nx_timestamp nx) mx (meta_pinning (sg_lib (pb_signer L)) (nx_snapshot nx) sb)"
proof -
  let ?l = "sg_lib (pb_signer L)"
  from signed obtain tk sk mk tb sx sb mx mb where
    tb: "sign_json L (pb_targets_canonical L) (pb_targets_json L) targets [tk] = Inr tb"
    and sb: "sign_json L (pb_meta_canonical L) (pb_meta_json L)
      (snapshot_new (nx_snapshot nx) sx [file_name Targets \<mapsto> meta_pinning ?l (rb_version targets) tb]) [sk] = Inr sb"
    and mb: "sign_json L (pb_meta_canonical L) (pb_meta_json L)
      (timestamp_new (nx_timestamp nx) mx (meta_pinning ?l (nx_snapshot nx) sb)) [mk] = Inr mb"
    and rs: "rs = [(Targets, rb_version targets, rb_expires targets, tb), (Snapshot, nx_snapshot nx, sx, sb), (Timestamp, nx_timestamp nx, mx, mb)]"
    by (auto simp: sign_chain_def Let_def)
  obtain sdt where "pb_targets_json L sdt = Some tb" "signed_payload sdt = targets" using tb by (rule sign_json_payload)
  moreover obtain sds where "pb_meta_json L sds = Some sb"
    "signed_payload sds = snapshot_new (nx_snapshot nx) sx [file_name Targets \<mapsto> meta_pinning ?l (rb_version targets) tb]"
    using sb by (rule sign_json_payload)
  moreover obtain sdm where "pb_meta_json L sdm = Some mb"
    "signed_payload sdm = timestamp_new (nx_timestamp nx) mx (meta_pinning ?l (nx_snapshot nx) sb)"
    using mb by (rule sign_json_payload)
  ultimately show thesis using ok rs by (intro that) (auto simp: publish_lib_ok_def)
qed

section \<open>One write\<close>

text \<open>The versions a write takes from the chain in force.\<close>

definition next_after :: "string \<Rightarrow> chain \<Rightarrow> chain_next \<Rightarrow> bool" where
  "next_after md c nx \<longleftrightarrow>
     checked_add (rb_version (ck_targets c)) 1 = Some (nx_targets nx)
   \<and> checked_add (rb_version (ck_snapshot c)) 1 = Some (nx_snapshot nx)
   \<and> checked_add (rb_version (ck_timestamp c)) 1 = Some (nx_timestamp nx)
   \<and> nx_current nx = path_join md (versioned_name Targets (rb_version (ck_targets c)))"

lemma next_read_chain:
  assumes "client_chain L (ch_metadata_dir ch) f = Some c" "next_read L E ch f = Inr nx"
  shows "next_after (ch_metadata_dir ch) c nx"
  using assms unfolding client_chain_Some
  by (auto simp: next_read_def Let_def read_signed_def read_bytes_def pinned_version_def next_version_def next_after_def pinned_file_Some
      split: if_splits option.splits)

lemma current_targets_chain:
  assumes "client_chain L md f = Some c" "next_after md c nx" "current_targets L E nx f = Inr t"
  shows "t = ck_targets c"
  using assms unfolding client_chain_Some
  by (auto simp: current_targets_def read_signed_def read_bytes_def next_after_def pinned_file_Some split: if_splits)

text \<open>The chain a write is for: one version further in every role, naming the given targets.\<close>

definition chain_follows :: "chain \<Rightarrow> targets_role \<Rightarrow> chain \<Rightarrow> bool" where
  "chain_follows c targets c' \<longleftrightarrow> ck_targets c' = targets
     \<and> unat (rb_version (ck_targets c')) = unat (rb_version (ck_targets c)) + 1
     \<and> unat (rb_version (ck_snapshot c')) = unat (rb_version (ck_snapshot c)) + 1
     \<and> unat (rb_version (ck_timestamp c')) = unat (rb_version (ck_timestamp c)) + 1"

lemma new_chain:
  assumes tb: "pb_read_targets L tb = Some sdt" "signed_payload sdt = targets"
    and sb: "pb_read_snapshot L sb = Some sds"
      "signed_payload sds = snapshot_new sv sx [file_name Targets \<mapsto> meta_pinning (sg_lib (pb_signer L)) (rb_version targets) tb]"
    and mb: "pb_read_timestamp L mb = Some sdm"
      "signed_payload sdm = timestamp_new mv mx (meta_pinning (sg_lib (pb_signer L)) sv sb)"
    and f: "f (path_join md (versioned_name Targets (rb_version targets))) = Some tb"
      "f (path_join md (versioned_name Snapshot sv)) = Some sb" "f (path_join md (file_name Timestamp)) = Some mb"
  shows "client_chain L md f = Some \<lparr>ck_timestamp = signed_payload sdm, ck_snapshot = signed_payload sds, ck_targets = targets\<rparr>"
  unfolding client_chain_Some using assms
  by (intro exI [of _ mb] exI [of _ sdm] exI [of _ sb] exI [of _ sds] exI [of _ tb] exI [of _ sdt])
    (simp add: pinned_file_Some timestamp_new_def snapshot_new_def)

lemma commit_cases:
  assumes ok: "publish_lib_ok L" and run: "commit L E k ch store targets nx f = (f', r)"
    and c: "client_chain L (ch_metadata_dir ch) f = Some c" and nx: "next_after (ch_metadata_dir ch) c nx"
    and v: "rb_version targets = nx_targets nx"
  shows "(client_chain L (ch_metadata_dir ch) f' = Some c \<and> (\<exists>e. r = Inl e)
      \<or> (\<exists>c'. client_chain L (ch_metadata_dir ch) f' = Some c' \<and> chain_follows c targets c'))
    \<and> (\<forall>p. (\<forall>r v. p \<noteq> path_join (ch_metadata_dir ch) (versioned_name r v)) \<and> p \<noteq> path_join (ch_metadata_dir ch) (file_name Timestamp)
         \<longrightarrow> f' p = f p)"
proof (cases "sign_chain L E store targets nx f")
  case (Inl e)
  with run c show ?thesis by (auto simp: commit_def)
next
  case (Inr rs)
  let ?md = "ch_metadata_dir ch" and ?l = "sg_lib (pb_signer L)"
  from sign_chain_files [OF ok Inr] obtain tb sb mb sx mx sdt sds sdm where
    rs: "rs = [(Targets, rb_version targets, rb_expires targets, tb), (Snapshot, nx_snapshot nx, sx, sb), (Timestamp, nx_timestamp nx, mx, mb)]"
    and tb: "pb_read_targets L tb = Some sdt" "signed_payload sdt = targets"
    and sb: "pb_read_snapshot L sb = Some sds"
      "signed_payload sds = snapshot_new (nx_snapshot nx) sx [file_name Targets \<mapsto> meta_pinning ?l (rb_version targets) tb]"
    and mb: "pb_read_timestamp L mb = Some sdm"
      "signed_payload sdm = timestamp_new (nx_timestamp nx) mx (meta_pinning ?l (nx_snapshot nx) sb)" by metis
  let ?early = "[(path_join ?md (versioned_name Targets (rb_version targets)), tb), (path_join ?md (versioned_name Snapshot (nx_snapshot nx)), sb)]"
  let ?last = "(path_join ?md (file_name Timestamp), mb)"
  have ws: "role_writes ch rs = ?early @ [?last]" by (simp add: role_writes_def rs published_names_def)
  obtain r0 where w: "write_all E k (?early @ [?last]) f = (f', r0)" "r0 = Inr () \<or> (\<exists>e. r = Inl e)"
    using run Inr by (cases "write_all E k (role_writes ch rs) f") (auto simp: commit_def ws split: sum.splits)
  then obtain n where n: "n \<le> length (?early @ [?last])" "f' = puts (take n (?early @ [?last])) f"
    "r0 = Inr () \<longrightarrow> n = length (?early @ [?last])" using write_all_puts by blast
  from nx have unats: "unat (nx_targets nx) = unat (rb_version (ck_targets c)) + 1" "unat (nx_snapshot nx) = unat (rb_version (ck_snapshot c)) + 1"
    "unat (nx_timestamp nx) = unat (rb_version (ck_timestamp c)) + 1" by (auto simp: next_after_def dest: unat_checked_add)
  then have "nx_targets nx \<noteq> rb_version (ck_targets c)" "nx_snapshot nx \<noteq> rb_version (ck_snapshot c)" by auto
  then have apart: "fst ` set ?early \<inter> chain_files ?md c = {}" by (simp add: chain_files_def v)
  have new: "\<exists>c'. client_chain L ?md (puts (?early @ [?last]) f) = Some c' \<and> chain_follows c targets c'"
  proof (intro exI conjI)
    let ?c = "\<lparr>ck_timestamp = signed_payload sdm, ck_snapshot = signed_payload sds, ck_targets = targets\<rparr>"
    show "client_chain L ?md (puts (?early @ [?last]) f) = Some ?c"
      by (rule new_chain [OF tb sb mb]) simp_all
    show "chain_follows c targets ?c" using unats by (simp add: chain_follows_def v sb(2) mb(2) snapshot_new_def timestamp_new_def)
  qed
  have "client_chain L ?md f' = Some c \<and> (\<exists>e. r = Inl e) \<or> (\<exists>c'. client_chain L ?md f' = Some c' \<and> chain_follows c targets c')"
  proof (cases "n = length (?early @ [?last])")
    case True
    with n(2) new show ?thesis by simp
  next
    case False
    then have "f' = puts (take n ?early) f" "\<exists>e. r = Inl e" using n w(2) by (auto simp: take_Cons' split: if_splits)
    moreover have "fst ` set (take n ?early) \<inter> chain_files ?md c = {}" using apart set_take_subset [of n ?early] by blast
    ultimately show ?thesis using chain.view_puts [OF c] by blast
  qed
  moreover have "f' p = f p" if "\<forall>r v. p \<noteq> path_join ?md (versioned_name r v)" "p \<noteq> path_join ?md (file_name Timestamp)" for p
    unfolding n(2) by (rule puts_other) (use that in_set_takeD in fastforce)
  ultimately show ?thesis by blast
qed

section \<open>Publishing and re-signing\<close>

text \<open>The floor of a device that has accepted a chain.\<close>

definition chain_floor :: "u64 \<Rightarrow> int \<Rightarrow> chain \<Rightarrow> trust_floor" where
  "chain_floor root at c = \<lparr>fl_root = root, fl_timestamp = rb_version (ck_timestamp c), fl_snapshot = rb_version (ck_snapshot c),
     fl_targets = rb_version (ck_targets c), fl_verified_at = at\<rparr>"

lemma follows_admitted: "chain_follows c targets c' \<Longrightarrow> admit (chain_floor root at c) (chain_floor root at' c') = Inr ()"
  by (auto simp: chain_follows_def admit_iff chain_floor_def word_le_nat_alt)

lemma publish_plan_parts:
  assumes "publish_plan L E ws manifest_path f = Inr plan"
  obtains b m x nx where "f manifest_path = Some b" "next_read L E (ws_channel ws) f = Inr nx"
    "plan = (b, m, targets_new (nx_targets nx) x
       [TARGET_PATH \<mapsto> \<lparr>tf_length = of_nat (length b), tf_hashes = sha256_map (sg_lib (pb_signer L)) b, tf_extra = Map.empty\<rparr>], nx)"
proof -
  from assms obtain b m nx x where "read_bytes E manifest_path f = Inr b" "next_read L E (ws_channel ws) f = Inr nx"
    and plan: "plan = (b, m, targets_new (nx_targets nx) x
       [TARGET_PATH \<mapsto> \<lparr>tf_length = of_nat (length b), tf_hashes = sha256_map (sg_lib (pb_signer L)) b, tf_extra = Map.empty\<rparr>], nx)"
    unfolding publish_plan_def Let_def and_then_Inr by blast
  then show thesis by (intro that) (auto simp: read_bytes_def split: if_splits)
qed

lemma publish_runs:
  assumes run: "publish L E ws manifest_path f = (f', r)" and plan: "publish_plan L E ws manifest_path f = Inr (b, m, t, nx)"
  shows "(f' = f \<or> f' = f(target_file_path (sg_lib (pb_signer L)) ws b \<mapsto> b)) \<and> (\<exists>e. r = Inl e)
    \<or> (\<exists>rc. commit L E 1 (ws_channel ws) (ws_keys ws) t nx (f(target_file_path (sg_lib (pb_signer L)) ws b \<mapsto> b)) = (f', rc)
        \<and> (\<forall>e. rc = Inl e \<longrightarrow> r = Inl e)
        \<and> (\<forall>rep. r = Inr rep \<longrightarrow> pr_generation_id rep = generation_id (sg_lib (pb_signer L)) b))"
proof (cases "pe_write E 0")
  case Replaced
  with run plan show ?thesis by (auto simp: publish_def Let_def write_atomically_def split: prod.splits sum.splits)
qed (use run plan in \<open>auto simp: publish_def Let_def write_atomically_def\<close>)

text \<open>
  C35: Whatever becomes of a publish, and wherever it is interrupted, a client of the channel finds the
  chain that was in force, or the new one whole: one version further in every role, admitted by every
  device that accepted the old one, naming the manifest alone by its length and digest, with the
  manifest's bytes in place.
\<close>

theorem publish_all_or_nothing:
  assumes ok: "publish_lib_ok L" "lib_ok (sg_lib (pb_signer L))"
    and c: "client_chain L (ch_metadata_dir (ws_channel ws)) f = Some c"
    and run: "publish L E ws manifest_path f = (f', r)"
  shows "client_chain L (ch_metadata_dir (ws_channel ws)) f' = Some c \<and> (\<exists>e. r = Inl e)
    \<or> (\<exists>c' b. f manifest_path = Some b \<and> client_chain L (ch_metadata_dir (ws_channel ws)) f' = Some c'
        \<and> chain_follows c (ck_targets c') c' \<and> (\<forall>root at at'. admit (chain_floor root at c) (chain_floor root at' c') = Inr ())
        \<and> rb_meta (ck_targets c') = [TARGET_PATH \<mapsto>
            \<lparr>tf_length = of_nat (length b), tf_hashes = sha256_map (sg_lib (pb_signer L)) b, tf_extra = Map.empty\<rparr>]
        \<and> f' (target_file_path (sg_lib (pb_signer L)) ws b) = Some b
        \<and> (\<forall>rep. r = Inr rep \<longrightarrow> pr_generation_id rep = generation_id (sg_lib (pb_signer L)) b))"
proof (cases "publish_plan L E ws manifest_path f")
  case (Inl e)
  with run c show ?thesis by (auto simp: publish_def)
next
  case (Inr plan)
  let ?l = "sg_lib (pb_signer L)" and ?md = "ch_metadata_dir (ws_channel ws)"
  from Inr obtain b m x nx where plan: "f manifest_path = Some b" "next_read L E (ws_channel ws) f = Inr nx"
    "plan = (b, m, targets_new (nx_targets nx) x
       [TARGET_PATH \<mapsto> \<lparr>tf_length = of_nat (length b), tf_hashes = sha256_map ?l b, tf_extra = Map.empty\<rparr>], nx)"
    by (rule publish_plan_parts)
  let ?t = "targets_new (nx_targets nx) x [TARGET_PATH \<mapsto> \<lparr>tf_length = of_nat (length b), tf_hashes = sha256_map ?l b, tf_extra = Map.empty\<rparr>]"
  let ?p = "target_file_path ?l ws b"
  have other: "?p \<noteq> path_join ?md (versioned_name r v)" "?p \<noteq> path_join ?md (file_name r)" for r v
    using target_not_metadata [OF ok(2)] meta_name_hd by blast+
  then have "fst ` set [(?p, b)] \<inter> chain_files ?md c = {}" by (auto simp: chain_files_def)
  from chain.view_puts [OF c this] have c1: "client_chain L ?md (f(?p \<mapsto> b)) = Some c" by simp
  have nx: "next_after ?md c nx" by (rule next_read_chain [OF c plan(2)])
  from publish_runs [OF run Inr [unfolded plan(3)]] consider "f' = f \<or> f' = f(?p \<mapsto> b)" "\<exists>e. r = Inl e"
    | rc where "commit L E 1 (ws_channel ws) (ws_keys ws) ?t nx (f(?p \<mapsto> b)) = (f', rc)" "\<forall>e. rc = Inl e \<longrightarrow> r = Inl e"
      "\<forall>rep. r = Inr rep \<longrightarrow> pr_generation_id rep = generation_id ?l b" by blast
  then show ?thesis
  proof cases
    case 1
    with c c1 show ?thesis by auto
  next
    case (2 rc)
    have "rb_version ?t = nx_targets nx" by (simp add: targets_new_def)
    note cases = commit_cases [OF ok(1) 2(1) c1 nx this]
    note report = 2(3)
    have there: "f' ?p = Some b" using cases other by simp
    from cases consider "client_chain L ?md f' = Some c" "\<exists>e. rc = Inl e"
      | c' where "client_chain L ?md f' = Some c'" "chain_follows c ?t c'" by blast
    then show ?thesis
    proof cases
      case 1
      with 2(2) show ?thesis by blast
    next
      case (2 c')
      then have "ck_targets c' = ?t" by (simp add: chain_follows_def)
      moreover have "\<forall>root at at'. admit (chain_floor root at c) (chain_floor root at' c') = Inr ()"
        using follows_admitted [OF 2(2)] by blast
      ultimately show ?thesis using 2 report plan(1) there
        by (intro disjI2 exI [of _ c'] exI [of _ b]) (simp add: targets_new_def)
    qed
  qed
qed

text \<open>
  C36: Whatever becomes of a re-sign, a client finds the chain that was in force or one a version
  further in every role that names exactly the same targets, unknown fields included, under the new
  expiry; nothing beside the metadata is touched.
\<close>

theorem resign_keeps_targets:
  assumes ok: "publish_lib_ok L" and c: "client_chain L (ch_metadata_dir (ws_channel ws)) f = Some c"
    and run: "resign L E ws f = (f', r)"
  shows "(client_chain L (ch_metadata_dir (ws_channel ws)) f' = Some c \<and> (\<exists>e. r = Inl e)
      \<or> (\<exists>c' x. client_chain L (ch_metadata_dir (ws_channel ws)) f' = Some c'
          \<and> pb_expires L (expiry_span Targets) (pe_now E) = Some x
          \<and> chain_follows c ((ck_targets c)\<lparr>rb_version := rb_version (ck_targets c) + 1, rb_expires := x\<rparr>) c'))
    \<and> (\<forall>p. (\<forall>r v. p \<noteq> path_join (ch_metadata_dir (ws_channel ws)) (versioned_name r v))
        \<and> p \<noteq> path_join (ch_metadata_dir (ws_channel ws)) (file_name Timestamp) \<longrightarrow> f' p = f p)"
proof (cases "resign_plan L E ws f")
  case (Inl e)
  with run c show ?thesis by (auto simp: resign_def)
next
  case (Inr plan)
  let ?md = "ch_metadata_dir (ws_channel ws)"
  from Inr obtain nx t x where nx: "next_read L E (ws_channel ws) f = Inr nx" and t: "current_targets L E nx f = Inr t"
    and x: "pb_expires L (expiry_span Targets) (pe_now E) = Some x"
    and plan: "plan = (t\<lparr>rb_version := nx_targets nx, rb_expires := x\<rparr>, nx)"
    by (auto simp: resign_plan_def policy_expires_def)
  note after = next_read_chain [OF c nx]
  have t': "t = ck_targets c" by (rule current_targets_chain [OF c after t])
  from after have "nx_targets nx = rb_version (ck_targets c) + 1" by (simp add: next_after_def checked_add_Some)
  moreover have "commit L E 0 (ws_channel ws) (ws_keys ws) (t\<lparr>rb_version := nx_targets nx, rb_expires := x\<rparr>) nx f = (f', r)"
    using run Inr plan by (simp add: resign_def)
  note commit_cases [OF ok this c after, simplified]
  ultimately show ?thesis using x t' by auto
qed

section \<open>Creating a channel\<close>

lemma with_canonical_simps [simp]:
  "pair_key_id (with_canonical s c) = pair_key_id s" "sg_canonical (with_canonical s c) = c" "sg_lib (with_canonical s c) = sg_lib s"
  by (simp_all add: with_canonical_def pair_key_id_def key_id_def public_of_def fun_eq_iff)

lemma those_Some: "those xs = Some ys \<Longrightarrow> set xs = Some ` set ys"
proof (induction xs arbitrary: ys)
  case (Cons x xs)
  then show ?case by (cases x) auto
qed simp

lemma check_signers_Inr: "check_signers s allowed ks = Inr () \<Longrightarrow> k \<in> set ks \<Longrightarrow> \<exists>kid \<in> set allowed. pair_key_id s k = Some kid"
  by (induction ks) (auto split: if_splits)

lemma resolve_Inr:
  assumes "resolve_authorization s a = Inr (rk, m)"
  shows "rk_threshold rk = ra_threshold a \<and> ra_threshold a \<noteq> 0
    \<and> (\<forall>k \<in> set (ra_keys a). \<exists>kid \<in> set (rk_keyids rk). key_id s k = Some kid)"
proof -
  obtain ids where ids: "index_keys s (ra_role a) (ra_keys a) [] (\<lambda>_. None) = Inr (ids, m)"
    and rk: "rk = \<lparr>rk_keyids = sort ids, rk_threshold = ra_threshold a, rk_extra = Map.empty\<rparr>" "ra_threshold a \<noteq> 0"
    using assms by (auto simp: resolve_authorization_def split: if_splits sum.splits)
  from index_keys_Inr [OF ids] rk show ?thesis by fastforce
qed

text \<open>Whoever signs the root is authorized for it, and there are enough of them.\<close>

lemma root_signers_allowed:
  assumes rk: "resolve_authorization s (root_authorization s r) = Inr (rk, m)" and signers: "root_signers s r = Inr ks"
  shows "rk_threshold rk \<noteq> 0 \<and> unat (rk_threshold rk) \<le> length ks
    \<and> (\<forall>k \<in> set ks. \<exists>kid \<in> set (rk_keyids rk). pair_key_id s k = Some kid)"
proof (cases r)
  case (Generated k)
  with resolve_Inr [OF rk] signers show ?thesis
    by (auto simp: root_authorization_def root_signers_def authorize_single_def pair_key_id_def)
next
  case (Held authorized threshold signing)
  with signers obtain allowed where a: "those (map (key_id s) authorized) = Some allowed" "check_signers s allowed signing = Inr ()"
    and ks: "ks = signing" "unat threshold \<le> length signing"
    by (auto simp: root_signers_def split: if_splits)
  have ra: "rk_threshold rk = threshold" "threshold \<noteq> 0" "\<forall>k \<in> set authorized. \<exists>kid \<in> set (rk_keyids rk). key_id s k = Some kid"
    using resolve_Inr [OF rk] Held by (simp_all add: root_authorization_def)
  have "\<exists>kid \<in> set (rk_keyids rk). pair_key_id s k = Some kid" if "k \<in> set signing" for k
  proof -
    from check_signers_Inr [OF a(2) that] obtain kid where kid: "kid \<in> set allowed" "pair_key_id s k = Some kid" by blast
    with those_Some [OF a(1)] have "Some kid \<in> set (map (key_id s) authorized)" by simp
    then obtain key where "key \<in> set authorized" "key_id s key = Some kid" by auto
    with ra(3) kid(2) show ?thesis by fastforce
  qed
  with ra ks show ?thesis by simp
qed

lemma role_str_inj: "role_str r = role_str r' \<longleftrightarrow> r = r'"
  by (cases r; cases r') (simp_all add: role_str_def)

lemma add_authorizations_other:
  "add_authorizations s as keys roles = Inr (keys', roles') \<Longrightarrow> r \<notin> ra_role ` set as \<Longrightarrow> roles' (role_str r) = roles (role_str r)"
  by (induction "as" arbitrary: keys roles) (auto simp: role_str_inj split: sum.splits)

lemma root_new_role:
  assumes "root_new s v x (authorizations s ks) = Inr root"
  obtains rk m where "resolve_authorization s (root_authorization s (ks_root ks)) = Inr (rk, m)"
    "root_roles root (role_str Root) = Some rk"
proof -
  let ?on = "map (\<lambda>r. authorize_single r (public_of s (the (ks_get ks r)))) ONLINE_ROLES"
  obtain rk m keys roles where rk: "resolve_authorization s (root_authorization s (ks_root ks)) = Inr (rk, m)"
    and rest: "add_authorizations s ?on m [role_str (ra_role (root_authorization s (ks_root ks))) \<mapsto> rk] = Inr (keys, roles)"
    and root: "root_roles root = roles"
    using assms by (auto simp: root_new_def authorizations_def split: sum.splits)
  have "ra_role (root_authorization s (ks_root ks)) = Root"
    by (simp add: root_authorization_def authorize_single_def split: root_keys.split)
  moreover have "Root \<notin> ra_role ` set ?on" by (auto simp: ONLINE_ROLES_def authorize_single_def)
  ultimately show thesis using add_authorizations_other [OF rest, of Root] rk root by (intro that) simp_all
qed

lemma signed_key_ids:
  assumes "signed_new s payload keys = Inr sd"
  shows "card (sig_keyid ` set (signatures sd)) = length keys" "Some ` sig_keyid ` set (signatures sd) = pair_key_id s ` set keys"
proof -
  note sg = signed_by_every_key_once [OF assms]
  then have "distinct (map sig_keyid (signatures sd))" by (simp only: strict_sorted_iff)
  from distinct_card [OF this] sg show "card (sig_keyid ` set (signatures sd)) = length keys" by simp
  from sg show "Some ` sig_keyid ` set (signatures sd) = pair_key_id s ` set keys" by blast
qed

lemma sign_initial_files:
  assumes ok: "publish_lib_ok L" and signed: "sign_initial L E ks root signers = Inr rs"
  obtains rb tb sb mb sdr sdt sds sdm tx sx mx where
    "rs = [(Root, INITIAL_VERSION, root_expires root, rb), (Targets, INITIAL_VERSION, tx, tb), (Snapshot, INITIAL_VERSION, sx, sb),
       (Timestamp, INITIAL_VERSION, mx, mb)]"
    "pb_read_root L rb = Some sdr" "signed_payload sdr = root"
    "signed_new (with_canonical (pb_signer L) (pb_root_canonical L)) root signers = Inr sdr"
    "pb_read_targets L tb = Some sdt" "signed_payload sdt = targets_new INITIAL_VERSION tx Map.empty"
    "pb_read_snapshot L sb = Some sds"
    "signed_payload sds = snapshot_new INITIAL_VERSION sx
       [file_name Targets \<mapsto> meta_pinning (sg_lib (pb_signer L)) (rb_version (targets_new INITIAL_VERSION tx Map.empty)) tb]"
    "pb_read_timestamp L mb = Some sdm"
    "signed_payload sdm = timestamp_new INITIAL_VERSION mx (meta_pinning (sg_lib (pb_signer L)) INITIAL_VERSION sb)"
proof -
  let ?l = "sg_lib (pb_signer L)" and ?v = INITIAL_VERSION
  from signed obtain rb tx tb sx sb mx mb where
    rb: "sign_json L (pb_root_canonical L) (pb_root_json L) root signers = Inr rb"
    and tb: "sign_json L (pb_targets_canonical L) (pb_targets_json L) (targets_new ?v tx Map.empty) [ks_targets ks] = Inr tb"
    and sb: "sign_json L (pb_meta_canonical L) (pb_meta_json L)
      (snapshot_new ?v sx [file_name Targets \<mapsto> meta_pinning ?l ?v tb]) [ks_snapshot ks] = Inr sb"
    and mb: "sign_json L (pb_meta_canonical L) (pb_meta_json L) (timestamp_new ?v mx (meta_pinning ?l ?v sb)) [ks_timestamp ks] = Inr mb"
    and rs: "rs = [(Root, ?v, root_expires root, rb), (Targets, ?v, tx, tb), (Snapshot, ?v, sx, sb), (Timestamp, ?v, mx, mb)]"
    unfolding sign_initial_def Let_def and_then_Inr by blast
  obtain sdr where "pb_root_json L sdr = Some rb" "signed_payload sdr = root"
    "signed_new (with_canonical (pb_signer L) (pb_root_canonical L)) root signers = Inr sdr" using rb by (rule sign_json_payload)
  moreover obtain sdt where "pb_targets_json L sdt = Some tb" "signed_payload sdt = targets_new ?v tx Map.empty"
    using tb by (rule sign_json_payload)
  moreover obtain sds where "pb_meta_json L sds = Some sb"
    "signed_payload sds = snapshot_new ?v sx [file_name Targets \<mapsto> meta_pinning ?l ?v tb]" using sb by (rule sign_json_payload)
  moreover obtain sdm where "pb_meta_json L sdm = Some mb" "signed_payload sdm = timestamp_new ?v mx (meta_pinning ?l ?v sb)"
    using mb by (rule sign_json_payload)
  ultimately show thesis using ok rs by (intro that) (auto simp: publish_lib_ok_def targets_new_def)
qed

text \<open>
  C37: A channel that \<open>init\<close> reports created is one a client accepts: under both names of the root
  stands a root signed by no key but those it authorizes and by at least as many of them as it demands,
  and beneath it a chain at version one that names no target.
\<close>

theorem init_channel_meets_threshold:
  assumes ok: "publish_lib_ok L" and run: "init L E ws ks force f = (f', Inr rep)"
  shows "\<exists>rb sd role c. f' (path_join (ch_metadata_dir (ws_channel ws)) (file_name Root)) = Some rb
    \<and> f' (path_join (ch_metadata_dir (ws_channel ws)) (versioned_name Root INITIAL_VERSION)) = Some rb
    \<and> pb_read_root L rb = Some sd \<and> root_roles (signed_payload sd) (role_str Root) = Some role
    \<and> 0 < unat (rk_threshold role) \<and> unat (rk_threshold role) \<le> card (sig_keyid ` set (signatures sd))
    \<and> sig_keyid ` set (signatures sd) \<subseteq> set (rk_keyids role)
    \<and> ir_root_key_ids rep = rk_keyids role \<and> ir_root_threshold rep = rk_threshold role
    \<and> client_chain L (ch_metadata_dir (ws_channel ws)) f' = Some c \<and> rb_meta (ck_targets c) = Map.empty
    \<and> rb_version (ck_targets c) = 1 \<and> rb_version (ck_snapshot c) = 1 \<and> rb_version (ck_timestamp c) = 1"
proof -
  let ?s = "pb_signer L" and ?md = "ch_metadata_dir (ws_channel ws)"
  from run obtain root signers written f2 where plan: "init_plan L E ws ks force = Inr (root, signers)"
    and w: "init_write L E ws ks root signers written f2 = (f', Inr rep)"
    by (auto simp: init_def Let_def split: sum.splits prod.splits)
  from plan obtain x where root: "root_new ?s INITIAL_VERSION x (authorizations ?s ks) = Inr root"
    and signers: "root_signers ?s (ks_root ks) = Inr signers"
    by (auto simp: init_plan_def)
  from root obtain rk m where rk: "resolve_authorization ?s (root_authorization ?s (ks_root ks)) = Inr (rk, m)"
    "root_roles root (role_str Root) = Some rk" by (rule root_new_role)
  note allowed = root_signers_allowed [OF rk(1) signers]
  from w obtain rs where rs: "sign_initial L E ks root signers = Inr rs" "write_all E 0 (role_writes (ws_channel ws) rs) f2 = (f', Inr ())"
    and rep: "ir_root_key_ids rep = rk_keyids rk" "ir_root_threshold rep = rk_threshold rk"
    by (auto simp: init_write_def Let_def rk(2) split: if_splits sum.splits prod.splits)
  from sign_initial_files [OF ok rs(1)] obtain rb tb sb mb sdr sdt sds sdm tx sx mx where
    files: "rs = [(Root, INITIAL_VERSION, root_expires root, rb), (Targets, INITIAL_VERSION, tx, tb), (Snapshot, INITIAL_VERSION, sx, sb),
       (Timestamp, INITIAL_VERSION, mx, mb)]"
    and rb: "pb_read_root L rb = Some sdr" "signed_payload sdr = root" "signed_new (with_canonical ?s (pb_root_canonical L)) root signers = Inr sdr"
    and tb: "pb_read_targets L tb = Some sdt" "signed_payload sdt = targets_new INITIAL_VERSION tx Map.empty"
    and sb: "pb_read_snapshot L sb = Some sds" "signed_payload sds =
        snapshot_new INITIAL_VERSION sx [file_name Targets \<mapsto> meta_pinning (sg_lib ?s) (rb_version (targets_new INITIAL_VERSION tx Map.empty)) tb]"
    and mb: "pb_read_timestamp L mb = Some sdm" "signed_payload sdm =
        timestamp_new INITIAL_VERSION mx (meta_pinning (sg_lib ?s) INITIAL_VERSION sb)"
    by metis
  have "role_writes (ws_channel ws) rs = [(path_join ?md (versioned_name Root INITIAL_VERSION), rb), (path_join ?md (file_name Root), rb),
      (path_join ?md (versioned_name Targets INITIAL_VERSION), tb), (path_join ?md (versioned_name Snapshot INITIAL_VERSION), sb),
      (path_join ?md (file_name Timestamp), mb)]"
    by (simp add: role_writes_def files published_names_def)
  moreover from write_all_puts [OF rs(2)] have "f' = puts (role_writes (ws_channel ws) rs) f2" by auto
  ultimately have there: "f' (path_join ?md (file_name Root)) = Some rb" "f' (path_join ?md (versioned_name Root INITIAL_VERSION)) = Some rb"
    "f' (path_join ?md (versioned_name Targets INITIAL_VERSION)) = Some tb" "f' (path_join ?md (versioned_name Snapshot INITIAL_VERSION)) = Some sb"
    "f' (path_join ?md (file_name Timestamp)) = Some mb"
    by simp_all
  have chain: "client_chain L ?md f' = Some \<lparr>ck_timestamp = signed_payload sdm, ck_snapshot = signed_payload sds,
      ck_targets = targets_new INITIAL_VERSION tx Map.empty\<rparr>"
    by (rule new_chain [OF tb sb mb]) (simp_all add: there targets_new_def)
  have "sig_keyid ` set (signatures sdr) \<subseteq> set (rk_keyids rk)"
  proof
    fix kid
    assume "kid \<in> sig_keyid ` set (signatures sdr)"
    then have "Some kid \<in> pair_key_id ?s ` set signers" using signed_key_ids(2) [OF rb(3)] by auto
    with allowed show "kid \<in> set (rk_keyids rk)" by fastforce
  qed
  moreover have "0 < unat (rk_threshold rk) \<and> unat (rk_threshold rk) \<le> card (sig_keyid ` set (signatures sdr))"
    using allowed signed_key_ids(1) [OF rb(3)] by (simp add: unat_gt_0)
  ultimately show ?thesis using there rb rk(2) rep chain sb(2) mb(2)
    by (intro exI conjI) (auto simp: targets_new_def snapshot_new_def timestamp_new_def INITIAL_VERSION_def)
qed

lemma sign_all_defined:
  "\<forall>k \<in> set ks. pair_key_id s k \<noteq> None \<Longrightarrow> \<exists>sigs. sign_all s c ks = Some sigs \<and> map (Some \<circ> sig_keyid) sigs = map (pair_key_id s) ks"
  by (induction ks) auto

lemma write_keys_all:
  "\<forall>r. pe_key E r = KeyWritten \<Longrightarrow> \<forall>k. pb_pem L k \<noteq> None \<Longrightarrow> \<exists>f' w. write_keys L E store ks rs f = (f', Inr w)"
proof (induction rs arbitrary: f)
  case (Cons r rs)
  show ?case
  proof (cases "ks_get ks r")
    case None
    with Cons show ?thesis by simp
  next
    case (Some key)
    from Cons.prems(2) obtain pem where "pb_pem L key = Some pem" by blast
    moreover obtain f' w where "write_keys L E store ks rs (f(key_path store r \<mapsto> pem)) = (f', Inr w)"
      using Cons.IH [OF Cons.prems, of "f(key_path store r \<mapsto> pem)"] by blast
    ultimately show ?thesis using Some Cons.prems(1) by (simp add: write_private_key_def)
  qed
qed simp


section \<open>A concrete publisher\<close>

definition pub_signer :: "(nat, unit) signer" where
  "pub_signer = \<lparr>sg_lib = sample_lib, sg_canonical = (\<lambda>_. Some []),
     sg_canonical_key = (\<lambda>k. Some [of_nat (length (kv_public (pk_keyval k)))]), sg_verifying = (\<lambda>k. replicate k 0), sg_sign = (\<lambda>k b. of_nat k # b)\<rparr>"

definition signed_by :: "nat \<Rightarrow> 'p \<Rightarrow> 'p signed" where
  "signed_by k payload = \<lparr>signatures = [\<lparr>sig_keyid = the (pair_key_id pub_signer k), sig_sig = sign_hex pub_signer k [7],
     sig_extra = Map.empty\<rparr>], signed_payload = payload, signed_extra = Map.empty\<rparr>"

lemma signed_new_by: "signed_new (with_canonical pub_signer (\<lambda>_. Some [7])) payload [k] = Inr (signed_by k payload)"
  by (simp add: signed_new_def signed_by_def Let_def pair_key_id_def key_id_def pub_signer_def with_canonical_def public_of_def sign_hex_def)

text \<open>A channel at version one, the publish of a manifest of one byte, and a re-sign, each file one byte of JSON.\<close>

definition targets_at :: "u64 \<Rightarrow> (string \<Rightarrow> target_file option) \<Rightarrow> targets_role signed" where
  "targets_at v m = signed_by 1 (targets_new v ''x'' m)"

definition snapshot_at :: "u64 \<Rightarrow> bytes \<Rightarrow> meta_role signed" where
  "snapshot_at v b = signed_by 2 (snapshot_new v ''x'' [file_name Targets \<mapsto> meta_pinning sample_lib v b])"

definition timestamp_at :: "u64 \<Rightarrow> bytes \<Rightarrow> meta_role signed" where
  "timestamp_at v b = signed_by 3 (timestamp_new v ''x'' (meta_pinning sample_lib v b))"

definition manifest_only :: "string \<Rightarrow> target_file option" where
  "manifest_only = [TARGET_PATH \<mapsto> \<lparr>tf_length = 1, tf_hashes = sha256_map sample_lib [9], tf_extra = Map.empty\<rparr>]"

definition pub_keys :: "nat root_keys \<Rightarrow> nat key_set" where
  "pub_keys r = \<lparr>ks_root = r, ks_targets = 1, ks_snapshot = 2, ks_timestamp = 3\<rparr>"

definition root_at_one :: "root_role signed" where
  "root_at_one = signed_by 4 (projr (root_new pub_signer INITIAL_VERSION ''x'' (authorizations pub_signer (pub_keys (Generated 4)))))"

text \<open>The files by their byte.\<close>

definition targets_files :: "(bytes \<times> targets_role signed) list" where
  "targets_files = [([11], targets_at 1 Map.empty), ([12], targets_at 2 manifest_only), ([13], targets_at 3 manifest_only)]"

definition meta_files :: "(bytes \<times> meta_role signed) list" where
  "meta_files = [([21], snapshot_at 1 [11]), ([22], snapshot_at 2 [12]), ([23], snapshot_at 3 [13]),
     ([31], timestamp_at 1 [21]), ([32], timestamp_at 2 [22]), ([33], timestamp_at 3 [23])]"

definition json_of :: "(bytes \<times> 'a) list \<Rightarrow> 'a \<Rightarrow> bytes option" where
  "json_of table x = map_option fst (List.find (\<lambda>e. snd e = x) table)"

lemma json_of_back: "distinct (map fst table) \<Longrightarrow> json_of table x = Some b \<Longrightarrow> map_of table b = Some x"
  by (auto simp: json_of_def find_Some_iff) (metis map_of_is_SomeI nth_mem snd_conv)

definition pub_lib :: "nat publish_lib" where
  "pub_lib = \<lparr>pb_signer = pub_signer, pb_root_canonical = (\<lambda>_. Some [7]), pb_targets_canonical = (\<lambda>_. Some [7]),
     pb_meta_canonical = (\<lambda>_. Some [7]), pb_root_json = json_of [([1], root_at_one)], pb_targets_json = json_of targets_files,
     pb_meta_json = json_of meta_files, pb_read_root = map_of [([1], root_at_one)], pb_read_targets = map_of targets_files,
     pb_read_snapshot = map_of meta_files, pb_read_timestamp = map_of meta_files, pb_pem = (\<lambda>k. Some [of_nat k]),
     pb_from_pem = (\<lambda>b. if b = [] then None else Some (unat (hd b))), pb_expires = (\<lambda>_ _. Some ''x''), pb_manifest = sample_manifest_lib\<rparr>"

lemma pub_lib_ok: "publish_lib_ok pub_lib" "lib_ok (sg_lib (pb_signer pub_lib))"
proof -
  have "distinct (map fst targets_files)" "distinct (map fst meta_files)" "distinct (map fst [([1], root_at_one)])"
    by (simp_all add: targets_files_def meta_files_def)
  then show "publish_lib_ok pub_lib" unfolding publish_lib_ok_def pub_lib_def by (simp del: map_of.simps add: json_of_back)
  show "lib_ok (sg_lib (pb_signer pub_lib))" using sample_lib_ok by (simp add: pub_lib_def pub_signer_def)
qed

definition calm :: publish_env where
  "calm = \<lparr>pe_readable = (\<lambda>_. True), pe_write = (\<lambda>_. Replaced), pe_now = 0, pe_empty = Some True, pe_store_dir = (\<lambda>_. DirMade),
     pe_key = (\<lambda>_. KeyWritten), pe_clear = (\<lambda>_. \<lparr>rm_record = True, rm_dir = True, rm_took = (\<lambda>_. False)\<rparr>), pe_channel_dirs = True\<rparr>"

text \<open>The channel with the files of one version, its keys and a manifest to publish.\<close>

definition pub_fs :: "u64 \<Rightarrow> u8 \<Rightarrow> fs" where
  "pub_fs v n = (\<lambda>_. None)(path_join ''w/repository/metadata'' (file_name Timestamp) \<mapsto> [n + 30],
     path_join ''w/repository/metadata'' (versioned_name Snapshot v) \<mapsto> [n + 20],
     path_join ''w/repository/metadata'' (versioned_name Targets v) \<mapsto> [n + 10],
     key_path ''w/keys'' Targets \<mapsto> [1], key_path ''w/keys'' Snapshot \<mapsto> [2], key_path ''w/keys'' Timestamp \<mapsto> [3], ''m.json'' \<mapsto> [9])"

lemma pub_dirs: "ws_channel ''w'' = ''w/repository''" "ch_metadata_dir ''w/repository'' = ''w/repository/metadata''" "ws_keys ''w'' = ''w/keys''"
  by code_simp+

lemma pub_files:
  "pub_fs 1 1 (path_join ''w/repository/metadata'' (file_name Timestamp)) = Some [31]"
  "pub_fs 1 1 (path_join ''w/repository/metadata'' (versioned_name Snapshot 1)) = Some [21]"
  "pub_fs 1 1 (path_join ''w/repository/metadata'' (versioned_name Targets 1)) = Some [11]"
  "pub_fs 2 2 (path_join ''w/repository/metadata'' (file_name Timestamp)) = Some [32]"
  "pub_fs 2 2 (path_join ''w/repository/metadata'' (versioned_name Snapshot 2)) = Some [22]"
  "pub_fs 2 2 (path_join ''w/repository/metadata'' (versioned_name Targets 2)) = Some [12]"
  by code_simp+

lemma pub_key_files:
  "pub_fs v n (key_path ''w/keys'' Targets) = Some [1]" "pub_fs v n (key_path ''w/keys'' Snapshot) = Some [2]"
  "pub_fs v n (key_path ''w/keys'' Timestamp) = Some [3]" "pub_fs v n ''m.json'' = Some [9]"
proof -
  have "key_path ''w/keys'' Timestamp \<noteq> ''m.json''" "key_path ''w/keys'' Snapshot \<noteq> ''m.json''" "key_path ''w/keys'' Targets \<noteq> ''m.json''"
    "key_path ''w/keys'' Targets \<noteq> key_path ''w/keys'' Snapshot" "key_path ''w/keys'' Targets \<noteq> key_path ''w/keys'' Timestamp"
    "key_path ''w/keys'' Snapshot \<noteq> key_path ''w/keys'' Timestamp"
    by code_simp+
  then show "pub_fs v n (key_path ''w/keys'' Targets) = Some [1]" "pub_fs v n (key_path ''w/keys'' Snapshot) = Some [2]"
    "pub_fs v n (key_path ''w/keys'' Timestamp) = Some [3]" "pub_fs v n ''m.json'' = Some [9]"
    unfolding pub_fs_def by simp_all
qed

lemma pub_target_apart:
  "target_file_path sample_lib ''w'' [9] \<noteq> key_path ''w/keys'' Targets" "target_file_path sample_lib ''w'' [9] \<noteq> key_path ''w/keys'' Snapshot"
  "target_file_path sample_lib ''w'' [9] \<noteq> key_path ''w/keys'' Timestamp"
  by code_simp+

lemma role_neq:
  "v \<noteq> v' \<Longrightarrow> targets_at v m \<noteq> targets_at v' m'" "v \<noteq> v' \<Longrightarrow> snapshot_at v b \<noteq> snapshot_at v' b'"
  "v \<noteq> v' \<Longrightarrow> timestamp_at v b \<noteq> timestamp_at v' b'" "snapshot_at v b \<noteq> timestamp_at v' b'"
  by (simp_all add: targets_at_def snapshot_at_def timestamp_at_def signed_by_def targets_new_def snapshot_new_def timestamp_new_def role_str_def)

lemma pub_reads:
  "pb_read_timestamp pub_lib [31] = Some (timestamp_at 1 [21])" "pb_read_timestamp pub_lib [32] = Some (timestamp_at 2 [22])"
  "pb_read_snapshot pub_lib [21] = Some (snapshot_at 1 [11])" "pb_read_snapshot pub_lib [22] = Some (snapshot_at 2 [12])"
  "pb_read_targets pub_lib [11] = Some (targets_at 1 Map.empty)" "pb_read_targets pub_lib [12] = Some (targets_at 2 manifest_only)"
  by (simp_all add: pub_lib_def meta_files_def targets_files_def)

lemma pub_json:
  "pb_targets_json pub_lib (targets_at 2 manifest_only) = Some [12]" "pb_targets_json pub_lib (targets_at 3 manifest_only) = Some [13]"
  "pb_targets_json pub_lib (targets_at 1 Map.empty) = Some [11]" "pb_meta_json pub_lib (snapshot_at 1 [11]) = Some [21]"
  "pb_meta_json pub_lib (timestamp_at 1 [21]) = Some [31]" "pb_root_json pub_lib root_at_one = Some [1]"
  "pb_meta_json pub_lib (snapshot_at 2 [12]) = Some [22]" "pb_meta_json pub_lib (snapshot_at 3 [13]) = Some [23]"
  "pb_meta_json pub_lib (timestamp_at 2 [22]) = Some [32]" "pb_meta_json pub_lib (timestamp_at 3 [23]) = Some [33]"
  by (simp_all add: pub_lib_def meta_files_def targets_files_def json_of_def role_neq)

lemma role_payloads:
  "signed_payload (timestamp_at v b) = timestamp_new v ''x'' (meta_pinning sample_lib v b)"
  "signed_payload (snapshot_at v b) = snapshot_new v ''x'' [file_name Targets \<mapsto> meta_pinning sample_lib v b]"
  "signed_payload (targets_at v m) = targets_new v ''x'' m"
  by (simp_all add: timestamp_at_def snapshot_at_def targets_at_def signed_by_def)

lemma pub_chain:
  "client_chain pub_lib ''w/repository/metadata'' (pub_fs 1 1) = Some \<lparr>ck_timestamp = signed_payload (timestamp_at 1 [21]),
     ck_snapshot = signed_payload (snapshot_at 1 [11]), ck_targets = targets_new 1 ''x'' Map.empty\<rparr>"
  "client_chain pub_lib ''w/repository/metadata'' (pub_fs 2 2) = Some \<lparr>ck_timestamp = signed_payload (timestamp_at 2 [22]),
     ck_snapshot = signed_payload (snapshot_at 2 [12]), ck_targets = targets_new 2 ''x'' manifest_only\<rparr>"
proof -
  have l: "sg_lib (pb_signer pub_lib) = sample_lib" by (simp add: pub_lib_def pub_signer_def)
  show "client_chain pub_lib ''w/repository/metadata'' (pub_fs 1 1) = Some \<lparr>ck_timestamp = signed_payload (timestamp_at 1 [21]),
     ck_snapshot = signed_payload (snapshot_at 1 [11]), ck_targets = targets_new 1 ''x'' Map.empty\<rparr>"
    by (rule new_chain [OF pub_reads(5) _ pub_reads(3) _ pub_reads(1)]) (simp_all add: role_payloads l pub_files, simp_all add: targets_new_def pub_files)
  show "client_chain pub_lib ''w/repository/metadata'' (pub_fs 2 2) = Some \<lparr>ck_timestamp = signed_payload (timestamp_at 2 [22]),
     ck_snapshot = signed_payload (snapshot_at 2 [12]), ck_targets = targets_new 2 ''x'' manifest_only\<rparr>"
    by (rule new_chain [OF pub_reads(6) _ pub_reads(4) _ pub_reads(2)]) (simp_all add: role_payloads l pub_files, simp_all add: targets_new_def pub_files)
qed

lemma pub_sign:
  "sign_json pub_lib (pb_targets_canonical pub_lib) json payload [k] = or_err (PubTuf JsonError) (json (signed_by k payload))"
  "sign_json pub_lib (pb_meta_canonical pub_lib) json' payload' [k] = or_err (PubTuf JsonError) (json' (signed_by k payload'))"
  by (simp_all add: sign_json_def pub_lib_def signed_new_by tuf_def)

lemma pub_fields:
  "sg_lib (pb_signer pub_lib) = sample_lib" "pb_from_pem pub_lib [w] = Some (unat w)" "policy_expires pub_lib r now = Inr ''x''"
  "pb_manifest pub_lib = sample_manifest_lib" "pe_readable calm p" "pe_write calm k = Replaced" "pe_store_dir calm k = DirMade"
  "pe_channel_dirs calm"
  by (simp_all add: pub_lib_def pub_signer_def policy_expires_def calm_def)

lemma pub_next:
  "next_read pub_lib calm ''w/repository'' (pub_fs 1 1) = Inr \<lparr>nx_targets = 2, nx_snapshot = 2, nx_timestamp = 2,
     nx_current = path_join ''w/repository/metadata'' (versioned_name Targets 1)\<rparr>"
  "next_read pub_lib calm ''w/repository'' (pub_fs 2 2) = Inr \<lparr>nx_targets = 3, nx_snapshot = 3, nx_timestamp = 3,
     nx_current = path_join ''w/repository/metadata'' (versioned_name Targets 2)\<rparr>"
  by (simp_all add: next_read_def Let_def pub_dirs read_signed_def read_bytes_def pub_fields pub_files pub_reads role_payloads
      pinned_version_def timestamp_new_def snapshot_new_def next_version_def checked_add_def)

lemma pub_signed:
  assumes "f (key_path ''w/keys'' Targets) = Some [1]" "f (key_path ''w/keys'' Snapshot) = Some [2]" "f (key_path ''w/keys'' Timestamp) = Some [3]"
  shows "sign_chain pub_lib calm ''w/keys'' (targets_new 2 ''x'' manifest_only) \<lparr>nx_targets = 2, nx_snapshot = 2, nx_timestamp = 2, nx_current = p\<rparr> f
      = Inr [(Targets, 2, ''x'', [12]), (Snapshot, 2, ''x'', [22]), (Timestamp, 2, ''x'', [32])]"
    "sign_chain pub_lib calm ''w/keys'' (targets_new 3 ''x'' manifest_only) \<lparr>nx_targets = 3, nx_snapshot = 3, nx_timestamp = 3, nx_current = p\<rparr> f
      = Inr [(Targets, 3, ''x'', [13]), (Snapshot, 3, ''x'', [23]), (Timestamp, 3, ''x'', [33])]"
  using assms pub_json
  by (simp_all add: sign_chain_def Let_def read_key_def read_bytes_def pub_fields pub_sign targets_at_def snapshot_at_def timestamp_at_def)
    (simp_all add: targets_new_def)

lemma write_all_calm: "write_all calm k ws f = (puts ws f, Inr ())"
  by (induction ws arbitrary: k f) (auto simp: write_atomically_def pub_fields)

theorem publish_all_or_nothing_witness:
  "\<exists>f' c. publish pub_lib calm ''w'' ''m.json'' (pub_fs 1 1) = (f', Inr \<lparr>pr_generation_id = generation_id sample_lib [9],
       pr_source_revision = ''abc'', pr_version = 1, pr_written = target_file_path sample_lib ''w'' [9]
         # map (path_join ''w/repository/metadata'') [versioned_name Targets 2, versioned_name Snapshot 2, file_name Timestamp]\<rparr>)
    \<and> client_chain pub_lib ''w/repository/metadata'' f' = Some c \<and> rb_version (ck_targets c) = 2
    \<and> rb_meta (ck_targets c) = manifest_only"
proof -
  let ?t = "target_file_path sample_lib ''w'' [9]" and ?f = "pub_fs 1 1"
  have plan: "publish_plan pub_lib calm ''w'' ''m.json'' ?f = Inr ([9], sample_manifest, targets_new 2 ''x'' manifest_only,
      \<lparr>nx_targets = 2, nx_snapshot = 2, nx_timestamp = 2, nx_current = path_join ''w/repository/metadata'' (versioned_name Targets 1)\<rparr>)"
    by (simp add: publish_plan_def Let_def read_bytes_def pub_fields pub_key_files sample_parses pub_dirs pub_next manifest_only_def)
  have "publish pub_lib calm ''w'' ''m.json'' ?f = (fst (publish pub_lib calm ''w'' ''m.json'' ?f),
     Inr \<lparr>pr_generation_id = generation_id sample_lib [9], pr_source_revision = ''abc'', pr_version = 1, pr_written = ?t
         # map (path_join ''w/repository/metadata'') [versioned_name Targets 2, versioned_name Snapshot 2, file_name Timestamp]\<rparr>)"
    (is "_ = (?f', Inr ?rep)")
    by (simp add: publish_def plan Let_def write_atomically_def pub_fields commit_def pub_dirs pub_signed pub_target_apart [symmetric]
        pub_key_files write_all_calm role_writes_def published_names_def sample_manifest_def)
  note run = this
  from publish_all_or_nothing [OF pub_lib_ok _ run, unfolded pub_dirs, OF pub_chain(1)] obtain c b where
    "pub_fs 1 1 ''m.json'' = Some b" "client_chain pub_lib ''w/repository/metadata'' ?f' = Some c"
    "chain_follows \<lparr>ck_timestamp = signed_payload (timestamp_at 1 [21]), ck_snapshot = signed_payload (snapshot_at 1 [11]),
       ck_targets = targets_new 1 ''x'' Map.empty\<rparr> (ck_targets c) c"
    "rb_meta (ck_targets c) = [TARGET_PATH \<mapsto> \<lparr>tf_length = of_nat (length b), tf_hashes = sha256_map (sg_lib (pb_signer pub_lib)) b,
       tf_extra = Map.empty\<rparr>]" by blast
  moreover from this have "unat (rb_version (ck_targets c)) = 2" by (simp add: chain_follows_def targets_new_def)
  then have "rb_version (ck_targets c) = 2" by (simp add: word_unat_eq_iff)
  moreover have "b = [9]" using \<open>pub_fs 1 1 ''m.json'' = Some b\<close> by (simp add: pub_key_files)
  ultimately show ?thesis using run by (intro exI [of _ ?f'] exI [of _ c]) (simp add: manifest_only_def pub_fields)
qed

theorem resign_keeps_targets_witness:
  "\<exists>f' c cm. resign pub_lib calm ''w'' (pub_fs 2 2) = (f', Inr cm) \<and> client_chain pub_lib ''w/repository/metadata'' f' = Some c
    \<and> ck_targets c = targets_new 3 ''x'' manifest_only"
proof -
  let ?f = "pub_fs 2 2"
  have plan: "resign_plan pub_lib calm ''w'' ?f = Inr (targets_new 3 ''x'' manifest_only,
      \<lparr>nx_targets = 3, nx_snapshot = 3, nx_timestamp = 3, nx_current = path_join ''w/repository/metadata'' (versioned_name Targets 2)\<rparr>)"
    by (simp add: resign_plan_def pub_dirs pub_next current_targets_def read_signed_def read_bytes_def pub_fields pub_files pub_reads role_payloads)
      (simp add: targets_new_def)
  obtain cm where run: "resign pub_lib calm ''w'' ?f = (fst (resign pub_lib calm ''w'' ?f), Inr cm)"
    by (simp add: resign_def plan commit_def pub_dirs pub_signed pub_key_files write_all_calm)
  from resign_keeps_targets [OF pub_lib_ok(1) _ run, unfolded pub_dirs, OF pub_chain(2)] obtain c x where
    "client_chain pub_lib ''w/repository/metadata'' (fst (resign pub_lib calm ''w'' ?f)) = Some c"
    "pb_expires pub_lib (expiry_span Targets) (pe_now calm) = Some x"
    "ck_targets c = (targets_new 2 ''x'' manifest_only)\<lparr>rb_version := rb_version (targets_new 2 ''x'' manifest_only) + 1, rb_expires := x\<rparr>"
    by (auto simp: chain_follows_def)
  moreover from this(2) have "x = ''x''" by (simp add: pub_lib_def)
  ultimately show ?thesis using run by (intro exI [of _ "fst (resign pub_lib calm ''w'' ?f)"] exI [of _ c] exI [of _ cm]) (simp add: targets_new_def)
qed

text \<open>Creating a channel, and creating one over it with a root key given twice.\<close>

lemma pub_names: "path_join ''w/repository/metadata'' (file_name Timestamp) = ''w/repository/metadata/timestamp.json''" by code_simp

lemma pub_sign_root:
  "sign_json pub_lib (pb_root_canonical pub_lib) (pb_root_json pub_lib) root [k] = or_err (PubTuf JsonError) (pb_root_json pub_lib (signed_by k root))"
  by (simp add: sign_json_def pub_lib_def signed_new_by tuf_def)

lemma pub_key_id: "pair_key_id pub_signer k = Some (to_hex (sha256 sample_lib [of_nat (length (to_hex (replicate k 0)))]))"
  by (simp add: pair_key_id_def key_id_def pub_signer_def public_of_def sample_lib_def)

lemma pub_root:
  "root_new pub_signer INITIAL_VERSION ''x'' (authorizations pub_signer (pub_keys (Generated 4))) = Inr (signed_payload root_at_one)"
proof -
  obtain root where "root_new pub_signer INITIAL_VERSION ''x'' (authorizations pub_signer (pub_keys (Generated 4))) = Inr root"
    by (simp add: root_new_def authorizations_def root_authorization_def ONLINE_ROLES_def pub_keys_def ks_get_def authorize_single_def
        resolve_authorization_def pub_key_id [unfolded pair_key_id_def])
  then show ?thesis by (simp add: root_at_one_def signed_by_def)
qed

theorem init_channel_meets_threshold_witness:
  "\<exists>f' rep c. init pub_lib calm ''w'' (pub_keys (Generated 4)) False (\<lambda>_. None) = (f', Inr rep)
    \<and> client_chain pub_lib ''w/repository/metadata'' f' = Some c \<and> rb_version (ck_timestamp c) = 1 \<and> 0 < unat (ir_root_threshold rep)"
proof -
  let ?ks = "pub_keys (Generated 4)"
  have plan: "init_plan pub_lib calm ''w'' ?ks False = Inr (signed_payload root_at_one, [4])"
    using pub_root by (simp add: init_plan_def calm_def pub_fields) (simp add: pub_lib_def root_signers_def pub_keys_def)
  have root: "signed_by 4 (signed_payload root_at_one) = root_at_one" by (simp add: root_at_one_def signed_by_def)
  have "pb_targets_json pub_lib (signed_by (Suc 0) (targets_new 1 ''x'' Map.empty)) = Some [11]" using pub_json by (simp add: targets_at_def)
  then have signed: "sign_initial pub_lib calm ?ks (signed_payload root_at_one) [4]
      = Inr [(Root, 1, root_expires (signed_payload root_at_one), [1]), (Targets, 1, ''x'', [11]), (Snapshot, 1, ''x'', [21]), (Timestamp, 1, ''x'', [31])]"
    by (simp add: sign_initial_def Let_def INITIAL_VERSION_def pub_fields pub_sign_root root pub_sign pub_json pub_keys_def
        snapshot_at_def [symmetric, of 1 "[11]"] timestamp_at_def [symmetric, of 1 "[21]"])
  have pem: "pb_pem pub_lib k \<noteq> None" for k by (simp add: pub_lib_def)
  obtain f1 written where keys: "write_keys pub_lib calm ''w/keys'' ?ks ALL_ROLES (\<lambda>_. None) = (f1, Inr written)"
    using write_keys_all [of calm pub_lib "''w/keys''" ?ks ALL_ROLES "\<lambda>_. None"] pem by (auto simp: calm_def)
  obtain f' rep where run: "init pub_lib calm ''w'' ?ks False (\<lambda>_. None) = (f', Inr rep)"
    by (simp add: init_def plan Let_def pub_dirs keys init_write_def signed write_all_calm pub_fields)
  from init_channel_meets_threshold [OF pub_lib_ok(1) run, unfolded pub_dirs] run show ?thesis by fastforce
qed


end
