(* ===== verification/Host_Props.thy ===== *)
theory Host_Props
  imports Host Publish_Props
begin

text \<open>
  What a push leaves at the host: whatever requests fail or are lost, no other name is touched and the
  pushed one serves what it served, the new bytes, or for the moment nothing while the new bytes wait
  under the staging name; so a client of the host follows the old chain, the new one, or finds no
  \<open>timestamp.json\<close>. A swap cut short there is where the next push can lose both.
\<close>

section \<open>The service\<close>

text \<open>The assets of one release by name, each with its id.\<close>

type_synonym shelf = "string \<Rightarrow> (u64 \<times> bytes) option"

definition serves :: "shelf \<Rightarrow> fs" where "serves A n = map_option snd (A n)"

definition shelf_ok :: "shelf \<Rightarrow> bool" where
  "shelf_ok A \<longleftrightarrow> (\<forall>m n i b c. A m = Some (i, b) \<longrightarrow> A n = Some (i, c) \<longrightarrow> m = n)"

definition drop_id :: "u64 \<Rightarrow> shelf \<Rightarrow> shelf" where
  "drop_id i A n = (case A n of Some (j, b) \<Rightarrow> if j = i then None else Some (j, b) | None \<Rightarrow> None)"

definition landed :: "nat \<Rightarrow> bool" where "landed status \<longleftrightarrow> 200 \<le> status \<and> status < 300"

text \<open>
  What is relied on of the service, for the release of one tag as \<open>V\<close> shows it: reading changes nothing
  and lists what is there; a request is carried out whole or not at all, whatever becomes of its answer,
  and was if the answer says so; nobody else writes to the release meanwhile.
\<close>

definition listing_ok :: "'h http_host \<Rightarrow> github \<Rightarrow> string \<Rightarrow> ('h \<Rightarrow> (u64 \<times> shelf) option) \<Rightarrow> bool" where
  "listing_ok H G tag V \<longleftrightarrow> (\<forall>h h' ans. send H G Get (tag_url G tag) None h = (h', ans) \<longrightarrow> V h' = V h
     \<and> (\<forall>b. ans = Inr (404, b) \<longrightarrow> V h = None)
     \<and> (\<forall>s b r. ans = Inr (s, b) \<longrightarrow> landed s \<longrightarrow> parse_release H b = Some r \<longrightarrow>
          (\<exists>A. V h = Some (rl_id r, A) \<and> (\<forall>n. asset_id r n = map_option fst (A n)))))"

definition upload_ok :: "'h http_host \<Rightarrow> github \<Rightarrow> ('h \<Rightarrow> (u64 \<times> shelf) option) \<Rightarrow> bool" where
  "upload_ok H G V \<longleftrightarrow> (\<forall>h rid A n ty b h' ans. V h = Some (rid, A) \<longrightarrow>
     send H G Post (upload_url G rid n) (Some (ty, b)) h = (h', ans) \<longrightarrow>
       (V h' = V h \<and> \<not> (\<exists>s t. ans = Inr (s, t) \<and> landed s))
     \<or> (\<exists>i. A n = None \<and> V h' = Some (rid, A(n \<mapsto> (i, b)))
          \<and> (\<forall>s t j. ans = Inr (s, t) \<longrightarrow> landed s \<longrightarrow> Option.bind (hh_json H t) id_of = Some j \<longrightarrow> j = i)))"

definition delete_ok :: "'h http_host \<Rightarrow> github \<Rightarrow> ('h \<Rightarrow> (u64 \<times> shelf) option) \<Rightarrow> bool" where
  "delete_ok H G V \<longleftrightarrow> (\<forall>h rid A i h' ans. V h = Some (rid, A) \<longrightarrow> send H G Delete (asset_url G i) None h = (h', ans) \<longrightarrow>
       (V h' = V h \<and> \<not> (\<exists>s t. ans = Inr (s, t) \<and> (landed s \<or> s = 404))) \<or> V h' = Some (rid, drop_id i A))"

definition rename_ok :: "'h http_host \<Rightarrow> github \<Rightarrow> ('h \<Rightarrow> (u64 \<times> shelf) option) \<Rightarrow> bool" where
  "rename_ok H G V \<longleftrightarrow> (\<forall>h rid A i m b n ty h' ans. V h = Some (rid, A) \<longrightarrow> A m = Some (i, b) \<longrightarrow>
     send H G Patch (asset_url G i) (Some (ty, hh_show H (JObject [(''name'', JString n)]))) h = (h', ans) \<longrightarrow>
       (V h' = V h \<and> \<not> (\<exists>s t. ans = Inr (s, t) \<and> landed s))
     \<or> (A n = None \<and> V h' = Some (rid, A(m := None, n \<mapsto> (i, b)))))"

definition github_ok :: "'h http_host \<Rightarrow> github \<Rightarrow> string \<Rightarrow> ('h \<Rightarrow> (u64 \<times> shelf) option) \<Rightarrow> bool" where
  "github_ok H G tag V \<longleftrightarrow> (\<forall>h rid A. V h = Some (rid, A) \<longrightarrow> shelf_ok A)
     \<and> listing_ok H G tag V \<and> upload_ok H G V \<and> delete_ok H G V \<and> rename_ok H G V"

lemma expect_ok_Inr [simp]: "expect_ok m url s b = Inr t \<longleftrightarrow> landed s \<and> t = b"
  by (auto simp: expect_ok_def landed_def)

section \<open>The requests\<close>

lemma get_release_ok:
  assumes ok: "github_ok H G tag V" and run: "get_release H G tag h = (h', r)"
  shows "V h' = V h \<and> (r = Inr None \<longrightarrow> V h = None)
    \<and> (\<forall>x. r = Inr (Some x) \<longrightarrow> (\<exists>A. V h = Some (rl_id x, A) \<and> (\<forall>n. asset_id x n = map_option fst (A n))))"
proof -
  obtain ans where s: "send H G Get (tag_url G tag) None h = (h', ans)"
    using run by (auto simp: get_release_def split: prod.splits sum.splits if_splits option.splits)
  from ok have "V h' = V h \<and> (\<forall>b. ans = Inr (404, b) \<longrightarrow> V h = None)
     \<and> (\<forall>s b r. ans = Inr (s, b) \<longrightarrow> landed s \<longrightarrow> parse_release H b = Some r \<longrightarrow>
          (\<exists>A. V h = Some (rl_id r, A) \<and> (\<forall>n. asset_id r n = map_option fst (A n))))"
    using s unfolding github_ok_def listing_ok_def by blast
  with run s show ?thesis
    by (auto simp: get_release_def split: sum.splits prod.splits if_splits option.splits)
qed

lemma upload_asset_ok:
  assumes ok: "github_ok H G tag V" and h: "V h = Some (rid, A)" and run: "upload_asset H G rid n b h = (h', r)"
  shows "(V h' = V h \<and> (\<exists>e. r = Inl e)) \<or> (\<exists>i. A n = None \<and> V h' = Some (rid, A(n \<mapsto> (i, b))) \<and> (\<forall>j. r = Inr j \<longrightarrow> j = i))"
proof -
  obtain ans where s: "send H G Post (upload_url G rid n) (Some (''application/octet-stream'', b)) h = (h', ans)"
    using run by (auto simp: upload_asset_def split: prod.splits sum.splits option.splits)
  from ok have "(V h' = V h \<and> \<not> (\<exists>s t. ans = Inr (s, t) \<and> landed s))
     \<or> (\<exists>i. A n = None \<and> V h' = Some (rid, A(n \<mapsto> (i, b)))
          \<and> (\<forall>s t j. ans = Inr (s, t) \<longrightarrow> landed s \<longrightarrow> Option.bind (hh_json H t) id_of = Some j \<longrightarrow> j = i))"
    using h s unfolding github_ok_def upload_ok_def by blast
  with run s show ?thesis
    by (auto simp: upload_asset_def split: sum.splits prod.splits option.splits)
qed

lemma delete_asset_ok:
  assumes ok: "github_ok H G tag V" and h: "V h = Some (rid, A)" and run: "delete_asset H G i h = (h', r)"
  shows "(V h' = V h \<and> (\<exists>e. r = Inl e)) \<or> V h' = Some (rid, drop_id i A)"
proof -
  obtain ans where s: "send H G Delete (asset_url G i) None h = (h', ans)"
    using run by (auto simp: delete_asset_def split: prod.splits sum.splits if_splits)
  from ok have "(V h' = V h \<and> \<not> (\<exists>s t. ans = Inr (s, t) \<and> (landed s \<or> s = 404))) \<or> V h' = Some (rid, drop_id i A)"
    using h s unfolding github_ok_def delete_ok_def by blast
  with run s show ?thesis
    by (auto simp: delete_asset_def split: sum.splits prod.splits if_splits)
qed

lemma rename_asset_ok:
  assumes ok: "github_ok H G tag V" and h: "V h = Some (rid, A)" "A m = Some (i, b)" and run: "rename_asset H G i n h = (h', r)"
  shows "(V h' = V h \<and> (\<exists>e. r = Inl e)) \<or> (A n = None \<and> V h' = Some (rid, A(m := None, n \<mapsto> (i, b))))"
proof -
  obtain ans where s: "send H G Patch (asset_url G i) (Some (''application/json'', hh_show H (JObject [(''name'', JString n)]))) h = (h', ans)"
    using run by (auto simp: rename_asset_def split: prod.splits sum.splits)
  from ok have "(V h' = V h \<and> \<not> (\<exists>s t. ans = Inr (s, t) \<and> landed s)) \<or> (A n = None \<and> V h' = Some (rid, A(m := None, n \<mapsto> (i, b))))"
    using h s unfolding github_ok_def rename_ok_def by blast
  with run s show ?thesis
    by (auto simp: rename_asset_def split: sum.splits prod.splits)
qed

section \<open>Replacing an asset\<close>

lemma drop_id_at: "shelf_ok A \<Longrightarrow> A n = Some (i, b) \<Longrightarrow> drop_id i A = A(n := None)"
  by (fastforce simp: fun_eq_iff drop_id_def shelf_ok_def split: option.splits)

definition staging :: "string \<Rightarrow> string" where "staging n = n @ STAGING_SUFFIX"

lemma staging_neq [simp]: "staging n \<noteq> n" "n \<noteq> staging n"
  by (simp_all add: staging_def STAGING_SUFFIX_def)

text \<open>What may have become of a name and its staging name, all others as they were.\<close>

definition replaced :: "string \<Rightarrow> bytes \<Rightarrow> fs \<Rightarrow> fs \<Rightarrow> host_error + unit \<Rightarrow> bool" where
  "replaced name b a a' r \<longleftrightarrow> (\<forall>n. n \<noteq> name \<longrightarrow> n \<noteq> staging name \<longrightarrow> a' n = a n)
     \<and> (a' name = a name \<or> a' name = Some b \<or> a name \<noteq> None \<and> a' name = None \<and> a' (staging name) = Some b)
     \<and> (r = Inr () \<longrightarrow> a' name = Some b)"

lemma replaced_serves:
  "replaced name b (serves A) (serves A') r \<longleftrightarrow> (\<forall>n. n \<noteq> name \<longrightarrow> n \<noteq> staging name \<longrightarrow> serves A' n = serves A n)
     \<and> (serves A' name = serves A name \<or> serves A' name = Some b \<or> A name \<noteq> None \<and> A' name = None \<and> serves A' (staging name) = Some b)
     \<and> (r = Inr () \<longrightarrow> serves A' name = Some b)"
  by (auto simp: replaced_def serves_def)

lemma swap_asset_replaced:
  assumes ok: "github_ok H G tag V" and h: "V h = Some (rid, A)" and free: "A (staging name) = None"
    and r: "rl_id x = rid" "\<And>n. asset_id x n = map_option fst (A0 n)" "A0 name = A name"
    and run: "swap_asset H G x name b h = (h', res)"
  shows "\<exists>A'. V h' = Some (rid, A') \<and> replaced name b (serves A) (serves A') res"
proof (cases "A name")
  case None
  then obtain u where "upload_asset H G rid name b h = (h', u)" "\<And>e. u = Inl e \<Longrightarrow> res = Inl e"
    using run r by (auto simp: swap_asset_def split: prod.splits sum.splits)
  with upload_asset_ok [OF ok h this(1)] h None show ?thesis by (fastforce simp: replaced_serves serves_def)
next
  case (Some p)
  then obtain i old where p: "A name = Some (i, old)" by (cases p) simp
  obtain h1 u where up: "upload_asset H G rid (staging name) b h = (h1, u)" by fastforce
  from upload_asset_ok [OF ok h up] consider
      "V h1 = Some (rid, A)" "\<exists>e. u = Inl e"
    | j where "V h1 = Some (rid, A(staging name \<mapsto> (j, b)))" "\<And>k. u = Inr k \<Longrightarrow> k = j" using h by auto
  then show ?thesis
  proof cases
    case 1
    with run up r p show ?thesis by (auto simp: swap_asset_def staging_def replaced_serves)
  next
    case (2 j)
    let ?A1 = "A(staging name \<mapsto> (j, b))"
    have r1: "replaced name b (serves A) (serves ?A1) (Inl e)" for e by (auto simp: replaced_serves serves_def)
    show ?thesis
    proof (cases u)
      case (Inl e)
      with run up r p 2(1) r1 show ?thesis by (auto simp: swap_asset_def staging_def)
    next
      case (Inr k)
      with 2(2) have k: "u = Inr j" by auto
      obtain h2 d where del: "delete_asset H G i h1 = (h2, d)" by fastforce
      have "shelf_ok ?A1" using ok 2(1) by (auto simp: github_ok_def)
      then have "drop_id i ?A1 = ?A1(name := None)" by (rule drop_id_at) (use p in simp)
      with delete_asset_ok [OF ok 2(1) del] 2(1) consider "V h2 = Some (rid, ?A1)" "\<exists>e. d = Inl e"
        | "V h2 = Some (rid, ?A1(name := None))" by metis
      then show ?thesis
      proof cases
        case 1
        with run up k r p del r1 show ?thesis by (auto simp: swap_asset_def staging_def)
      next
        case 2
        have r2: "replaced name b (serves A) (serves (?A1(name := None))) (Inl e)" for e using p by (auto simp: replaced_serves serves_def)
        show ?thesis
        proof (cases d)
          case (Inl e)
          with run up k r p del 2 r2 show ?thesis by (auto simp: swap_asset_def staging_def)
        next
          case (Inr w)
          with run up k r p del have ren: "rename_asset H G j name h2 = (h', res)" by (simp add: swap_asset_def staging_def)
          have at: "(?A1(name := None)) (staging name) = Some (j, b)" by simp
          from rename_asset_ok [OF ok 2 at ren] 2 r2 show ?thesis
            by (fastforce simp: replaced_serves serves_def)
        qed
      qed
    qed
  qed
qed

lemma put_asset_replaced:
  assumes ok: "github_ok H G tag V" and h: "V h = Some (rid, A)" and run: "put_asset H G tag name b h = (h', res)"
  shows "\<exists>A'. V h' = Some (rid, A') \<and> replaced name b (serves A) (serves A') res"
proof -
  obtain h1 g where get: "get_release H G tag h = (h1, g)" by fastforce
  note read = get_release_ok [OF ok get]
  have same: "replaced name b (serves A) (serves A) (Inl e)" for e by (simp add: replaced_def)
  show ?thesis
  proof (cases "\<exists>x. g = Inr (Some x)")
    case False
    with run get read h same show ?thesis by (auto simp: put_asset_def split: sum.splits option.splits)
  next
    case True
    then obtain x where x: "g = Inr (Some x)" by blast
    with read h have ids: "rl_id x = rid" "\<And>n. asset_id x n = map_option fst (A n)" and h1: "V h1 = Some (rid, A)" by auto
    show ?thesis
    proof (cases "A (staging name)")
      case None
      with run get x ids have "swap_asset H G x name b h1 = (h', res)" by (simp add: put_asset_def staging_def)
      from swap_asset_replaced [OF ok h1 None ids refl this] show ?thesis .
    next
      case (Some p)
      then obtain i c where p: "A (staging name) = Some (i, c)" by (cases p) simp
      obtain h2 d where del: "delete_asset H G i h1 = (h2, d)" by fastforce
      have "shelf_ok A" using ok h by (auto simp: github_ok_def)
      from drop_id_at [OF this p] delete_asset_ok [OF ok h1 del] h1 consider "V h2 = Some (rid, A)" "\<exists>e. d = Inl e"
        | "V h2 = Some (rid, A(staging name := None))" by metis
      then show ?thesis
      proof cases
        case 1
        with run get x ids p del same show ?thesis by (auto simp: put_asset_def staging_def)
      next
        case 2
        let ?A1 = "A(staging name := None)"
        have frame: "replaced name b (serves ?A1) a' r \<Longrightarrow> replaced name b (serves A) a' r" for a' r
          by (auto simp: replaced_def serves_def)
        show ?thesis
        proof (cases d)
          case (Inl e)
          with run get x ids p del have "h' = h2" "res = Inl e" by (simp_all add: put_asset_def staging_def)
          moreover have "replaced name b (serves A) (serves ?A1) (Inl e)" by (rule frame) (simp add: replaced_def)
          ultimately show ?thesis using 2 by blast
        next
          case (Inr u)
          with run get x ids p del have swap: "swap_asset H G x name b h2 = (h', res)" by (simp add: put_asset_def staging_def)
          have "\<exists>A'. V h' = Some (rid, A') \<and> replaced name b (serves ?A1) (serves A') res"
            by (rule swap_asset_replaced [OF ok 2 _ ids _ swap]) simp_all
          then show ?thesis using frame by blast
        qed
      qed
    qed
  qed
qed

section \<open>Pushing files\<close>

text \<open>A store of named assets as a push sees it.\<close>

locale asset_store =
  fixes put :: "string \<Rightarrow> bytes \<Rightarrow> 'h \<Rightarrow> 'h \<times> (host_error + unit)" and view :: "'h \<Rightarrow> fs option"
  assumes put_replaces: "view h = Some a \<Longrightarrow> put name b h = (h', r) \<Longrightarrow> \<exists>a'. view h' = Some a' \<and> replaced name b a a' r"
begin

lemma push_put_replaces:
  assumes "rh_put R tag = put" "view h = Some a" "push_put R stop_after base tag name b (h, pushed) = ((h', pushed'), r)"
  shows "\<exists>a'. view h' = Some a' \<and> replaced name b a a' r"
proof (cases "stop_after = Some (length pushed - base)")
  case True
  with assms show ?thesis by (auto simp: push_put_def replaced_def)
next
  case False
  obtain h1 s where put: "put name b h = (h1, s)" by fastforce
  with False assms(1,3) have "h' = h1 \<and> s = r"
    by (auto simp: push_put_def split: sum.splits)
  with put_replaces [OF assms(2) put] show ?thesis by simp
qed

text \<open>A push touches the names of its files and their staging names; one that succeeds has put each.\<close>

lemma push_files_frame:
  assumes "rh_put R tag = put" "view h = Some a" "push_files R rd stop_after base tag f paths (h, pushed) = ((h', pushed'), r)"
  shows "\<exists>a'. view h' = Some a' \<and> (\<forall>n. (\<forall>p \<in> set paths. asset_name p \<noteq> Inr n \<and> (\<forall>m. asset_name p = Inr m \<longrightarrow> n \<noteq> staging m)) \<longrightarrow> a' n = a n)"
  using assms(2,3)
proof (induction paths arbitrary: h pushed a)
  case (Cons p ps)
  consider "h' = h" | n b h1 pushed1 s where "asset_name p = Inr n" "push_put R stop_after base tag n b (h, pushed) = ((h1, pushed1), s)"
      "h' = h1" | n b h1 pushed1 where "asset_name p = Inr n" "push_put R stop_after base tag n b (h, pushed) = ((h1, pushed1), Inr ())"
      "push_files R rd stop_after base tag f ps (h1, pushed1) = ((h', pushed'), r)"
  proof (cases "\<exists>n b. asset_name p = Inr n \<and> (if rd p then f p else None) = Some b")
    case False
    with Cons.prems(2) that(1) show ?thesis by (auto split: sum.splits option.splits)
  next
    case True
    then obtain n b where n: "asset_name p = Inr n" "(if rd p then f p else None) = Some b" by blast
    obtain h1 pushed1 s where put: "push_put R stop_after base tag n b (h, pushed) = ((h1, pushed1), s)" by (metis surj_pair)
    show ?thesis
    proof (cases s)
      case (Inl e)
      with put n Cons.prems(2) show ?thesis by (intro that(2) [OF n(1) put]) simp
    next
      case (Inr u)
      with put n Cons.prems(2) show ?thesis by (intro that(3) [of n b h1 pushed1]) simp_all
    qed
  qed
  then show ?case
  proof cases
    case 1
    with Cons.prems(1) show ?thesis by auto
  next
    case 2
    from push_put_replaces [OF assms(1) Cons.prems(1) 2(2)] 2(1,3) show ?thesis by (auto simp: replaced_def)
  next
    case 3
    from push_put_replaces [OF assms(1) Cons.prems(1) 3(2)] obtain a1 where a1: "view h1 = Some a1" "replaced n b a a1 (Inr ())" by blast
    from Cons.IH [OF a1(1) 3(3)] a1(2) 3(1) show ?thesis by (fastforce simp: replaced_def)
  qed
qed auto

lemma push_files_last:
  assumes "rh_put R tag = put" "view h = Some a" "asset_name p = Inr n"
    and "push_files R rd stop_after base tag f [p] (h, pushed) = ((h', pushed'), r)"
  shows "(view h' = Some a \<and> (\<exists>e. r = Inl e)) \<or> (\<exists>b a'. f p = Some b \<and> view h' = Some a' \<and> replaced n b a a' r)"
proof (cases "if rd p then f p else None")
  case None
  with assms show ?thesis by auto
next
  case (Some b)
  obtain h1 pushed1 s where put: "push_put R stop_after base tag n b (h, pushed) = ((h1, pushed1), s)" by (metis surj_pair)
  with Some assms(3,4) have "h' = h1" "s = r" by (auto split: sum.splits)
  with push_put_replaces [OF assms(1,2) put] Some show ?thesis by (auto split: if_splits)
qed

end

lemma push_files_append:
  "push_files R rd stop_after base tag f (ps @ qs) s = (case push_files R rd stop_after base tag f ps s of
     (s1, Inl e) \<Rightarrow> (s1, Inl e) | (s1, Inr _) \<Rightarrow> push_files R rd stop_after base tag f qs s1)"
proof (induction ps arbitrary: s)
  case (Cons p ps)
  show ?case by (simp split: sum.split option.split prod.split add: Cons.IH)
qed (simp split: sum.split)

lemma push_files_split:
  assumes "push_files R rd stop_after base tag f (ps @ qs) s = ((h', p'), r)" "push_files R rd stop_after base tag f ps s = ((h1, p1), q)"
  shows "h' = h1 \<and> (\<exists>e. r = Inl e) \<or> q = Inr () \<and> push_files R rd stop_after base tag f qs (h1, p1) = ((h', p'), r)"
  using assms by (cases q) (auto simp: push_files_append)

interpretation github: asset_store "put_asset H G tag"
  "\<lambda>h. if github_ok H G tag V then map_option (serves \<circ> snd) (V h) else None" for H :: "'h http_host" and G tag V
proof unfold_locales
  fix h h' :: 'h and a name b r
  assume "(if github_ok H G tag V then map_option (serves \<circ> snd) (V h) else None) = Some a" and run: "put_asset H G tag name b h = (h', r)"
  then obtain rid A where ok: "github_ok H G tag V" "V h = Some (rid, A)" "a = serves A" by (auto split: if_splits)
  from put_asset_replaced [OF ok(1,2) run] ok
  show "\<exists>a'. (if github_ok H G tag V then map_option (serves \<circ> snd) (V h') else None) = Some a' \<and> replaced name b a a' r" by auto
qed

section \<open>A client of the host\<close>

text \<open>The names of metadata among the assets of a release.\<close>

lemma flat [simp]: "path_join [] n = n"
  by (simp add: path_join_def)

lemma metadata_name:
  "CHR ''/'' \<notin> set (versioned_name r v) \<and> normal (versioned_name r v) \<and> versioned_name r v \<noteq> []"
  "CHR ''/'' \<notin> set (file_name r) \<and> normal (file_name r) \<and> file_name r \<noteq> []"
proof -
  have "CHR ''/'' \<notin> set (show_u64 v)" using show_u64_digits [of v] by (auto simp: list_all_iff is_digit_def)
  then show "CHR ''/'' \<notin> set (versioned_name r v) \<and> normal (versioned_name r v) \<and> versioned_name r v \<noteq> []"
    by (cases r) (auto simp: versioned_name_def file_name_def role_str_def normal_def append_eq_Cons_conv)
  show "CHR ''/'' \<notin> set (file_name r) \<and> normal (file_name r) \<and> file_name r \<noteq> []"
    by (cases r) (simp_all add: file_name_def role_str_def normal_def)
qed

lemma metadata_asset [simp]:
  "asset_name (path_join md (versioned_name r v)) = Inr (versioned_name r v)" "asset_name (path_join md (file_name r)) = Inr (file_name r)"
  using path_name_join metadata_name by (simp_all add: asset_name_def)

lemma staged_name_apart [simp]: "staging n \<noteq> versioned_name r v" "versioned_name r v \<noteq> staging n" "staging n \<noteq> file_name r" "file_name r \<noteq> staging n"
proof -
  have "last (staging n) = CHR ''g''" by (simp add: staging_def STAGING_SUFFIX_def)
  moreover have "last (versioned_name r v) = CHR ''n''" "last (file_name r) = CHR ''n''"
    by (simp_all add: versioned_name_def file_name_def)
  ultimately have "last (staging n) \<noteq> last (versioned_name r v)" "last (staging n) \<noteq> last (file_name r)" by simp_all
  then show "staging n \<noteq> versioned_name r v" "versioned_name r v \<noteq> staging n" "staging n \<noteq> file_name r" "file_name r \<noteq> staging n"
    by metis+
qed

lemma plain_names [simp]: "versioned_name r v = versioned_name r' v' \<longleftrightarrow> r = r' \<and> v = v'" "file_name r \<noteq> versioned_name r' v" "versioned_name r' v \<noteq> file_name r"
  using meta_path_eq [of "[]"] by (simp_all del: meta_path_eq)

text \<open>The same files under another directory are the same chain.\<close>

lemma client_chain_moved:
  assumes "client_chain L md f = Some c"
    and "a (file_name Timestamp) = f (path_join md (file_name Timestamp))"
    and "a (versioned_name Snapshot (rb_version (ck_snapshot c))) = f (path_join md (versioned_name Snapshot (rb_version (ck_snapshot c))))"
    and "a (versioned_name Targets (rb_version (ck_targets c))) = f (path_join md (versioned_name Targets (rb_version (ck_targets c))))"
  shows "client_chain L [] a = Some c"
proof -
  from assms(1) obtain mb ts sb sn tb tg where
    "f (path_join md (file_name Timestamp)) = Some mb" "pb_read_timestamp L mb = Some ts"
    "pinned_file (sg_lib (pb_signer L)) md Snapshot (rb_meta (signed_payload ts)) f = Some (rb_version (signed_payload sn), sb)"
    "pb_read_snapshot L sb = Some sn"
    "pinned_file (sg_lib (pb_signer L)) md Targets (rb_meta (signed_payload sn)) f = Some (rb_version (signed_payload tg), tb)"
    "pb_read_targets L tb = Some tg"
    "c = \<lparr>ck_timestamp = signed_payload ts, ck_snapshot = signed_payload sn, ck_targets = signed_payload tg\<rparr>"
    unfolding client_chain_Some by metis
  with assms(2-4) show ?thesis unfolding client_chain_Some
    by (intro exI [of _ mb] exI [of _ ts] exI [of _ sb] exI [of _ sn] exI [of _ tb] exI [of _ tg]) (simp add: pinned_file_Some)
qed

lemma ensure_release_kept:
  assumes ok: "github_ok H G tag V" and h: "V h = Some x" and run: "ensure_release H G tag pre h = (h', r)"
  shows "V h' = Some x"
proof -
  obtain h1 g where get: "get_release H G tag h = (h1, g)" by fastforce
  with get_release_ok [OF ok get] h have "V h1 = Some x" "g \<noteq> Inr None" by auto
  with run get show ?thesis by (auto simp: ensure_release_def split: sum.splits option.splits)
qed

text \<open>What a client of the host may find in the course of a push.\<close>

definition between :: "'k publish_lib \<Rightarrow> chain \<Rightarrow> chain \<Rightarrow> fs \<Rightarrow> bool" where
  "between L c c' a \<longleftrightarrow> client_chain L [] a = Some c \<or> client_chain L [] a = Some c'
     \<or> a (file_name Timestamp) = None
       \<and> client_chain L [] (a(file_name Timestamp := a (staging (file_name Timestamp)))) = Some c'"

context asset_store
begin

text \<open>The last file: everything it pins is in place, so the chain turns when it lands.\<close>

lemma push_timestamp:
  assumes R: "rh_put R tag = put" and view: "view h = Some a" and c: "client_chain L [] a = Some c" and c': "client_chain L md f = Some c'"
    and there: "\<And>n. n \<in> {versioned_name Targets (rb_version (ck_targets c')), versioned_name Snapshot (rb_version (ck_snapshot c'))} \<Longrightarrow> a n = f (path_join md n)"
    and run: "push_files R rd stop_after base tag f [path_join md (file_name Timestamp)] (h, pushed) = ((h', pushed'), r)"
  shows "\<exists>a'. view h' = Some a' \<and> between L c c' a' \<and> (r = Inr () \<longrightarrow> client_chain L [] a' = Some c')"
proof -
  let ?t = "file_name Timestamp"
  from push_files_last [OF R view metadata_asset(2) run] consider "view h' = Some a" "\<exists>e. r = Inl e"
    | b a' where "f (path_join md ?t) = Some b" "view h' = Some a'" "replaced ?t b a a' r" by blast
  then show ?thesis
  proof cases
    case 1
    with c show ?thesis by (auto simp: between_def)
  next
    case (2 b a')
    have new: "client_chain L [] (a'(?t \<mapsto> b)) = Some c'"
      by (rule client_chain_moved [OF c']) (use 2(1,3) there in \<open>simp_all add: replaced_def\<close>)
    have old: "client_chain L [] a' = Some c" if "a' ?t = a ?t"
      by (rule client_chain_moved [OF c, of a']) (use that 2(3) in \<open>simp_all add: replaced_def\<close>)
    from new have turned: "client_chain L [] a' = Some c'" if "a' ?t = Some b" using that by (simp add: fun_upd_idem)
    from 2(3) consider "a' ?t = a ?t" | "a' ?t = Some b" | "a' ?t = None" "a' (staging ?t) = Some b" by (auto simp: replaced_def)
    then have "between L c c' a'"
      by cases (use old turned new in \<open>auto simp: between_def\<close>)
    with turned 2 show ?thesis by (auto simp: replaced_def)
  qed
qed

lemma push_chain:
  assumes R: "rh_put R tag = put" and view: "view h = Some a" and c: "client_chain L [] a = Some c" and c': "client_chain L md f = Some c'"
    and follows: "chain_follows c t c'"
    and front: "\<And>p n. p \<in> set front \<Longrightarrow> asset_name p = Inr n \<Longrightarrow> (\<forall>r v. n \<noteq> versioned_name r v) \<and> (\<forall>r. n \<noteq> file_name r)"
    and run: "push_files R rd stop_after base tag f (front @ map (path_join md) [versioned_name Targets (rb_version (ck_targets c')),
        versioned_name Snapshot (rb_version (ck_snapshot c')), file_name Timestamp]) (h, pushed) = ((h', pushed'), r)"
  shows "\<exists>a'. view h' = Some a' \<and> between L c c' a' \<and> (r = Inr () \<longrightarrow> client_chain L [] a' = Some c')"
proof -
  let ?t = "versioned_name Targets (rb_version (ck_targets c'))" and ?s = "versioned_name Snapshot (rb_version (ck_snapshot c'))"
  have apart: "rb_version (ck_targets c) \<noteq> rb_version (ck_targets c')" "rb_version (ck_snapshot c) \<noteq> rb_version (ck_snapshot c')"
    using follows by (auto simp: chain_follows_def)
  have run: "push_files R rd stop_after base tag f (front @ [path_join md ?t] @ [path_join md ?s] @ [path_join md (file_name Timestamp)]) (h, pushed)
      = ((h', pushed'), r)" using run by simp
  have keeps: "client_chain L [] a1 = Some c" if "\<And>n. n \<noteq> ?t \<Longrightarrow> n \<noteq> ?s \<Longrightarrow> (\<exists>r v. n = versioned_name r v) \<or> n = file_name Timestamp \<Longrightarrow> a1 n = a n" for a1
    by (rule client_chain_moved [OF c]) (use that apart in auto)
  obtain h0 p0 r0 where s0: "push_files R rd stop_after base tag f front (h, pushed) = ((h0, p0), r0)" by (metis surj_pair)
  from push_files_frame [OF R view s0] obtain a0 where a0: "view h0 = Some a0"
    "\<And>n. (\<exists>r v. n = versioned_name r v) \<or> n = file_name Timestamp \<Longrightarrow> a0 n = a n" using front by (metis staged_name_apart(2,4))
  obtain h1 p1 r1 where s1: "push_files R rd stop_after base tag f [path_join md ?t] (h0, p0) = ((h1, p1), r1)" by (metis surj_pair)
  from push_files_last [OF R a0(1) metadata_asset(1) s1] obtain a1 where a1: "view h1 = Some a1"
    "\<And>n. n \<noteq> ?t \<Longrightarrow> n \<noteq> staging ?t \<Longrightarrow> a1 n = a0 n" "r1 = Inr () \<Longrightarrow> a1 ?t = f (path_join md ?t)"
    by (auto simp: replaced_def)
  obtain h2 p2 r2 where s2: "push_files R rd stop_after base tag f [path_join md ?s] (h1, p1) = ((h2, p2), r2)" by (metis surj_pair)
  from push_files_last [OF R a1(1) metadata_asset(1) s2] obtain a2 where a2: "view h2 = Some a2"
    "\<And>n. n \<noteq> ?s \<Longrightarrow> n \<noteq> staging ?s \<Longrightarrow> a2 n = a1 n" "r2 = Inr () \<Longrightarrow> a2 ?s = f (path_join md ?s)"
    by (auto simp: replaced_def)
  have k: "client_chain L [] a0 = Some c" "client_chain L [] a1 = Some c" "client_chain L [] a2 = Some c"
    by (rule keeps, use a0 a1 a2 in auto)+
  consider "h' = h0" "\<exists>e. r = Inl e" | "h' = h1" "\<exists>e. r = Inl e" | "h' = h2" "\<exists>e. r = Inl e"
    | "r1 = Inr ()" "r2 = Inr ()" "push_files R rd stop_after base tag f [path_join md (file_name Timestamp)] (h2, p2) = ((h', pushed'), r)"
    using push_files_split [OF run s0] push_files_split [OF _ s1] push_files_split [OF _ s2] by blast
  then show ?thesis
  proof cases
    case 4
    show ?thesis by (rule push_timestamp [OF R a2(1) k(3) c' _ 4(3)]) (use a1(3) a2(2,3) 4(1,2) in auto)
  qed (use a0(1) a1(1) a2(1) k in \<open>auto simp: between_def\<close>)
qed

end

section \<open>What a push leaves\<close>


section \<open>A host that follows a script\<close>

text \<open>
  The requests the host carries out, in order; it refuses any other. Its state is how many it has
  carried out; the names it lists are \<open>U\<close>.
\<close>

datatype change = Uploaded string u64 bytes | Deleted u64 | Renamed u64 string string

fun changed :: "change \<Rightarrow> shelf \<Rightarrow> shelf" where
  "changed (Uploaded n i b) A = A(n \<mapsto> (i, b))"
| "changed (Deleted i) A = drop_id i A"
| "changed (Renamed i m n) A = A(m := None, n := A m)"

definition shelf_after :: "shelf \<Rightarrow> change list \<Rightarrow> nat \<Rightarrow> shelf" where
  "shelf_after A cs k = fold changed (take k cs) A"

fun request_of :: "github \<Rightarrow> change \<Rightarrow> request" where
  "request_of G (Uploaded n i b) = \<lparr>rq_method = Post, rq_url = upload_url G 7 n, rq_token = gh_token G,
     rq_content_type = Some ''application/octet-stream'', rq_body = b\<rparr>"
| "request_of G (Deleted i) = \<lparr>rq_method = Delete, rq_url = asset_url G i, rq_token = gh_token G, rq_content_type = None, rq_body = []\<rparr>"
| "request_of G (Renamed i m n) = \<lparr>rq_method = Patch, rq_url = asset_url G i, rq_token = gh_token G,
     rq_content_type = Some ''application/json'', rq_body = map byte_of_char n\<rparr>"

fun answer_to :: "change \<Rightarrow> nat \<times> string" where
  "answer_to (Uploaded n i b) = (201, CHR ''i'' # replicate (unat i) CHR ''1'')"
| "answer_to _ = (200, [])"

definition listing :: "string list \<Rightarrow> shelf \<Rightarrow> json" where
  "listing U A = JObject [(''id'', JInt 7), (''assets'', JArray (List.map_filter (\<lambda>n.
     map_option (\<lambda>(i, b). JObject [(''name'', JString n), (''id'', JInt i)]) (A n)) U))]"

definition scripted :: "github \<Rightarrow> string list \<Rightarrow> shelf \<Rightarrow> change list \<Rightarrow> nat http_host" where
  "scripted G U A cs = \<lparr>
     hh_send = (\<lambda>rq k. if rq_method rq = Get then (k, Some (200, replicate k CHR ''1''))
        else if k < length cs \<and> rq = request_of G (cs ! k) then (Suc k, Some (answer_to (cs ! k)))
        else (k, Some (500, []))),
     hh_json = (\<lambda>b. Some (if b \<noteq> [] \<and> hd b = CHR ''i'' then JObject [(''id'', JInt (of_nat (length b - 1)))]
        else listing U (shelf_after A cs (length b)))),
     hh_show = (\<lambda>v. case json_at v ''name'' of JString n \<Rightarrow> map byte_of_char n | _ \<Rightarrow> [])\<rparr>"

text \<open>A script the host can follow.\<close>

fun follows_from :: "change \<Rightarrow> shelf \<Rightarrow> bool" where
  "follows_from (Uploaded n i b) A \<longleftrightarrow> A n = None"
| "follows_from (Deleted i) A \<longleftrightarrow> True"
| "follows_from (Renamed i m n) A \<longleftrightarrow> A n = None \<and> (\<exists>b. A m = Some (i, b))"

fun script_ok :: "string list \<Rightarrow> shelf \<Rightarrow> change list \<Rightarrow> bool" where
  "script_ok U A [] \<longleftrightarrow> shelf_ok A \<and> dom A \<subseteq> set U"
| "script_ok U A (c # cs) \<longleftrightarrow> shelf_ok A \<and> dom A \<subseteq> set U \<and> follows_from c A \<and> script_ok U (changed c A) cs"

lemma shelf_after_simps [simp]: "shelf_after A cs 0 = A" "shelf_after A (c # cs) (Suc k) = shelf_after (changed c A) cs k"
  by (simp_all add: shelf_after_def)

lemma script_okD:
  "script_ok U A cs \<Longrightarrow> k \<le> length cs \<Longrightarrow> shelf_ok (shelf_after A cs k) \<and> dom (shelf_after A cs k) \<subseteq> set U
     \<and> (k < length cs \<longrightarrow> follows_from (cs ! k) (shelf_after A cs k))"
proof (induction cs arbitrary: A k)
  case (Cons c cs)
  then show ?case by (cases k) simp_all
qed simp

lemma drop_id_upd [simp]:
  "drop_id i Map.empty = Map.empty" "drop_id i (A(n := None)) = (drop_id i A)(n := None)"
  "drop_id i (A(n \<mapsto> (j, b))) = (if i = j then (drop_id i A)(n := None) else (drop_id i A)(n \<mapsto> (j, b)))"
  by (auto simp: fun_eq_iff drop_id_def)

lemma shelf_after_Suc: "k < length cs \<Longrightarrow> shelf_after A cs (Suc k) = changed (cs ! k) (shelf_after A cs k)"
  by (simp add: shelf_after_def take_Suc_conv_app_nth)

lemma shelf_after_beyond: "length cs \<le> k \<Longrightarrow> shelf_after A cs k = shelf_after A cs (length cs)"
  by (simp add: shelf_after_def)

lemma parse_listing:
  "those (map parse_asset (List.map_filter (\<lambda>n. map_option (\<lambda>(i, b). JObject [(''name'', JString n), (''id'', JInt i)]) (A n)) U))
    = Some (List.map_filter (\<lambda>n. map_option (\<lambda>(i, b). (n, i)) (A n)) U)"
  by (induction U) (auto simp: List.map_filter_simps parse_asset_def json_at_def id_of_def split: option.split)

lemma find_listing: "n \<in> set U \<or> A n = None \<Longrightarrow>
   map_option snd (List.find (\<lambda>a. fst a = n) (List.map_filter (\<lambda>n. map_option (\<lambda>(i, b). (n, i)) (A n)) U)) = map_option fst (A n)"
  by (induction U) (auto simp: List.map_filter_simps split: option.split)

text \<open>Different names make different requests.\<close>

lemma upper_hex_inj: "a < 16 \<Longrightarrow> b < 16 \<Longrightarrow> upper_hex ! a = upper_hex ! b \<Longrightarrow> a = b"
proof -
  have "distinct upper_hex" "length upper_hex = 16" by (simp_all add: upper_hex_def)
  then show "a < 16 \<Longrightarrow> b < 16 \<Longrightarrow> upper_hex ! a = upper_hex ! b \<Longrightarrow> a = b" by (simp add: nth_eq_iff_index_eq)
qed

lemma percent_reserved: "\<not> unreserved CHR ''%''" by code_simp

lemma encode_char_split: "encode_char c @ xs = encode_char d @ ys \<Longrightarrow> c = d \<and> xs = ys"
proof -
  assume eq: "encode_char c @ xs = encode_char d @ ys"
  have small: "(of_char x :: nat) div 16 < 16" for x :: char by (simp add: less_mult_imp_div_less)
  have "(of_char c :: nat) = of_char d \<and> xs = ys" if "\<not> unreserved c" "\<not> unreserved d"
  proof -
    from eq that have "upper_hex ! (of_char c div 16) = upper_hex ! (of_char d div 16)" "upper_hex ! (of_char c mod 16) = upper_hex ! (of_char d mod 16)"
      "xs = ys" by (simp_all add: encode_char_def Let_def)
    with upper_hex_inj [OF small small] upper_hex_inj [of "of_char c mod 16" "of_char d mod 16"] have
      "(of_char c :: nat) div 16 = of_char d div 16" "(of_char c :: nat) mod 16 = of_char d mod 16" "xs = ys" by simp_all
    then show ?thesis by (metis div_mult_mod_eq)
  qed
  then show ?thesis using eq percent_reserved by (auto simp: encode_char_def Let_def split: if_splits)
qed

lemma encode_segment_inj [simp]: "encode_segment s = encode_segment t \<longleftrightarrow> s = t"
proof
  have ne: "encode_char c \<noteq> []" for c by (simp add: encode_char_def Let_def)
  show "encode_segment s = encode_segment t \<Longrightarrow> s = t"
  proof (induction s arbitrary: t)
    case Nil
    then show ?case by (cases t) (auto simp: encode_segment_def ne)
  next
    case (Cons c s)
    then obtain d u where t: "t = d # u" by (cases t) (auto simp: encode_segment_def ne)
    with Cons encode_char_split [of c "encode_segment s" d "encode_segment u"] show ?case by (auto simp: encode_segment_def)
  qed
qed simp

lemma url_eq [simp]: "upload_url G i n = upload_url G i m \<longleftrightarrow> n = m" "asset_url G i = asset_url G j \<longleftrightarrow> i = j"
  by (simp_all add: upload_url_def asset_url_def show_u64_inj)

lemma chars_eq [simp]: "map byte_of_char m = map byte_of_char n \<longleftrightarrow> m = n"
proof -
  have "inj byte_of_char" by (rule injI) (metis char_of_byte_of_char)
  then show ?thesis by (simp add: inj_map_eq_map)
qed

lemma scripted_shows: "hh_show (scripted G U A cs) (JObject [(''name'', JString n)]) = map byte_of_char n"
  by (simp add: scripted_def json_at_def)

lemma scripted_lists:
  assumes "dom (shelf_after A cs k) \<subseteq> set U"
  shows "\<exists>r. parse_release (scripted G U A cs) (replicate k CHR ''1'') = Some r \<and> rl_id r = 7
    \<and> (\<forall>n. asset_id r n = map_option fst (shelf_after A cs k n))"
proof -
  have "parse_release (scripted G U A cs) (replicate k CHR ''1'')
      = Some \<lparr>rl_id = 7, rl_assets = List.map_filter (\<lambda>n. map_option (\<lambda>(i, b). (n, i)) (shelf_after A cs k n)) U\<rparr>"
    by (cases k) (simp_all add: parse_release_def scripted_def listing_def json_at_def id_of_def parse_listing)
  moreover have "n \<in> set U \<or> shelf_after A cs k n = None" for n using assms by (auto simp: domIff)
  ultimately show ?thesis by (simp add: asset_id_def find_listing)
qed

lemma scripted_sends:
  "send (scripted G U A cs) G m url payload k = (k', ans) \<Longrightarrow> m \<noteq> Get \<Longrightarrow>
    k' = k \<and> ans = Inr (500, []) \<or>
    k < length cs \<and> k' = Suc k \<and> ans = Inr (answer_to (cs ! k)) \<and> request_of G (cs ! k) = \<lparr>rq_method = m, rq_url = url, rq_token = gh_token G,
      rq_content_type = map_option fst payload, rq_body = (case payload of Some (_, b) \<Rightarrow> b | None \<Rightarrow> [])\<rparr>"
  by (auto simp: send_def scripted_def split: if_splits)

lemma requested:
  "request_of G c = \<lparr>rq_method = Post, rq_url = upload_url G 7 n, rq_token = t, rq_content_type = ty, rq_body = b\<rparr> \<Longrightarrow> \<exists>i. c = Uploaded n i b"
  "request_of G c = \<lparr>rq_method = Delete, rq_url = asset_url G i, rq_token = t, rq_content_type = ty, rq_body = b\<rparr> \<Longrightarrow> c = Deleted i"
  "request_of G c = \<lparr>rq_method = Patch, rq_url = asset_url G i, rq_token = t, rq_content_type = ty, rq_body = map byte_of_char n\<rparr> \<Longrightarrow> \<exists>m. c = Renamed i m n"
  by (cases c; simp)+

lemma not_landed [simp]: "\<not> landed 500" "landed 200" "landed 201"
  by (simp_all add: landed_def)

lemma scripted_ok:
  assumes ok: "script_ok U A cs"
  shows "github_ok (scripted G U A cs) G tag (\<lambda>k. Some (7, shelf_after A cs k))"
proof -
  let ?H = "scripted G U A cs" and ?V = "\<lambda>k. Some (7 :: u64, shelf_after A cs k)"
  have at: "shelf_ok (shelf_after A cs k) \<and> dom (shelf_after A cs k) \<subseteq> set U" for k
    using script_okD [OF ok, of k] script_okD [OF ok, of "length cs"] shelf_after_beyond [of cs k A] by (cases "k \<le> length cs") auto
  have next_shelf: "shelf_after A cs (Suc k) = changed (cs ! k) (shelf_after A cs k) \<and> follows_from (cs ! k) (shelf_after A cs k)"
    if "k < length cs" for k using script_okD [OF ok, of k] that by (simp add: shelf_after_Suc)
  have "listing_ok ?H G tag ?V"
  proof (unfold listing_ok_def, intro allI impI)
    fix k k' ans
    assume "send ?H G Get (tag_url G tag) None k = (k', ans)"
    then have "k' = k" "ans = Inr (200, replicate k CHR ''1'')" by (auto simp: send_def scripted_def)
    with scripted_lists [of A cs k U G] at show "?V k' = ?V k \<and> (\<forall>b. ans = Inr (404, b) \<longrightarrow> ?V k = None)
      \<and> (\<forall>s b r. ans = Inr (s, b) \<longrightarrow> landed s \<longrightarrow> parse_release ?H b = Some r \<longrightarrow>
          (\<exists>B. ?V k = Some (rl_id r, B) \<and> (\<forall>n. asset_id r n = map_option fst (B n))))" by auto
  qed
  moreover have "upload_ok ?H G ?V"
  proof (unfold upload_ok_def, intro allI impI)
    fix k rid B n ty b k' ans
    assume "?V k = Some (rid, B)" and run: "send ?H G Post (upload_url G rid n) (Some (ty, b)) k = (k', ans)"
    then have rid: "rid = 7" "B = shelf_after A cs k" by simp_all
    from scripted_sends [OF run] consider "k' = k" "ans = Inr (500, [])"
      | i where "k < length cs" "k' = Suc k" "cs ! k = Uploaded n i b" "ans = Inr (answer_to (cs ! k))"
      using requested(1) rid by (auto dest!: requested(1))
    then show "?V k' = ?V k \<and> \<not> (\<exists>s t. ans = Inr (s, t) \<and> landed s)
      \<or> (\<exists>i. B n = None \<and> ?V k' = Some (rid, B(n \<mapsto> (i, b)))
          \<and> (\<forall>s t j. ans = Inr (s, t) \<longrightarrow> landed s \<longrightarrow> Option.bind (hh_json ?H t) id_of = Some j \<longrightarrow> j = i))"
    proof cases
      case (2 i)
      with next_shelf [OF 2(1)] rid show ?thesis
        by (intro disjI2 exI [of _ i]) (simp add: scripted_def id_of_def json_at_def)
    qed simp
  qed
  moreover have "delete_ok ?H G ?V"
  proof (unfold delete_ok_def, intro allI impI)
    fix k rid B i k' ans
    assume "?V k = Some (rid, B)" and run: "send ?H G Delete (asset_url G i) None k = (k', ans)"
    with scripted_sends [OF run] next_shelf [of k] show "?V k' = ?V k \<and> \<not> (\<exists>s t. ans = Inr (s, t) \<and> (landed s \<or> s = 404)) \<or> ?V k' = Some (rid, drop_id i B)"
      by (auto dest!: requested(2))
  qed
  moreover have "rename_ok ?H G ?V"
  proof (unfold rename_ok_def, intro allI impI)
    fix k rid B i m b n ty k' ans
    assume V: "?V k = Some (rid, B)" and there: "B m = Some (i, b)"
      and run: "send ?H G Patch (asset_url G i) (Some (ty, hh_show ?H (JObject [(''name'', JString n)]))) k = (k', ans)"
    then have B: "rid = 7" "B = shelf_after A cs k" by simp_all
    from scripted_sends [OF run] consider "k' = k" "ans = Inr (500, [])"
      | l where "k < length cs" "k' = Suc k" "cs ! k = Renamed i l n" by (auto simp: scripted_shows dest!: requested(3))
    then show "?V k' = ?V k \<and> \<not> (\<exists>s t. ans = Inr (s, t) \<and> landed s) \<or> B n = None \<and> ?V k' = Some (rid, B(m := None, n \<mapsto> (i, b)))"
    proof cases
      case (2 l)
      with next_shelf [OF 2(1)] B obtain d where d: "B n = None" "B l = Some (i, d)" "shelf_after A cs (Suc k) = B(l := None, n := B l)" by auto
      have "shelf_ok B" using at B(2) by simp
      with there d(2) have "l = m" by (auto simp: shelf_ok_def)
      with d 2 B there show ?thesis by simp
    qed simp
  qed
  ultimately show ?thesis using at by (simp add: github_ok_def)
qed

text \<open>Requests as the script has them, and others.\<close>

lemma scripted_get:
  assumes "script_ok U A cs"
  shows "\<exists>r. get_release (scripted G U A cs) G tag k = (k, Inr (Some r)) \<and> rl_id r = 7 \<and> (\<forall>n. asset_id r n = map_option fst (shelf_after A cs k n))"
proof -
  have "dom (shelf_after A cs k) \<subseteq> set U"
    using script_okD [OF assms, of k] script_okD [OF assms, of "length cs"] shelf_after_beyond [of cs k A] by (cases "k \<le> length cs") auto
  from scripted_lists [OF this, of G] obtain r where r: "parse_release (scripted G U A cs) (replicate k CHR ''1'') = Some r"
    "rl_id r = 7" "\<forall>n. asset_id r n = map_option fst (shelf_after A cs k n)" by blast
  have "send (scripted G U A cs) G Get (tag_url G tag) None k = (k, Inr (200, replicate k CHR ''1''))" by (simp add: send_def scripted_def)
  with r show ?thesis by (simp add: get_release_def expect_ok_def)
qed

lemma scripted_does:
  "k < length cs \<Longrightarrow> cs ! k = Uploaded n i b \<Longrightarrow> upload_asset (scripted G U A cs) G 7 n b k = (Suc k, Inr i)"
  "k < length cs \<Longrightarrow> cs ! k = Deleted i \<Longrightarrow> delete_asset (scripted G U A cs) G i k = (Suc k, Inr ())"
  "k < length cs \<Longrightarrow> cs ! k = Renamed i m n \<Longrightarrow> rename_asset (scripted G U A cs) G i n k = (Suc k, Inr ())"
  by (simp_all add: upload_asset_def delete_asset_def rename_asset_def send_def scripted_def expect_ok_def id_of_def json_at_def)

lemma scripted_refuses:
  "length cs \<le> k \<Longrightarrow> upload_asset (scripted G U A cs) G 7 n b k = (k, Inl (HostFault Post (upload_url G 7 n)))"
  "k < length cs \<Longrightarrow> cs ! k = Deleted j \<Longrightarrow> rename_asset (scripted G U A cs) G i n k = (k, Inl (HostFault Patch (asset_url G i)))"
  by (simp_all add: upload_asset_def rename_asset_def send_def scripted_def expect_ok_def)

lemma scripted_put_new:
  assumes ok: "script_ok U A cs" and free: "shelf_after A cs k n = None" "shelf_after A cs k (staging n) = None"
    and next_change: "k < length cs" "cs ! k = Uploaded n i b"
  shows "put_asset (scripted G U A cs) G tag n b k = (Suc k, Inr ())"
proof -
  from scripted_get [OF ok] obtain r where "get_release (scripted G U A cs) G tag k = (k, Inr (Some r))" "rl_id r = 7"
    "\<forall>n. asset_id r n = map_option fst (shelf_after A cs k n)" by blast
  with free show ?thesis by (simp add: put_asset_def swap_asset_def staging_def scripted_does(1) [OF next_change])
qed

lemma scripted_put_over:
  assumes ok: "script_ok U A cs" and there: "shelf_after A cs k n = Some (j, old)" "shelf_after A cs k (staging n) = None"
    and changes: "Suc (Suc k) < length cs" "cs ! k = Uploaded (staging n) i b" "cs ! Suc k = Deleted j"
  shows "put_asset (scripted G U A cs) G tag n b k = rename_asset (scripted G U A cs) G i n (Suc (Suc k))"
proof -
  from scripted_get [OF ok] obtain r where "get_release (scripted G U A cs) G tag k = (k, Inr (Some r))" "rl_id r = 7"
    "\<forall>n. asset_id r n = map_option fst (shelf_after A cs k n)" by blast
  with there changes show ?thesis by (simp add: put_asset_def swap_asset_def staging_def scripted_does)
qed


text \<open>Pushing the second chain of the samples over the first, with the manifest in front.\<close>

definition push_github :: github where
  "push_github = github_new \<lparr>rp_owner = ''retrovert'', rp_name = ''plugins''\<rparr> ''token''"

definition push_shelf :: shelf where
  "push_shelf = [versioned_name Targets 1 \<mapsto> (1, [11]), versioned_name Snapshot 1 \<mapsto> (2, [21]), file_name Timestamp \<mapsto> (3, [31])]"

definition push_script :: "change list" where
  "push_script = [Uploaded ''m.json'' 4 [9], Uploaded (versioned_name Targets 2) 5 [12], Uploaded (versioned_name Snapshot 2) 6 [22],
     Uploaded (staging (file_name Timestamp)) 7 [32], Deleted 3, Renamed 7 (staging (file_name Timestamp)) (file_name Timestamp)]"

definition push_names :: "string list" where
  "push_names = [''m.json'', versioned_name Targets 1, versioned_name Snapshot 1, file_name Timestamp, versioned_name Targets 2,
     versioned_name Snapshot 2, staging (file_name Timestamp)]"

lemma front_apart: "''m.json'' \<noteq> versioned_name r v" "''m.json'' \<noteq> file_name r" "''m.json'' \<noteq> staging n" "asset_name ''m.json'' = Inr ''m.json''"
proof -
  have "is_digit (hd (versioned_name r v))"
    using show_u64_digits [of v] show_nonempty by (cases "show_u64 v") (auto simp: versioned_name_def show_u64_def)
  moreover have "\<not> is_digit (hd ''m.json'')" by code_simp
  ultimately show "''m.json'' \<noteq> versioned_name r v" by metis
  show "''m.json'' \<noteq> file_name r" by (cases r) (simp_all add: file_name_def role_str_def)
  have "last (staging n) = CHR ''g''" by (simp add: staging_def STAGING_SUFFIX_def)
  then have "last ''m.json'' \<noteq> last (staging n)" by simp
  then show "''m.json'' \<noteq> staging n" by metis
  show "asset_name ''m.json'' = Inr ''m.json''" by code_simp
qed

lemma staging_eq [simp]: "staging n = staging m \<longleftrightarrow> n = m"
  by (simp add: staging_def)

lemma push_script_ok: "script_ok push_names push_shelf push_script"
  unfolding push_script_def push_shelf_def push_names_def
  by (auto simp: shelf_ok_def role_neq front_apart front_apart(1-3) [symmetric])

lemma push_puts:
  fixes G tag
  defines "H \<equiv> scripted G push_names push_shelf push_script"
  shows "put_asset H G tag ''m.json'' [9] 0 = (1, Inr ())" "put_asset H G tag (versioned_name Targets 2) [12] 1 = (2, Inr ())"
    "put_asset H G tag (versioned_name Snapshot 2) [22] 2 = (3, Inr ())" "put_asset H G tag (file_name Timestamp) [32] 3 = (6, Inr ())"
proof -
  have new: "put_asset H G tag n b k = (Suc k, Inr ())"
    if "shelf_after push_shelf push_script k n = None" "shelf_after push_shelf push_script k (staging n) = None"
      "k < length push_script" "push_script ! k = Uploaded n i b" for n b k i
    unfolding H_def by (rule scripted_put_new [OF push_script_ok that])
  note defs = push_shelf_def push_script_def role_neq front_apart front_apart(1-3) [symmetric] numeral_2_eq_2 numeral_3_eq_3
  show "put_asset H G tag ''m.json'' [9] 0 = (1, Inr ())"
    using new [of 0 "''m.json''" 4 "[9]"] by (simp add: defs)
  show "put_asset H G tag (versioned_name Targets 2) [12] 1 = (2, Inr ())"
    using new [of "Suc 0" "versioned_name Targets 2" 5 "[12]"] by (simp add: defs)
  show "put_asset H G tag (versioned_name Snapshot 2) [22] 2 = (3, Inr ())"
    using new [of "Suc (Suc 0)" "versioned_name Snapshot 2" 6 "[22]"] by (simp add: defs)
  have "put_asset H G tag (file_name Timestamp) [32] 3 = rename_asset H G 7 (file_name Timestamp) 5"
    using scripted_put_over [OF push_script_ok, of 3 "file_name Timestamp" 3 "[31]" 7 "[32]" G tag]
    unfolding H_def by (simp add: defs eval_nat_numeral)
  also have "\<dots> = (6, Inr ())"
    using scripted_does(3) [of 5 push_script 7 "staging (file_name Timestamp)" "file_name Timestamp" G push_names push_shelf]
    unfolding H_def by (simp add: push_script_def eval_nat_numeral)
  finally show "put_asset H G tag (file_name Timestamp) [32] 3 = (6, Inr ())" .
qed


end
