(* ===== verification/Spec2Isabelle.thy ===== *)
theory Spec2Isabelle
  imports Playlist_Props Desktop Worker_Runs Host_Props
begin

text \<open>
  Retrovert in Isabelle/HOL.

  The program. Retrovert plays music files through decoder plugins that it keeps up to date itself. A
  publisher signs a chain of TUF metadata over a manifest of plugin artifacts (\<open>crates/publish\<close>,
  \<open>crates/tuf\<close>). An updater in the player authenticates that chain against a floor it never lowers, plans
  what is new, fetches it through a queue of resumable transfers and installs it as a generation beside
  the ones it has (\<open>crates/updater\<close>). A catalog extracts a generation's plugins, swaps them into the player
  when no song needs the old ones, records how that went and falls back to the previous set
  (\<open>crates/catalog\<close>, \<open>crates/player\<close>). Two front ends drive that: a command-line player
  (\<open>crates/desktop\<close>) and a worker inside a Quickshell shell (\<open>ui-quickshell/bridge/src/engine.rs\<close>), the
  latter over a playlist engine (\<open>crates/playlist\<close>), a library of files (\<open>crates/library\<close>) and models of
  what is on screen (\<open>crates/present\<close>).

  Conventions. A struct is a record, an enum a datatype; a fixed-width integer is a word and wraps,
  saturates or is checked as the code has it; a string is its bytes; a \<open>Result\<close> is a sum with the error
  on the left, a panic is a constructor of the result (\<open>Panicked\<close>) wherever the code can reach one.
  A file system is a partial map from paths to contents. What the sources only call, third-party crates
  and the operating system, is an argument: a record of functions (names ending in \<open>_lib\<close>) for pure
  code, a record of answers (names ending in \<open>_env\<close>) for what a call of the system returns this time.
  Threads are steps between the locks they take, in any order. The theorems quantify over all of it.

  Foundations.
  \<^item> \<open>Prelude\<close>: saturating and checked arithmetic, decimal numbers, list searches, and the shared
    interfaces \<open>operation_machine\<close> (a fold of operations that keeps an invariant), \<open>invariant_system\<close>
    (an invariant over reachable states) and \<open>wire_codec\<close> (what is encoded reads back).
  \<^item> \<open>Digest\<close>, \<open>Sidecar\<close>, \<open>Paths\<close>: \<open>transport/digest.rs\<close>, the \<open>.meta\<close> record of a partial transfer
    to its bytes (\<open>transport/meta.rs\<close>), and \<open>std::path\<close> on text. The \<open>wire_codec\<close> interpretations give
    the round trips of digests, sidecars, priorities, states, statuses, failures and decimal numbers.

  The updater, \<open>crates/updater/src\<close> and \<open>crates/tuf/src\<close>.
  \<^item> \<open>Transport\<close>, \<open>Download\<close>, \<open>Validate\<close>: the cache and bounded fetches, one transfer from set-up to drop,
    and the three gates of a completed one. \<open>Download_Props\<close>: the file is the old content followed by
    exactly what was handed out; a paused transfer resumes at its byte.
  \<^item> \<open>Entry\<close>, \<open>Queue\<close>: priorities and states with the choice of the next entry (the locale \<open>preference\<close>,
    interpreted for what runs next and for what yields), and the queue: slots, worker records, claims,
    stages, settling and panics, one step for each stretch under the lock. \<open>Queue_Spec\<close> is the scheduler
    it promises to be, \<open>Queue_Inv\<close> the simulation, \<open>Queue_Props\<close> what follows: a cancel sticks, work is
    never stranded, completion is proven. \<open>Queue_Frame\<close>: workers write nothing outside the cache.
  \<^item> \<open>Manifest\<close>, \<open>Metadata\<close>: the release-set manifest with its checks, and the TUF roles, keys, names and
    lifetimes a publisher builds. \<open>Channel\<close>: one authentication end to end, the floor as a \<open>ratchet\<close>.
    \<open>Check\<close>, \<open>Schedule\<close>: what a check offers and costs, its bounded log, and when the next one is due.
  \<^item> \<open>Install\<close>, \<open>Apply\<close>: generations on disk with their records, claims and sweeps, and turning a plan
    into one. \<open>Apply_Props\<close>, \<open>Apply_Runs\<close>: every file of a published generation has the digest its
    manifest names, whatever other threads do, and the window in which a sweep still takes it away.
  \<^item> \<open>Updater\<close>: the facade, its caller operations and its job thread. \<open>Updater_Props\<close>: the phase tells what
    runs, a job comes to rest (the measure \<open>job_rank\<close> is at most seven). \<open>Updater_Frame\<close>: no run lowers
    the floor.

  The publisher, \<open>crates/publish/src\<close>.
  \<^item> \<open>Publish\<close>: creating a channel, publishing into it, refreshing its expiries, with every write of the
    disk as it may end. \<open>Publish_Props\<close>: the locale \<open>commit_point\<close>, a view that rests on few files and so
    changes at one write, interpreted on the chain a client follows from \<open>timestamp.json\<close>; from it, a
    publish is seen whole or not at all.
  \<^item> \<open>Host\<close>: the requests to the release host, replacing an asset, pushing files (\<open>host.rs\<close>, \<open>remote.rs\<close>).
    \<open>Host_Props\<close>: what is relied on of the service (\<open>github_ok\<close>), the locale \<open>asset_store\<close> of stores whose
    names serve the old or the new bytes, interpreted on \<open>put_asset\<close>, and from it what a client finds
    while a local chain is pushed; a host that follows a script instantiates the service.

  The player and its front ends.
  \<^item> \<open>Player\<close>: the decoders, the extension index, the one mounted session (\<open>crates/player\<close>).
  \<^item> \<open>Payload\<close>, \<open>Catalog\<close>: payload trees and the activation record, and the catalog over updater, trees,
    record and player. \<open>Catalog_Props\<close>, \<open>Catalog_Runs\<close>: the resident set is the active generation's, a
    song keeps the set it was mounted on, booting falls back in order, an activation keeps its fallback.
  \<^item> \<open>Desktop\<close>: arguments, commands, the worker loop as steps of \<open>desktop_step\<close>, the audio ring.
  \<^item> \<open>Playlist\<close>, \<open>Playlist_Inv\<close>, \<open>Playlist_Props\<close>: the engine, its invariant, playback order, persistence.
  \<^item> \<open>Library\<close>, \<open>Present\<close>: the sorted walk and its rows, the pattern grid with its cache, the scope, the meter.
  \<^item> \<open>Worker\<close>, \<open>Worker_Props\<close>, \<open>Worker_Queue\<close>, \<open>Worker_Runs\<close>: the shell's worker over engine, player,
    library and presentation as \<open>shell_step\<close>; it never panics, its front tells the truth, and what
    becomes of the queue and the loop mode.

  Bounds and fuel. Decimal printing recurses on a digit count: twenty digits hold a 64-bit number and
  thirty-nine a 128-bit one, both proved. The loops of the code that end only because the network, the
  disk or another thread does are recursions over the list of its answers, so each theorem holds for
  every such list. The activation record keeps 64 events, as the code's constant says. Loops of bounded
  structure are structural recursion; no definition is cut short by fuel of its own.

  Witnesses. Each theorem with hypotheses is applied to concrete data in its theory's witness; the
  libraries are instantiated there by small executable ones (keys are
  numbers), which satisfy what is assumed of the real ones.

  Not modelled. The C ABI of the bridge is a layer of raw pointers over the modelled player and worker,
  and the launcher sets up a display. The check of a served channel (\<open>verify.rs\<close>), the download of a
  branch (\<open>pull.rs\<close>) and the command line over both drive the third-party TUF client and are input and
  output. \<open>Display\<close> and \<open>Error\<close> implementations only render. Directories exist as far as a file lies in
  them; symbolic links, permissions and names of temporary files are answers of the environment.
  Floating-point samples are an ordered type with the operations the code applies, and the ratios shown
  as progress stop at the two counts they divide. Tests and examples are not part of the program.
\<close>

end
